(* ===== verification/Sponge_Prelude.thy ===== *)
theory Sponge_Prelude
  imports Main "HOL-Library.Word"
begin

text \<open>
  Shared vocabulary of the development.

  \<^item> The machine types of the C++ sources.  \<open>uint8_t\<close>, \<open>uint16_t\<close>, \<open>uint32_t\<close> and
    \<open>unsigned int\<close> are words.  \<open>size_t\<close> and \<open>uint64_t\<close> are natural numbers below
    \<open>2 ^ 64\<close>, because they measure lists; every addition and subtraction the code performs on
    them is written with \<open>sz_add\<close> and \<open>sz_sub\<close>, which wrap around as the hardware does.
  \<^item> C++ failures as values: a thrown exception or undefined behaviour is an \<open>Inl\<close>.
  \<^item> \<open>std::string::substr\<close> and the operations of \<open>std::map\<close> (an association list kept in key
    order) that the sources use, with the contract of \<open>std::map\<close> as a locale.
  \<^item> Runs of a component over a list of operations, and the locale of components that keep an
    invariant and never fail.
\<close>

section \<open>Machine types\<close>

type_synonym byte = "8 word"
type_synonym u8 = "8 word"
type_synonym u16 = "16 word"
type_synonym u32 = "32 word"
type_synonym size_t = nat
type_synonym u64 = nat

named_theorems sz_simps \<open>64-bit arithmetic that does not wrap\<close>

abbreviation size_mod :: nat where
  "size_mod \<equiv> 18446744073709551616"

abbreviation size_max :: nat where
  "size_max \<equiv> 18446744073709551615"

lemma size_mod_power: "size_mod = 2 ^ 64"
  by simp

definition sz_add :: "size_t \<Rightarrow> size_t \<Rightarrow> size_t" where
  "sz_add a b = (a + b) mod size_mod"

definition sz_sub :: "size_t \<Rightarrow> size_t \<Rightarrow> size_t" where
  "sz_sub a b = (a + (size_mod - b mod size_mod)) mod size_mod"

lemma sz_add_less [simp]: "sz_add a b < size_mod"
  by (simp add: sz_add_def)

lemma sz_sub_less [simp]: "sz_sub a b < size_mod"
  by (simp add: sz_sub_def)

lemma sz_add_small [sz_simps]: "a + b < size_mod \<Longrightarrow> sz_add a b = a + b"
  by (simp add: sz_add_def)

lemma sz_sub_small [sz_simps]:
  assumes "b \<le> a" and "a < size_mod"
  shows "sz_sub a b = a - b"
proof -
  have "a + (size_mod - b) = (a - b) + size_mod" using assms by simp
  then have "(a + (size_mod - b)) mod size_mod = (a - b) mod size_mod" by simp
  with assms show ?thesis by (simp add: sz_sub_def)
qed

lemma sz_sub_wrap: "a < b \<Longrightarrow> b < size_mod \<Longrightarrow> sz_sub a b = size_mod - (b - a)"
  by (simp add: sz_sub_def)

lemma sz_sub_wraps:
  assumes "a < b" and "b < size_mod"
  shows "sz_sub a b = size_mod - (b - a)"
  using assms by (simp add: sz_sub_def)

lemma sz_add_0 [simp]: "a < size_mod \<Longrightarrow> sz_add a 0 = a" "a < size_mod \<Longrightarrow> sz_add 0 a = a"
  by (simp_all add: sz_add_def)

lemma sz_add_assoc: "sz_add (sz_add a b) c = sz_add a (sz_add b c)"
  by (simp add: sz_add_def mod_simps add.assoc)

lemma sz_add_mod_left [simp]: "sz_add (a mod size_mod) b = sz_add a b"
  by (simp add: sz_add_def mod_simps)

lemma sz_add_plus: "sz_add (sz_add a b) c = sz_add a (b + c)"
  by (simp add: sz_add_def mod_simps add.assoc)

section \<open>Failures as values\<close>

datatype cpp_error =
    OutOfRange string
  | InvalidArgument string
  | LengthError string
  | RuntimeError string
  | UndefinedBehaviour string

type_synonym 'a result = "cpp_error + 'a"

definition bindE :: "'e + 'a \<Rightarrow> ('a \<Rightarrow> 'e + 'b) \<Rightarrow> 'e + 'b" where
  "bindE x f = (case x of Inl e \<Rightarrow> Inl e | Inr a \<Rightarrow> f a)"

lemma bindE_simps [simp]:
  "bindE (Inl e) f = Inl e"
  "bindE (Inr a) f = f a"
  by (simp_all add: bindE_def)

lemma bindE_eq_Inr_iff: "bindE x f = Inr b \<longleftrightarrow> (\<exists>a. x = Inr a \<and> f a = Inr b)"
  by (cases x) simp_all

lemma bindE_eq_Inl_iff: "bindE x f = Inl e \<longleftrightarrow> x = Inl e \<or> (\<exists>a. x = Inr a \<and> f a = Inl e)"
  by (cases x) auto

lemma bindE_InrE [elim!]:
  assumes "bindE x f = Inr b"
  obtains a where "x = Inr a" and "f a = Inr b"
  using assms by (auto simp: bindE_eq_Inr_iff)

lemma bindE_cong [fundef_cong]:
  assumes "x = y" and "\<And>a. y = Inr a \<Longrightarrow> f a = g a"
  shows "bindE x f = bindE y g"
  using assms by (cases y) simp_all

section \<open>std::string::substr\<close>

definition substr :: "byte list \<Rightarrow> size_t \<Rightarrow> size_t \<Rightarrow> byte list result" where
  "substr s pos n =
     (if length s < pos then Inl (OutOfRange ''basic_string::substr'')
      else Inr (take n (drop pos s)))"

lemma substr_in_range [simp]: "pos \<le> length s \<Longrightarrow> substr s pos n = Inr (take n (drop pos s))"
  by (simp add: substr_def)

section \<open>std::map\<close>

text \<open>
  A \<open>std::map\<close> is iterated in key order, so it is modelled by its nodes in that order.
  \<open>std_insert\<close> is \<open>std::map::insert\<close> and \<open>std::map::emplace\<close>: it leaves the map alone when the key
  is present.  \<open>std_assign\<close> writes through the iterator of a present key.
\<close>

type_synonym ('k, 'v) std_map = "('k \<times> 'v) list"

fun std_insert :: "'k::linorder \<Rightarrow> 'v \<Rightarrow> ('k, 'v) std_map \<Rightarrow> ('k, 'v) std_map" where
  "std_insert k v [] = [(k, v)]"
| "std_insert k v ((k', v') # m) =
     (if k < k' then (k, v) # (k', v') # m
      else if k = k' then (k', v') # m
      else (k', v') # std_insert k v m)"

definition std_erase :: "'k \<Rightarrow> ('k, 'v) std_map \<Rightarrow> ('k, 'v) std_map" where
  "std_erase k m = filter (\<lambda>e. fst e \<noteq> k) m"

definition std_assign :: "'k \<Rightarrow> 'v \<Rightarrow> ('k, 'v) std_map \<Rightarrow> ('k, 'v) std_map" where
  "std_assign k v m = map (\<lambda>e. if fst e = k then (k, v) else e) m"

definition std_find :: "'k \<Rightarrow> ('k, 'v) std_map \<Rightarrow> 'v option" where
  "std_find k m = map_of m k"

definition std_sorted :: "('k::linorder, 'v) std_map \<Rightarrow> bool" where
  "std_sorted m \<longleftrightarrow> sorted_wrt (<) (map fst m)"

lemma std_find_Nil [simp]: "std_find k [] = None"
  by (simp add: std_find_def)

lemma std_sorted_Nil [simp]: "std_sorted []"
  by (simp add: std_sorted_def)

lemma std_insert_keys: "fst ` set (std_insert k v m) = insert k (fst ` set m)"
  by (induction k v m rule: std_insert.induct) (simp_all add: insert_commute)

lemma std_insert_sorted: "std_sorted m \<Longrightarrow> std_sorted (std_insert k v m)"
proof (induction k v m rule: std_insert.induct)
  case (2 k v k' v' m)
  have "\<forall>y \<in> fst ` set (std_insert k v m). k' < y" if "k' < k"
    using that 2(2) by (simp add: std_insert_keys std_sorted_def)
  with 2 show ?case by (force simp: std_sorted_def)
qed (simp add: std_sorted_def)

lemma std_erase_sorted: "std_sorted m \<Longrightarrow> std_sorted (std_erase k m)"
  unfolding std_sorted_def std_erase_def
  by (induction m) auto

lemma std_assign_sorted: "std_sorted m \<Longrightarrow> std_sorted (std_assign k v m)"
proof -
  have "map fst (std_assign k v m) = map fst m"
    by (induction m) (auto simp: std_assign_def)
  then show "std_sorted m \<Longrightarrow> std_sorted (std_assign k v m)"
    by (simp add: std_sorted_def)
qed

lemma std_find_insert:
  "std_sorted m \<Longrightarrow>
   std_find k' (std_insert k v m) =
     (if k' = k \<and> std_find k m = None then Some v else std_find k' m)"
proof (induction k v m rule: std_insert.induct)
  case (2 k v k'' v' m)
  have "map_of m k = None" if "k < k''"
    using that 2(2) by (force simp: std_sorted_def map_of_eq_None_iff)
  with 2 show ?case by (auto simp: std_sorted_def std_find_def)
qed (simp add: std_find_def)

lemma std_find_erase: "std_find k' (std_erase k m) = (if k' = k then None else std_find k' m)"
  by (induction m) (auto simp: std_find_def std_erase_def)

lemma std_find_assign:
  "std_find k' (std_assign k v m) =
     (if k' = k \<and> std_find k m \<noteq> None then Some v else std_find k' m)"
  by (induction m) (auto simp: std_find_def std_assign_def)

lemma std_find_SomeD: "std_find k m = Some v \<Longrightarrow> (k, v) \<in> set m"
  by (simp add: std_find_def map_of_SomeD)

lemma std_find_NoneD: "std_find k m = None \<Longrightarrow> (k, v) \<notin> set m"
  by (auto simp: std_find_def map_of_eq_None_iff image_iff)

lemma std_sorted_distinct: "std_sorted m \<Longrightarrow> distinct (map fst m)"
  by (simp add: std_sorted_def strict_sorted_iff)

lemma std_find_in_set: "std_sorted m \<Longrightarrow> (k, v) \<in> set m \<Longrightarrow> std_find k m = Some v"
  by (simp add: std_find_def std_sorted_distinct)

lemma length_std_insert_le: "length (std_insert k v m) \<le> Suc (length m)"
  by (induction m) auto

lemma length_std_erase_less: "std_find k m \<noteq> None \<Longrightarrow> length (std_erase k m) < length m"
  by (auto simp: std_erase_def std_find_def map_of_eq_None_iff intro!: length_filter_less)

text \<open>
  The contract of \<open>std::map\<close> on which its clients rest.  \<open>put\<close> is the idiom of the sources
  "assign if the key is found, emplace otherwise".
\<close>

locale std_map_spec =
  fixes empty :: "'m"
    and find :: "'k \<Rightarrow> 'm \<Rightarrow> 'v option"
    and ins :: "'k \<Rightarrow> 'v \<Rightarrow> 'm \<Rightarrow> 'm"
    and assign :: "'k \<Rightarrow> 'v \<Rightarrow> 'm \<Rightarrow> 'm"
    and erase :: "'k \<Rightarrow> 'm \<Rightarrow> 'm"
    and invar :: "'m \<Rightarrow> bool"
  assumes invar_empty: "invar empty"
    and invar_ins: "invar m \<Longrightarrow> invar (ins k v m)"
    and invar_assign: "invar m \<Longrightarrow> invar (assign k v m)"
    and invar_erase: "invar m \<Longrightarrow> invar (erase k m)"
    and find_empty: "find k empty = None"
    and find_ins: "invar m \<Longrightarrow>
      find k' (ins k v m) = (if k' = k \<and> find k m = None then Some v else find k' m)"
    and find_assign: "invar m \<Longrightarrow>
      find k' (assign k v m) = (if k' = k \<and> find k m \<noteq> None then Some v else find k' m)"
    and find_erase: "invar m \<Longrightarrow> find k' (erase k m) = (if k' = k then None else find k' m)"
begin

lemma find_put:
  assumes "invar m"
  shows "find k' (if find k m \<noteq> None then assign k v m else ins k v m) =
           (if k' = k then Some v else find k' m)"
  using assms by (auto simp: find_ins find_assign)

lemma invar_put: "invar m \<Longrightarrow> invar (if find k m \<noteq> None then assign k v m else ins k v m)"
  by (simp add: invar_ins invar_assign)

end

interpretation alist: std_map_spec "[]" std_find std_insert std_assign std_erase std_sorted
  by unfold_locales
    (simp_all add: std_insert_sorted std_assign_sorted std_erase_sorted std_find_insert
      std_find_assign std_find_erase)

section \<open>Runs and invariants\<close>

text \<open>
  A component is driven by a list of operations; the first failure stops the run.  \<open>ok s l\<close> is the
  precondition under which operation \<open>l\<close> may be called in state \<open>s\<close>.
\<close>

fun runE :: "('s \<Rightarrow> 'l \<Rightarrow> 'e + 's) \<Rightarrow> 's \<Rightarrow> 'l list \<Rightarrow> 'e + 's" where
  "runE step s [] = Inr s"
| "runE step s (l # ls) = bindE (step s l) (\<lambda>s'. runE step s' ls)"

fun run_ok :: "('s \<Rightarrow> 'l \<Rightarrow> bool) \<Rightarrow> ('s \<Rightarrow> 'l \<Rightarrow> 'e + 's) \<Rightarrow> 's \<Rightarrow> 'l list \<Rightarrow> bool" where
  "run_ok ok step s [] = True"
| "run_ok ok step s (l # ls) =
     (ok s l \<and> (case step s l of Inl e \<Rightarrow> True | Inr s' \<Rightarrow> run_ok ok step s' ls))"

lemma runE_append: "runE step s (xs @ ys) = bindE (runE step s xs) (\<lambda>s'. runE step s' ys)"
proof (induction xs arbitrary: s)
  case (Cons x xs)
  then show ?case by (cases "step s x") simp_all
qed simp

locale safe_machine =
  fixes step :: "'s \<Rightarrow> 'l \<Rightarrow> 'e + 's"
    and ok :: "'s \<Rightarrow> 'l \<Rightarrow> bool"
    and inv :: "'s \<Rightarrow> bool"
  assumes step_safe: "inv s \<Longrightarrow> ok s l \<Longrightarrow> \<exists>s'. step s l = Inr s' \<and> inv s'"
begin

lemma run_safe: "inv s \<Longrightarrow> run_ok ok step s ls \<Longrightarrow> \<exists>s'. runE step s ls = Inr s' \<and> inv s'"
proof (induction ls arbitrary: s)
  case Nil
  then show ?case by simp
next
  case (Cons l ls)
  from Cons.prems step_safe [of s l] obtain s' where "step s l = Inr s'" and "inv s'"
    by auto
  with Cons.prems Cons.IH [of s'] show ?case by simp
qed

end

end
