(* ===== verification/Byte_Stream.thy ===== *)
theory Byte_Stream
  imports Sponge_Prelude
begin

text \<open>
  The in-order byte stream, \<open>libsponge/byte_stream.hh\<close> and \<open>byte_stream.cc\<close>: a bounded FIFO of
  bytes with a writer's side (\<open>write\<close>, \<open>end_input\<close>, \<open>set_error\<close>) and a reader's side
  (\<open>peek_output\<close>, \<open>pop_output\<close>, \<open>read\<close>).  The theory holds the class as a record, one definition per
  method, the representation invariant \<open>bs_wf\<close>, the contract \<open>byte_fifo\<close> that the reassembler and
  the sender rely on, and the FIFO theorem over whole runs of operations.
\<close>

section \<open>The class\<close>

record byte_stream =
  bs_buf :: "byte list"
  bs_capacity :: size_t
  bs_bytes_written :: size_t
  bs_bytes_read :: size_t
  bs_input_ended :: bool
  bs_error :: bool

definition ByteStream_new :: "size_t \<Rightarrow> byte_stream" where
  "ByteStream_new capacity =
     \<lparr>bs_buf = [], bs_capacity = capacity, bs_bytes_written = 0, bs_bytes_read = 0,
      bs_input_ended = False, bs_error = False\<rparr>"

definition ByteStream_buffer_size :: "byte_stream \<Rightarrow> size_t" where
  "ByteStream_buffer_size s = length (bs_buf s)"

definition ByteStream_buffer_empty :: "byte_stream \<Rightarrow> bool" where
  "ByteStream_buffer_empty s \<longleftrightarrow> bs_buf s = []"

definition ByteStream_remaining_capacity :: "byte_stream \<Rightarrow> size_t" where
  "ByteStream_remaining_capacity s = sz_sub (bs_capacity s) (length (bs_buf s))"

definition ByteStream_write :: "byte_stream \<Rightarrow> byte list \<Rightarrow> size_t \<times> byte_stream" where
  "ByteStream_write s data =
     (if bs_input_ended s then (0, s)
      else let write_len = min (length data) (ByteStream_remaining_capacity s)
           in (write_len,
               s\<lparr>bs_buf := bs_buf s @ take write_len data,
                 bs_bytes_written := sz_add (bs_bytes_written s) write_len\<rparr>))"

definition ByteStream_peek_output :: "byte_stream \<Rightarrow> size_t \<Rightarrow> byte list" where
  "ByteStream_peek_output s len =
     (let peeked_len = min len (length (bs_buf s)) in take peeked_len (bs_buf s))"

definition ByteStream_pop_output :: "byte_stream \<Rightarrow> size_t \<Rightarrow> byte_stream" where
  "ByteStream_pop_output s len =
     (let popped_len = min len (length (bs_buf s))
      in s\<lparr>bs_buf := drop popped_len (bs_buf s),
           bs_bytes_read := sz_add (bs_bytes_read s) popped_len\<rparr>)"

definition ByteStream_read :: "byte_stream \<Rightarrow> size_t \<Rightarrow> byte list \<times> byte_stream" where
  "ByteStream_read s len =
     (if len = 0 then ([], s)
      else let res = ByteStream_peek_output s len
           in (res, ByteStream_pop_output s (length res)))"

definition ByteStream_end_input :: "byte_stream \<Rightarrow> byte_stream" where
  "ByteStream_end_input s = s\<lparr>bs_input_ended := True\<rparr>"

definition ByteStream_set_error :: "byte_stream \<Rightarrow> byte_stream" where
  "ByteStream_set_error s = s\<lparr>bs_error := True\<rparr>"

definition ByteStream_eof :: "byte_stream \<Rightarrow> bool" where
  "ByteStream_eof s \<longleftrightarrow> bs_input_ended s \<and> ByteStream_buffer_empty s"

section \<open>Representation invariant\<close>

definition bs_wf :: "byte_stream \<Rightarrow> bool" where
  "bs_wf s \<longleftrightarrow>
     bs_capacity s < size_mod \<and> length (bs_buf s) \<le> bs_capacity s \<and>
     bs_bytes_read s < size_mod \<and>
     bs_bytes_written s = sz_add (bs_bytes_read s) (length (bs_buf s))"

lemma bs_wf_new [simp]: "cap < size_mod \<Longrightarrow> bs_wf (ByteStream_new cap)"
  by (simp add: bs_wf_def ByteStream_new_def)

lemma remaining_capacity_wf:
  "bs_wf s \<Longrightarrow> ByteStream_remaining_capacity s = bs_capacity s - length (bs_buf s)"
  by (simp add: bs_wf_def ByteStream_remaining_capacity_def sz_sub_small)

lemma write_count:
  "bs_wf s \<Longrightarrow>
   fst (ByteStream_write s d) =
     (if bs_input_ended s then 0 else min (length d) (bs_capacity s - length (bs_buf s)))"
  by (simp add: ByteStream_write_def remaining_capacity_wf Let_def)

lemma write_buf: "bs_buf (snd (ByteStream_write s d)) = bs_buf s @ take (fst (ByteStream_write s d)) d"
  by (simp add: ByteStream_write_def Let_def)

lemma write_written:
  "bs_wf s \<Longrightarrow>
   bs_bytes_written (snd (ByteStream_write s d)) =
     sz_add (bs_bytes_written s) (fst (ByteStream_write s d))"
  by (auto simp: ByteStream_write_def Let_def bs_wf_def)

lemma write_frame [simp]:
  "bs_capacity (snd (ByteStream_write s d)) = bs_capacity s"
  "bs_bytes_read (snd (ByteStream_write s d)) = bs_bytes_read s"
  "bs_input_ended (snd (ByteStream_write s d)) = bs_input_ended s"
  "bs_error (snd (ByteStream_write s d)) = bs_error s"
  by (simp_all add: ByteStream_write_def Let_def)

lemma bs_wf_write: "bs_wf s \<Longrightarrow> bs_wf (snd (ByteStream_write s d))"
  unfolding bs_wf_def
  by (auto simp: ByteStream_write_def ByteStream_remaining_capacity_def Let_def sz_sub_small
      sz_add_plus min_def)

lemma pop_buf [simp]: "bs_buf (ByteStream_pop_output s n) = drop n (bs_buf s)"
  by (simp add: ByteStream_pop_output_def Let_def min_def)

lemma pop_frame [simp]:
  "bs_capacity (ByteStream_pop_output s n) = bs_capacity s"
  "bs_bytes_written (ByteStream_pop_output s n) = bs_bytes_written s"
  "bs_input_ended (ByteStream_pop_output s n) = bs_input_ended s"
  "bs_error (ByteStream_pop_output s n) = bs_error s"
  by (simp_all add: ByteStream_pop_output_def Let_def)

lemma pop_read: "bs_bytes_read (ByteStream_pop_output s n) =
    sz_add (bs_bytes_read s) (min n (length (bs_buf s)))"
  by (simp add: ByteStream_pop_output_def Let_def)

lemma bs_wf_pop: "bs_wf s \<Longrightarrow> bs_wf (ByteStream_pop_output s n)"
  unfolding bs_wf_def by (auto simp: pop_read sz_add_plus min_def)

lemma peek_eq: "ByteStream_peek_output s n = take n (bs_buf s)"
  by (simp add: ByteStream_peek_output_def Let_def min_def)

lemma read_eq: "ByteStream_read s n =
    (take n (bs_buf s), if n = 0 then s else ByteStream_pop_output s (min n (length (bs_buf s))))"
  by (simp add: ByteStream_read_def peek_eq Let_def min.commute)

lemma end_frame [simp]:
  "bs_buf (ByteStream_end_input s) = bs_buf s"
  "bs_capacity (ByteStream_end_input s) = bs_capacity s"
  "bs_bytes_written (ByteStream_end_input s) = bs_bytes_written s"
  "bs_bytes_read (ByteStream_end_input s) = bs_bytes_read s"
  "bs_error (ByteStream_end_input s) = bs_error s"
  "bs_input_ended (ByteStream_end_input s)"
  by (simp_all add: ByteStream_end_input_def)

lemma error_frame [simp]:
  "bs_buf (ByteStream_set_error s) = bs_buf s"
  "bs_capacity (ByteStream_set_error s) = bs_capacity s"
  "bs_bytes_written (ByteStream_set_error s) = bs_bytes_written s"
  "bs_bytes_read (ByteStream_set_error s) = bs_bytes_read s"
  "bs_input_ended (ByteStream_set_error s) = bs_input_ended s"
  "bs_error (ByteStream_set_error s)"
  by (simp_all add: ByteStream_set_error_def)

lemma bs_wf_end [simp]: "bs_wf (ByteStream_end_input s) = bs_wf s"
  by (simp add: bs_wf_def)

lemma bs_wf_error [simp]: "bs_wf (ByteStream_set_error s) = bs_wf s"
  by (simp add: bs_wf_def)

section \<open>The contract of the stream\<close>

text \<open>
  What the clients of a \<open>ByteStream\<close> (the reassembler on the writer's side, the sender and the socket
  on the reader's side) rely on: a bounded queue that accepts the longest prefix that fits and
  gives the bytes back in order.
\<close>

locale byte_fifo =
  fixes wf :: "'s \<Rightarrow> bool"
    and contents :: "'s \<Rightarrow> byte list"
    and room :: "'s \<Rightarrow> nat"
    and closed :: "'s \<Rightarrow> bool"
    and wr :: "'s \<Rightarrow> byte list \<Rightarrow> nat \<times> 's"
    and rd :: "'s \<Rightarrow> nat \<Rightarrow> byte list \<times> 's"
  assumes wr_wf: "wf s \<Longrightarrow> wf (snd (wr s d))"
    and wr_count: "wf s \<Longrightarrow> fst (wr s d) = (if closed s then 0 else min (length d) (room s))"
    and wr_contents: "wf s \<Longrightarrow> contents (snd (wr s d)) = contents s @ take (fst (wr s d)) d"
    and wr_room: "wf s \<Longrightarrow> room (snd (wr s d)) = room s - fst (wr s d)"
    and wr_closed: "wf s \<Longrightarrow> closed (snd (wr s d)) = closed s"
    and rd_wf: "wf s \<Longrightarrow> wf (snd (rd s n))"
    and rd_data: "wf s \<Longrightarrow> fst (rd s n) = take n (contents s)"
    and rd_contents: "wf s \<Longrightarrow> contents (snd (rd s n)) = drop n (contents s)"
    and rd_room: "wf s \<Longrightarrow> room (snd (rd s n)) = room s + length (fst (rd s n))"
begin

lemma wr_fits:
  assumes "wf s" and "\<not> closed s" and "length d \<le> room s"
  shows "fst (wr s d) = length d" and "contents (snd (wr s d)) = contents s @ d"
  using assms by (simp_all add: wr_count wr_contents)

lemma wr_prefix_law:
  assumes "wf s"
  shows "contents (snd (wr (snd (wr s a)) b)) = contents (snd (wr s (a @ b))) \<or>
         fst (wr s a) < length a \<and> contents (snd (wr (snd (wr s a)) b)) = contents (snd (wr s a))"
  using assms
  by (auto simp: wr_wf wr_count wr_contents wr_room wr_closed min_def not_le)

lemma wr_then_rd:
  assumes "wf s" and "\<not> closed s" and "length d \<le> room s" and "contents s = []"
  shows "fst (rd (snd (wr s d)) (length d)) = d"
    and "contents (snd (rd (snd (wr s d)) (length d))) = []"
  using assms by (simp_all add: wr_wf rd_data rd_contents wr_fits)

lemma rd_split:
  assumes "wf s"
  shows "fst (rd s m) @ fst (rd (snd (rd s m)) n) = fst (rd s (m + n))"
  using assms by (simp add: rd_data rd_contents rd_wf take_add)

end

interpretation bs: byte_fifo bs_wf bs_buf "\<lambda>s. bs_capacity s - length (bs_buf s)" bs_input_ended
    ByteStream_write ByteStream_read
proof unfold_locales
  fix s :: byte_stream and d :: "byte list" and n :: nat
  assume wf: "bs_wf s"
  show "bs_wf (snd (ByteStream_write s d))" using wf by (rule bs_wf_write)
  show "fst (ByteStream_write s d) =
      (if bs_input_ended s then 0 else min (length d) (bs_capacity s - length (bs_buf s)))"
    using wf by (rule write_count)
  show "bs_buf (snd (ByteStream_write s d)) = bs_buf s @ take (fst (ByteStream_write s d)) d"
    by (rule write_buf)
  show "bs_capacity (snd (ByteStream_write s d)) - length (bs_buf (snd (ByteStream_write s d))) =
      bs_capacity s - length (bs_buf s) - fst (ByteStream_write s d)"
    using wf by (simp add: write_buf write_count)
  show "bs_wf (snd (ByteStream_read s n))" using wf by (simp add: read_eq bs_wf_pop)
  show "fst (ByteStream_read s n) = take n (bs_buf s)" by (simp add: read_eq)
  show "bs_buf (snd (ByteStream_read s n)) = drop n (bs_buf s)" by (simp add: read_eq min_def)
  show "bs_capacity (snd (ByteStream_read s n)) - length (bs_buf (snd (ByteStream_read s n))) =
      bs_capacity s - length (bs_buf s) + length (fst (ByteStream_read s n))"
    using wf by (auto simp: read_eq bs_wf_def min_def)
qed simp

section \<open>Runs\<close>

datatype bs_op = Write "byte list" | Read size_t | Pop size_t | End_input | Set_error

fun ByteStream_step :: "byte_stream \<Rightarrow> bs_op \<Rightarrow> byte_stream" where
  "ByteStream_step s (Write d) = snd (ByteStream_write s d)"
| "ByteStream_step s (Read n) = snd (ByteStream_read s n)"
| "ByteStream_step s (Pop n) = ByteStream_pop_output s n"
| "ByteStream_step s End_input = ByteStream_end_input s"
| "ByteStream_step s Set_error = ByteStream_set_error s"

text \<open>The bytes an operation takes in, and the bytes it takes out.\<close>

fun bs_accepted :: "byte_stream \<Rightarrow> bs_op \<Rightarrow> byte list" where
  "bs_accepted s (Write d) = take (fst (ByteStream_write s d)) d"
| "bs_accepted s _ = []"

fun bs_delivered :: "byte_stream \<Rightarrow> bs_op \<Rightarrow> byte list" where
  "bs_delivered s (Read n) = fst (ByteStream_read s n)"
| "bs_delivered s (Pop n) = ByteStream_peek_output s n"
| "bs_delivered s _ = []"

fun ByteStream_run :: "byte_stream \<Rightarrow> bs_op list \<Rightarrow> byte list \<times> byte list \<times> byte_stream" where
  "ByteStream_run s [] = ([], [], s)"
| "ByteStream_run s (x # xs) =
     (case ByteStream_run (ByteStream_step s x) xs of
        (acc, del, s') \<Rightarrow> (bs_accepted s x @ acc, bs_delivered s x @ del, s'))"

lemma step_wf: "bs_wf s \<Longrightarrow> bs_wf (ByteStream_step s x)"
  by (cases x) (simp_all add: bs.wr_wf bs.rd_wf bs_wf_pop)

lemma step_fifo:
  "bs_wf s \<Longrightarrow> bs_delivered s x @ bs_buf (ByteStream_step s x) = bs_buf s @ bs_accepted s x"
  by (cases x) (simp_all add: bs.wr_contents bs.rd_data bs.rd_contents peek_eq)

lemma step_capacity [simp]: "bs_capacity (ByteStream_step s x) = bs_capacity s"
  by (cases x) (simp_all add: read_eq)

lemma step_counts:
  assumes "bs_wf s"
  shows "bs_bytes_written (ByteStream_step s x) =
           sz_add (bs_bytes_written s) (length (bs_accepted s x))"
    and "bs_bytes_read (ByteStream_step s x) =
           sz_add (bs_bytes_read s) (length (bs_delivered s x))"
  using assms
  by (cases x; auto simp: write_written write_count read_eq peek_eq pop_read min_def bs_wf_def)+

lemma step_ended: "bs_input_ended s \<Longrightarrow> bs_input_ended (ByteStream_step s x) \<and> bs_accepted s x = []"
  by (cases x) (simp_all add: read_eq ByteStream_write_def)

lemma run_fifo:
  assumes "bs_wf s" and "ByteStream_run s xs = (acc, del, s')"
  shows "bs_wf s' \<and> bs_capacity s' = bs_capacity s \<and> del @ bs_buf s' = bs_buf s @ acc \<and>
     bs_bytes_written s' = sz_add (bs_bytes_written s) (length acc) \<and>
     bs_bytes_read s' = sz_add (bs_bytes_read s) (length del)"
  using assms
proof (induction xs arbitrary: s acc del)
  case Nil
  then show ?case by (auto simp: bs_wf_def)
next
  case (Cons x xs)
  obtain acc1 del1 where run: "ByteStream_run (ByteStream_step s x) xs = (acc1, del1, s')"
    and eqs: "acc = bs_accepted s x @ acc1" "del = bs_delivered s x @ del1"
    using Cons.prems(2) by (auto split: prod.splits)
  note IH = Cons.IH [OF step_wf [OF Cons.prems(1)] run]
  with eqs step_fifo [OF Cons.prems(1), of x] step_counts [OF Cons.prems(1), of x]
  show ?case by (simp add: sz_add_plus)
qed

text \<open>
  C26. Whatever sequence of writes, reads, pops, \<open>end_input\<close> and \<open>set_error\<close> a stream of
  capacity \<open>cap\<close> goes through, the bytes handed to the reader followed by the bytes still buffered
  are exactly the bytes the writer's calls accepted, in order; the buffer never exceeds the capacity
  and both counters agree with what was accepted and delivered (modulo \<open>2^64\<close>).
\<close>

theorem ByteStream_fifo:
  assumes "cap < size_mod"
    and "ByteStream_run (ByteStream_new cap) xs = (acc, del, s)"
  shows "del @ bs_buf s = acc \<and> length (bs_buf s) \<le> cap \<and>
     bs_bytes_written s = length acc mod size_mod \<and> bs_bytes_read s = length del mod size_mod"
proof -
  note run = run_fifo [OF bs_wf_new [OF assms(1)] assms(2)]
  from run show ?thesis by (auto simp: ByteStream_new_def bs_wf_def sz_add_def)
qed

theorem ByteStream_fifo_witness:
  "\<exists>s. ByteStream_run (ByteStream_new 3) [Write [1, 2, 3, 4], Read 2, End_input, Write [5]] = ([1, 2, 3], [1, 2], s) \<and>
     [1, 2] @ bs_buf s = [1, 2, 3] \<and> length (bs_buf s) \<le> 3 \<and> bs_bytes_written s = 3 \<and> bs_bytes_read s = 2"
proof -
  obtain s where run: "ByteStream_run (ByteStream_new 3) [Write [1, 2, 3, 4], Read 2, End_input, Write [5]] = ([1, 2, 3], [1, 2], s)"
    by (simp add: ByteStream_new_def ByteStream_write_def ByteStream_remaining_capacity_def
        ByteStream_read_def ByteStream_peek_output_def ByteStream_pop_output_def
        ByteStream_end_input_def sz_add_def sz_sub_def Let_def)
  from ByteStream_fifo [OF _ this] run show ?thesis by (intro exI [of _ s]) simp
qed

end
