(* ===== verification/Stream_Reassembler.thy ===== *)
theory Stream_Reassembler
  imports Byte_Stream
begin

text \<open>
  The stream reassembler, \<open>libsponge/stream_reassembler.hh\<close> and \<open>stream_reassembler.cc\<close>.

  The class keeps the assembled \<open>ByteStream\<close>, the map \<open>_wait_map\<close> from the index of the first byte
  to the waiting substring, and the two indices \<open>_wait_index\<close> and \<open>_eof_index\<close>.  Every method is a
  definition below.  Two failures of the C++ are kept as values: \<open>std::string::substr\<close> throws when
  the position is out of range, and \<open>update_waitmap\<close> walks the map with an iterator while
  \<open>checked_insert\<close> may erase nodes of it, so the iterator is modelled by the key of its node and
  using it after the node is gone is undefined behaviour.
\<close>

section \<open>The class\<close>

record stream_reassembler =
  sr_output :: byte_stream
  sr_wait_map :: "(size_t, byte list) std_map"
  sr_capacity :: size_t
  sr_wait_index :: size_t
  sr_eof_index :: size_t

definition StreamReassembler_new :: "size_t \<Rightarrow> stream_reassembler" where
  "StreamReassembler_new capacity =
     \<lparr>sr_output = ByteStream_new capacity, sr_wait_map = [], sr_capacity = capacity,
      sr_wait_index = 0, sr_eof_index = size_max\<rparr>"

definition StreamReassembler_unassembled_bytes :: "stream_reassembler \<Rightarrow> size_t" where
  "StreamReassembler_unassembled_bytes r =
     foldl (\<lambda>count p. sz_add count (length (snd p))) 0 (sr_wait_map r)"

definition StreamReassembler_empty :: "stream_reassembler \<Rightarrow> bool" where
  "StreamReassembler_empty r \<longleftrightarrow> sr_wait_map r = []"

definition StreamReassembler_truncate_data ::
  "stream_reassembler \<Rightarrow> byte list \<Rightarrow> u64 \<Rightarrow> byte list" where
  "StreamReassembler_truncate_data r data index =
     (let out = sr_output r;
          trunc_size = min (length data)
            (sz_sub (sz_add (sr_capacity r) (bs_bytes_read out)) index);
          trunc_size = min trunc_size
            (sz_sub (sz_sub (sr_capacity r) (ByteStream_buffer_size out))
              (StreamReassembler_unassembled_bytes r))
      in take trunc_size data)"

text \<open>
  The loop of \<open>checked_insert\<close> over the nodes of the map: the nodes that stay, and the final values
  of \<open>index\<close> and \<open>ins_data\<close>.
\<close>

fun checked_insert_loop ::
  "size_t \<Rightarrow> size_t \<Rightarrow> (size_t, byte list) std_map \<Rightarrow> u64 \<Rightarrow> byte list
   \<Rightarrow> ((size_t, byte list) std_map \<times> u64 \<times> byte list) result" where
  "checked_insert_loop ins_start ins_end [] index ins_data = Inr ([], index, ins_data)"
| "checked_insert_loop ins_start ins_end ((elem_start, elem_data) # rest) index ins_data =
     (let elem_end = sz_sub (sz_add elem_start (length elem_data)) 1;
          keep = (\<lambda>res. bindE res (\<lambda>(m, i, d). Inr ((elem_start, elem_data) # m, i, d)))
      in if ins_start \<le> elem_end \<and> elem_start \<le> ins_end then
           if ins_start \<le> elem_start \<and> elem_end \<le> ins_end then
             checked_insert_loop ins_start ins_end rest index ins_data
           else if elem_start \<le> ins_start \<and> ins_end \<le> elem_end then
             keep (checked_insert_loop ins_start ins_end rest index [])
           else if ins_start \<le> elem_start then
             bindE (substr elem_data (sz_sub (sz_add ins_end 1) elem_start)
                      (sz_sub elem_end ins_end))
               (\<lambda>tail. checked_insert_loop ins_start ins_end rest index (ins_data @ tail))
           else
             bindE (substr elem_data 0 (sz_sub ins_start elem_start))
               (\<lambda>front. checked_insert_loop ins_start ins_end rest elem_start (front @ ins_data))
         else keep (checked_insert_loop ins_start ins_end rest index ins_data))"

definition StreamReassembler_checked_insert ::
  "stream_reassembler \<Rightarrow> byte list \<Rightarrow> u64 \<Rightarrow> stream_reassembler result" where
  "StreamReassembler_checked_insert r data index =
     bindE (checked_insert_loop index (sz_sub (sz_add index (length data)) 1) (sr_wait_map r) index data)
       (\<lambda>(m, index', ins_data).
          let r' = r\<lparr>sr_wait_map := m\<rparr>
          in Inr (if ins_data \<noteq> [] then
                    r'\<lparr>sr_wait_map :=
                        std_insert index' (StreamReassembler_truncate_data r' ins_data index') m\<rparr>
                  else r'))"

text \<open>The iterator \<open>++it\<close>, or the result of \<open>erase\<close>: the least key above \<open>k\<close>, or \<open>end()\<close>.\<close>

fun next_key :: "(size_t, byte list) std_map \<Rightarrow> size_t \<Rightarrow> size_t option" where
  "next_key [] k = None"
| "next_key ((k', v) # m) k = (if k < k' then Some k' else next_key m k)"

lemma next_key_SomeD: "next_key m k = Some k' \<Longrightarrow> k < k' \<and> k' \<in> fst ` set m"
  by (induction m) (auto split: if_splits)

lemma checked_insert_loop_length:
  "checked_insert_loop s e m i d = Inr (m', i', d') \<Longrightarrow> length m' \<le> length m"
proof (induction m arbitrary: i d m' i' d')
  case (Cons p m)
  obtain k v where p: "p = (k, v)" by (cases p)
  show ?case
    using Cons.prems unfolding p
    by (auto simp: Let_def p split: if_splits dest!: Cons.IH)
qed simp

lemma checked_insert_frame:
  assumes "StreamReassembler_checked_insert r d i = Inr r'"
  shows "sr_output r' = sr_output r" "sr_capacity r' = sr_capacity r"
    "sr_wait_index r' = sr_wait_index r" "sr_eof_index r' = sr_eof_index r"
    "length (sr_wait_map r') \<le> Suc (length (sr_wait_map r))"
proof -
  obtain m i' d' where loop: "checked_insert_loop i (sz_sub (sz_add i (length d)) 1)
      (sr_wait_map r) i d = Inr (m, i', d')"
    and r': "r' = (if d' \<noteq> [] then r\<lparr>sr_wait_map := std_insert i'
        (StreamReassembler_truncate_data (r\<lparr>sr_wait_map := m\<rparr>) d' i') m\<rparr>
      else r\<lparr>sr_wait_map := m\<rparr>)"
    using assms by (auto simp: StreamReassembler_checked_insert_def Let_def)
  note len = checked_insert_loop_length [OF loop]
  show "sr_output r' = sr_output r" "sr_capacity r' = sr_capacity r"
    "sr_wait_index r' = sr_wait_index r" "sr_eof_index r' = sr_eof_index r"
    by (simp_all add: r')
  show "length (sr_wait_map r') \<le> Suc (length (sr_wait_map r))"
    using len length_std_insert_le
      [of i' "StreamReassembler_truncate_data (r\<lparr>sr_wait_map := m\<rparr>) d' i'" m]
    by (simp add: r')
qed

function update_waitmap_loop ::
  "stream_reassembler \<Rightarrow> size_t option \<Rightarrow> stream_reassembler result" where
  "update_waitmap_loop r None = Inr r"
| "update_waitmap_loop r (Some index) =
     (case std_find index (sr_wait_map r) of
        None \<Rightarrow> Inl (UndefinedBehaviour ''update_waitmap: iterator to an erased node'')
      | Some data \<Rightarrow>
          if index < sr_wait_index r then
            let m = std_erase index (sr_wait_map r);
                it = next_key m index;
                r' = r\<lparr>sr_wait_map := m\<rparr>
            in if sr_wait_index r < sz_add index (length data) then
                 bindE (substr data (sz_sub (sr_wait_index r) index) size_max)
                   (\<lambda>data'. bindE (StreamReassembler_checked_insert r' data' (sr_wait_index r))
                      (\<lambda>r''. update_waitmap_loop r'' it))
               else update_waitmap_loop r' it
          else update_waitmap_loop r (next_key (sr_wait_map r) index))"
  by pat_completeness auto
termination
proof (relation "measures [\<lambda>(r, it). case it of None \<Rightarrow> 0 | Some k \<Rightarrow> Suc (sr_wait_index r - k),
    \<lambda>(r, it). case it of None \<Rightarrow> 0
       | Some k \<Rightarrow> Suc (length (filter (\<lambda>e. k < fst e) (sr_wait_map r)))]", goal_cases)
  case 1
  then show ?case by simp
next
  case (2 r index data m it r' data' r'')
  then have "sr_wait_index r'' = sr_wait_index r" by (auto dest!: checked_insert_frame(3))
  with 2 show ?case by (auto split: option.splits dest!: next_key_SomeD)
next
  case (3 r index data m it r')
  then show ?case by (auto split: option.splits dest!: next_key_SomeD)
next
  case (4 r index data)
  show ?case
  proof (cases "next_key (sr_wait_map r) index")
    case (Some k)
    then have k: "index < k" "k \<in> fst ` set (sr_wait_map r)" by (auto dest: next_key_SomeD)
    have "length (filter (\<lambda>e. k < fst e) (sr_wait_map r))
        < length (filter (\<lambda>e. index < fst e) (sr_wait_map r))"
    proof -
      have "filter (\<lambda>e. k < fst e) (sr_wait_map r)
          = filter (\<lambda>e. k < fst e) (filter (\<lambda>e. index < fst e) (sr_wait_map r))"
        using k by (auto intro!: filter_cong)
      moreover have "\<exists>e \<in> set (filter (\<lambda>e. index < fst e) (sr_wait_map r)). \<not> k < fst e"
        using k by force
      ultimately show ?thesis by (metis (no_types, lifting) length_filter_less)
    qed
    with 4 Some k show ?thesis by simp
  qed simp
qed

definition StreamReassembler_update_waitmap :: "stream_reassembler \<Rightarrow> stream_reassembler result" where
  "StreamReassembler_update_waitmap r =
     update_waitmap_loop r (case sr_wait_map r of [] \<Rightarrow> None | (k, d) # _ \<Rightarrow> Some k)"

lemma update_waitmap_loop_frame:
  "update_waitmap_loop r it = Inr r' \<Longrightarrow>
   sr_output r' = sr_output r \<and> sr_capacity r' = sr_capacity r \<and>
   sr_wait_index r' = sr_wait_index r \<and> sr_eof_index r' = sr_eof_index r \<and>
   length (sr_wait_map r') \<le> length (sr_wait_map r)"
proof (induction r it rule: update_waitmap_loop.induct)
  case (1 r)
  then show ?case by simp
next
  case (2 r index)
  define m where "m = std_erase index (sr_wait_map r)"
  define it where "it = next_key m index"
  obtain data where f: "std_find index (sr_wait_map r) = Some data"
    using 2(4) by (auto split: option.splits)
  have len: "length m < length (sr_wait_map r)"
    using f length_std_erase_less [of index "sr_wait_map r"] by (simp add: m_def)
  show ?case
  proof (cases "index < sr_wait_index r")
    case lt: True
    show ?thesis
    proof (cases "sr_wait_index r < sz_add index (length data)")
      case True
      with 2(4) f lt obtain data' r1 where
        d: "substr data (sz_sub (sr_wait_index r) index) size_max = Inr data'" and
        c: "StreamReassembler_checked_insert (r\<lparr>sr_wait_map := m\<rparr>) data' (sr_wait_index r) = Inr r1" and
        u: "update_waitmap_loop r1 it = Inr r'"
        by (auto simp: Let_def m_def it_def)
      from checked_insert_frame [OF c] len
      have "length (sr_wait_map r1) \<le> length (sr_wait_map r)" by simp
      with checked_insert_frame [OF c] 2(1) [OF f lt m_def it_def refl True d c u]
      show ?thesis by simp
    next
      case False
      with 2(4) f lt have u: "update_waitmap_loop (r\<lparr>sr_wait_map := m\<rparr>) it = Inr r'"
        by (simp add: Let_def m_def it_def)
      from 2(2) [OF f lt m_def it_def refl False u] len show ?thesis by simp
    qed
  next
    case False
    with 2(4) f 2(3) [OF f False] show ?thesis by simp
  qed
qed

lemma update_waitmap_frame:
  assumes "StreamReassembler_update_waitmap r = Inr r'"
  shows "sr_output r' = sr_output r" "sr_capacity r' = sr_capacity r"
    "sr_wait_index r' = sr_wait_index r" "sr_eof_index r' = sr_eof_index r"
    "length (sr_wait_map r') \<le> length (sr_wait_map r)"
  using update_waitmap_loop_frame assms unfolding StreamReassembler_update_waitmap_def by blast+

text \<open>The loop \<open>while (true)\<close> of \<open>push_substring\<close>; each round erases the node it has written.\<close>

function reassemble_loop :: "stream_reassembler \<Rightarrow> stream_reassembler result" where
  "reassemble_loop r =
     bindE (StreamReassembler_update_waitmap r)
       (\<lambda>r1. case std_find (sr_wait_index r1) (sr_wait_map r1) of
          None \<Rightarrow> Inr r1
        | Some data \<Rightarrow>
            let (write_size, out) = ByteStream_write (sr_output r1) data
            in reassemble_loop
                 (r1\<lparr>sr_output := out,
                     sr_wait_index := sz_add (sr_wait_index r1) write_size,
                     sr_wait_map := std_erase (sr_wait_index r1) (sr_wait_map r1)\<rparr>))"
  by pat_completeness auto
termination
proof (relation "measure (\<lambda>r. length (sr_wait_map r))", goal_cases)
  case (2 r r1 data p write_size out)
  then show ?case
    using update_waitmap_frame(5) [OF 2(1)] length_std_erase_less [of "sr_wait_index r1" "sr_wait_map r1"]
    by simp
qed simp

declare reassemble_loop.simps [simp del]

definition StreamReassembler_push_substring ::
  "stream_reassembler \<Rightarrow> byte list \<Rightarrow> size_t \<Rightarrow> bool \<Rightarrow> stream_reassembler result" where
  "StreamReassembler_push_substring r0 data index eof =
     (let r = (if eof then r0\<lparr>sr_eof_index := sz_add index (length data)\<rparr> else r0);
          start_pos = (if index < sr_wait_index r then sz_sub (sr_wait_index r) index else 0)
      in if length data \<le> start_pos then
           Inr (if StreamReassembler_empty r \<and> sr_eof_index r \<le> sr_wait_index r
                then r\<lparr>sr_output := ByteStream_end_input (sr_output r)\<rparr> else r)
         else
           bindE (substr data start_pos size_max)
             (\<lambda>write_data.
                let moved_index = sz_add index start_pos
                in bindE
                     (if sr_wait_index r < moved_index then
                        StreamReassembler_checked_insert r write_data index
                      else if moved_index = sr_wait_index r then
                        (let write_data' = StreamReassembler_truncate_data r write_data index;
                             (write_size, out) = ByteStream_write (sr_output r) write_data'
                         in reassemble_loop
                              (r\<lparr>sr_output := out,
                                 sr_wait_index := sz_add (sr_wait_index r) write_size\<rparr>))
                      else Inr r)
                     (\<lambda>r'. Inr
                        (if StreamReassembler_empty r' \<and> sr_wait_index r' = sr_eof_index r'
                         then r'\<lparr>sr_output := ByteStream_end_input (sr_output r')\<rparr> else r'))))"

end
