(* ===== verification/Wait_Map.thy ===== *)
theory Wait_Map
  imports Stream_Reassembler
begin

text \<open>
  The private methods of the reassembler that maintain \<open>_wait_map\<close>.  The wait map is a sorted list of
  disjoint pieces of the peer's stream; \<open>checked_insert\<close> merges a new piece into it,
  \<open>update_waitmap\<close> trims it to the wait index, and the assembling loop moves what has become
  contiguous to the output.  Each is characterised by an equation or an exact effect on the set of
  known byte indices.
\<close>

section \<open>Waiting substrings\<close>

text \<open>
  \<open>S\<close> is the byte stream the peer is sending, as a function of the index.  A well-formed wait map
  holds pairwise disjoint pieces of \<open>S\<close> in order; pieces may be empty.  \<open>seq_limit = 2^63\<close> keeps
  indices away from the 64-bit wrap-around.
\<close>

abbreviation seq_limit :: nat where
  "seq_limit \<equiv> 9223372036854775808"

definition piece :: "(nat \<Rightarrow> byte) \<Rightarrow> size_t \<Rightarrow> byte list \<Rightarrow> bool" where
  "piece S k d \<longleftrightarrow> d = map S [k..<k + length d]"

definition wm_ok :: "(nat \<Rightarrow> byte) \<Rightarrow> (size_t, byte list) std_map \<Rightarrow> bool" where
  "wm_ok S m \<longleftrightarrow>
     sorted_wrt (\<lambda>p q. fst p < fst q \<and> fst p + length (snd p) \<le> fst q) m \<and>
     (\<forall>p \<in> set m. 0 < fst p \<and> fst p + length (snd p) \<le> seq_limit \<and> piece S (fst p) (snd p))"

definition wm_bytes :: "(size_t, byte list) std_map \<Rightarrow> nat" where
  "wm_bytes m = sum_list (map (\<lambda>p. length (snd p)) m)"

definition wm_dom :: "(size_t, byte list) std_map \<Rightarrow> nat set" where
  "wm_dom m = (\<Union>p \<in> set m. {fst p..<fst p + length (snd p)})"

lemma piece_append:
  assumes "a \<le> b" "b \<le> c"
  shows "map S [a..<b] @ map S [b..<c] = map S [a..<c]"
  using assms by (metis map_append le_add_diff_inverse upt_add_eq_append)

lemma piece_iff_nth: "piece S k d \<longleftrightarrow> (\<forall>j < length d. d ! j = S (k + j))"
  unfolding piece_def by (subst list_eq_iff_nth_eq) auto

lemma piece_drop: "piece S k d \<Longrightarrow> n \<le> length d \<Longrightarrow> drop n d = map S [k + n..<k + length d]"
  by (simp add: piece_iff_nth list_eq_iff_nth_eq add.assoc)

lemma piece_take: "piece S k d \<Longrightarrow> n \<le> length d \<Longrightarrow> take n d = map S [k..<k + n]"
  by (simp add: piece_iff_nth list_eq_iff_nth_eq)

lemma piece_map [simp]: "piece S a (map S [a..<b])"
  by (cases "a \<le> b") (simp_all add: piece_def)

lemma wm_ok_simps [simp]:
  "wm_ok S []"
  "wm_ok S ((k, d) # m) \<longleftrightarrow>
     0 < k \<and> k + length d \<le> seq_limit \<and> piece S k d \<and>
     (\<forall>q \<in> set m. k < fst q \<and> k + length d \<le> fst q) \<and> wm_ok S m"
  by (auto simp: wm_ok_def)

lemma wm_ok_filter: "wm_ok S m \<Longrightarrow> wm_ok S (filter P m)"
  by (auto simp: wm_ok_def sorted_wrt_filter)

lemma wm_ok_std_sorted: "wm_ok S m \<Longrightarrow> std_sorted m"
  by (induction m) (auto simp: wm_ok_def std_sorted_def)

lemma wm_bytes_simps [simp]: "wm_bytes [] = 0" "wm_bytes ((k, d) # m) = length d + wm_bytes m"
  by (simp_all add: wm_bytes_def)

lemma wm_bytes_filter_le: "wm_bytes (filter P m) \<le> wm_bytes m"
  by (induction m) (auto simp: wm_bytes_def)

lemma wm_dom_simps [simp]:
  "wm_dom [] = {}" "wm_dom ((k, d) # m) = {k..<k + length d} \<union> wm_dom m"
  by (auto simp: wm_dom_def)

lemma unassembled_eq:
  assumes "wm_bytes (sr_wait_map r) < size_mod"
  shows "StreamReassembler_unassembled_bytes r = wm_bytes (sr_wait_map r)"
proof -
  have "foldl (\<lambda>count p. sz_add count (length (snd p))) c m = (c + wm_bytes m) mod size_mod"
    if "c < size_mod" for c and m :: "(size_t, byte list) std_map"
    using that
  proof (induction m arbitrary: c)
    case (Cons p m)
    then show ?case by (cases p) (simp add: sz_add_def mod_simps add.assoc)
  qed simp
  then show ?thesis using assms by (simp add: StreamReassembler_unassembled_bytes_def)
qed

section \<open>checked_insert\<close>

text \<open>One round of the loop, with the 64-bit arithmetic resolved.\<close>

lemma checked_insert_loop_step:
  assumes "0 < k" "k + length d \<le> seq_limit" "e < seq_limit"
  shows "checked_insert_loop s e ((k, d) # rest) i ins =
    (if s < k + length d \<and> k \<le> e then
       if s \<le> k \<and> k + length d \<le> Suc e then checked_insert_loop s e rest i ins
       else if k \<le> s \<and> e < k + length d then
         bindE (checked_insert_loop s e rest i []) (\<lambda>(m, i, x). Inr ((k, d) # m, i, x))
       else if s \<le> k then checked_insert_loop s e rest i (ins @ drop (Suc e - k) d)
       else checked_insert_loop s e rest k (take (s - k) d @ ins)
     else bindE (checked_insert_loop s e rest i ins) (\<lambda>(m, i, x). Inr ((k, d) # m, i, x)))"
  using assms by (cases d) (auto simp: sz_simps Let_def)

text \<open>The nodes that stay.\<close>

definition contains :: "size_t \<Rightarrow> size_t \<Rightarrow> size_t \<times> byte list \<Rightarrow> bool" where
  "contains s e p \<longleftrightarrow> fst p \<le> s \<and> e < fst p + length (snd p) \<and>
     \<not> (s \<le> fst p \<and> fst p + length (snd p) \<le> Suc e)"

definition stays :: "size_t \<Rightarrow> size_t \<Rightarrow> size_t \<times> byte list \<Rightarrow> bool" where
  "stays s e p \<longleftrightarrow> fst p + length (snd p) \<le> s \<or> e < fst p \<or> contains s e p"

lemma checked_insert_loop_skip:
  assumes "wm_ok S m" "s \<le> e" "e < seq_limit" "\<forall>p \<in> set m. fst p + length (snd p) \<le> s \<or> e < fst p"
  shows "checked_insert_loop s e m i ins = Inr (m, i, ins)"
  using assms
proof (induction m)
  case (Cons p m)
  obtain k d where p: "p = (k, d)" by (cases p)
  from Cons show ?case unfolding p by (subst checked_insert_loop_step) auto
qed simp

lemma checked_insert_loop_contained:
  assumes "wm_ok S m" "s \<le> e" "e < seq_limit"
    and "p \<in> set m" "contains s e p"
  shows "checked_insert_loop s e m i ins = Inr (m, i, [])"
  using assms unfolding contains_def
proof (induction m arbitrary: ins)
  case (Cons q m)
  obtain k d where q: "q = (k, d)" by (cases q)
  show ?case
  proof (cases "p = q")
    case True
    have "checked_insert_loop s e m i [] = Inr (m, i, [])"
      using Cons.prems True q by (intro checked_insert_loop_skip [of S]) auto
    with Cons.prems True q show ?thesis
      by (auto simp: checked_insert_loop_step simp del: checked_insert_loop.simps)
  next
    case False
    with Cons.prems q have "k + length d \<le> fst p" by auto
    with Cons False q show ?thesis
      by (auto simp: checked_insert_loop_step simp del: checked_insert_loop.simps)
  qed
qed simp

text \<open>
  The outcome of the loop when the new data is not already contained in a waiting piece: the nodes
  that stay, and one merged piece \<open>[i', hi)\<close> that is disjoint from them and covers the rest.
\<close>

definition merge_result ::
  "size_t \<Rightarrow> size_t \<Rightarrow> (size_t, byte list) std_map \<Rightarrow> size_t \<Rightarrow> size_t \<Rightarrow> size_t \<Rightarrow> bool" where
  "merge_result s e m i i' hi \<longleftrightarrow>
     i' \<le> i \<and> (i' = i \<or> i' \<in> fst ` set m) \<and> e < hi \<and> hi \<le> seq_limit \<and>
     wm_dom m \<union> {i..<Suc e} = wm_dom (filter (stays s e) m) \<union> {i'..<hi} \<and>
     (\<forall>p \<in> set (filter (stays s e) m). fst p + length (snd p) \<le> i' \<or> hi \<le> fst p)"

lemma merge_result_after:
  assumes "\<forall>p \<in> set m. e < fst p" "e < seq_limit"
  shows "filter (stays s e) m = m" and "merge_result s e m i i (Suc e)"
proof -
  show f: "filter (stays s e) m = m" using assms by (simp add: filter_True stays_def)
  show "merge_result s e m i i (Suc e)" unfolding merge_result_def f using assms by auto
qed

lemma checked_insert_loop_merge:
  assumes "wm_ok S m" "s \<le> e" "e < seq_limit" "i \<le> s"
    and "\<forall>p \<in> set m. \<not> contains s e p"
    and "i = s \<or> (\<forall>p \<in> set m. s < fst p)"
  shows "\<exists>i' hi. checked_insert_loop s e m i (map S [i..<Suc e]) =
           Inr (filter (stays s e) m, i', map S [i'..<hi]) \<and> merge_result s e m i i' hi"
  using assms
  supply upt_Suc [simp del]
proof (induction m arbitrary: i)
  case Nil
  then show ?case by (auto simp: merge_result_def)
next
  case (Cons q m)
  obtain k d where q: "q = (k, d)" by (cases q)
  have kd: "0 < k" "k + length d \<le> seq_limit" "piece S k d" "wm_ok S m"
    "\<forall>p \<in> set m. k < fst p \<and> k + length d \<le> fst p"
    using Cons.prems(1) q by auto
  have nc: "\<forall>p \<in> set m. \<not> contains s e p" "\<not> contains s e q" using Cons.prems(5) by auto
  note step = checked_insert_loop_step [OF kd(1,2) Cons.prems(3), of s m i "map S [i..<Suc e]"]
  consider (after) "e < k" | (before) "k + length d \<le> s" "k \<le> e"
    | (covered) "s < k + length d" "s \<le> k" "k + length d \<le> Suc e" "k \<le> e"
    | (right) "s < k" "k \<le> e" "Suc e < k + length d"
    | (left) "k < s" "s < k + length d" "k + length d \<le> e"
    using nc(2) q by (fastforce simp: contains_def)
  then show ?case
  proof cases
    case after
    then have all: "\<forall>p \<in> set (q # m). e < fst p" using kd(5) q by auto
    have "checked_insert_loop s e (q # m) i (map S [i..<Suc e]) = Inr (q # m, i, map S [i..<Suc e])"
      using Cons.prems(1-3) all by (intro checked_insert_loop_skip [of S]) auto
    then show ?thesis using merge_result_after [OF all Cons.prems(3)] by auto
  next
    case before
    then have i: "i = s" using Cons.prems(6) q by auto
    obtain i' hi where loop: "checked_insert_loop s e m i (map S [i..<Suc e]) =
          Inr (filter (stays s e) m, i', map S [i'..<hi])" and r: "merge_result s e m i i' hi"
      using Cons.IH [OF kd(4) Cons.prems(2,3,4) nc(1)] i by auto
    have st: "stays s e q" using before q by (simp add: stays_def)
    have "k + length d \<le> i'" using r before i kd(5) by (auto simp: merge_result_def)
    then have "merge_result s e (q # m) i i' hi" using r st q by (auto simp: merge_result_def)
    then show ?thesis using loop st before q step by auto
  next
    case covered
    obtain i' hi where loop: "checked_insert_loop s e m i (map S [i..<Suc e]) =
          Inr (filter (stays s e) m, i', map S [i'..<hi])" and r: "merge_result s e m i i' hi"
      using Cons.IH [OF kd(4) Cons.prems(2,3,4) nc(1)] Cons.prems(6) by auto
    have ns: "\<not> stays s e q" using covered nc(2) q by (auto simp: stays_def)
    have "wm_dom (q # m) \<union> {i..<Suc e} = wm_dom m \<union> {i..<Suc e}"
      using covered Cons.prems(4) q by auto
    then have "merge_result s e (q # m) i i' hi" using r ns by (auto simp: merge_result_def)
    then show ?thesis using loop ns covered q step by auto
  next
    case right
    have ns: "\<not> stays s e q" using right nc(2) q by (auto simp: stays_def)
    have all: "\<forall>p \<in> set m. e < fst p" using right kd(5) by auto
    note after = merge_result_after [OF all Cons.prems(3)]
    have "drop (Suc e - k) d = map S [Suc e..<k + length d]"
      using right piece_drop [OF kd(3), of "Suc e - k"] by simp
    then have tail: "map S [i..<Suc e] @ drop (Suc e - k) d = map S [i..<k + length d]"
      using right Cons.prems(2,4) piece_append [of i "Suc e" "k + length d" S] by simp
    have "checked_insert_loop s e m i (map S [i..<k + length d]) = Inr (m, i, map S [i..<k + length d])"
      using Cons.prems(2,3) kd all by (intro checked_insert_loop_skip [of S]) auto
    moreover have "{k..<k + length d} \<union> {i..<Suc e} = {i..<k + length d}"
      using right Cons.prems(2,4) by auto
    then have "merge_result s e (q # m) i i (k + length d)"
      using after(1) ns right kd q by (auto simp: merge_result_def)
    ultimately show ?thesis using after(1) ns right q step tail by auto
  next
    case left
    then have i: "i = s" using Cons.prems(6) q by auto
    have k: "k \<le> s" "\<forall>p \<in> set m. s < fst p" using left kd(5) by auto
    obtain i' hi where loop: "checked_insert_loop s e m k (map S [k..<Suc e]) =
          Inr (filter (stays s e) m, i', map S [i'..<hi])" and r: "merge_result s e m k i' hi"
      using Cons.IH [OF kd(4) Cons.prems(2,3) k(1) nc(1)] k(2) by auto
    have ns: "\<not> stays s e q" using left nc(2) q by (auto simp: stays_def)
    have "take (s - k) d = map S [k..<s]"
      using left piece_take [OF kd(3), of "s - k"] by simp
    then have front: "take (s - k) d @ map S [i..<Suc e] = map S [k..<Suc e]"
      using left i Cons.prems(2) piece_append [of k s "Suc e" S] by simp
    have "{k..<k + length d} \<union> {i..<Suc e} = {k..<Suc e}"
      using left i Cons.prems(2) by auto
    then have "wm_dom (q # m) \<union> {i..<Suc e} = wm_dom m \<union> {k..<Suc e}"
      using q by auto
    then have "merge_result s e (q # m) i i' hi"
      using r ns i left q by (auto simp: merge_result_def)
    then show ?thesis using loop ns left q step front by auto
  qed
qed

section \<open>Invariants\<close>

text \<open>
  \<open>sr_mid\<close> holds throughout \<open>push_substring\<close>; \<open>sr_inv\<close>, which adds that nothing waiting can be
  assembled yet, holds between calls.  The buffered output is the stretch of \<open>S\<close> that has been
  assembled and not read.
\<close>

definition sr_mid :: "(nat \<Rightarrow> byte) \<Rightarrow> stream_reassembler \<Rightarrow> bool" where
  "sr_mid S r \<longleftrightarrow>
     (let out = sr_output r in
      bs_wf out \<and> sr_capacity r = bs_capacity out \<and> sr_capacity r < seq_limit \<and>
      sr_wait_index r = bs_bytes_read out + length (bs_buf out) \<and> sr_wait_index r \<le> seq_limit \<and>
      piece S (bs_bytes_read out) (bs_buf out) \<and>
      wm_ok S (sr_wait_map r) \<and>
      wm_bytes (sr_wait_map r) + length (bs_buf out) \<le> sr_capacity r)"

definition sr_inv :: "(nat \<Rightarrow> byte) \<Rightarrow> stream_reassembler \<Rightarrow> bool" where
  "sr_inv S r \<longleftrightarrow> sr_mid S r \<and> (\<forall>p \<in> set (sr_wait_map r). sr_wait_index r < fst p)"

text \<open>The right edge of the window, and the invariant of a peer that respects it.\<close>

definition sr_edge :: "stream_reassembler \<Rightarrow> nat" where
  "sr_edge r = sr_capacity r + bs_bytes_read (sr_output r)"

definition sr_tight :: "stream_reassembler \<Rightarrow> bool" where
  "sr_tight r \<longleftrightarrow>
     (\<forall>p \<in> set (sr_wait_map r). snd p \<noteq> [] \<and> fst p + length (snd p) \<le> sr_edge r)"

text \<open>The bytes known to the reassembler: assembled ones and waiting ones.\<close>

definition sr_known :: "stream_reassembler \<Rightarrow> nat set" where
  "sr_known r = {..<sr_wait_index r} \<union> wm_dom (sr_wait_map r)"

lemma sr_mid_edge: "sr_mid S r \<Longrightarrow> sr_wait_index r \<le> sr_edge r"
  by (auto simp: sr_mid_def Let_def sr_edge_def)

lemma sr_mid_bytes:
  "sr_mid S r \<Longrightarrow> wm_bytes (sr_wait_map r) + length (bs_buf (sr_output r)) \<le> sr_capacity r"
  by (simp add: sr_mid_def Let_def)

lemma sr_mid_room:
  "sr_mid S r \<Longrightarrow> sr_capacity r - length (bs_buf (sr_output r)) = sr_edge r - sr_wait_index r"
  by (auto simp: sr_mid_def Let_def sr_edge_def)

lemma truncate_eq:
  assumes "sr_mid S r"
  shows "StreamReassembler_truncate_data r d i =
    take (min (min (length d) (sz_sub (sr_edge r) i))
      (sr_edge r - sr_wait_index r - wm_bytes (sr_wait_map r))) d"
proof -
  let ?out = "sr_output r"
  have a: "bs_wf ?out" "sr_capacity r < seq_limit" "sr_wait_index r \<le> seq_limit"
    "sr_wait_index r = bs_bytes_read ?out + length (bs_buf ?out)"
    "wm_bytes (sr_wait_map r) + length (bs_buf ?out) \<le> sr_capacity r"
    using assms by (auto simp: sr_mid_def Let_def)
  have "StreamReassembler_unassembled_bytes r = wm_bytes (sr_wait_map r)"
    using a by (intro unassembled_eq) simp
  moreover have "sz_add (sr_capacity r) (bs_bytes_read ?out) = sr_edge r"
    using a by (simp add: sr_edge_def sz_add_small)
  moreover have "sz_sub (sz_sub (sr_capacity r) (length (bs_buf ?out))) (wm_bytes (sr_wait_map r)) =
      sr_edge r - sr_wait_index r - wm_bytes (sr_wait_map r)"
    using a by (simp add: sz_sub_small sr_edge_def)
  ultimately show ?thesis
    by (simp add: StreamReassembler_truncate_data_def ByteStream_buffer_size_def Let_def)
qed

lemma set_std_insert_subset: "set (std_insert k v m) \<subseteq> insert (k, v) (set m)"
  by (induction k v m rule: std_insert.induct) auto

lemma wm_ok_insert:
  assumes "wm_ok S m" "0 < k" "k + length d \<le> seq_limit" "piece S k d"
    and "\<forall>p \<in> set m. fst p + length (snd p) \<le> k \<or> k + length d \<le> fst p"
  shows "wm_ok S (std_insert k d m)"
  using assms
proof (induction k d m rule: std_insert.induct)
  case (2 k d k' d' m)
  show ?case
  proof (cases "k' < k")
    case True
    then have "wm_ok S (std_insert k d m)" using 2 by auto
    moreover have "k' + length d' \<le> k" using 2(6) True by auto
    moreover have "\<forall>q \<in> set (std_insert k d m). k' < fst q \<and> k' + length d' \<le> fst q"
      using set_std_insert_subset [of k d m] 2(2) True calculation(2) by fastforce
    ultimately show ?thesis using 2(2) True by auto
  next
    case False
    then show ?thesis using 2 by force
  qed
qed simp

lemma wm_bytes_insert_le: "wm_bytes (std_insert k d m) \<le> wm_bytes m + length d"
  by (induction k d m rule: std_insert.induct) auto

lemma wm_bytes_insert: "k \<notin> fst ` set m \<Longrightarrow> wm_bytes (std_insert k d m) = wm_bytes m + length d"
  by (induction k d m rule: std_insert.induct) auto

lemma wm_dom_insert: "k \<notin> fst ` set m \<Longrightarrow> wm_dom (std_insert k d m) = wm_dom m \<union> {k..<k + length d}"
  by (induction k d m rule: std_insert.induct) auto

lemma wm_bytes_range:
  assumes "wm_ok S m" "\<forall>p \<in> set m. lo \<le> fst p \<and> fst p + length (snd p) \<le> hi"
  shows "wm_bytes m \<le> hi - lo"
  using assms
proof (induction m arbitrary: lo)
  case (Cons q m)
  obtain k d where q: "q = (k, d)" by (cases q)
  have "wm_bytes m \<le> hi - (k + length d)" using Cons q by auto
  with Cons.prems q show ?case by auto
qed simp

lemma sr_mid_kept:
  assumes "sr_mid S r" "wm_ok S m" "wm_bytes m \<le> wm_bytes (sr_wait_map r)"
  shows "sr_mid S (r\<lparr>sr_wait_map := m\<rparr>)"
  using assms by (simp add: sr_mid_def Let_def)

lemma sr_edge_wait_map [simp]: "sr_edge (r\<lparr>sr_wait_map := m\<rparr>) = sr_edge r"
  by (simp add: sr_edge_def)

text \<open>
  \<open>checked_insert\<close> either finds the data inside a waiting piece, or replaces the overlapping pieces
  by one merged piece, truncated to what fits.
\<close>

lemma checked_insert_cases:
  assumes mid: "sr_mid S r" and i: "0 < i" and d: "d \<noteq> []" "i + length d \<le> seq_limit" "piece S i d"
  defines "e \<equiv> i + length d - 1"
  obtains (contained) p where "p \<in> set (sr_wait_map r)" "contains i e p"
      "StreamReassembler_checked_insert r d i = Inr r"
  | (merged) i' hi kept where
      "kept = filter (stays i e) (sr_wait_map r)" "merge_result i e (sr_wait_map r) i i' hi"
      "StreamReassembler_checked_insert r d i =
         Inr (r\<lparr>sr_wait_map := std_insert i'
           (StreamReassembler_truncate_data (r\<lparr>sr_wait_map := kept\<rparr>) (map S [i'..<hi]) i') kept\<rparr>)"
proof -
  have ok: "wm_ok S (sr_wait_map r)" using mid by (simp add: sr_mid_def Let_def)
  have e: "i \<le> e" "e < seq_limit" "Suc e = i + length d" using i d
    by (cases d; simp add: e_def)+
  have ee: "sz_sub (sz_add i (length d)) 1 = e" using i d by (simp add: sz_simps e_def)
  have de: "d = map S [i..<Suc e]" using d(3) e(3) by (simp add: piece_def del: upt_Suc)
  show thesis
  proof (cases "\<exists>p \<in> set (sr_wait_map r). contains i e p")
    case True
    then obtain p where p: "p \<in> set (sr_wait_map r)" "contains i e p" by auto
    with checked_insert_loop_contained [OF ok e(1,2) p, of i d]
    have "StreamReassembler_checked_insert r d i = Inr r"
      by (simp add: StreamReassembler_checked_insert_def ee [simplified])
    with p contained show thesis by blast
  next
    case False
    then obtain i' hi where loop: "checked_insert_loop i e (sr_wait_map r) i (map S [i..<Suc e]) =
        Inr (filter (stays i e) (sr_wait_map r), i', map S [i'..<hi])"
      and mr: "merge_result i e (sr_wait_map r) i i' hi"
      using checked_insert_loop_merge [OF ok e(1,2) order_refl] by blast
    have "map S [i'..<hi] \<noteq> []" using mr e(1) by (auto simp: merge_result_def)
    with loop mr ee de merged show thesis
      by (simp add: StreamReassembler_checked_insert_def Let_def del: upt_Suc)
  qed
qed

lemma merge_result_pos:
  assumes "merge_result s e m s i' hi" "wm_ok S m" "0 < s" "s \<le> e"
  shows "0 < i'" "i' \<le> s" "s < hi" "hi \<le> seq_limit"
  using assms by (auto simp: merge_result_def wm_ok_def)

lemma checked_insert_safe:
  assumes mid: "sr_mid S r" and i: "0 < i" and d: "d \<noteq> []" "i + length d \<le> seq_limit" "piece S i d"
  shows "\<exists>m. StreamReassembler_checked_insert r d i = Inr (r\<lparr>sr_wait_map := m\<rparr>) \<and>
    sr_mid S (r\<lparr>sr_wait_map := m\<rparr>) \<and> fst ` set m \<subseteq> insert i (fst ` set (sr_wait_map r))"
  using mid i d
proof (cases rule: checked_insert_cases)
  case (contained p)
  then show ?thesis using mid by (intro exI [of _ "sr_wait_map r"]) auto
next
  case (merged i' hi kept)
  let ?m = "sr_wait_map r"
  let ?t = "StreamReassembler_truncate_data (r\<lparr>sr_wait_map := kept\<rparr>) (map S [i'..<hi]) i'"
  have ok: "wm_ok S ?m" using mid by (simp add: sr_mid_def Let_def)
  note pos = merge_result_pos [OF merged(2) ok i]
  have pos: "0 < i'" "i' \<le> i" "i < hi" "hi \<le> seq_limit" using pos d(1) by (cases d; simp)+
  have kok: "wm_ok S kept" "wm_bytes kept \<le> wm_bytes ?m"
    using ok by (simp_all add: merged(1) wm_ok_filter wm_bytes_filter_le)
  have kmid: "sr_mid S (r\<lparr>sr_wait_map := kept\<rparr>)" using mid kok by (rule sr_mid_kept)
  obtain n where t: "?t = take n (map S [i'..<hi])" and
    n: "length ?t \<le> sr_edge r - sr_wait_index r - wm_bytes kept"
    by (simp add: truncate_eq [OF kmid])
  have piece: "piece S i' ?t" by (auto simp: t piece_iff_nth)
  have len: "i' + length ?t \<le> hi" using t pos by simp
  have "wm_ok S (std_insert i' ?t kept)"
    using kok(1) pos piece len merged(1,2)
    by (intro wm_ok_insert) (fastforce simp: merge_result_def)+
  moreover have "wm_bytes (std_insert i' ?t kept) + length (bs_buf (sr_output r)) \<le> sr_capacity r"
    using wm_bytes_insert_le [of i' ?t kept] n kok(2) sr_mid_room [OF mid] sr_mid_bytes [OF mid]
    by linarith
  ultimately have "sr_mid S (r\<lparr>sr_wait_map := std_insert i' ?t kept\<rparr>)"
    using mid by (simp add: sr_mid_def Let_def)
  moreover have "fst ` set (std_insert i' ?t kept) \<subseteq> insert i (fst ` set ?m)"
    using merged(1,2) by (auto simp: std_insert_keys merge_result_def)
  ultimately show ?thesis using merged(3) by blast
qed

text \<open>In the window nothing is dropped: the truncation removes exactly what lies past the edge.\<close>

lemma checked_insert_tight:
  assumes inv: "sr_inv S r" and tight: "sr_tight r"
    and i: "sr_wait_index r < i" "i < sr_edge r"
    and d: "d \<noteq> []" "i + length d \<le> seq_limit" "piece S i d"
  shows "\<exists>m. StreamReassembler_checked_insert r d i = Inr (r\<lparr>sr_wait_map := m\<rparr>) \<and>
    sr_tight (r\<lparr>sr_wait_map := m\<rparr>) \<and>
    wm_dom m = wm_dom (sr_wait_map r) \<union> ({i..<i + length d} \<inter> {..<sr_edge r})"
proof -
  let ?m = "sr_wait_map r" and ?W = "sr_edge r" and ?e = "i + length d - 1"
  have mid: "sr_mid S r" and keys: "\<forall>p \<in> set ?m. sr_wait_index r < fst p"
    using inv by (simp_all add: sr_inv_def)
  have tW: "\<forall>p \<in> set ?m. snd p \<noteq> [] \<and> fst p + length (snd p) \<le> ?W"
    using tight by (simp add: sr_tight_def)
  have ok: "wm_ok S ?m" using mid by (simp add: sr_mid_def Let_def)
  have Suc_e: "Suc ?e = i + length d" "i \<le> ?e" using d(1) by (cases d; simp)+
  have i0: "0 < i" using i(1) by simp
  show ?thesis
    using mid i0 d
  proof (cases rule: checked_insert_cases)
    case (contained p)
    then have "{i..<i + length d} \<subseteq> {fst p..<fst p + length (snd p)}"
      using Suc_e by (auto simp: contains_def)
    then have "{i..<i + length d} \<subseteq> wm_dom ?m" using contained(1) by (auto simp: wm_dom_def)
    with contained(3) tight show ?thesis by (intro exI [of _ ?m]) auto
  next
    case (merged i' hi kept)
    let ?t = "StreamReassembler_truncate_data (r\<lparr>sr_wait_map := kept\<rparr>) (map S [i'..<hi]) i'"
    let ?n = "min hi ?W - i'"
    have pos: "0 < i'" "i' \<le> i" "i < hi" "hi \<le> seq_limit"
      using merge_result_pos [OF merged(2) ok i0 Suc_e(2)] by auto
    have i'_lo: "sr_wait_index r < i'"
      using merged(2) keys i(1) by (auto simp: merge_result_def)
    have kok: "wm_ok S kept" "wm_bytes kept \<le> wm_bytes ?m"
      using ok by (simp_all add: merged(1) wm_ok_filter wm_bytes_filter_le)
    have ksub: "set kept \<subseteq> set ?m" using merged(1) by simp
    have kmid: "sr_mid S (r\<lparr>sr_wait_map := kept\<rparr>)" using mid kok by (rule sr_mid_kept)
    have sep: "\<forall>p \<in> set kept. fst p + length (snd p) \<le> i' \<or> hi \<le> fst p"
      using merged(1,2) by (simp add: merge_result_def)
    have fresh: "i' \<notin> fst ` set kept" using sep tW ksub pos i(2) by fastforce
    define full where "full = map S [i'..<i' + ?n]"
    have okf: "wm_ok S (std_insert i' full kept)"
      using kok(1) pos sep i(2) by (intro wm_ok_insert) (fastforce simp: full_def)+
    have "wm_bytes (std_insert i' full kept) = wm_bytes kept + ?n"
      using fresh by (simp add: wm_bytes_insert full_def)
    moreover have "\<forall>p \<in> set (std_insert i' full kept).
        sr_wait_index r \<le> fst p \<and> fst p + length (snd p) \<le> ?W"
      using set_std_insert_subset [of i' full kept] ksub tW keys i'_lo i pos
      by (fastforce simp: full_def)
    ultimately have fits: "?n \<le> ?W - sr_wait_index r - wm_bytes kept"
      using wm_bytes_range [OF okf] by fastforce
    have "sz_sub ?W i' = ?W - i'"
      using mid pos i(2) by (intro sz_sub_small) (auto simp: sr_mid_def Let_def sr_edge_def)
    moreover have "min (min (hi - i') (?W - i')) (?W - sr_wait_index r - wm_bytes kept) = ?n"
      using fits by linarith
    moreover have "take ?n [i'..<hi] = [i'..<i' + ?n]"
      using pos i(2) by (intro take_upt) linarith
    ultimately have t: "?t = map S [i'..<i' + ?n]"
      by (simp add: truncate_eq [OF kmid] take_map)
    have inW: "wm_dom ?m \<subseteq> {..<?W}" "wm_dom kept \<subseteq> {..<?W}"
      using tW ksub by (fastforce simp: wm_dom_def)+
    have "wm_dom (std_insert i' ?t kept) = wm_dom kept \<union> {i'..<min hi ?W}"
      using fresh t pos i(2) by (simp add: wm_dom_insert)
    also have "\<dots> = (wm_dom kept \<union> {i'..<hi}) \<inter> {..<?W}" using inW(2) by auto
    also have "\<dots> = (wm_dom ?m \<union> {i..<i + length d}) \<inter> {..<?W}"
      using merged(1,2) Suc_e(1) by (simp add: merge_result_def)
    also have "\<dots> = wm_dom ?m \<union> ({i..<i + length d} \<inter> {..<?W})" using inW(1) by auto
    finally have "wm_dom (std_insert i' ?t kept) = wm_dom ?m \<union> ({i..<i + length d} \<inter> {..<?W})" .
    moreover have "sr_tight (r\<lparr>sr_wait_map := std_insert i' ?t kept\<rparr>)"
      using set_std_insert_subset [of i' ?t kept] ksub tW t pos i(2)
      by (fastforce simp: sr_tight_def)
    ultimately show ?thesis using merged(3) by blast
  qed
qed

section \<open>update_waitmap\<close>

text \<open>What \<open>update_waitmap\<close> computes: everything below the wait index is cut off.\<close>

fun trim :: "size_t \<Rightarrow> (size_t, byte list) std_map \<Rightarrow> (size_t, byte list) std_map" where
  "trim w [] = []"
| "trim w ((k, d) # m) =
     (if k < w then if w < k + length d then (w, drop (w - k) d) # m else trim w m
      else (k, d) # m)"

abbreviation first_key :: "(size_t, byte list) std_map \<Rightarrow> size_t option" where
  "first_key m \<equiv> (case m of [] \<Rightarrow> None | (k, d) # _ \<Rightarrow> Some k)"

lemma next_key_first: "\<forall>p \<in> set m. k < fst p \<Longrightarrow> next_key m k = first_key m"
  by (cases m) auto

lemma std_insert_first: "\<forall>p \<in> set m. k < fst p \<Longrightarrow> std_insert k v m = (k, v) # m"
  by (cases m) auto

lemma std_erase_first: "\<forall>p \<in> set m. (k :: size_t) < fst p \<Longrightarrow> std_erase k ((k, v) # m) = m"
proof -
  assume "\<forall>p \<in> set m. k < fst p"
  then have "\<forall>p \<in> set m. fst p \<noteq> k" by (metis less_irrefl)
  then show ?thesis by (simp add: std_erase_def filter_True)
qed

declare update_waitmap_loop.simps(2) [simp del]

lemma update_waitmap_loop_done:
  "sr_wait_index r \<le> k \<Longrightarrow> k \<in> fst ` set (sr_wait_map r) \<Longrightarrow> update_waitmap_loop r (Some k) = Inr r"
proof (induction r "Some k" arbitrary: k rule: update_waitmap_loop.induct)
  case (2 r k)
  obtain d where d: "std_find k (sr_wait_map r) = Some d"
    using 2(5) by (cases "std_find k (sr_wait_map r)") (auto simp: std_find_def map_of_eq_None_iff)
  show ?case
  proof (cases "next_key (sr_wait_map r) k")
    case None
    then show ?thesis using d 2(4) by (simp add: update_waitmap_loop.simps)
  next
    case (Some k')
    then show ?thesis
      using d 2 next_key_SomeD [OF Some] by (simp add: update_waitmap_loop.simps(2) [of r k])
  qed
qed

lemma sr_mid_tail:
  "sr_mid S r \<Longrightarrow> sr_wait_map r = (k, d) # m \<Longrightarrow> sr_mid S (r\<lparr>sr_wait_map := m\<rparr>)"
  by (auto simp: sr_mid_def Let_def)

lemma checked_insert_front:
  assumes mid: "sr_mid S r" and d: "d \<noteq> []" "w + length d \<le> seq_limit" "0 < w"
    and w: "w = sr_wait_index r" and rest: "\<forall>p \<in> set (sr_wait_map r). w + length d \<le> fst p"
    and fits: "length d + wm_bytes (sr_wait_map r) \<le> sr_edge r - w"
  shows "StreamReassembler_checked_insert r d w =
    Inr (r\<lparr>sr_wait_map := (w, d) # sr_wait_map r\<rparr>)"
proof -
  let ?m = "sr_wait_map r" and ?e = "w + length d - 1"
  have e: "w \<le> ?e" "?e < seq_limit" "sz_sub (sz_add w (length d)) 1 = ?e"
    using d by (cases d; simp add: sz_simps)+
  have ok: "wm_ok S ?m" using mid by (simp add: sr_mid_def Let_def)
  have loop: "checked_insert_loop w ?e ?m w d = Inr (?m, w, d)"
    using checked_insert_loop_skip [OF ok e(1,2)] rest d by fastforce
  have "sr_edge r < size_mod" using mid by (auto simp: sr_mid_def Let_def sr_edge_def)
  then have "sz_sub (sr_edge r) w = sr_edge r - w"
    using sr_mid_edge [OF mid] w by (simp add: sz_sub_small)
  then have "StreamReassembler_truncate_data r d w = d"
    using fits w by (simp add: truncate_eq [OF mid])
  moreover have "std_insert w d ?m = (w, d) # ?m"
    using rest d by (intro std_insert_first) (cases d; fastforce)
  ultimately show ?thesis
    using loop d e(3) by (simp add: StreamReassembler_checked_insert_def Let_def)
qed

lemma update_waitmap_eq:
  assumes "sr_mid S r"
  shows "StreamReassembler_update_waitmap r =
    Inr (r\<lparr>sr_wait_map := trim (sr_wait_index r) (sr_wait_map r)\<rparr>)"
  unfolding StreamReassembler_update_waitmap_def
  using assms
proof (induction "sr_wait_map r" arbitrary: r)
  case Nil
  from Nil(1) [symmetric] show ?case by simp
next
  case (Cons q m)
  let ?w = "sr_wait_index r"
  obtain k d where q: "q = (k, d)" by (cases q)
  have m: "sr_wait_map r = (k, d) # m" using Cons(2) q by simp
  note mid = Cons(3)
  have ok: "0 < k" "k + length d \<le> seq_limit" "\<forall>p \<in> set m. k < fst p \<and> k + length d \<le> fst p"
    using mid m by (auto simp: sr_mid_def Let_def)
  have find: "std_find k (sr_wait_map r) = Some d" by (simp add: m std_find_def)
  have erase: "std_erase k (sr_wait_map r) = m" using ok(3) by (simp add: m std_erase_first)
  have next_eq: "next_key m k = first_key m" using ok(3) by (intro next_key_first) auto
  have add: "sz_add k (length d) = k + length d" using ok by (simp add: sz_add_small)
  have IH: "update_waitmap_loop (r\<lparr>sr_wait_map := m\<rparr>) (first_key m) =
      Inr (r\<lparr>sr_wait_map := trim ?w m\<rparr>)"
    using Cons(1) [of "r\<lparr>sr_wait_map := m\<rparr>"] sr_mid_tail [OF mid m] by simp
  consider "?w \<le> k" | "k < ?w" "k + length d \<le> ?w" | "k < ?w" "?w < k + length d" by linarith
  then show ?case
  proof cases
    case 1
    then show ?thesis using update_waitmap_loop_done [of r k] m by simp
  next
    case 2
    then show ?thesis
      using find erase next_eq add IH m by (simp add: Let_def update_waitmap_loop.simps(2) [of r k])
  next
    case 3
    let ?r1 = "r\<lparr>sr_wait_map := m\<rparr>" and ?d = "drop (?w - k) d"
    let ?r2 = "r\<lparr>sr_wait_map := (?w, ?d) # m\<rparr>"
    have sub: "sz_sub ?w k = ?w - k" using 3 ok by (intro sz_sub_small) auto
    have len: "?w + length ?d = k + length d" using 3 by simp
    have "length ?d \<le> size_max" using len ok by simp
    then have sd: "substr d (?w - k) size_max = Inr ?d" using 3 by simp
    have "length d + wm_bytes m \<le> sr_edge r - ?w"
      using sr_mid_room [OF mid] sr_mid_bytes [OF mid] m by simp
    then have fits: "length ?d + wm_bytes (sr_wait_map ?r1) \<le> sr_edge ?r1 - ?w" by simp
    have ins: "?d \<noteq> []" "?w + length ?d \<le> seq_limit" "0 < ?w" "?w = sr_wait_index ?r1"
      "\<forall>p \<in> set (sr_wait_map ?r1). ?w + length ?d \<le> fst p"
      using 3 ok len by auto
    have "StreamReassembler_checked_insert ?r1 ?d ?w = Inr ?r2"
      using checked_insert_front [OF sr_mid_tail [OF mid m] ins fits] by simp
    moreover have "update_waitmap_loop ?r2 (first_key m) = Inr ?r2"
    proof (cases m)
      case (Cons q' m')
      then have "?w \<le> fst q'" using ok(3) 3 by auto
      then show ?thesis using update_waitmap_loop_done [of ?r2 "fst q'"] Cons by (auto split: prod.splits)
    qed simp
    moreover have "update_waitmap_loop r (Some k) =
        bindE (StreamReassembler_checked_insert ?r1 ?d ?w) (\<lambda>r''. update_waitmap_loop r'' (first_key m))"
      using 3 by (simp add: update_waitmap_loop.simps(2) [of r k] find erase next_eq add sub sd Let_def)
    ultimately show ?thesis using 3 m by simp
  qed
qed

lemma trim_keys: "wm_ok S m \<Longrightarrow> p \<in> set (trim w m) \<Longrightarrow> w \<le> fst p"
  by (induction w m rule: trim.induct) (auto split: if_splits)

lemma wm_ok_trim: "wm_ok S m \<Longrightarrow> wm_ok S (trim w m)"
proof (induction w m rule: trim.induct)
  case (2 w k d m)
  have "piece S w (drop (w - k) d)" if "k < w" "w < k + length d"
    using that 2(2) piece_drop [of S k d "w - k"] by simp
  with 2 show ?case by auto
qed simp

lemma wm_bytes_trim: "wm_bytes (trim w m) \<le> wm_bytes m"
  by (induction w m rule: trim.induct) auto

lemma length_trim: "length (trim w m) \<le> length m"
  by (induction w m rule: trim.induct) auto

lemma wm_dom_trim: "wm_ok S m \<Longrightarrow> {..<w} \<union> wm_dom (trim w m) = {..<w} \<union> wm_dom m"
  by (induction w m rule: trim.induct) auto

lemma tight_trim:
  assumes "\<forall>p \<in> set m. snd p \<noteq> [] \<and> fst p + length (snd p) \<le> W"
  shows "\<forall>p \<in> set (trim w m). snd p \<noteq> [] \<and> fst p + length (snd p) \<le> W"
  using assms by (induction w m rule: trim.induct) auto

lemma find_trim:
  assumes "wm_ok S m" "std_find w (trim w m) = Some d"
  shows "trim w m = (w, d) # std_erase w (trim w m)"
proof -
  have ok: "wm_ok S (trim w m)" using assms(1) by (rule wm_ok_trim)
  obtain k d' m' where t: "trim w m = (k, d') # m'"
    using assms(2) by (cases "trim w m") auto
  have rest: "\<forall>p \<in> set m'. k < fst p" using ok t by auto
  have "w \<le> k" using trim_keys [OF assms(1), of "(k, d')" w] t by simp
  moreover have "w = k"
  proof (rule ccontr)
    assume "w \<noteq> k"
    with assms(2) t have "(w, d) \<in> set m'" by (auto dest!: std_find_SomeD)
    with rest \<open>w \<le> k\<close> show False by auto
  qed
  ultimately show ?thesis using assms(2) t std_erase_first [OF rest, of d'] by (simp add: std_find_def)
qed

lemma piece_Append: "piece S a x \<Longrightarrow> piece S (a + length x) y \<Longrightarrow> piece S a (x @ y)"
  by (auto simp: piece_iff_nth nth_append add.assoc)

text \<open>Writing the next bytes of the stream to the output.\<close>

definition wrote :: "stream_reassembler \<Rightarrow> byte list \<Rightarrow> (size_t, byte list) std_map \<Rightarrow> stream_reassembler" where
  "wrote r d m = r\<lparr>sr_output := snd (ByteStream_write (sr_output r) d),
     sr_wait_index := sz_add (sr_wait_index r) (fst (ByteStream_write (sr_output r) d)),
     sr_wait_map := m\<rparr>"

lemma wrote_mid:
  assumes mid: "sr_mid S r" and ok: "wm_ok S m" and d: "piece S (sr_wait_index r) d"
    "sr_wait_index r + length d \<le> seq_limit"
    and fits: "length d + wm_bytes m \<le> sr_edge r - sr_wait_index r"
  shows "sr_mid S (wrote r d m)" and "sr_edge (wrote r d m) = sr_edge r"
    and "sr_wait_index (wrote r d m) =
      (if bs_input_ended (sr_output r) then sr_wait_index r else sr_wait_index r + length d)"
proof -
  let ?out = "sr_output r" and ?w = "ByteStream_write (sr_output r) d"
  have m: "bs_wf ?out" "sr_capacity r = bs_capacity ?out" "sr_capacity r < seq_limit"
    "sr_wait_index r = bs_bytes_read ?out + length (bs_buf ?out)" "sr_wait_index r \<le> seq_limit"
    "piece S (bs_bytes_read ?out) (bs_buf ?out)"
    using mid by (auto simp: sr_mid_def Let_def)
  have room: "length d + wm_bytes m \<le> bs_capacity ?out - length (bs_buf ?out)"
    using fits sr_mid_room [OF mid] m(2) by simp
  have n: "fst ?w = (if bs_input_ended ?out then 0 else length d)"
    using m(1) room by (simp add: bs.wr_count)
  have buf: "bs_buf (snd ?w) = bs_buf ?out @ (if bs_input_ended ?out then [] else d)"
    using m(1) n by (simp add: bs.wr_contents)
  have wi: "sz_add (sr_wait_index r) (fst ?w) =
      (if bs_input_ended ?out then sr_wait_index r else sr_wait_index r + length d)"
    using n d m(5) by (simp add: sz_add_small)
  show "sr_wait_index (wrote r d m) =
      (if bs_input_ended ?out then sr_wait_index r else sr_wait_index r + length d)"
    using wi by (simp add: wrote_def)
  show "sr_edge (wrote r d m) = sr_edge r" by (simp add: sr_edge_def wrote_def)
  have "piece S (bs_bytes_read ?out) (bs_buf (snd ?w))"
    using m(4,6) d(1) by (simp add: buf piece_Append)
  moreover have "length (bs_buf ?out) \<le> bs_capacity ?out" using m(1) by (simp add: bs_wf_def)
  ultimately show "sr_mid S (wrote r d m)"
    using m ok d(2) room wi
    by (auto simp: sr_mid_def Let_def wrote_def bs.wr_wf buf)
qed

text \<open>What assembling never touches.\<close>

definition sr_frame :: "stream_reassembler \<Rightarrow> stream_reassembler \<Rightarrow> bool" where
  "sr_frame r r' \<longleftrightarrow>
     sr_capacity r' = sr_capacity r \<and> sr_eof_index r' = sr_eof_index r \<and>
     sr_wait_index r \<le> sr_wait_index r' \<and>
     bs_bytes_read (sr_output r') = bs_bytes_read (sr_output r) \<and>
     bs_input_ended (sr_output r') = bs_input_ended (sr_output r) \<and>
     bs_error (sr_output r') = bs_error (sr_output r)"

lemma sr_frame_trans: "sr_frame r r' \<Longrightarrow> sr_frame r' r'' \<Longrightarrow> sr_frame r r''"
  by (auto simp: sr_frame_def)

lemma sr_frame_edge: "sr_frame r r' \<Longrightarrow> sr_edge r' = sr_edge r"
  by (simp add: sr_frame_def sr_edge_def)

lemma wrote_frame:
  assumes "sr_mid S r" "wm_ok S m" "piece S (sr_wait_index r) d"
    "sr_wait_index r + length d \<le> seq_limit" "length d + wm_bytes m \<le> sr_edge r - sr_wait_index r"
  shows "sr_frame r (wrote r d m)"
  using wrote_mid(3) [OF assms] by (auto simp: sr_frame_def wrote_def)

lemma reassemble_loop_spec:
  assumes "sr_mid S r"
  shows "\<exists>r'. reassemble_loop r = Inr r' \<and> sr_inv S r' \<and> sr_frame r r' \<and>
    (sr_tight r \<longrightarrow> sr_tight r') \<and>
    (\<not> bs_input_ended (sr_output r) \<longrightarrow> sr_known r' = sr_known r)"
  using assms
proof (induction "length (sr_wait_map r)" arbitrary: r rule: less_induct)
  case less
  let ?w = "sr_wait_index r" and ?t = "trim (sr_wait_index r) (sr_wait_map r)"
  let ?r1 = "r\<lparr>sr_wait_map := ?t\<rparr>"
  have ok: "wm_ok S (sr_wait_map r)" using less(2) by (simp add: sr_mid_def Let_def)
  note upd = update_waitmap_eq [OF less(2)]
  have mid1: "sr_mid S ?r1" using less(2) wm_ok_trim [OF ok] wm_bytes_trim by (rule sr_mid_kept)
  have tight1: "sr_tight r \<Longrightarrow> sr_tight ?r1"
    using tight_trim [of "sr_wait_map r" "sr_edge r"] by (simp add: sr_tight_def)
  have known1: "sr_known ?r1 = sr_known r" using wm_dom_trim [OF ok] by (simp add: sr_known_def)
  have frame1: "sr_frame r ?r1" by (simp add: sr_frame_def)
  show ?case
  proof (cases "std_find ?w ?t")
    case None
    then have "reassemble_loop r = Inr ?r1" by (subst reassemble_loop.simps) (simp add: upd)
    moreover have "\<forall>p \<in> set ?t. ?w < fst p"
      using trim_keys [OF ok] None by (force simp: le_less std_find_def map_of_eq_None_iff)
    ultimately show ?thesis using mid1 tight1 known1 frame1 by (auto simp: sr_inv_def)
  next
    case (Some d)
    let ?m = "std_erase ?w ?t"
    let ?r2 = "wrote ?r1 d ?m"
    note t = find_trim [OF ok Some]
    have tok: "wm_ok S ((?w, d) # ?m)" using wm_ok_trim [OF ok, of ?w] t by simp
    have d: "piece S ?w d" "?w + length d \<le> seq_limit" and mok: "wm_ok S ?m" using tok by auto
    have "wm_bytes ?t = length d + wm_bytes ?m" by (subst t) simp
    then have fits: "length d + wm_bytes ?m \<le> sr_edge ?r1 - sr_wait_index ?r1"
      using sr_mid_room [OF mid1] sr_mid_bytes [OF mid1] by simp
    note wm = wrote_mid [OF mid1 mok, of d] wrote_frame [OF mid1 mok, of d]
    have "length ?m < length (sr_wait_map r)"
    proof -
      have "length ?m < length ?t" by (subst t) simp
      also have "length ?t \<le> length (sr_wait_map r)"
        by (rule length_trim)
      finally show ?thesis .
    qed
    then obtain r' where r': "reassemble_loop ?r2 = Inr r'" "sr_inv S r'" "sr_frame ?r2 r'"
        "sr_tight ?r2 \<longrightarrow> sr_tight r'"
        "\<not> bs_input_ended (sr_output ?r2) \<longrightarrow> sr_known r' = sr_known ?r2"
      using less(1) [of ?r2] wm(1) d fits by (auto simp: wrote_def)
    have "reassemble_loop r = reassemble_loop ?r2"
      by (subst reassemble_loop.simps) (simp add: upd Some wrote_def split_beta)
    moreover have "sr_frame r r'"
      using frame1 wm(4) r'(3) d fits by (auto intro: sr_frame_trans)
    moreover have "sr_tight r \<Longrightarrow> sr_tight ?r2"
      using tight1 wm(2) d fits by (auto simp: sr_tight_def wrote_def std_erase_def)
    moreover have "sr_known ?r2 = sr_known r" if "\<not> bs_input_ended (sr_output r)"
    proof -
      have "sr_known ?r2 = {..<?w + length d} \<union> wm_dom ?m"
        using wm(3) d fits that by (simp add: sr_known_def) (simp add: wrote_def)
      also have "\<dots> = {..<?w} \<union> wm_dom ((?w, d) # ?m)" by auto
      also have "\<dots> = sr_known ?r1" using t by (simp add: sr_known_def)
      finally show ?thesis using known1 by simp
    qed
    ultimately show ?thesis using r' by (auto simp: wrote_def)
  qed
qed

end
