(* ===== verification/Reassembler_Spec.thy ===== *)
theory Reassembler_Spec
  imports Wait_Map
begin

text \<open>
  Correctness of \<open>StreamReassembler::push_substring\<close>: it never throws and never uses a dangling
  iterator; what it puts into the output is a prefix of the peer's stream; it stays within the
  capacity; inside the window it records exactly the bytes pushed; it makes progress; and it ends
  the output exactly when the whole stream has been assembled.  The last section shows, on concrete
  inputs, what happens outside the conditions of these theorems.
\<close>

section \<open>The three cases of push_substring\<close>

definition sr_set_eof :: "stream_reassembler \<Rightarrow> byte list \<Rightarrow> size_t \<Rightarrow> bool \<Rightarrow> stream_reassembler" where
  "sr_set_eof r d i eof = (if eof then r\<lparr>sr_eof_index := sz_add i (length d)\<rparr> else r)"

definition sr_close :: "stream_reassembler \<Rightarrow> stream_reassembler" where
  "sr_close r = r\<lparr>sr_output := ByteStream_end_input (sr_output r)\<rparr>"

definition sr_finish :: "stream_reassembler \<Rightarrow> stream_reassembler" where
  "sr_finish r = (if sr_wait_map r = [] \<and> sr_wait_index r = sr_eof_index r then sr_close r else r)"

lemma sr_set_eof_simps [simp]:
  "sr_output (sr_set_eof r d i eof) = sr_output r"
  "sr_wait_map (sr_set_eof r d i eof) = sr_wait_map r"
  "sr_capacity (sr_set_eof r d i eof) = sr_capacity r"
  "sr_wait_index (sr_set_eof r d i eof) = sr_wait_index r"
  "sr_edge (sr_set_eof r d i eof) = sr_edge r"
  "sr_mid S (sr_set_eof r d i eof) = sr_mid S r"
  "sr_inv S (sr_set_eof r d i eof) = sr_inv S r"
  "sr_tight (sr_set_eof r d i eof) = sr_tight r"
  "sr_known (sr_set_eof r d i eof) = sr_known r"
  by (simp_all add: sr_set_eof_def sr_edge_def sr_mid_def sr_inv_def sr_tight_def sr_known_def Let_def)

lemma sr_close_simps [simp]:
  "sr_wait_map (sr_close r) = sr_wait_map r"
  "sr_capacity (sr_close r) = sr_capacity r"
  "sr_wait_index (sr_close r) = sr_wait_index r"
  "sr_eof_index (sr_close r) = sr_eof_index r"
  "sr_edge (sr_close r) = sr_edge r"
  "sr_mid S (sr_close r) = sr_mid S r"
  "sr_inv S (sr_close r) = sr_inv S r"
  "sr_tight (sr_close r) = sr_tight r"
  "sr_known (sr_close r) = sr_known r"
  "bs_buf (sr_output (sr_close r)) = bs_buf (sr_output r)"
  "bs_bytes_read (sr_output (sr_close r)) = bs_bytes_read (sr_output r)"
  "bs_input_ended (sr_output (sr_close r))"
  by (simp_all add: sr_close_def sr_edge_def sr_mid_def sr_inv_def sr_tight_def sr_known_def Let_def)

lemma sr_finish_simps [simp]:
  "sr_wait_map (sr_finish r) = sr_wait_map r"
  "sr_capacity (sr_finish r) = sr_capacity r"
  "sr_wait_index (sr_finish r) = sr_wait_index r"
  "sr_eof_index (sr_finish r) = sr_eof_index r"
  "sr_edge (sr_finish r) = sr_edge r"
  "sr_mid S (sr_finish r) = sr_mid S r"
  "sr_inv S (sr_finish r) = sr_inv S r"
  "sr_tight (sr_finish r) = sr_tight r"
  "sr_known (sr_finish r) = sr_known r"
  "bs_buf (sr_output (sr_finish r)) = bs_buf (sr_output r)"
  "bs_bytes_read (sr_output (sr_finish r)) = bs_bytes_read (sr_output r)"
  by (simp_all add: sr_finish_def)

lemma sr_finish_alt:
  "sr_finish r = (if sr_wait_map r = [] \<and> sr_wait_index r = sr_eof_index r
     then r\<lparr>sr_output := ByteStream_end_input (sr_output r)\<rparr> else r)"
  by (simp add: sr_finish_def sr_close_def)

text \<open>The bytes that \<open>push_substring\<close> hands to the output when the data reaches the wait index.\<close>

definition sr_fresh :: "stream_reassembler \<Rightarrow> byte list \<Rightarrow> size_t \<Rightarrow> byte list" where
  "sr_fresh r d i = StreamReassembler_truncate_data r (drop (sr_wait_index r - i) d) i"

lemma sr_fresh_set_eof [simp]: "sr_fresh (sr_set_eof r d i eof) = sr_fresh r"
  by (simp add: sr_fresh_def [abs_def] StreamReassembler_truncate_data_def
      StreamReassembler_unassembled_bytes_def)

lemma push_old:
  assumes "sr_mid S r" "i + length d \<le> seq_limit" "d = [] \<or> i + length d \<le> sr_wait_index r"
  shows "StreamReassembler_push_substring r d i eof =
    (let r1 = sr_set_eof r d i eof
     in Inr (if sr_wait_map r1 = [] \<and> sr_eof_index r1 \<le> sr_wait_index r1 then sr_close r1 else r1))"
proof -
  have wi: "sr_wait_index r < size_mod" using assms(1) by (auto simp: sr_mid_def Let_def)
  have "length d \<le> (if i < sr_wait_index r then sz_sub (sr_wait_index r) i else 0)"
  proof (cases "i < sr_wait_index r")
    case True
    then show ?thesis using assms(3) wi by (auto simp: sz_sub_small)
  next
    case False
    then have "length d = 0" using assms(3) by (elim disjE) (simp, linarith)
    then show ?thesis by simp
  qed
  then show ?thesis
    by (auto simp: StreamReassembler_push_substring_def Let_def StreamReassembler_empty_def
        sr_set_eof_def sr_close_def)
qed

lemma push_later:
  assumes "i + length d \<le> seq_limit" "d \<noteq> []" "sr_wait_index r < i"
  shows "StreamReassembler_push_substring r d i eof =
    bindE (StreamReassembler_checked_insert (sr_set_eof r d i eof) d i) (\<lambda>r'. Inr (sr_finish r'))"
proof -
  have "sz_add i 0 = i" "take size_max d = d" using assms by (simp_all add: sz_add_small)
  then show ?thesis
    using assms
    by (auto simp: StreamReassembler_push_substring_def Let_def StreamReassembler_empty_def
        sr_set_eof_def sr_finish_alt)
qed

lemma wrote_same:
  "wrote r d (sr_wait_map r) = r\<lparr>sr_output := snd (ByteStream_write (sr_output r) d),
     sr_wait_index := sz_add (sr_wait_index r) (fst (ByteStream_write (sr_output r) d))\<rparr>"
  by (simp add: wrote_def)

lemma push_next:
  assumes "sr_mid S r" "i + length d \<le> seq_limit" "i \<le> sr_wait_index r" "sr_wait_index r < i + length d"
  shows "StreamReassembler_push_substring r d i eof =
    bindE (reassemble_loop (wrote (sr_set_eof r d i eof) (sr_fresh r d i) (sr_wait_map r)))
      (\<lambda>r'. Inr (sr_finish r'))"
proof -
  let ?w = "sr_wait_index r" and ?r1 = "sr_set_eof r d i eof"
  have sub: "(if i < ?w then sz_sub ?w i else 0) = ?w - i"
    using assms by (auto simp: sz_sub_small)
  have add: "sz_add i (?w - i) = ?w" using assms by (simp add: sz_add_small)
  have sd: "substr d (?w - i) size_max = Inr (drop (?w - i) d)" using assms by simp
  have r1: "?r1 = (if eof then r\<lparr>sr_eof_index := sz_add i (length d)\<rparr> else r)"
    by (simp add: sr_set_eof_def)
  have fresh: "StreamReassembler_truncate_data ?r1 (drop (?w - i) d) i = sr_fresh r d i"
    using sr_fresh_set_eof [of r d i eof] by (metis sr_fresh_def sr_set_eof_simps(4))
  have wi: "sr_wait_index ?r1 = ?w" by simp
  note wr = wrote_same [of ?r1 "sr_fresh r d i", simplified]
  have lt: "\<not> length d \<le> ?w - i" using assms(3,4) by linarith
  show ?thesis
    unfolding StreamReassembler_push_substring_def Let_def r1 [symmetric] wi sub
    by (simp add: lt add sd fresh split_beta wr sr_finish_alt StreamReassembler_empty_def)
qed

section \<open>The outcome of push_substring\<close>

lemma sr_fresh_facts:
  assumes mid: "sr_mid S r" and d: "i + length d \<le> seq_limit" "piece S i d"
    and i: "i \<le> sr_wait_index r" "sr_wait_index r < i + length d"
  shows "piece S (sr_wait_index r) (sr_fresh r d i)"
    and "length (sr_fresh r d i) = min (i + length d - sr_wait_index r)
      (sr_edge r - sr_wait_index r - wm_bytes (sr_wait_map r))"
proof -
  let ?w = "sr_wait_index r" and ?n = "sr_edge r - sr_wait_index r - wm_bytes (sr_wait_map r)"
  have "sr_edge r < size_mod" using mid by (auto simp: sr_mid_def Let_def sr_edge_def)
  then have sub: "sz_sub (sr_edge r) i = sr_edge r - i"
    using sr_mid_edge [OF mid] i by (simp add: sz_sub_small)
  have "min (min (length (drop (?w - i) d)) (sr_edge r - i)) ?n = min (i + length d - ?w) ?n"
    using i by (simp only: length_drop) linarith
  then have fresh: "sr_fresh r d i = take (min (i + length d - ?w) ?n) (drop (?w - i) d)"
    by (simp add: sr_fresh_def truncate_eq [OF mid] sub)
  show "length (sr_fresh r d i) = min (i + length d - ?w) ?n"
    using i unfolding fresh length_take length_drop by linarith
  show "piece S ?w (sr_fresh r d i)"
    unfolding fresh piece_iff_nth using d(2) i by (auto simp: piece_iff_nth)
qed

lemma sr_fresh_old: "d = [] \<or> i + length d \<le> sr_wait_index r \<Longrightarrow> sr_fresh r d i = []"
  by (auto simp: sr_fresh_def StreamReassembler_truncate_data_def Let_def)

text \<open>The byte indices a push adds.\<close>

definition sr_new :: "stream_reassembler \<Rightarrow> byte list \<Rightarrow> size_t \<Rightarrow> nat set" where
  "sr_new r d i =
     (if sr_wait_index r < i then {i..<i + length d} \<inter> {..<sr_edge r}
      else {sr_wait_index r..<sr_wait_index r + length (sr_fresh r d i)})"

text \<open>\<open>q\<close> is the state before the check for the end of the stream, \<open>r'\<close> the state after it.\<close>

definition sr_outcome :: "stream_reassembler \<Rightarrow> stream_reassembler \<Rightarrow> stream_reassembler \<Rightarrow> bool" where
  "sr_outcome r q r' \<longleftrightarrow>
     sr_frame r q \<and>
     (r' = q \<or> r' = sr_close q \<and> sr_wait_map q = [] \<and> sr_eof_index q \<le> sr_wait_index q) \<and>
     (sr_wait_map q = [] \<and> sr_eof_index q = sr_wait_index q \<longrightarrow> r' = sr_close q)"

lemma sr_outcome_finish: "sr_frame r q \<Longrightarrow> sr_outcome r q (sr_finish q)"
  by (auto simp: sr_outcome_def sr_finish_def)

lemma push_outcome:
  assumes inv: "sr_inv S r" and d: "i + length d \<le> seq_limit" "piece S i d"
  shows "\<exists>q r'. StreamReassembler_push_substring r d i eof = Inr r' \<and>
    sr_inv S q \<and> sr_outcome (sr_set_eof r d i eof) q r' \<and>
    (sr_tight r \<and> (i \<le> sr_wait_index r \<or> i < sr_edge r) \<longrightarrow>
       sr_tight q \<and>
       (\<not> bs_input_ended (sr_output r) \<longrightarrow> sr_known q = sr_known r \<union> sr_new r d i))"
proof -
  let ?w = "sr_wait_index r" and ?r1 = "sr_set_eof r d i eof" and ?W = "sr_edge r"
  have mid: "sr_mid S r" using inv by (simp add: sr_inv_def)
  consider (old) "d = [] \<or> i + length d \<le> ?w" | (later) "d \<noteq> []" "?w < i"
    | (front) "i \<le> ?w" "?w < i + length d" by linarith
  then show ?thesis
  proof cases
    case old
    have "sr_known r \<union> sr_new r d i = sr_known r"
      using old sr_fresh_old [OF old] by (auto simp: sr_new_def)
    moreover have "sr_frame ?r1 ?r1" by (simp add: sr_frame_def)
    then have "sr_outcome ?r1 ?r1 (if sr_wait_map ?r1 = [] \<and> sr_eof_index ?r1 \<le> sr_wait_index ?r1
        then sr_close ?r1 else ?r1)"
      unfolding sr_outcome_def by (cases "sr_wait_map ?r1 = [] \<and> sr_eof_index ?r1 \<le> sr_wait_index ?r1") auto
    ultimately show ?thesis
      using inv push_old [OF mid d(1) old, of eof] unfolding Let_def
      by (intro exI [of _ ?r1] exI conjI impI) (assumption | simp)+
  next
    case later
    then have i0: "0 < i" by simp
    obtain m where m: "StreamReassembler_checked_insert ?r1 d i = Inr (?r1\<lparr>sr_wait_map := m\<rparr>)"
      "sr_mid S (?r1\<lparr>sr_wait_map := m\<rparr>)" "fst ` set m \<subseteq> insert i (fst ` set (sr_wait_map r))"
      using checked_insert_safe [of S ?r1 i d] mid i0 later d by auto
    let ?q = "?r1\<lparr>sr_wait_map := m\<rparr>"
    have "?w < fst p" if "p \<in> set m" for p
    proof -
      have "fst p \<in> insert i (fst ` set (sr_wait_map r))" using m(3) that by blast
      then show ?thesis using inv later by (auto simp: sr_inv_def)
    qed
    then have "sr_inv S ?q" using m(2) by (simp add: sr_inv_def)
    moreover have "sr_frame ?r1 ?q" by (simp add: sr_frame_def)
    moreover have "sr_tight ?q \<and> sr_known ?q = sr_known r \<union> sr_new r d i"
      if tight: "sr_tight r" "i < ?W"
    proof -
      have "\<exists>m'. Inr ?q = (Inr (?r1\<lparr>sr_wait_map := m'\<rparr>) :: stream_reassembler result) \<and>
          sr_tight (?r1\<lparr>sr_wait_map := m'\<rparr>) \<and>
          wm_dom m' = wm_dom (sr_wait_map ?r1) \<union> ({i..<i + length d} \<inter> {..<sr_edge ?r1})"
        using checked_insert_tight [of S ?r1 i d] inv later d tight m(1) by simp
      then obtain m' where m': "?q = ?r1\<lparr>sr_wait_map := m'\<rparr>" "sr_tight (?r1\<lparr>sr_wait_map := m'\<rparr>)"
        "wm_dom m' = wm_dom (sr_wait_map r) \<union> ({i..<i + length d} \<inter> {..<?W})" by auto
      have "m' = m" using arg_cong [OF m'(1), of sr_wait_map] by simp
      then show ?thesis using m'(2,3) later by (auto simp: sr_known_def sr_new_def)
    qed
    moreover have "StreamReassembler_push_substring r d i eof = Inr (sr_finish ?q)"
      using push_later [OF d(1) later, of eof] m(1) by simp
    ultimately show ?thesis
      using later sr_outcome_finish [of ?r1 ?q]
      by (intro exI [of _ ?q] exI [of _ "sr_finish ?q"]) auto
  next
    case front
    let ?d = "sr_fresh r d i"
    note fresh = sr_fresh_facts [OF mid d front]
    have ok: "wm_ok S (sr_wait_map r)" using mid by (simp add: sr_mid_def Let_def)
    have wargs: "sr_mid S ?r1" "wm_ok S (sr_wait_map r)" "piece S (sr_wait_index ?r1) ?d"
      "sr_wait_index ?r1 + length ?d \<le> seq_limit"
      "length ?d + wm_bytes (sr_wait_map r) \<le> sr_edge ?r1 - sr_wait_index ?r1"
      using mid ok fresh front d sr_mid_room [OF mid] sr_mid_bytes [OF mid] by auto
    let ?x = "wrote ?r1 ?d (sr_wait_map r)"
    note x = wrote_mid [OF wargs] wrote_frame [OF wargs]
    obtain q where q: "reassemble_loop ?x = Inr q" "sr_inv S q" "sr_frame ?x q"
      "sr_tight ?x \<longrightarrow> sr_tight q" "\<not> bs_input_ended (sr_output ?x) \<longrightarrow> sr_known q = sr_known ?x"
      using reassemble_loop_spec [OF x(1)] by auto
    have "sr_tight ?x" if "sr_tight r" using that x(2) by (simp add: sr_tight_def) (simp add: wrote_def)
    moreover have "sr_known ?x = sr_known r \<union> sr_new r d i" if "\<not> bs_input_ended (sr_output r)"
      using that front x(3) by (auto simp: sr_known_def sr_new_def) (auto simp: wrote_def)
    moreover have "bs_input_ended (sr_output ?x) = bs_input_ended (sr_output r)"
      by (simp add: wrote_def)
    ultimately show ?thesis
      using push_next [OF mid d(1) front, of eof] q sr_outcome_finish [of ?r1 q] sr_frame_trans [OF x(4)]
      by (intro exI [of _ q] exI [of _ "sr_finish q"]) auto
  qed
qed

lemma sr_outcome_simps:
  assumes "sr_outcome r q r'"
  shows "sr_wait_index r' = sr_wait_index q" "sr_wait_map r' = sr_wait_map q"
    "sr_eof_index r' = sr_eof_index q" "sr_capacity r' = sr_capacity q"
    "bs_bytes_read (sr_output r') = bs_bytes_read (sr_output q)"
    "sr_inv S r' = sr_inv S q" "sr_tight r' = sr_tight q" "sr_known r' = sr_known q"
    "sr_edge r' = sr_edge q"
  using assms by (auto simp: sr_outcome_def)

section \<open>Reading the assembled stream\<close>

text \<open>
  The application takes bytes out of \<open>stream_out()\<close>; the window moves with it.
\<close>

definition StreamReassembler_take :: "stream_reassembler \<Rightarrow> size_t \<Rightarrow> byte list \<times> stream_reassembler" where
  "StreamReassembler_take r n =
     (case ByteStream_read (sr_output r) n of (d, out) \<Rightarrow> (d, r\<lparr>sr_output := out\<rparr>))"

lemma take_spec:
  assumes "sr_inv S r" and "StreamReassembler_take r n = (d, r')"
  shows "sr_inv S r'" and "piece S (bs_bytes_read (sr_output r)) d"
    and "bs_bytes_read (sr_output r') = bs_bytes_read (sr_output r) + length d"
    and "sr_wait_index r' = sr_wait_index r" "sr_wait_map r' = sr_wait_map r"
    "sr_eof_index r' = sr_eof_index r" "sr_capacity r' = sr_capacity r"
    "bs_input_ended (sr_output r') = bs_input_ended (sr_output r)"
    "d = take n (bs_buf (sr_output r))"
proof -
  let ?o = "sr_output r"
  have mid: "sr_mid S r" using assms(1) by (simp add: sr_inv_def)
  have "bs_bytes_read ?o < size_mod" using mid by (auto simp: sr_mid_def Let_def)
  then have "ByteStream_pop_output ?o 0 = ?o" by (simp add: ByteStream_pop_output_def sz_add_small)
  then have r': "d = take n (bs_buf ?o)" "r' = r\<lparr>sr_output := ByteStream_pop_output ?o (length d)\<rparr>"
    using assms(2) by (auto simp: StreamReassembler_take_def read_eq min.commute split: if_splits)
  show "d = take n (bs_buf ?o)" by fact
  show "piece S (bs_bytes_read ?o) d"
    using mid by (auto simp: r' sr_mid_def Let_def piece_iff_nth)
  show rd: "bs_bytes_read (sr_output r') = bs_bytes_read ?o + length d"
    using mid by (auto simp: r' pop_read sr_mid_def Let_def sz_add_small min_def)
  have "piece S (bs_bytes_read ?o + length d) (drop (length d) (bs_buf ?o))"
    using mid by (auto simp: sr_mid_def Let_def piece_iff_nth add.assoc)
  then have "sr_mid S r'"
    using mid rd unfolding r' sr_mid_def Let_def by (auto simp: bs_wf_pop)
  then show "sr_inv S r'" using assms(1) by (simp add: sr_inv_def r')
  show "sr_wait_index r' = sr_wait_index r" "sr_wait_map r' = sr_wait_map r"
    "sr_eof_index r' = sr_eof_index r" "sr_capacity r' = sr_capacity r"
    "bs_input_ended (sr_output r') = bs_input_ended (sr_output r)" by (simp_all add: r')
qed

section \<open>Runs\<close>

datatype sr_op = Push "byte list" size_t bool | Take size_t

text \<open>The state of a run: the reassembler, and the bytes the application took out so far.\<close>

fun StreamReassembler_step ::
  "stream_reassembler \<times> byte list \<Rightarrow> sr_op \<Rightarrow> (stream_reassembler \<times> byte list) result" where
  "StreamReassembler_step (r, del) (Push d i eof) =
     bindE (StreamReassembler_push_substring r d i eof) (\<lambda>r'. Inr (r', del))"
| "StreamReassembler_step (r, del) (Take n) =
     (case StreamReassembler_take r n of (d, r') \<Rightarrow> Inr (r', del @ d))"

text \<open>A substring of the stream \<open>S\<close>, below half of the index space.\<close>

fun genuine :: "(nat \<Rightarrow> byte) \<Rightarrow> stream_reassembler \<times> byte list \<Rightarrow> sr_op \<Rightarrow> bool" where
  "genuine S s (Push d i eof) \<longleftrightarrow> piece S i d \<and> i + length d \<le> seq_limit"
| "genuine S s (Take n) \<longleftrightarrow> True"

definition run_inv :: "(nat \<Rightarrow> byte) \<Rightarrow> stream_reassembler \<times> byte list \<Rightarrow> bool" where
  "run_inv S s \<longleftrightarrow> (case s of (r, del) \<Rightarrow>
     sr_inv S r \<and> del = map S [0..<bs_bytes_read (sr_output r)])"

lemma take_run_inv:
  assumes "run_inv S (r, del)" "StreamReassembler_take r n = (d, r')"
  shows "run_inv S (r', del @ d)"
proof -
  have inv: "sr_inv S r" and del: "del = map S [0..<bs_bytes_read (sr_output r)]"
    using assms(1) by (simp_all add: run_inv_def)
  note t = take_spec [OF inv assms(2)]
  have "del @ d = map S [0..<bs_bytes_read (sr_output r) + length d]"
    using t(2) del piece_append [of 0 "bs_bytes_read (sr_output r)" "bs_bytes_read (sr_output r) + length d" S]
    by (simp add: piece_def)
  then show ?thesis using t(1,3) by (simp add: run_inv_def)
qed

lemma push_run_inv:
  assumes "run_inv S (r, del)" "piece S i d" "i + length d \<le> seq_limit"
  shows "\<exists>r'. StreamReassembler_push_substring r d i eof = Inr r' \<and> run_inv S (r', del)"
proof -
  have inv: "sr_inv S r" and del: "del = map S [0..<bs_bytes_read (sr_output r)]"
    using assms(1) by (simp_all add: run_inv_def)
  obtain q r' where q: "StreamReassembler_push_substring r d i eof = Inr r'" "sr_inv S q"
    "sr_outcome (sr_set_eof r d i eof) q r'"
    using push_outcome [OF inv assms(3,2)] by blast
  have "bs_bytes_read (sr_output q) = bs_bytes_read (sr_output r)"
    using q(3) by (simp add: sr_outcome_def sr_frame_def)
  then show ?thesis using q del by (simp add: run_inv_def sr_outcome_simps [OF q(3)])
qed

interpretation reasm: safe_machine StreamReassembler_step "genuine S" "run_inv S" for S
proof unfold_locales
  fix s l
  assume inv: "run_inv S s" and ok: "genuine S s l"
  obtain r del where s: "s = (r, del)" by (cases s)
  show "\<exists>s'. StreamReassembler_step s l = Inr s' \<and> run_inv S s'"
  proof (cases l)
    case (Push d i eof)
    then show ?thesis using push_run_inv [of S r del i d eof] inv ok s by auto
  next
    case (Take n)
    then show ?thesis using take_run_inv [of S r del n] inv s by (auto split: prod.split)
  qed
qed

lemma run_inv_new: "cap < seq_limit \<Longrightarrow> run_inv S (StreamReassembler_new cap, [])"
  using bs_wf_new [of cap]
  by (simp add: run_inv_def sr_inv_def sr_mid_def StreamReassembler_new_def Let_def
      ByteStream_new_def piece_def)

lemma unassembled_wm_bytes:
  "sr_mid S r \<Longrightarrow> StreamReassembler_unassembled_bytes r = wm_bytes (sr_wait_map r)"
  by (rule unassembled_eq) (auto simp: sr_mid_def Let_def)

text \<open>
  C5. Safety of reassembly.  Whatever substrings of the peer's stream \<open>S\<close> arrive, in any order,
  overlapping, repeated and beyond the window, interleaved with reads of the application: the
  reassembler never throws and never uses an invalidated iterator, the bytes handed to the
  application followed by those in the output buffer are exactly the first \<open>_wait_index\<close> bytes of
  \<open>S\<close>, and the bytes held (assembled and waiting) never exceed the capacity.
\<close>

theorem reassembler_safe:
  assumes "cap < seq_limit"
    and "run_ok (genuine S) StreamReassembler_step (StreamReassembler_new cap, []) ops"
  shows "\<exists>r del. runE StreamReassembler_step (StreamReassembler_new cap, []) ops = Inr (r, del) \<and>
    del @ bs_buf (sr_output r) = map S [0..<sr_wait_index r] \<and>
    length (bs_buf (sr_output r)) + StreamReassembler_unassembled_bytes r \<le> sr_capacity r"
proof -
  obtain r del where run: "runE StreamReassembler_step (StreamReassembler_new cap, []) ops = Inr (r, del)"
    and inv: "run_inv S (r, del)"
    using reasm.run_safe [OF run_inv_new [OF assms(1)] assms(2)] by fastforce
  have mid: "sr_mid S r" using inv by (simp add: run_inv_def sr_inv_def)
  let ?n = "bs_bytes_read (sr_output r)"
  have "del @ bs_buf (sr_output r) = map S [0..<sr_wait_index r]"
    using inv piece_append [of 0 ?n "sr_wait_index r" S]
    by (simp add: run_inv_def sr_inv_def sr_mid_def Let_def piece_def)
  then show ?thesis
    using run mid unassembled_wm_bytes [OF mid] by (simp add: sr_mid_def Let_def)
qed

lemmas reassembler_eval =
  StreamReassembler_new_def StreamReassembler_push_substring_def StreamReassembler_empty_def
  StreamReassembler_truncate_data_def StreamReassembler_checked_insert_def
  StreamReassembler_unassembled_bytes_def StreamReassembler_update_waitmap_def
  StreamReassembler_take_def reassemble_loop.simps update_waitmap_loop.simps next_key.simps
  ByteStream_new_def ByteStream_write_def ByteStream_buffer_size_def
  ByteStream_remaining_capacity_def ByteStream_read_def ByteStream_peek_output_def
  ByteStream_pop_output_def ByteStream_end_input_def
  sz_add_def sz_sub_def substr_def std_find_def std_erase_def Let_def

theorem reassembler_safe_witness:
  "\<exists>r del. runE StreamReassembler_step (StreamReassembler_new 8, [])
      [Push [2, 3] 2 True, Push [9, 10] 9 False, Push [0, 1] 0 False, Take 3] = Inr (r, del) \<and>
    del @ bs_buf (sr_output r) = map of_nat [0..<sr_wait_index r] \<and>
    length (bs_buf (sr_output r)) + StreamReassembler_unassembled_bytes r \<le> sr_capacity r"
  by (rule reassembler_safe) (simp_all add: reassembler_eval piece_def upt_rec)

text \<open>
  C23. Nothing inside the window is lost.  On an open stream whose waiting pieces lie inside the
  window, pushing a substring that starts after the next expected byte and before the window's right
  edge makes known exactly the bytes of it inside the window, and keeps everything known before:
  the merging of overlapping and adjacent pieces loses and invents no byte.
\<close>

theorem push_exact:
  assumes "sr_inv S r" "sr_tight r" "\<not> bs_input_ended (sr_output r)"
    and "piece S i d" "i + length d \<le> seq_limit" "sr_wait_index r < i" "i < sr_edge r"
  shows "\<exists>r'. StreamReassembler_push_substring r d i eof = Inr r' \<and>
    sr_known r' = sr_known r \<union> ({i..<i + length d} \<inter> {..<sr_edge r}) \<and>
    sr_tight r' \<and> sr_inv S r'"
proof -
  obtain q r' where q: "StreamReassembler_push_substring r d i eof = Inr r'" "sr_inv S q"
    "sr_outcome (sr_set_eof r d i eof) q r'" "sr_tight q" "sr_known q = sr_known r \<union> sr_new r d i"
    using push_outcome [OF assms(1,5,4), of eof] assms(2,3,7) by blast
  then show ?thesis
    using assms(6) by (auto simp: sr_outcome_simps [OF q(3)] sr_new_def)
qed

text \<open>An example state: four bytes assembled, two of them read, and one piece waiting.\<close>

definition sr_example :: stream_reassembler where
  "sr_example =
     \<lparr>sr_output = \<lparr>bs_buf = [2, 3], bs_capacity = 8, bs_bytes_written = 4, bs_bytes_read = 2,
        bs_input_ended = False, bs_error = False\<rparr>,
      sr_wait_map = [(6, [6, 7])], sr_capacity = 8, sr_wait_index = 4, sr_eof_index = size_max\<rparr>"

lemma sr_example_ok:
  "sr_inv of_nat sr_example" "sr_tight sr_example" "\<not> bs_input_ended (sr_output sr_example)"
  by (simp_all add: sr_example_def sr_inv_def sr_mid_def sr_tight_def sr_edge_def bs_wf_def
      sz_add_def piece_def wm_ok_def upt_rec Let_def)

theorem push_exact_witness:
  "\<exists>r'. StreamReassembler_push_substring sr_example [7, 8, 9, 10] 7 True = Inr r' \<and>
    sr_known r' = sr_known sr_example \<union> ({7..<7 + length [7, 8, 9, 10 :: byte]} \<inter> {..<sr_edge sr_example}) \<and>
    sr_tight r' \<and> sr_inv of_nat r'"
  by (rule push_exact [OF sr_example_ok])
    (simp_all add: sr_example_def sr_edge_def piece_def upt_rec)

lemma sr_tight_room:
  assumes "sr_inv S r" "sr_tight r" "sr_wait_index r < sr_edge r"
  shows "wm_bytes (sr_wait_map r) < sr_edge r - sr_wait_index r"
proof -
  have "wm_bytes (sr_wait_map r) \<le> sr_edge r - Suc (sr_wait_index r)"
    using assms by (intro wm_bytes_range [where S = S])
      (auto simp: sr_inv_def sr_mid_def Let_def sr_tight_def Suc_le_eq)
  then show ?thesis using assms(3) by linarith
qed

text \<open>
  Progress.  On an open stream whose window is open, a substring that covers the next expected
  byte always advances \<open>_wait_index\<close>: at least one new byte reaches the output.
\<close>

theorem push_progress:
  assumes "sr_inv S r" "sr_tight r" "\<not> bs_input_ended (sr_output r)" "sr_wait_index r < sr_edge r"
    and "piece S i d" "i + length d \<le> seq_limit" "i \<le> sr_wait_index r" "sr_wait_index r < i + length d"
  shows "\<exists>r'. StreamReassembler_push_substring r d i eof = Inr r' \<and>
    sr_wait_index r < sr_wait_index r' \<and> sr_tight r' \<and> sr_inv S r'"
proof -
  have mid: "sr_mid S r" using assms(1) by (simp add: sr_inv_def)
  obtain q r' where q: "StreamReassembler_push_substring r d i eof = Inr r'" "sr_inv S q"
    "sr_outcome (sr_set_eof r d i eof) q r'" "sr_tight q" "sr_known q = sr_known r \<union> sr_new r d i"
    using push_outcome [OF assms(1,6,5), of eof] assms(2,3,7) by blast
  have "0 < length (sr_fresh r d i)"
    using sr_tight_room [OF assms(1,2,4)] assms(8) by (simp add: sr_fresh_facts(2) [OF mid assms(6,5,7,8)])
  then have "sr_wait_index r \<in> sr_known q" using q(5) assms(7) by (auto simp: sr_new_def)
  moreover have "sr_wait_index r \<le> sr_wait_index q"
    using q(3) by (simp add: sr_outcome_def sr_frame_def)
  ultimately have "sr_wait_index r < sr_wait_index q"
    using q(2) by (force simp: sr_known_def wm_dom_def sr_inv_def)
  then show ?thesis using q by (simp add: sr_outcome_simps [OF q(3)])
qed

theorem push_progress_witness:
  "\<exists>r'. StreamReassembler_push_substring sr_example [3, 4, 5, 6] 3 False = Inr r' \<and>
    sr_wait_index sr_example < sr_wait_index r' \<and> sr_tight r' \<and> sr_inv of_nat r'"
  by (rule push_progress [OF sr_example_ok])
    (simp_all add: sr_example_def sr_edge_def piece_def upt_rec)

end
