(* ===== verification/Reassembler_Eof.thy ===== *)
theory Reassembler_Eof
  imports Reassembler_Spec
begin

text \<open>
  The end of the stream in the reassembler: when \<open>end_input\<close> is called on the output.  The peer's
  stream has \<open>N\<close> bytes, every substring ends at or before \<open>N\<close>, and the \<open>eof\<close> flag is set on substrings
  that end at \<open>N\<close>.  The substrings may lie anywhere, also beyond the window.  The last part evaluates the
  code on inputs that show where it differs from the documented behaviour.
\<close>

section \<open>Nothing beyond the end of the stream\<close>

fun marked :: "(nat \<Rightarrow> byte) \<Rightarrow> nat \<Rightarrow> stream_reassembler \<times> byte list \<Rightarrow> sr_op \<Rightarrow> bool" where
  "marked S N s (Push d i eof) \<longleftrightarrow> piece S i d \<and> i + length d \<le> N \<and> (eof \<longrightarrow> i + length d = N)"
| "marked S N s (Take n) \<longleftrightarrow> True"

text \<open>
  What waits lies below \<open>N\<close>.  The truncation of a substring beyond the window can leave an entry without
  bytes behind; its key is below \<open>N\<close> as well.
\<close>

definition wm_below :: "nat \<Rightarrow> (size_t, byte list) std_map \<Rightarrow> bool" where
  "wm_below N m \<longleftrightarrow> (\<forall>p \<in> set m. fst p < N \<and> fst p + length (snd p) \<le> N)"

lemma wm_below_dom: "wm_below N m \<Longrightarrow> wm_dom m \<subseteq> {..<N}"
  by (fastforce simp: wm_below_def wm_dom_def)

lemma wm_below_trim: "wm_below N m \<Longrightarrow> wm_below N (trim w m)"
  by (induction w m rule: trim.induct) (auto simp: wm_below_def)

lemma checked_insert_below:
  assumes "sr_mid S r" "0 < i" "d \<noteq> []" "i + length d \<le> N" "N \<le> seq_limit" "piece S i d"
    and "wm_below N (sr_wait_map r)" "StreamReassembler_checked_insert r d i = Inr r'"
  shows "wm_below N (sr_wait_map r')"
proof -
  have le: "i + length d \<le> seq_limit" using assms(4,5) by simp
  show ?thesis
    using assms(1,2,3) le assms(6)
  proof (cases rule: checked_insert_cases)
    case (contained p)
    then show ?thesis using assms(7,8) by simp
  next
    case (merged i' hi kept)
    let ?t = "StreamReassembler_truncate_data (r\<lparr>sr_wait_map := kept\<rparr>) (map S [i'..<hi]) i'"
    have mr: "i' \<le> i" "i + length d - 1 < hi"
      "wm_dom (sr_wait_map r) \<union> {i..<Suc (i + length d - 1)} = wm_dom kept \<union> {i'..<hi}"
      using merged(1,2) by (auto simp: merge_result_def)
    have d: "0 < length d" using assms(3) by simp
    have "i' < hi" using mr(1,2) d by linarith
    then have "hi - 1 \<in> {i'..<hi}" by auto
    then have "hi - 1 \<in> wm_dom (sr_wait_map r) \<union> {i..<i + length d}" using mr(3) d by (auto simp del: atLeastLessThan_iff)
    then have hi: "hi \<le> N" using wm_below_dom [OF assms(7)] assms(4) by auto
    have "length ?t \<le> hi - i'" by (simp add: StreamReassembler_truncate_data_def Let_def)
    then have "i' < N \<and> i' + length ?t \<le> N" using mr(1,2) d hi assms(4) by linarith
    moreover have "wm_below N kept" using assms(7) merged(1) by (simp add: wm_below_def)
    ultimately show ?thesis
      using assms(8) merged(3) set_std_insert_subset [of i' ?t kept] by (auto simp: wm_below_def)
  qed
qed

lemma reassemble_loop_below:
  assumes "sr_mid S r" "\<not> bs_input_ended (sr_output r)" "sr_wait_index r \<le> N" "wm_below N (sr_wait_map r)"
    and "reassemble_loop r = Inr r'"
  shows "sr_wait_index r' \<le> N \<and> wm_below N (sr_wait_map r')"
  using assms
proof (induction "length (sr_wait_map r)" arbitrary: r rule: less_induct)
  case less
  let ?w = "sr_wait_index r" and ?t = "trim (sr_wait_index r) (sr_wait_map r)"
  let ?r1 = "r\<lparr>sr_wait_map := ?t\<rparr>"
  have ok: "wm_ok S (sr_wait_map r)" using less(2) by (simp add: sr_mid_def Let_def)
  note upd = update_waitmap_eq [OF less(2)]
  have mid1: "sr_mid S ?r1" using less(2) wm_ok_trim [OF ok] wm_bytes_trim by (rule sr_mid_kept)
  have below: "wm_below N ?t" using less(5) by (rule wm_below_trim)
  show ?case
  proof (cases "std_find ?w ?t")
    case None
    then have "reassemble_loop r = Inr ?r1" by (subst reassemble_loop.simps) (simp add: upd)
    then show ?thesis using less(4,6) below by auto
  next
    case (Some d)
    let ?m = "std_erase ?w ?t"
    let ?r2 = "wrote ?r1 d ?m"
    note t = find_trim [OF ok Some]
    have tok: "wm_ok S ((?w, d) # ?m)" using wm_ok_trim [OF ok, of ?w] t by simp
    have d: "piece S ?w d" "?w + length d \<le> seq_limit" and mok: "wm_ok S ?m" using tok by auto
    have "wm_below N ((?w, d) # ?m)" using below by (subst (asm) t)
    then have b: "?w + length d \<le> N" "wm_below N ?m" by (simp_all add: wm_below_def)
    have "wm_bytes ?t = length d + wm_bytes ?m" by (subst t) simp
    then have fits: "length d + wm_bytes ?m \<le> sr_edge ?r1 - sr_wait_index ?r1"
      using sr_mid_room [OF mid1] sr_mid_bytes [OF mid1] by simp
    have mid2: "sr_mid S ?r2" "sr_wait_index ?r2 = ?w + length d"
      using wrote_mid [OF mid1 mok, of d] d fits less(3) by auto
    have "length ?m < length ?t" by (subst t) simp
    then have "length (sr_wait_map ?r2) < length (sr_wait_map r)"
      using length_trim [of ?w "sr_wait_map r"] by (simp add: wrote_def)
    moreover have "reassemble_loop r = reassemble_loop ?r2"
      by (subst reassemble_loop.simps) (simp add: upd Some wrote_def split_beta)
    moreover have "\<not> bs_input_ended (sr_output ?r2)" using less(3) by (simp add: wrote_def)
    moreover have "wm_below N (sr_wait_map ?r2)" using b(2) by (simp add: wrote_def)
    ultimately show ?thesis using less(1) [of ?r2] less(6) mid2 b(1) by simp
  qed
qed

lemma push_below:
  assumes inv: "sr_inv S r" and d: "piece S i d" "i + length d \<le> N" "N \<le> seq_limit"
    and bnd: "sr_wait_index r \<le> N" "wm_below N (sr_wait_map r)" "\<not> bs_input_ended (sr_output r)"
    and push: "StreamReassembler_push_substring r d i eof = Inr r'"
  shows "sr_wait_index r' \<le> N \<and> wm_below N (sr_wait_map r')"
proof -
  let ?w = "sr_wait_index r" and ?r1 = "sr_set_eof r d i eof"
  have mid: "sr_mid S r" and le: "i + length d \<le> seq_limit" using inv d by (simp_all add: sr_inv_def)
  consider (old) "d = [] \<or> i + length d \<le> ?w" | (later) "d \<noteq> []" "?w < i"
    | (front) "i \<le> ?w" "?w < i + length d" by linarith
  then show ?thesis
  proof cases
    case old
    have "r' = sr_close ?r1 \<or> r' = ?r1"
      using trans [OF push_old [OF mid le old, symmetric] push] by (auto simp: Let_def split: if_splits)
    then show ?thesis using bnd(1,2) by (elim disjE) simp_all
  next
    case later
    have i: "0 < i" "sr_mid S ?r1" "wm_below N (sr_wait_map ?r1)" using later(2) mid bnd(2) by simp_all
    have "bindE (StreamReassembler_checked_insert ?r1 d i) (\<lambda>q. Inr (sr_finish q)) = Inr r'"
      by (rule trans [OF push_later [OF le later, symmetric] push])
    then obtain q where q: "StreamReassembler_checked_insert ?r1 d i = Inr q" "r' = sr_finish q"
      unfolding bindE_eq_Inr_iff by blast
    obtain m where "q = ?r1\<lparr>sr_wait_map := m\<rparr>" using checked_insert_safe [OF i(2,1) later(1) le d(1)] q(1) by auto
    moreover have "wm_below N (sr_wait_map q)" by (rule checked_insert_below [OF i(2,1) later(1) d(2,3,1) i(3) q(1)])
    ultimately show ?thesis using bnd(1) q(2) by simp
  next
    case front
    let ?d = "sr_fresh r d i" and ?x = "wrote ?r1 (sr_fresh r d i) (sr_wait_map r)"
    note fresh = sr_fresh_facts [OF mid le d(1) front]
    have "wm_ok S (sr_wait_map r)" using mid by (simp add: sr_mid_def Let_def)
    moreover have "length ?d + wm_bytes (sr_wait_map r) \<le> sr_edge ?r1 - sr_wait_index ?r1"
      using fresh(2) sr_mid_room [OF mid] sr_mid_bytes [OF mid] by simp
    moreover have end_le: "?w + length ?d \<le> N" using fresh(2) front d(2) by linarith
    ultimately have x: "sr_mid S ?x" "sr_wait_index ?x = ?w + length ?d"
      using wrote_mid [of S ?r1 "sr_wait_map r" ?d] mid fresh(1) bnd(3) d(3) by simp_all
    have "bindE (reassemble_loop ?x) (\<lambda>q. Inr (sr_finish q)) = Inr r'"
      by (rule trans [OF push_next [OF mid le front, symmetric] push])
    then obtain q where q: "reassemble_loop ?x = Inr q" "r' = sr_finish q"
      unfolding bindE_eq_Inr_iff by blast
    have "\<not> bs_input_ended (sr_output ?x)" "sr_wait_map ?x = sr_wait_map r" using bnd(3) by (simp_all add: wrote_def)
    then show ?thesis
      using reassemble_loop_below [OF x(1) _ _ _ q(1), of N] x(2) end_le bnd(2) q(2) by simp
  qed
qed

section \<open>The end of the stream\<close>

definition eof_inv :: "(nat \<Rightarrow> byte) \<Rightarrow> nat \<Rightarrow> stream_reassembler \<times> byte list \<Rightarrow> bool" where
  "eof_inv S N s \<longleftrightarrow> (case s of (r, del) \<Rightarrow>
     N \<le> seq_limit \<and> sr_inv S r \<and> sr_wait_index r \<le> N \<and> wm_below N (sr_wait_map r) \<and>
     sr_eof_index r \<in> {size_max, N} \<and>
     (bs_input_ended (sr_output r) \<longleftrightarrow> sr_eof_index r = N \<and> sr_wait_index r = N))"

text \<open>Once all bytes are assembled nothing waits: a key would be past the end and below it.\<close>

lemma complete_wait_map:
  assumes "sr_inv S r" "wm_below N (sr_wait_map r)" "sr_wait_index r = N"
  shows "sr_wait_map r = []"
  using assms by (cases "sr_wait_map r") (auto simp: sr_inv_def wm_below_def)

lemma sr_set_eof_index:
  "i + length d \<le> seq_limit \<Longrightarrow>
   sr_eof_index (sr_set_eof r d i eof) = (if eof then i + length d else sr_eof_index r)"
  by (simp add: sr_set_eof_def sz_add_small)

lemma push_eof_ended:
  assumes "eof_inv S N (r, del)" "marked S N (r, del) (Push d i eof)" "bs_input_ended (sr_output r)"
  shows "StreamReassembler_push_substring r d i eof = Inr (sr_close (sr_set_eof r d i eof))"
proof -
  have inv: "sr_inv S r" "wm_below N (sr_wait_map r)" "sr_wait_index r = N" "N \<le> seq_limit"
    "sr_eof_index r = N" using assms by (auto simp: eof_inv_def)
  then have "sr_eof_index (sr_set_eof r d i eof) = N" using assms(2) by (simp add: sr_set_eof_index)
  then show ?thesis
    using push_old [of S r i d eof] inv assms(2) complete_wait_map [OF inv(1-3)]
    by (simp add: sr_inv_def Let_def)
qed

lemma push_eof_inv:
  assumes inv: "eof_inv S N (r, del)" and ok: "marked S N (r, del) (Push d i eof)"
  shows "\<exists>r'. StreamReassembler_push_substring r d i eof = Inr r' \<and> eof_inv S N (r', del) \<and>
    sr_eof_index r' = (if eof then N else sr_eof_index r)"
proof -
  have N: "N \<le> seq_limit" "i + length d \<le> N" "piece S i d" "sr_wait_index r \<le> N" "wm_below N (sr_wait_map r)"
    "sr_inv S r" "eof \<longrightarrow> i + length d = N" "sr_eof_index r \<in> {size_max, N}"
    using inv ok by (auto simp: eof_inv_def)
  have eof_index: "sr_eof_index (sr_set_eof r d i eof) = (if eof then N else sr_eof_index r)"
    using N by (simp add: sr_set_eof_index)
  show ?thesis
  proof (cases "bs_input_ended (sr_output r)")
    case True
    then show ?thesis
      using push_eof_ended [OF inv ok True] inv eof_index by (auto simp: eof_inv_def)
  next
    case False
    obtain q r' where q: "StreamReassembler_push_substring r d i eof = Inr r'" "sr_inv S q"
      "sr_outcome (sr_set_eof r d i eof) q r'"
      using push_outcome [of S r i d eof] N by auto
    note same = sr_outcome_simps [OF q(3)]
    have below: "sr_wait_index q \<le> N" "wm_below N (sr_wait_map q)"
      using push_below [OF N(6,3,2,1,4,5) False q(1)] same(1,2) by simp_all
    have eq: "sr_eof_index q = (if eof then N else sr_eof_index r)"
      "\<not> bs_input_ended (sr_output q)"
      using q(3) eof_index False by (auto simp: sr_outcome_def sr_frame_def)
    have ended: "bs_input_ended (sr_output (sr_close q))" by simp
    then have ne: "q \<noteq> sr_close q" using eq(2) by metis
    have "bs_input_ended (sr_output r') \<longleftrightarrow> sr_eof_index q = N \<and> sr_wait_index q = N"
      using q(3) below(1) eq ended ne N complete_wait_map [OF q(2) below(2)]
      by (auto simp: sr_outcome_def)
    then show ?thesis
      using q below eq N by (auto simp: eof_inv_def same)
  qed
qed

interpretation reasm_eof: safe_machine StreamReassembler_step "marked S N" "eof_inv S N" for S N
proof unfold_locales
  fix s l
  assume inv: "eof_inv S N s" and ok: "marked S N s l"
  obtain r del where s: "s = (r, del)" by (cases s)
  show "\<exists>s'. StreamReassembler_step s l = Inr s' \<and> eof_inv S N s'"
  proof (cases l)
    case (Push d i eof)
    then show ?thesis using push_eof_inv [of S N r del d i eof] inv ok s by auto
  next
    case (Take n)
    obtain d r' where t: "StreamReassembler_take r n = (d, r')" by fastforce
    have "sr_inv S r" using inv s by (simp add: eof_inv_def)
    note spec = take_spec [OF this t]
    then show ?thesis using inv s Take t by (auto simp: eof_inv_def)
  qed
qed

lemma eof_inv_new:
  assumes "cap < seq_limit" "N \<le> seq_limit"
  shows "eof_inv S N (StreamReassembler_new cap, [])"
proof -
  have "sr_inv S (StreamReassembler_new cap)"
    using run_inv_new [OF assms(1), of S] by (simp add: run_inv_def)
  then show ?thesis
    using assms by (auto simp: eof_inv_def StreamReassembler_new_def wm_below_def ByteStream_new_def)
qed

text \<open>Was the flag set on one of the substrings?\<close>

definition eof_seen :: "sr_op list \<Rightarrow> bool" where
  "eof_seen ops \<longleftrightarrow> (\<exists>x \<in> set ops. case x of Push d i eof \<Rightarrow> eof | Take n \<Rightarrow> False)"

lemma run_eof_index:
  assumes "eof_inv S N s" "run_ok (marked S N) StreamReassembler_step s ops"
    and "runE StreamReassembler_step s ops = Inr s'"
  shows "sr_eof_index (fst s') = (if eof_seen ops then N else sr_eof_index (fst s))"
  using assms
proof (induction ops arbitrary: s)
  case Nil
  then show ?case by (simp add: eof_seen_def)
next
  case (Cons x ops)
  obtain s1 where s1: "StreamReassembler_step s x = Inr s1" "eof_inv S N s1"
    using reasm_eof.step_safe [of S N s x] Cons.prems by auto
  have "sr_eof_index (fst s1) = (if eof_seen [x] then N else sr_eof_index (fst s))"
  proof (cases x)
    case (Push d i eof)
    then show ?thesis
      using push_eof_inv [of S N "fst s" "snd s" d i eof] Cons.prems s1(1)
      by (cases s) (auto simp: eof_seen_def)
  next
    case (Take n)
    then show ?thesis
      using Cons.prems(1) s1(1) take_spec(6) [of S "fst s" n]
      by (cases s) (auto simp: eof_seen_def eof_inv_def split: prod.splits)
  qed
  moreover have "eof_seen (x # ops) \<longleftrightarrow> eof_seen [x] \<or> eof_seen ops" by (auto simp: eof_seen_def)
  ultimately show ?case using Cons.IH [OF s1(2)] Cons.prems s1(1) by (auto split: if_splits)
qed

text \<open>
  C24. End of stream.  The peer's stream has \<open>N\<close> bytes; substrings of it arrive in any order and number, inside
  or outside the window, and those that carry the flag end at \<open>N\<close>.  After every such run of pushes and
  reads the output has been closed exactly when some substring carried the flag and all \<open>N\<close> bytes are
  assembled: the stream is never cut short and never left open.
\<close>

theorem reassembler_eof:
  assumes "cap < seq_limit" "N \<le> seq_limit"
    and "run_ok (marked S N) StreamReassembler_step (StreamReassembler_new cap, []) ops"
  shows "\<exists>r del. runE StreamReassembler_step (StreamReassembler_new cap, []) ops = Inr (r, del) \<and>
    (bs_input_ended (sr_output r) \<longleftrightarrow> eof_seen ops \<and> sr_wait_index r = N)"
proof -
  note new = eof_inv_new [OF assms(1,2), of S]
  obtain r del where run: "runE StreamReassembler_step (StreamReassembler_new cap, []) ops = Inr (r, del)"
    and inv: "eof_inv S N (r, del)"
    using reasm_eof.run_safe [OF new assms(3)] by fastforce
  have "sr_eof_index r = N \<longleftrightarrow> eof_seen ops"
    using run_eof_index [OF new assms(3) run] assms(2) by (simp add: StreamReassembler_new_def)
  then show ?thesis using run inv by (auto simp: eof_inv_def)
qed

theorem reassembler_eof_witness:
  "\<exists>r del. runE StreamReassembler_step (StreamReassembler_new 1, []) [Push [2] 2 True, Push [0, 1] 0 False, Take 1]
      = Inr (r, del) \<and>
    (bs_input_ended (sr_output r) \<longleftrightarrow>
      eof_seen [Push [2] 2 True, Push [0, 1] 0 False, Take 1] \<and> sr_wait_index r = 3)"
  by (rule reassembler_eof [where S = of_nat])
    (simp_all add: reassembler_eval piece_def upt_rec)

section \<open>Inputs on which the code departs from its documentation\<close>

text \<open>
  The comment of \<open>truncate_data\<close> says that bytes beyond \<open>_capacity + bytes_read()\<close> are discarded.
  For an index past that edge the unsigned subtraction wraps around, so they are stored.  A substring
  of \<open>cap\<close> bytes beyond the window then takes the whole capacity, and no substring that starts at the
  expected index is ever accepted again.
\<close>

lemma beyond_window_stored:
  assumes "0 < cap" "cap < i" "cap \<le> length d" "i + length d \<le> seq_limit"
  shows "StreamReassembler_push_substring (StreamReassembler_new cap) d i False =
    Inr ((StreamReassembler_new cap)\<lparr>sr_wait_map := [(i, take cap d)]\<rparr>)"
proof -
  have "cap \<le> sz_sub cap i" using assms sz_sub_wraps [of cap i] by linarith
  then have "min (min (length d) (sz_sub cap i)) cap = cap" using assms by simp
  moreover have "d \<noteq> []" using assms by auto
  ultimately show ?thesis
    using assms push_later [of i d "StreamReassembler_new cap" False]
    by (auto simp: StreamReassembler_new_def StreamReassembler_checked_insert_def sr_set_eof_def
        sr_finish_def StreamReassembler_truncate_data_def StreamReassembler_unassembled_bytes_def
        ByteStream_new_def ByteStream_buffer_size_def sz_add_small sz_sub_small Let_def)
qed

lemma beyond_window_blocks:
  assumes "0 < cap" "cap < i" "cap \<le> length d" "i + length d \<le> seq_limit" "length d' \<le> seq_limit"
  shows "StreamReassembler_push_substring
      ((StreamReassembler_new cap)\<lparr>sr_wait_map := [(i, take cap d)]\<rparr>) d' 0 False =
    Inr ((StreamReassembler_new cap)\<lparr>sr_wait_map := [(i, take cap d)]\<rparr>)"
proof -
  let ?m = "[(i, take cap d)]" let ?r = "(StreamReassembler_new cap)\<lparr>sr_wait_map := ?m\<rparr>"
  have new: "sr_output ?r = ByteStream_new cap" "sr_wait_index ?r = 0" "sr_wait_map ?r = ?m"
    "sr_capacity ?r = cap" "sr_eof_index ?r = size_max" by (simp_all add: StreamReassembler_new_def)
  have "StreamReassembler_unassembled_bytes ?r = cap"
    using assms by (simp add: StreamReassembler_unassembled_bytes_def sz_add_small)
  then have trunc: "StreamReassembler_truncate_data ?r x 0 = []" for x
    using assms by (simp add: StreamReassembler_truncate_data_def new ByteStream_new_def
        ByteStream_buffer_size_def sz_sub_small)
  have wr0: "ByteStream_write (ByteStream_new cap) [] = (0, ByteStream_new cap)"
    using assms by (simp add: ByteStream_write_def ByteStream_new_def sz_add_small)
  have loop: "reassemble_loop ?r = Inr ?r"
    using assms by (subst reassemble_loop.simps)
      (simp add: StreamReassembler_update_waitmap_def new update_waitmap_loop.simps std_find_def)
  show ?thesis
  proof (cases "d' = []")
    case False
    have same: "?r\<lparr>sr_output := ByteStream_new cap, sr_wait_index := 0\<rparr> = ?r"
      by (simp add: StreamReassembler_new_def)
    show ?thesis
      using assms False loop same
      by (simp add: StreamReassembler_push_substring_def new trunc wr0 StreamReassembler_empty_def
          substr_def sz_add_small Let_def)
  qed (simp add: StreamReassembler_push_substring_def new StreamReassembler_empty_def)
qed

text \<open>
  The expected-index branch of \<open>push_substring\<close> subtracts all waiting bytes from the room, also
  those the new data covers: with capacity 8 and two bytes waiting, eight bytes that fit are cut to six.
\<close>

lemma overlap_counted_twice:
  "runE StreamReassembler_step (StreamReassembler_new 8, [])
     [Push [4, 5] 4 False, Push [0, 1, 2, 3, 4, 5, 6, 7] 0 False] =
   Inr (\<lparr>sr_output = \<lparr>bs_buf = [0, 1, 2, 3, 4, 5], bs_capacity = 8, bs_bytes_written = 6,
          bs_bytes_read = 0, bs_input_ended = False, bs_error = False\<rparr>,
        sr_wait_map = [], sr_capacity = 8, sr_wait_index = 6, sr_eof_index = size_max\<rparr>, [])"
  by (simp add: reassembler_eval)

text \<open>
  A substring that arrives with no room left is stored as an empty entry, and \<open>std::map::insert\<close>
  does not overwrite it: the same byte sent again inside the window is dropped.
\<close>

lemma empty_entry_shadows:
  "\<exists>r. runE StreamReassembler_step (StreamReassembler_new 2, [])
     [Push [0, 1] 0 False, Push [3] 3 False, Take 2, Push [3] 3 False, Push [2] 2 False] =
       Inr (r, [0, 1]) \<and> sr_wait_index r = 3 \<and> sr_wait_map r = []"
  by (simp add: reassembler_eval)

end
