(* ===== verification/Buffers.thy ===== *)
theory Buffers
  imports Sponge_Prelude
begin

text \<open>
  Reference-counted buffers, \<open>libsponge/util/buffer.hh\<close> and \<open>buffer.cc\<close>.

  A \<open>Buffer\<close> is a shared read-only string with a starting offset; the shared pointer is an option
  (\<open>nullptr\<close> is \<open>None\<close>), and since the string is never written a copy of the pointer is a copy of the
  value.  \<open>BufferList\<close> and \<open>BufferViewList\<close> are deques of buffers and of string views.
\<close>

section \<open>Buffer\<close>

record buffer =
  buf_storage :: "byte list option"
  buf_starting_offset :: size_t

definition Buffer_empty :: buffer where
  "Buffer_empty = \<lparr>buf_storage = None, buf_starting_offset = 0\<rparr>"

definition Buffer_new :: "byte list \<Rightarrow> buffer" where
  "Buffer_new str = \<lparr>buf_storage = Some str, buf_starting_offset = 0\<rparr>"

definition Buffer_str :: "buffer \<Rightarrow> byte list" where
  "Buffer_str b =
     (case buf_storage b of None \<Rightarrow> [] | Some s \<Rightarrow> drop (buf_starting_offset b) s)"

definition Buffer_at :: "buffer \<Rightarrow> size_t \<Rightarrow> u8 result" where
  "Buffer_at b n =
     (if n < length (Buffer_str b) then Inr (Buffer_str b ! n) else Inl (OutOfRange ''string_view::at''))"

definition Buffer_size :: "buffer \<Rightarrow> size_t" where
  "Buffer_size b = length (Buffer_str b)"

definition Buffer_copy :: "buffer \<Rightarrow> byte list" where
  "Buffer_copy b = Buffer_str b"

definition Buffer_remove_prefix :: "buffer \<Rightarrow> size_t \<Rightarrow> buffer result" where
  "Buffer_remove_prefix b n =
     (if length (Buffer_str b) < n then Inl (OutOfRange ''Buffer::remove_prefix'')
      else let b' = b\<lparr>buf_starting_offset := buf_starting_offset b + n\<rparr>
           in Inr (case buf_storage b' of
                     None \<Rightarrow> b'
                   | Some s \<Rightarrow> if buf_starting_offset b' = length s then b'\<lparr>buf_storage := None\<rparr>
                               else b'))"

text \<open>The offset of a live buffer stays inside its storage.\<close>

definition buf_wf :: "buffer \<Rightarrow> bool" where
  "buf_wf b \<longleftrightarrow> (case buf_storage b of None \<Rightarrow> True | Some s \<Rightarrow> buf_starting_offset b \<le> length s)"

lemma Buffer_empty_simps [simp]: "Buffer_str Buffer_empty = []" "buf_wf Buffer_empty"
  by (simp_all add: Buffer_empty_def Buffer_str_def buf_wf_def)

lemma Buffer_new_simps [simp]: "Buffer_str (Buffer_new s) = s" "buf_wf (Buffer_new s)"
  by (simp_all add: Buffer_new_def Buffer_str_def buf_wf_def)

lemma Buffer_remove_prefix_error:
  "length (Buffer_str b) < n \<Longrightarrow> Buffer_remove_prefix b n = Inl (OutOfRange ''Buffer::remove_prefix'')"
  by (simp add: Buffer_remove_prefix_def)

lemma Buffer_remove_prefix_ok:
  assumes "n \<le> length (Buffer_str b)"
  shows "\<exists>b'. Buffer_remove_prefix b n = Inr b' \<and> Buffer_str b' = drop n (Buffer_str b) \<and>
    (buf_wf b \<longrightarrow> buf_wf b')"
  using assms
  by (cases "buf_storage b")
    (auto simp: Buffer_remove_prefix_def Buffer_str_def buf_wf_def add.commute Let_def)

lemma Buffer_remove_prefix_InrD:
  "Buffer_remove_prefix b n = Inr b' \<Longrightarrow>
   n \<le> length (Buffer_str b) \<and> Buffer_str b' = drop n (Buffer_str b) \<and> (buf_wf b \<longrightarrow> buf_wf b')"
  using Buffer_remove_prefix_ok [of n b] Buffer_remove_prefix_error [of b n]
  by (cases "n \<le> length (Buffer_str b)") auto

section \<open>BufferList\<close>

type_synonym buffer_list = "buffer list"

definition BufferList_of_buffer :: "buffer \<Rightarrow> buffer_list" where
  "BufferList_of_buffer b = [b]"

definition BufferList_append :: "buffer_list \<Rightarrow> buffer_list \<Rightarrow> buffer_list" where
  "BufferList_append bs other = foldl (\<lambda>acc buf. acc @ [buf]) bs other"

definition BufferList_of_string :: "byte list \<Rightarrow> buffer_list" where
  "BufferList_of_string str = BufferList_append [] (BufferList_of_buffer (Buffer_new str))"

definition BufferList_to_buffer :: "buffer_list \<Rightarrow> buffer result" where
  "BufferList_to_buffer bs =
     (case bs of [] \<Rightarrow> Inr Buffer_empty
      | [b] \<Rightarrow> Inr b
      | _ \<Rightarrow> Inl (RuntimeError ''BufferList: please use concatenate()''))"

definition BufferList_concatenate :: "buffer_list \<Rightarrow> byte list" where
  "BufferList_concatenate bs = foldl (\<lambda>ret buf. ret @ Buffer_str buf) [] bs"

definition BufferList_size :: "buffer_list \<Rightarrow> size_t" where
  "BufferList_size bs = foldl (\<lambda>ret buf. sz_add ret (Buffer_size buf)) 0 bs"

fun BufferList_remove_prefix :: "buffer_list \<Rightarrow> size_t \<Rightarrow> buffer_list result" where
  "BufferList_remove_prefix [] n =
     (if 0 < n then Inl (OutOfRange ''BufferList::remove_prefix'') else Inr [])"
| "BufferList_remove_prefix (b # bs) n =
     (if 0 < n then
        if n < length (Buffer_str b) then
          bindE (Buffer_remove_prefix b n) (\<lambda>b'. Inr (b' # bs))
        else BufferList_remove_prefix bs (n - length (Buffer_str b))
      else Inr (b # bs))"

lemma BufferList_append_eq [simp]: "BufferList_append bs other = bs @ other"
  unfolding BufferList_append_def by (induction other arbitrary: bs) auto

lemma BufferList_of_string_eq [simp]: "BufferList_of_string s = [Buffer_new s]"
  by (simp add: BufferList_of_string_def BufferList_of_buffer_def)

lemma BufferList_concatenate_eq [simp]: "BufferList_concatenate bs = concat (map Buffer_str bs)"
proof -
  have "foldl (\<lambda>ret buf. ret @ Buffer_str buf) acc bs = acc @ concat (map Buffer_str bs)" for acc
    by (induction bs arbitrary: acc) auto
  then show ?thesis by (simp add: BufferList_concatenate_def)
qed

lemma foldl_sz_add: "foldl (\<lambda>ret x. sz_add ret (f x)) (a mod size_mod) xs = (a + sum_list (map f xs)) mod size_mod"
proof (induction xs arbitrary: a)
  case (Cons x xs)
  have "sz_add (a mod size_mod) (f x) = (a + f x) mod size_mod" by (simp add: sz_add_def mod_simps)
  then show ?case using Cons [of "a + f x"] by (simp add: add.assoc)
qed simp

lemma BufferList_size_eq: "BufferList_size bs = length (BufferList_concatenate bs) mod size_mod"
  using foldl_sz_add [of Buffer_size 0 bs]
  by (simp add: BufferList_size_def length_concat Buffer_size_def [abs_def] comp_def)

section \<open>BufferViewList\<close>

text \<open>A view is the characters it shows; \<open>as_iovecs\<close> hands the same views to \<open>writev\<close>.\<close>

type_synonym buffer_view_list = "byte list list"

definition BufferViewList_of_string :: "byte list \<Rightarrow> buffer_view_list" where
  "BufferViewList_of_string str = [str]"

definition BufferViewList_new :: "buffer_list \<Rightarrow> buffer_view_list" where
  "BufferViewList_new bs = foldl (\<lambda>views x. views @ [Buffer_str x]) [] bs"

fun BufferViewList_remove_prefix :: "buffer_view_list \<Rightarrow> size_t \<Rightarrow> buffer_view_list result" where
  "BufferViewList_remove_prefix [] n =
     (if 0 < n then Inl (OutOfRange ''BufferListView::remove_prefix'') else Inr [])"
| "BufferViewList_remove_prefix (v # vs) n =
     (if 0 < n then
        if n < length v then Inr (drop n v # vs)
        else BufferViewList_remove_prefix vs (n - length v)
      else Inr (v # vs))"

definition BufferViewList_size :: "buffer_view_list \<Rightarrow> size_t" where
  "BufferViewList_size vs = foldl (\<lambda>ret v. sz_add ret (length v)) 0 vs"

definition BufferViewList_as_iovecs :: "buffer_view_list \<Rightarrow> (byte list \<times> size_t) list" where
  "BufferViewList_as_iovecs vs = map (\<lambda>x. (x, length x)) vs"

lemma BufferViewList_new_eq: "BufferViewList_new bs = map Buffer_str bs"
proof -
  have "foldl (\<lambda>views x. views @ [Buffer_str x]) acc bs = acc @ map Buffer_str bs" for acc
    by (induction bs arbitrary: acc) auto
  then show ?thesis by (simp add: BufferViewList_new_def)
qed

section \<open>The contract of remove_prefix\<close>

text \<open>All three kinds of buffer are a byte string whose front can be discarded.\<close>

locale byte_rope =
  fixes contents :: "'b \<Rightarrow> byte list"
    and remove :: "'b \<Rightarrow> size_t \<Rightarrow> 'b result"
    and err :: cpp_error
  assumes remove_short: "length (contents b) < n \<Longrightarrow> remove b n = Inl err"
    and remove_long: "n \<le> length (contents b) \<Longrightarrow>
      \<exists>b'. remove b n = Inr b' \<and> contents b' = drop n (contents b)"
begin

lemma remove_iff: "(\<exists>b'. remove b n = Inr b') \<longleftrightarrow> n \<le> length (contents b)"
  using remove_short [of b n] remove_long [of n b] by (cases "n \<le> length (contents b)") auto

lemma remove_contents: "remove b n = Inr b' \<Longrightarrow> contents b' = drop n (contents b)"
  using remove_short [of b n] remove_long [of n b] by (cases "n \<le> length (contents b)") auto

lemma remove_twice:
  assumes "remove b n = Inr b1" "remove b1 k = Inr b2"
  shows "\<exists>b'. remove b (n + k) = Inr b' \<and> contents b' = contents b2"
proof -
  have c: "contents b1 = drop n (contents b)" "contents b2 = drop k (contents b1)"
    using assms by (auto dest: remove_contents)
  have "k \<le> length (contents b1)" "n \<le> length (contents b)" using assms remove_iff by blast+
  then have "n + k \<le> length (contents b)" using c by simp
  then show ?thesis using remove_long [of "n + k" b] c by (auto simp: add.commute)
qed

end

interpretation buf: byte_rope Buffer_str Buffer_remove_prefix "OutOfRange ''Buffer::remove_prefix''"
  by unfold_locales (use Buffer_remove_prefix_error Buffer_remove_prefix_ok in blast)+

interpretation buf_list: byte_rope BufferList_concatenate BufferList_remove_prefix
  "OutOfRange ''BufferList::remove_prefix''"
proof unfold_locales
  fix bs :: buffer_list and n
  show "length (BufferList_concatenate bs) < n \<Longrightarrow>
      BufferList_remove_prefix bs n = Inl (OutOfRange ''BufferList::remove_prefix'')"
    by (induction bs n rule: BufferList_remove_prefix.induct) auto
  show "n \<le> length (BufferList_concatenate bs) \<Longrightarrow> \<exists>b'. BufferList_remove_prefix bs n = Inr b' \<and>
      BufferList_concatenate b' = drop n (BufferList_concatenate bs)"
  proof (induction bs n rule: BufferList_remove_prefix.induct)
    case (2 b bs n)
    then show ?case using buf.remove_long [of n b] by auto
  qed simp
qed

interpretation view_list: byte_rope concat BufferViewList_remove_prefix
  "OutOfRange ''BufferListView::remove_prefix''"
proof unfold_locales
  fix vs :: buffer_view_list and n
  show "length (concat vs) < n \<Longrightarrow>
      BufferViewList_remove_prefix vs n = Inl (OutOfRange ''BufferListView::remove_prefix'')"
    by (induction vs n rule: BufferViewList_remove_prefix.induct) auto
  show "n \<le> length (concat vs) \<Longrightarrow>
      \<exists>b'. BufferViewList_remove_prefix vs n = Inr b' \<and> concat b' = drop n (concat vs)"
    by (induction vs n rule: BufferViewList_remove_prefix.induct) auto
qed

text \<open>
  Discarding a prefix of a \<open>BufferList\<close> is discarding it from the concatenated string: the
  call throws exactly when the list is shorter than \<open>n\<close> bytes, and otherwise leaves the rest; the
  views handed to the kernel show the same bytes before and after.
\<close>

theorem BufferList_remove_prefix_spec:
  "(case BufferList_remove_prefix bs n of
      Inl e \<Rightarrow> length (BufferList_concatenate bs) < n
    | Inr bs' \<Rightarrow> n \<le> length (BufferList_concatenate bs) \<and>
        BufferList_concatenate bs' = drop n (BufferList_concatenate bs)) \<and>
   (case BufferViewList_remove_prefix (BufferViewList_new bs) n of
      Inl e \<Rightarrow> length (BufferList_concatenate bs) < n
    | Inr vs \<Rightarrow> n \<le> length (BufferList_concatenate bs) \<and>
        concat vs = drop n (BufferList_concatenate bs))"
  using buf_list.remove_iff [of bs n] buf_list.remove_contents [of bs n]
    view_list.remove_iff [of "BufferViewList_new bs" n] view_list.remove_contents [of "BufferViewList_new bs" n]
  by (auto simp: BufferViewList_new_eq not_le simp del: BufferList_concatenate_eq split: sum.splits)
    (auto simp: not_le)

end
