(* ===== verification/Net_Parser.thy ===== *)
theory Net_Parser
  imports Buffers
begin

text \<open>
  Network byte order, \<open>libsponge/util/parser.hh\<close> and \<open>parser.cc\<close>.

  A parser carries the rest of the buffer and the first error seen so far; a method that reads is a
  function from the parser to the value read and the parser after it, in the result type because
  \<open>Buffer::at\<close> and \<open>Buffer::remove_prefix\<close> can throw.  \<open>np_bind\<close> runs one read after another.
  The unparser appends to a string.  The integer type \<open>T\<close> of the two templates is the word length,
  and \<open>sizeof(T)\<close> is passed as \<open>len\<close>.
\<close>

unbundle bit_operations_syntax

section \<open>ParseResult\<close>

datatype parse_result =
    NoError | BadChecksum | PacketTooShort | WrongIPVersion | HeaderTooShort | TruncatedPacket
  | Unsupported

fun parse_result_code :: "parse_result \<Rightarrow> nat" where
  "parse_result_code NoError = 0"
| "parse_result_code BadChecksum = 1"
| "parse_result_code PacketTooShort = 2"
| "parse_result_code WrongIPVersion = 3"
| "parse_result_code HeaderTooShort = 4"
| "parse_result_code TruncatedPacket = 5"
| "parse_result_code Unsupported = 6"

definition as_string_names :: "string list" where
  "as_string_names = [''NoError'', ''BadChecksum'', ''PacketTooShort'', ''WrongIPVersion'',
     ''HeaderTooShort'', ''TruncatedPacket'']"

definition as_string :: "parse_result \<Rightarrow> string result" where
  "as_string r =
     (if parse_result_code r < length as_string_names
      then Inr (as_string_names ! parse_result_code r)
      else Inl (UndefinedBehaviour ''as_string: index past _names''))"

section \<open>NetParser\<close>

record net_parser =
  np_buffer :: buffer
  np_error :: parse_result

definition NetParser_new :: "buffer \<Rightarrow> net_parser" where
  "NetParser_new b = \<lparr>np_buffer = b, np_error = NoError\<rparr>"

definition NetParser_set_error :: "net_parser \<Rightarrow> parse_result \<Rightarrow> net_parser" where
  "NetParser_set_error p res = p\<lparr>np_error := res\<rparr>"

definition NetParser_error :: "net_parser \<Rightarrow> bool" where
  "NetParser_error p \<longleftrightarrow> np_error p \<noteq> NoError"

definition NetParser_check_size :: "net_parser \<Rightarrow> size_t \<Rightarrow> net_parser" where
  "NetParser_check_size p n =
     (if Buffer_size (np_buffer p) < n then NetParser_set_error p PacketTooShort else p)"

text \<open>The loop of \<open>_parse_int\<close>: \<open>k\<close> more bytes, the next at position \<open>i\<close>.\<close>

fun parse_int_loop :: "buffer \<Rightarrow> nat \<Rightarrow> nat \<Rightarrow> 'a::len word \<Rightarrow> 'a word result" where
  "parse_int_loop b i 0 ret = Inr ret"
| "parse_int_loop b i (Suc k) ret =
     bindE (Buffer_at b i) (\<lambda>c. parse_int_loop b (Suc i) k (push_bit 8 ret + ucast c))"

definition NetParser_parse_int :: "size_t \<Rightarrow> net_parser \<Rightarrow> ('a::len word \<times> net_parser) result" where
  "NetParser_parse_int len p =
     (let p = NetParser_check_size p len
      in if NetParser_error p then Inr (0, p)
         else bindE (parse_int_loop (np_buffer p) 0 len 0) (\<lambda>ret.
              bindE (Buffer_remove_prefix (np_buffer p) len) (\<lambda>b.
              Inr (ret, p\<lparr>np_buffer := b\<rparr>))))"

definition NetParser_remove_prefix :: "size_t \<Rightarrow> net_parser \<Rightarrow> (unit \<times> net_parser) result" where
  "NetParser_remove_prefix n p =
     (let p = NetParser_check_size p n
      in if NetParser_error p then Inr ((), p)
         else bindE (Buffer_remove_prefix (np_buffer p) n) (\<lambda>b. Inr ((), p\<lparr>np_buffer := b\<rparr>)))"

definition NetParser_u32 :: "net_parser \<Rightarrow> (u32 \<times> net_parser) result" where
  "NetParser_u32 = NetParser_parse_int 4"

definition NetParser_u16 :: "net_parser \<Rightarrow> (u16 \<times> net_parser) result" where
  "NetParser_u16 = NetParser_parse_int 2"

definition NetParser_u8 :: "net_parser \<Rightarrow> (u8 \<times> net_parser) result" where
  "NetParser_u8 = NetParser_parse_int 1"

definition np_bind ::
  "(net_parser \<Rightarrow> ('a \<times> net_parser) result) \<Rightarrow> ('a \<Rightarrow> net_parser \<Rightarrow> ('b \<times> net_parser) result)
   \<Rightarrow> net_parser \<Rightarrow> ('b \<times> net_parser) result" where
  "np_bind m f p = bindE (m p) (\<lambda>(x, p'). f x p')"

text \<open>A loop that reads every element of an array of \<open>k\<close> tokens.\<close>

fun np_repeat ::
  "(net_parser \<Rightarrow> ('a \<times> net_parser) result) \<Rightarrow> nat \<Rightarrow> net_parser \<Rightarrow> ('a list \<times> net_parser) result" where
  "np_repeat m 0 p = Inr ([], p)"
| "np_repeat m (Suc k) p = np_bind m (\<lambda>v. np_bind (np_repeat m k) (\<lambda>vs p'. Inr (v # vs, p'))) p"

section \<open>NetUnparser\<close>

definition NetUnparser_unparse_int :: "size_t \<Rightarrow> byte list \<Rightarrow> 'a::len word \<Rightarrow> byte list" where
  "NetUnparser_unparse_int len s val =
     foldl (\<lambda>s i. s @ [ucast (drop_bit ((len - i - 1) * 8) val AND 0xff)]) s [0..<len]"

definition NetUnparser_u32 :: "byte list \<Rightarrow> u32 \<Rightarrow> byte list" where
  "NetUnparser_u32 s val = NetUnparser_unparse_int 4 s val"

definition NetUnparser_u16 :: "byte list \<Rightarrow> u16 \<Rightarrow> byte list" where
  "NetUnparser_u16 s val = NetUnparser_unparse_int 2 s val"

definition NetUnparser_u8 :: "byte list \<Rightarrow> u8 \<Rightarrow> byte list" where
  "NetUnparser_u8 s val = NetUnparser_unparse_int 1 s val"

text \<open>\<open>std::string::resize\<close>.\<close>

definition string_resize :: "nat \<Rightarrow> byte list \<Rightarrow> byte list" where
  "string_resize n s = take n s @ replicate (n - length s) 0"

section \<open>What a read does\<close>

text \<open>
  The reads never throw, because the size check comes first.  \<open>np_val\<close> is the value read and
  \<open>np_next\<close> the parser after it; an error sticks.
\<close>

abbreviation np_str :: "net_parser \<Rightarrow> byte list" where
  "np_str p \<equiv> Buffer_str (np_buffer p)"

definition buf_adv :: "buffer \<Rightarrow> nat \<Rightarrow> buffer" where
  "buf_adv b n = (case Buffer_remove_prefix b n of Inl _ \<Rightarrow> b | Inr b' \<Rightarrow> b')"

lemma remove_prefix_adv: "n \<le> length (Buffer_str b) \<Longrightarrow> Buffer_remove_prefix b n = Inr (buf_adv b n)"
  using Buffer_remove_prefix_ok [of n b] by (auto simp: buf_adv_def)

lemma buf_adv_str [simp]: "n \<le> length (Buffer_str b) \<Longrightarrow> Buffer_str (buf_adv b n) = drop n (Buffer_str b)"
  using Buffer_remove_prefix_ok [of n b] by (auto simp: buf_adv_def)

fun be_join :: "'a::len word \<Rightarrow> byte list \<Rightarrow> 'a word" where
  "be_join acc [] = acc"
| "be_join acc (c # cs) = be_join (push_bit 8 acc + ucast c) cs"

definition np_next :: "nat \<Rightarrow> net_parser \<Rightarrow> net_parser" where
  "np_next n p =
     (if length (np_str p) < n then p\<lparr>np_error := PacketTooShort\<rparr>
      else if np_error p \<noteq> NoError then p
      else p\<lparr>np_buffer := buf_adv (np_buffer p) n\<rparr>)"

definition np_val :: "nat \<Rightarrow> net_parser \<Rightarrow> 'a::len word" where
  "np_val n p =
     (if length (np_str p) < n \<or> np_error p \<noteq> NoError then 0 else be_join 0 (take n (np_str p)))"

lemma np_next_error [simp]:
  "np_error (np_next n p) = NoError \<longleftrightarrow> np_error p = NoError \<and> n \<le> length (np_str p)"
  by (simp add: np_next_def)

lemma np_next_str [simp]:
  "np_error p = NoError \<Longrightarrow> n \<le> length (np_str p) \<Longrightarrow> np_str (np_next n p) = drop n (np_str p)"
  by (simp add: np_next_def)

lemma np_val_ok:
  "np_error p = NoError \<Longrightarrow> n \<le> length (np_str p) \<Longrightarrow> np_val n p = be_join 0 (take n (np_str p))"
  by (simp add: np_val_def)

lemma parse_int_loop_eq:
  "i + k \<le> length (Buffer_str b) \<Longrightarrow>
   parse_int_loop b i k acc = Inr (be_join acc (take k (drop i (Buffer_str b))))"
proof (induction k arbitrary: i acc)
  case (Suc k)
  then have "drop i (Buffer_str b) = Buffer_str b ! i # drop (Suc i) (Buffer_str b)"
    by (simp add: Cons_nth_drop_Suc)
  then show ?case using Suc by (simp add: Buffer_at_def)
qed simp

lemma parse_int_eq: "NetParser_parse_int len p = Inr (np_val len p, np_next len p)"
  by (auto simp: NetParser_parse_int_def NetParser_check_size_def NetParser_set_error_def
      NetParser_error_def Buffer_size_def parse_int_loop_eq remove_prefix_adv np_next_def np_val_def
      Let_def not_less)

lemma remove_prefix_eq: "NetParser_remove_prefix n p = Inr ((), np_next n p)"
  by (auto simp: NetParser_remove_prefix_def NetParser_check_size_def NetParser_set_error_def
      NetParser_error_def Buffer_size_def remove_prefix_adv np_next_def Let_def not_less)

lemmas np_reads =
  NetParser_u8_def NetParser_u16_def NetParser_u32_def parse_int_eq remove_prefix_eq np_bind_def

section \<open>What a write does\<close>

definition be16 :: "u16 \<Rightarrow> byte list" where
  "be16 v = [ucast (drop_bit 8 v), ucast v]"

definition be32 :: "u32 \<Rightarrow> byte list" where
  "be32 v = [ucast (drop_bit 24 v), ucast (drop_bit 16 v), ucast (drop_bit 8 v), ucast v]"

lemma ucast_mask_byte: "ucast (w AND 0xff :: 'a::len word) = (ucast w :: byte)"
proof -
  have "0xff = (mask 8 :: 'a word)" by (simp add: mask_eq_exp_minus_1)
  then have "w AND 0xff = take_bit 8 w" by (simp only: take_bit_eq_mask)
  then show ?thesis by (intro bit_word_eqI) (auto simp: bit_simps dest: bit_imp_le_length)
qed

lemma upt_4: "[0..<4] = [0, 1, 2, 3 :: nat]" and upt_2: "[0..<2] = [0, 1 :: nat]" and upt_1: "[0..<1] = [0 :: nat]"
  by (simp_all add: upt_rec)

lemma NetUnparser_u32_eq: "NetUnparser_u32 s v = s @ be32 v"
  by (simp add: NetUnparser_u32_def NetUnparser_unparse_int_def upt_4 be32_def ucast_mask_byte)

lemma NetUnparser_u16_eq: "NetUnparser_u16 s v = s @ be16 v"
  by (simp add: NetUnparser_u16_def NetUnparser_unparse_int_def upt_2 be16_def ucast_mask_byte)

lemma NetUnparser_u8_eq: "NetUnparser_u8 s v = s @ [v]"
  using ucast_mask_byte [of v]
  by (simp add: NetUnparser_u8_def NetUnparser_unparse_int_def upt_1)

lemmas write_eq_rules = NetUnparser_u32_eq NetUnparser_u16_eq NetUnparser_u8_eq

lemma push_bit_add_byte:
  "push_bit 8 w + ucast (b :: byte) = (push_bit 8 w OR ucast b :: 'a::len word)"
  by (rule disjunctive_add) (auto simp: bit_simps dest: bit_imp_le_length)

lemma be_join_be16 [simp]: "be_join 0 (be16 v) = v"
  unfolding be16_def be_join.simps push_bit_add_byte
  by (rule bit_word_eqI) (auto simp: bit_simps)

lemma be_join_be32 [simp]: "be_join 0 (be32 v) = v"
  unfolding be32_def be_join.simps push_bit_add_byte
proof (rule bit_word_eqI)
  fix n
  assume "n < LENGTH(32)"
  then consider "n < 8" | "8 \<le> n" "n < 16" | "16 \<le> n" "n < 24" | "24 \<le> n" "n < 32" by fastforce
  then show "bit (push_bit 8 (push_bit 8 (push_bit 8 (push_bit 8 (0 :: u32) OR ucast (ucast (drop_bit 24 v) :: byte)) OR
      ucast (ucast (drop_bit 16 v) :: byte)) OR ucast (ucast (drop_bit 8 v) :: byte)) OR
      ucast (ucast v :: byte)) n = bit v n"
    by cases (auto simp: bit_simps)
qed

lemma be_join_byte [simp]: "be_join 0 [v] = (v :: byte)"
  by simp

lemma be_length [simp]: "length (be16 v) = 2" "length (be32 w) = 4"
  by (simp_all add: be16_def be32_def)

section \<open>The contract of a token\<close>

text \<open>
  What a header parser relies on: a token of fixed length is read back as it was written, and a
  buffer that is too short is reported.
\<close>

definition np_returns :: "('a \<times> net_parser) result \<Rightarrow> 'a \<Rightarrow> byte list \<Rightarrow> bool" where
  "np_returns r v rest \<longleftrightarrow> (\<exists>p. r = Inr (v, p) \<and> np_error p = NoError \<and> np_str p = rest)"

lemma np_returns_Inr [intro]:
  "np_error p = NoError \<Longrightarrow> np_str p = rest \<Longrightarrow> np_returns (Inr (v, p)) v rest"
  by (simp add: np_returns_def)

lemma np_returns_bind:
  assumes "np_returns (m p) v rest"
    and "\<And>p'. np_error p' = NoError \<Longrightarrow> np_str p' = rest \<Longrightarrow> np_returns (f v p') w rest'"
  shows "np_returns (np_bind m f p) w rest'"
  using assms by (auto simp: np_returns_def np_bind_def)

lemma remove_prefix_step:
  assumes "np_error p = NoError" "np_str p = s @ rest" "n = length s"
    and "\<And>p'. np_error p' = NoError \<Longrightarrow> np_str p' = rest \<Longrightarrow> np_returns (f () p') w rest'"
  shows "np_returns (np_bind (NetParser_remove_prefix n) f p) w rest'"
  using assms by (simp add: np_bind_def remove_prefix_eq)

locale token_codec =
  fixes len :: nat
    and enc :: "'v \<Rightarrow> byte list"
    and dec :: "net_parser \<Rightarrow> ('v \<times> net_parser) result"
  assumes enc_len: "length (enc v) = len"
    and dec_enc: "np_error p = NoError \<Longrightarrow> np_str p = enc v @ rest \<Longrightarrow> dec p = Inr (v, np_next len p)"
    and dec_short: "length (np_str p) < len \<Longrightarrow>
      \<exists>v. dec p = Inr (v, p\<lparr>np_error := PacketTooShort\<rparr>)"
begin

lemma dec_returns:
  "np_error p = NoError \<Longrightarrow> np_str p = enc v @ rest \<Longrightarrow> np_returns (dec p) v rest"
  using dec_enc [of p v rest] by (auto simp: enc_len np_returns_def)

lemma step:
  assumes "np_error p = NoError" "np_str p = enc v @ rest"
    and "\<And>p'. np_error p' = NoError \<Longrightarrow> np_str p' = rest \<Longrightarrow> np_returns (f v p') w rest'"
  shows "np_returns (np_bind dec f p) w rest'"
  using dec_returns [OF assms(1,2)] assms(3) by (rule np_returns_bind)

lemma array_returns:
  assumes "np_error p = NoError" "np_str p = concat (map enc vs) @ rest"
  shows "np_returns (np_repeat dec (length vs) p) vs rest"
  using assms
proof (induction vs arbitrary: p)
  case (Cons v vs)
  then show ?case
    by (auto intro!: step [where v = v] np_returns_bind [where m = "np_repeat dec (length vs)"])
qed auto

end

interpretation tok8: token_codec 1 "\<lambda>v. [v]" NetParser_u8
  by unfold_locales (auto simp: np_reads np_val_def np_next_def)

interpretation tok16: token_codec 2 be16 NetParser_u16
  by unfold_locales (auto simp: np_reads np_val_def np_next_def)

interpretation tok32: token_codec 4 be32 NetParser_u32
  by unfold_locales (auto simp: np_reads np_val_def np_next_def)

lemmas tok_steps = tok8.step tok16.step tok32.step

text \<open>The names table of \<open>as_string\<close> has no entry for the last enumerator.\<close>

lemma as_string_unsupported:
  "(\<exists>s. as_string r = Inr s) \<longleftrightarrow> r \<noteq> Unsupported"
  by (cases r) (simp_all add: as_string_def as_string_names_def)

section \<open>Wire formats\<close>

text \<open>
  The contract of a message type towards the layer below: a well-formed message serialises, and every
  buffer that holds these bytes parses, without error, to the same message (up to \<open>same\<close>, since a
  checksum is filled in on the way).
\<close>

locale wire_format =
  fixes ser :: "'m \<Rightarrow> byte list result"
    and parse :: "buffer \<Rightarrow> (parse_result \<times> 'm) result"
    and wf :: "'m \<Rightarrow> bool"
    and same :: "'m \<Rightarrow> 'm \<Rightarrow> bool"
  assumes parse_ser: "wf m \<Longrightarrow> \<exists>s. ser m = Inr s \<and>
    (\<forall>b. Buffer_str b = s \<longrightarrow> (\<exists>m'. parse b = Inr (NoError, m') \<and> same m m'))"
begin

lemma roundtrip: "wf m \<Longrightarrow> \<exists>s m'. ser m = Inr s \<and> parse (Buffer_new s) = Inr (NoError, m') \<and> same m m'"
  using parse_ser by fastforce

text \<open>The bytes on the wire determine the message.\<close>

lemma ser_determines:
  assumes "wf m" "wf n" "ser m = ser n"
  shows "\<exists>k. same m k \<and> same n k"
proof -
  obtain s k where "ser m = Inr s" "parse (Buffer_new s) = Inr (NoError, k)" "same m k"
    using roundtrip [OF assms(1)] by blast
  moreover obtain k' where "ser n = Inr s" "parse (Buffer_new s) = Inr (NoError, k')" "same n k'"
    using roundtrip [OF assms(2)] assms(3) calculation(1) by auto
  ultimately show ?thesis by auto
qed

end

end
