(* ===== verification/Wrapping_Integers.thy ===== *)
theory Wrapping_Integers
  imports Sponge_Prelude
begin

text \<open>
  32-bit sequence numbers, \<open>libsponge/wrapping_integers.hh\<close> and \<open>wrapping_integers.cc\<close>: the class
  \<open>WrappingInt32\<close>, its operators, and the conversions \<open>wrap\<close> and \<open>unwrap\<close> between absolute 64-bit
  and relative 32-bit sequence numbers.  The theorems: \<open>unwrap\<close> is a section of \<open>wrap\<close> for every
  checkpoint, it returns the absolute number closest to the checkpoint, and it inverts \<open>wrap\<close> on
  the numbers within \<open>2^31\<close> of the checkpoint.  The locale \<open>seqno_space\<close> is the part of this that
  the receiver and the sender use.
\<close>

section \<open>The class and its operators\<close>

datatype wrapping_int32 = WrappingInt32 (raw_value: u32)

definition wi_diff :: "wrapping_int32 \<Rightarrow> wrapping_int32 \<Rightarrow> int" where
  "wi_diff a b = sint (raw_value a - raw_value b)"

definition wi_plus :: "wrapping_int32 \<Rightarrow> u32 \<Rightarrow> wrapping_int32" where
  "wi_plus a b = WrappingInt32 (raw_value a + b)"

definition wi_minus :: "wrapping_int32 \<Rightarrow> u32 \<Rightarrow> wrapping_int32" where
  "wi_minus a b = wi_plus a (- b)"

definition wrap :: "u64 \<Rightarrow> wrapping_int32 \<Rightarrow> wrapping_int32" where
  "wrap n isn = wi_plus isn (of_nat n)"

abbreviation wi_base :: nat where
  "wi_base \<equiv> 4294967296"

definition unwrap :: "wrapping_int32 \<Rightarrow> wrapping_int32 \<Rightarrow> u64 \<Rightarrow> u64" where
  "unwrap n isn checkpoint =
     (let base = sz_add 4294967295 1;
          cp_mod0 = checkpoint mod base;
          cp_base0 = sz_sub checkpoint cp_mod0;
          (cp_mod, cp_base) =
            (if cp_mod0 = 0 \<and> base \<le> cp_base0
             then (sz_add cp_mod0 base, sz_sub cp_base0 base) else (cp_mod0, cp_base0));
          n_mod = unat (raw_value n - raw_value isn)
      in if cp_mod < n_mod then
           (if base \<le> cp_base \<and> sz_add (sz_sub base n_mod) cp_mod \<le> sz_sub n_mod cp_mod
            then sz_add (sz_sub cp_base base) n_mod
            else sz_add cp_base n_mod)
         else if sz_sub cp_mod n_mod \<le> sz_sub (sz_add n_mod base) cp_mod
         then sz_add cp_base n_mod
         else sz_add (sz_add cp_base base) n_mod)"

section \<open>wrap\<close>

lemma mod_eq_close:
  fixes u n b :: nat
  assumes "u mod b = n mod b" and "u < n + b" and "n < u + b"
  shows "u = n"
proof (cases "n \<le> u")
  case True
  with assms(1) have "b dvd u - n" by (simp add: mod_eq_dvd_iff_nat)
  with assms(2) True show ?thesis by (auto dest: dvd_imp_le)
next
  case False
  with assms(1) have "b dvd n - u" by (metis mod_eq_dvd_iff_nat nat_le_linear)
  with assms(3) False show ?thesis by (auto dest: dvd_imp_le)
qed

lemma wrap_eq_iff: "wrap m isn = n \<longleftrightarrow> m mod wi_base = unat (raw_value n - raw_value isn)"
proof -
  have "wrap m isn = n \<longleftrightarrow> (of_nat m :: u32) = raw_value n - raw_value isn"
    by (cases n) (auto simp: wrap_def wi_plus_def algebra_simps)
  also have "\<dots> \<longleftrightarrow> unat (of_nat m :: u32) = unat (raw_value n - raw_value isn)"
    by (simp add: word_unat_eq_iff)
  finally show ?thesis by (simp add: unat_of_nat)
qed

lemma wrap_mod: "wrap m isn = wrap n isn \<longleftrightarrow> m mod wi_base = n mod wi_base"
proof -
  have "unat (raw_value (wrap n isn) - raw_value isn) = n mod wi_base"
    by (simp add: wrap_def wi_plus_def unat_of_nat)
  then show ?thesis by (simp add: wrap_eq_iff)
qed

lemma wrap_offset: "unat (raw_value (wrap n isn) - raw_value isn) = n mod wi_base"
  by (simp add: wrap_def wi_plus_def unat_of_nat)

lemma wi_minus_wrap: "0 < n \<Longrightarrow> wi_minus (wrap n isn) 1 = wrap (n - 1) isn"
  by (cases n) (simp_all add: wi_minus_def wrap_def wi_plus_def)

lemma wrap_plus: "wi_plus (wrap n isn) (of_nat k) = wrap (n + k) isn"
  by (simp add: wrap_def wi_plus_def)

section \<open>unwrap\<close>

text \<open>The decision \<open>unwrap\<close> takes, on the quotient and the remainder of the checkpoint.\<close>

lemma unwrap_branches:
  assumes cp: "cp = q * wi_base + r" and r: "r < wi_base" and small: "cp + wi_base < size_mod"
    and N: "N = unat (raw_value n - raw_value isn)"
  shows "unwrap n isn cp =
     (if r = 0 \<and> 1 \<le> q then
        (if wi_base \<le> 2 * N then (q - 1) * wi_base + N else q * wi_base + N)
      else if r < N then
        (if 1 \<le> q \<and> wi_base + 2 * r \<le> 2 * N then (q - 1) * wi_base + N else q * wi_base + N)
      else (if 2 * r \<le> 2 * N + wi_base then q * wi_base + N else (q + 1) * wi_base + N))"
proof -
  have NB: "N < wi_base" using unsigned_less [of "raw_value n - raw_value isn"] N by simp
  have mod: "cp mod wi_base = r" using cp r by simp
  have base: "sz_sub cp r = q * wi_base" using cp small by (simp add: sz_sub_small)
  have q: "wi_base \<le> q * wi_base \<longleftrightarrow> 1 \<le> q" by (cases q) auto
  have b: "sz_add 4294967295 1 = wi_base" by (simp add: sz_add_def)
  show ?thesis
  proof (cases "r = 0 \<and> 1 \<le> q")
    case True
    then obtain q' where q': "q = Suc q'" by (cases q) auto
    have z: "cp mod wi_base = 0" "sz_sub cp 0 = q * wi_base" "wi_base \<le> q * wi_base"
      using True mod base q by simp_all
    have "sz_sub (q * wi_base) wi_base = q' * wi_base" using q' small cp by (simp add: sz_simps)
    then show ?thesis
      using NB True q' small cp
      by (simp add: unwrap_def b z N [symmetric] Let_def sz_simps) arith
  next
    case False
    then show ?thesis
      using NB small cp r
      by (auto simp: unwrap_def b mod base N [symmetric] Let_def q sz_simps)
  qed
qed

text \<open>
  What the branches establish: the result has the right residue, and it is within half a period of
  the checkpoint unless the checkpoint is so small that no smaller candidate exists.
\<close>

definition near_half :: "u64 \<Rightarrow> u64 \<Rightarrow> bool" where
  "near_half u cp \<longleftrightarrow> 2 * u \<le> 2 * cp + wi_base \<and> (2 * cp \<le> 2 * u + wi_base) \<or> cp < u \<and> u < wi_base"

lemma unwrap_residue_near:
  assumes "cp + wi_base < size_mod"
  shows "unwrap n isn cp mod wi_base = unat (raw_value n - raw_value isn)"
    and "near_half (unwrap n isn cp) cp"
proof -
  define q where "q = cp div wi_base"
  define r where "r = cp mod wi_base"
  define N where "N = unat (raw_value n - raw_value isn)"
  have cp: "cp = q * wi_base + r" and r: "r < wi_base" by (simp_all add: q_def r_def)
  have N: "N < wi_base" using unsigned_less [of "raw_value n - raw_value isn"] by (simp add: N_def)
  note eq = unwrap_branches [OF cp r assms N_def]
  show "unwrap n isn cp mod wi_base = unat (raw_value n - raw_value isn)"
    unfolding eq N_def [symmetric] using N by (simp split: if_split del: mult_Suc add: mod_mult_self3)
  show "near_half (unwrap n isn cp) cp"
    unfolding eq using N r by (cases q) (auto simp: near_half_def cp)
qed

lemma near_half_closest:
  assumes near: "near_half u cp" and res: "m mod wi_base = u mod wi_base"
  shows "\<bar>int u - int cp\<bar> \<le> \<bar>int m - int cp\<bar>"
proof -
  define a where "a = u div wi_base"
  define b where "b = m div wi_base"
  define t where "t = u mod wi_base"
  have u: "u = a * wi_base + t" and m: "m = b * wi_base + t" and t: "t < wi_base"
    using res by (simp_all add: a_def b_def t_def) (metis div_mult_mod_eq)
  consider "b = a" | "b < a" | "a < b" by linarith
  then show ?thesis
  proof cases
    case 1
    then show ?thesis by (simp add: u m)
  next
    case 2
    then have "b + 1 \<le> a" by simp
    then show ?thesis using near t by (auto simp: near_half_def u m)
  next
    case 3
    then have "a + 1 \<le> b" by simp
    then show ?thesis using near t by (auto simp: near_half_def u m)
  qed
qed

text \<open>
  C25. \<open>unwrap\<close> does what its comment promises: the number it returns wraps to \<open>n\<close>, and no
  other absolute sequence number that wraps to \<open>n\<close> is closer to the checkpoint.  (The checkpoint
  stays clear of the top \<open>2^32\<close> values of the 64-bit range, where the sum would overflow.)
\<close>

theorem unwrap_closest:
  assumes "cp + wi_base < size_mod"
  shows "wrap (unwrap n isn cp) isn = n \<and>
     (\<forall>m. wrap m isn = n \<longrightarrow> \<bar>int (unwrap n isn cp) - int cp\<bar> \<le> \<bar>int m - int cp\<bar>)"
  using unwrap_residue_near [OF assms] near_half_closest
  by (simp add: wrap_eq_iff)

theorem unwrap_closest_witness:
  "(5::nat) + wi_base < size_mod \<and>
   wrap (unwrap (WrappingInt32 15) (WrappingInt32 12) 5) (WrappingInt32 12) = WrappingInt32 15"
  using unwrap_closest [of 5 "WrappingInt32 15" "WrappingInt32 12"] by simp

section \<open>The contract used by the receiver and the sender\<close>

text \<open>
  \<open>close n cp\<close> says that \<open>n\<close> can be recovered against the checkpoint \<open>cp\<close>.  The clients compare
  sequence numbers only through \<open>unwr\<close>.
\<close>

definition seq_close :: "u64 \<Rightarrow> u64 \<Rightarrow> bool" where
  "seq_close n cp \<longleftrightarrow> cp + wi_base < size_mod \<and> n < cp + 2147483648 \<and> cp < n + 2147483648"

locale seqno_space =
  fixes wr :: "nat \<Rightarrow> 'i \<Rightarrow> 'n"
    and unwr :: "'n \<Rightarrow> 'i \<Rightarrow> nat \<Rightarrow> nat"
    and close :: "nat \<Rightarrow> nat \<Rightarrow> bool"
  assumes unwr_wr: "close n cp \<Longrightarrow> unwr (wr n isn) isn cp = n"
begin

lemma wr_inj: "close m cp \<Longrightarrow> close n cp \<Longrightarrow> wr m isn = wr n isn \<longleftrightarrow> m = n"
  by (metis unwr_wr)

lemma unwr_end_le:
  "close m cp \<Longrightarrow> close n cp \<Longrightarrow>
   unwr (wr m isn) isn cp + k \<le> unwr (wr n isn) isn cp \<longleftrightarrow> m + k \<le> n"
  by (simp add: unwr_wr)

end

lemma unwrap_wrap_close: "seq_close n cp \<Longrightarrow> unwrap (wrap n isn) isn cp = n"
proof -
  assume "seq_close n cp"
  then have c: "cp + wi_base < size_mod" "n < cp + 2147483648" "cp < n + 2147483648"
    by (simp_all add: seq_close_def)
  define u where "u = unwrap (wrap n isn) isn cp"
  have res: "u mod wi_base = n mod wi_base" and near: "near_half u cp"
    using unwrap_residue_near [OF c(1), of "wrap n isn" isn] by (simp_all add: u_def wrap_offset)
  have "\<bar>int u - int cp\<bar> \<le> \<bar>int n - int cp\<bar>"
    using near_half_closest [OF near] res by simp
  then have "u < n + wi_base" and "n < u + wi_base" using c(2,3) by linarith+
  with res show ?thesis unfolding u_def [symmetric] by (rule mod_eq_close)
qed

interpretation seqno: seqno_space wrap unwrap seq_close
  by unfold_locales (rule unwrap_wrap_close)

text \<open>
  Round trip: an absolute sequence number within \<open>2^31\<close> of the checkpoint survives being
  sent as a 32-bit number, whatever the initial sequence number.
\<close>

theorem unwrap_wrap:
  assumes "cp + wi_base < size_mod" and "n < cp + 2147483648" and "cp < n + 2147483648"
  shows "unwrap (wrap n isn) isn cp = n"
  using assms by (intro unwrap_wrap_close) (simp add: seq_close_def)

theorem unwrap_wrap_witness:
  "(4294967300::nat) + wi_base < size_mod \<and>
   unwrap (wrap 4294967290 (WrappingInt32 7)) (WrappingInt32 7) 4294967300 = 4294967290"
  using unwrap_wrap [of 4294967300 4294967290 "WrappingInt32 7"] by simp

end
