(* ===== verification/Tcp_Header.thy ===== *)
theory Tcp_Header
  imports Net_Parser Wrapping_Integers
begin

text \<open>
  The TCP header, \<open>libsponge/tcp_helpers/tcp_header.hh\<close> and \<open>tcp_header.cc\<close>.

  \<open>TCPHeader::parse\<close> overwrites every field of the object, so its model returns the header together
  with the \<open>ParseResult\<close>.  The functions that print a header are in the
  theory \<open>Printing\<close>.
\<close>

unbundle bit_operations_syntax

section \<open>The header\<close>

abbreviation TCPHeader_LENGTH :: nat where
  "TCPHeader_LENGTH \<equiv> 20"

record tcp_header =
  th_sport :: u16
  th_dport :: u16
  th_seqno :: wrapping_int32
  th_ackno :: wrapping_int32
  th_doff :: u8
  th_urg :: bool
  th_ack :: bool
  th_psh :: bool
  th_rst :: bool
  th_syn :: bool
  th_fin :: bool
  th_win :: u16
  th_cksum :: u16
  th_uptr :: u16

definition TCPHeader_default :: tcp_header where
  "TCPHeader_default =
     \<lparr>th_sport = 0, th_dport = 0, th_seqno = WrappingInt32 0, th_ackno = WrappingInt32 0,
      th_doff = 5, th_urg = False, th_ack = False, th_psh = False, th_rst = False, th_syn = False,
      th_fin = False, th_win = 0, th_cksum = 0, th_uptr = 0\<rparr>"

definition TCPHeader_parse :: "net_parser \<Rightarrow> ((parse_result \<times> tcp_header) \<times> net_parser) result" where
  "TCPHeader_parse =
     np_bind NetParser_u16 (\<lambda>sport.
     np_bind NetParser_u16 (\<lambda>dport.
     np_bind NetParser_u32 (\<lambda>seqno.
     np_bind NetParser_u32 (\<lambda>ackno.
     np_bind NetParser_u8 (\<lambda>off_b.
     np_bind NetParser_u8 (\<lambda>fl_b.
     np_bind NetParser_u16 (\<lambda>win.
     np_bind NetParser_u16 (\<lambda>cksum.
     np_bind NetParser_u16 (\<lambda>uptr.
       let doff = drop_bit 4 off_b;
           h = \<lparr>th_sport = sport, th_dport = dport, th_seqno = WrappingInt32 seqno,
                th_ackno = WrappingInt32 ackno, th_doff = doff,
                th_urg = (fl_b AND 0b00100000 \<noteq> 0), th_ack = (fl_b AND 0b00010000 \<noteq> 0),
                th_psh = (fl_b AND 0b00001000 \<noteq> 0), th_rst = (fl_b AND 0b00000100 \<noteq> 0),
                th_syn = (fl_b AND 0b00000010 \<noteq> 0), th_fin = (fl_b AND 0b00000001 \<noteq> 0),
                th_win = win, th_cksum = cksum, th_uptr = uptr\<rparr>
       in if doff < 5 then (\<lambda>p. Inr ((HeaderTooShort, h), p))
          else np_bind (NetParser_remove_prefix (unat doff * 4 - TCPHeader_LENGTH)) (\<lambda>_ p.
                 if NetParser_error p then Inr ((np_error p, h), p) else Inr ((NoError, h), p)))))))))))"

definition TCPHeader_flag_byte :: "tcp_header \<Rightarrow> u8" where
  "TCPHeader_flag_byte h =
     (if th_urg h then 0b00100000 else 0) OR (if th_ack h then 0b00010000 else 0) OR
     (if th_psh h then 0b00001000 else 0) OR (if th_rst h then 0b00000100 else 0) OR
     (if th_syn h then 0b00000010 else 0) OR (if th_fin h then 0b00000001 else 0)"

definition TCPHeader_serialize :: "tcp_header \<Rightarrow> byte list result" where
  "TCPHeader_serialize h =
     (if th_doff h < 5 then Inl (RuntimeError ''TCP header too short'')
      else let ret = [];
               ret = NetUnparser_u16 ret (th_sport h);
               ret = NetUnparser_u16 ret (th_dport h);
               ret = NetUnparser_u32 ret (raw_value (th_seqno h));
               ret = NetUnparser_u32 ret (raw_value (th_ackno h));
               ret = NetUnparser_u8 ret (push_bit 4 (th_doff h));
               ret = NetUnparser_u8 ret (TCPHeader_flag_byte h);
               ret = NetUnparser_u16 ret (th_win h);
               ret = NetUnparser_u16 ret (th_cksum h);
               ret = NetUnparser_u16 ret (th_uptr h)
           in Inr (string_resize (4 * unat (th_doff h)) ret))"

definition TCPHeader_eq :: "tcp_header \<Rightarrow> tcp_header \<Rightarrow> bool" where
  "TCPHeader_eq h other \<longleftrightarrow>
     th_seqno h = th_seqno other \<and> th_ackno h = th_ackno other \<and> th_doff h = th_doff other \<and>
     th_urg h = th_urg other \<and> th_ack h = th_ack other \<and> th_psh h = th_psh other \<and>
     th_rst h = th_rst other \<and> th_syn h = th_syn other \<and> th_fin h = th_fin other \<and>
     th_win h = th_win other \<and> th_uptr h = th_uptr other"

section \<open>Serialising and parsing\<close>

definition th_bytes :: "tcp_header \<Rightarrow> byte list" where
  "th_bytes h =
     be16 (th_sport h) @ be16 (th_dport h) @ be32 (raw_value (th_seqno h)) @
     be32 (raw_value (th_ackno h)) @ [push_bit 4 (th_doff h)] @ [TCPHeader_flag_byte h] @
     be16 (th_win h) @ be16 (th_cksum h) @ be16 (th_uptr h)"

lemma th_bytes_length [simp]: "length (th_bytes h) = 20"
  by (simp add: th_bytes_def)

lemma doff_ge: "\<not> doff < (5 :: u8) \<longleftrightarrow> 5 \<le> unat doff"
  by (simp add: word_less_nat_alt not_less)

lemma TCPHeader_serialize_eq:
  "TCPHeader_serialize h =
     (if th_doff h < 5 then Inl (RuntimeError ''TCP header too short'')
      else Inr (th_bytes h @ replicate (4 * unat (th_doff h) - 20) 0))"
proof (cases "th_doff h < 5")
  case False
  then have "take (4 * unat (th_doff h)) (th_bytes h) = th_bytes h" by (simp add: doff_ge)
  then show ?thesis
    using False
    by (simp add: TCPHeader_serialize_def write_eq_rules string_resize_def Let_def)
      (simp add: th_bytes_def)
qed (simp add: TCPHeader_serialize_def)

lemma TCPHeader_serialize_length:
  "TCPHeader_serialize h = Inr s \<Longrightarrow> length s = 4 * unat (th_doff h)"
  by (auto simp: TCPHeader_serialize_eq doff_ge split: if_splits)

lemma flag_bits:
  "(TCPHeader_flag_byte h AND 0b00100000 \<noteq> 0) = th_urg h"
  "(TCPHeader_flag_byte h AND 0b00010000 \<noteq> 0) = th_ack h"
  "(TCPHeader_flag_byte h AND 0b00001000 \<noteq> 0) = th_psh h"
  "(TCPHeader_flag_byte h AND 0b00000100 \<noteq> 0) = th_rst h"
  "(TCPHeader_flag_byte h AND 0b00000010 \<noteq> 0) = th_syn h"
  "(TCPHeader_flag_byte h AND 0b00000001 \<noteq> 0) = th_fin h"
  unfolding TCPHeader_flag_byte_def
  by (cases "th_urg h"; cases "th_ack h"; cases "th_psh h"; cases "th_rst h"; cases "th_syn h";
      cases "th_fin h"; simp)+

lemma doff_nibble: "unat doff \<le> 15 \<Longrightarrow> drop_bit 4 (push_bit 4 doff) = (doff :: u8)"
proof -
  assume "unat doff \<le> 15"
  then have "take_bit 4 doff = doff"
    by (simp add: word_unat_eq_iff unsigned_take_bit_eq take_bit_nat_eq_self)
  then have "n < 4" if "bit doff n" for n using that by (metis bit_take_bit_iff)
  then show ?thesis
    by (intro bit_word_eqI) (auto simp: bit_simps)
qed

text \<open>Symbolic execution of the parser on the bytes of a header.\<close>

lemma TCPHeader_parse_bytes:
  assumes p: "np_error p = NoError" "np_str p = th_bytes h @ opts @ rest"
    and doff: "5 \<le> unat (th_doff h)" "unat (th_doff h) \<le> 15" "length opts = 4 * unat (th_doff h) - 20"
  shows "np_returns (TCPHeader_parse p) (NoError, h) rest"
proof -
  have doff': "\<not> th_doff h < 5" using doff(1) by (simp add: doff_ge)
  have len: "unat (th_doff h) * 4 - TCPHeader_LENGTH = length opts" using doff by simp
  have str: "np_str p = be16 (th_sport h) @ be16 (th_dport h) @ be32 (raw_value (th_seqno h)) @
      be32 (raw_value (th_ackno h)) @ [push_bit 4 (th_doff h)] @ [TCPHeader_flag_byte h] @
      be16 (th_win h) @ be16 (th_cksum h) @ be16 (th_uptr h) @ opts @ rest"
    using p by (simp add: th_bytes_def)
  show ?thesis
    unfolding TCPHeader_parse_def Let_def
    apply (rule tok_steps, fact, fact str)
    apply (rule tok_steps, assumption, assumption)+
    apply (simp only: doff_nibble [OF doff(2)] flag_bits doff' if_False len wrapping_int32.collapse)
    apply (rule remove_prefix_step, assumption, assumption, rule refl)
    apply (simp add: NetParser_error_def np_returns_def)
    done
qed

text \<open>
  Round trip of the TCP header: a header whose data offset is in the range of its 4-bit field
  serialises to \<open>4 * doff\<close> bytes, and parsing those bytes followed by anything gives back the same
  header, no error, and exactly the bytes that followed.
\<close>

theorem TCPHeader_roundtrip:
  assumes "5 \<le> unat (th_doff h)" "unat (th_doff h) \<le> 15"
  shows "\<exists>s. TCPHeader_serialize h = Inr s \<and> length s = 4 * unat (th_doff h) \<and>
    np_returns (TCPHeader_parse (NetParser_new (Buffer_new (s @ rest)))) (NoError, h) rest"
proof -
  let ?o = "replicate (4 * unat (th_doff h) - 20) (0 :: byte)"
  have "TCPHeader_serialize h = Inr (th_bytes h @ ?o)"
    using assms(1) by (simp add: TCPHeader_serialize_eq doff_ge [symmetric])
  moreover have "np_returns (TCPHeader_parse (NetParser_new (Buffer_new ((th_bytes h @ ?o) @ rest))))
      (NoError, h) rest"
    using assms by (intro TCPHeader_parse_bytes [where opts = ?o]) (simp_all add: NetParser_new_def)
  ultimately show ?thesis using assms(1) by simp
qed

theorem TCPHeader_roundtrip_witness:
  "\<exists>s. TCPHeader_serialize (TCPHeader_default\<lparr>th_syn := True, th_win := 1000\<rparr>) = Inr s \<and>
    length s = 4 * unat (th_doff (TCPHeader_default\<lparr>th_syn := True, th_win := 1000\<rparr>)) \<and>
    np_returns (TCPHeader_parse (NetParser_new (Buffer_new (s @ [1, 2, 3]))))
      (NoError, TCPHeader_default\<lparr>th_syn := True, th_win := 1000\<rparr>) [1, 2, 3]"
  by (rule TCPHeader_roundtrip) (simp_all add: TCPHeader_default_def)

section \<open>Which inputs are accepted\<close>

text \<open>The parser on an arbitrary input, read by read.\<close>

definition np_nexts :: "nat list \<Rightarrow> net_parser \<Rightarrow> net_parser" where
  "np_nexts = fold np_next"

lemma np_nexts_ok:
  "np_error (np_nexts ns p) = NoError \<longleftrightarrow> np_error p = NoError \<and> sum_list ns \<le> length (np_str p)"
  "np_error (np_nexts ns p) = NoError \<Longrightarrow> np_str (np_nexts ns p) = drop (sum_list ns) (np_str p)"
proof (induction ns arbitrary: p)
  case (Cons n ns)
  { case 1
    show ?case using Cons.IH(1) [of "np_next n p"]
      by (auto simp: np_nexts_def)
  next
    case 2
    then show ?case using Cons.IH [of "np_next n p"]
      by (auto simp: np_nexts_def add.commute) }
qed (auto simp: np_nexts_def)

lemma np_val_byte:
  assumes "np_error p = NoError" "n < length (np_str p)" "sum_list ns = n"
  shows "np_val 1 (np_nexts ns p) = (np_str p ! n :: u8)"
proof -
  have ok: "np_error (np_nexts ns p) = NoError" "np_str (np_nexts ns p) = drop n (np_str p)"
    using assms np_nexts_ok [of ns p] by simp_all
  have "take 1 (drop n (np_str p)) = [np_str p ! n]" using assms(2) by (simp add: take_Suc_conv_app_nth hd_drop_conv_nth take_Suc)
  then show ?thesis using ok assms(2) by (simp add: np_val_ok)
qed

lemma error_collapse:
  "(if NetParser_error p then Inr ((np_error p, h), p) else Inr ((NoError, h), p)) = Inr ((np_error p, h), p)"
  by (simp add: NetParser_error_def)

lemma if_distribR: "(if c then f else g) x = (if c then f x else g x)"
  by simp

lemma TCPHeader_parse_final:
  fixes p :: net_parser
  defines "L \<equiv> length (np_str p)" and "d \<equiv> unat (drop_bit 4 (np_str p ! 12))"
  assumes "np_error p = NoError"
  shows "\<exists>res h p'. TCPHeader_parse p = Inr ((res, h), p') \<and>
    (np_error p' = NoError \<longleftrightarrow> 20 \<le> L \<and> (5 \<le> d \<longrightarrow> 4 * d \<le> L)) \<and>
    (res = NoError \<longleftrightarrow> 20 \<le> L \<and> 5 \<le> d \<and> 4 * d \<le> L)"
proof -
  let ?p9 = "np_nexts [2, 2, 4, 4, 1, 1, 2, 2, 2] p"
  let ?d = "drop_bit 4 (np_val 1 (np_nexts [2, 2, 4, 4] p)) :: u8"
  have p9: "np_error ?p9 = NoError \<longleftrightarrow> 20 \<le> L"
    using assms(3) np_nexts_ok(1) [of "[2, 2, 4, 4, 1, 1, 2, 2, 2]" p] by (simp add: L_def)
  have str: "length (np_str ?p9) = L - 20" if "20 \<le> L"
    using that p9 np_nexts_ok(2) [of "[2, 2, 4, 4, 1, 1, 2, 2, 2]" p] by (simp add: L_def)
  have d: "?d = drop_bit 4 (np_str p ! 12)" if "20 \<le> L"
    using that np_val_byte [OF assms(3), of 12 "[2, 2, 4, 4]"] by (simp add: L_def)
  have "\<exists>h. TCPHeader_parse p =
      (if ?d < 5 then Inr ((HeaderTooShort, h), ?p9)
       else let p' = np_next (unat ?d * 4 - 20) ?p9 in Inr ((np_error p', h), p'))"
    by (intro exI) (simp only: TCPHeader_parse_def np_reads np_nexts_def fold.simps comp_apply id_apply
        bindE_simps prod.case if_distribR Let_def error_collapse)
  then obtain h where parse: "TCPHeader_parse p =
      (if ?d < 5 then Inr ((HeaderTooShort, h), ?p9)
       else let p' = np_next (unat ?d * 4 - 20) ?p9 in Inr ((np_error p', h), p'))" ..
  show ?thesis
  proof (cases "?d < 5")
    case True
    then have "20 \<le> L \<Longrightarrow> \<not> 5 \<le> d" using d doff_ge [of ?d] by (auto simp: d_def)
    then show ?thesis using True parse p9 by auto
  next
    case False
    then have "20 \<le> L \<Longrightarrow> 5 \<le> d" "20 \<le> L \<Longrightarrow> unat ?d = d"
      using d doff_ge [of ?d] by (auto simp: d_def)
    then show ?thesis using False parse p9 str by (auto simp: Let_def)
  qed
qed

end
