(* ===== verification/Internet_Checksum.thy ===== *)
theory Internet_Checksum
  imports Net_Parser
begin

text \<open>
  The Internet checksum, class \<open>InternetChecksum\<close> of \<open>libsponge/util/util.hh\<close> and \<open>util.cc\<close>.

  The accumulator is a 32-bit word and wraps; the lemmas below carry the bound under which it does
  not.  \<open>be_sum\<close> is the sum of the big-endian 16-bit words of a string as a natural number.
\<close>

unbundle bit_operations_syntax

section \<open>The class\<close>

record internet_checksum =
  ic_sum :: u32
  ic_parity :: bool

definition InternetChecksum_new :: "u32 \<Rightarrow> internet_checksum" where
  "InternetChecksum_new initial_sum = \<lparr>ic_sum = initial_sum, ic_parity = False\<rparr>"

definition InternetChecksum_add :: "internet_checksum \<Rightarrow> byte list \<Rightarrow> internet_checksum" where
  "InternetChecksum_add c data =
     foldl (\<lambda>c b. let val = (ucast b :: u16);
                      val = (if \<not> ic_parity c then push_bit 8 val else val)
                  in c\<lparr>ic_sum := ic_sum c + ucast val, ic_parity := \<not> ic_parity c\<rparr>) c data"

lemma fold_step_unat:
  "unat (drop_bit 16 ret + (ret AND 0xffff) :: u32) = unat ret div 65536 + unat ret mod 65536"
proof -
  have m: "0xffff = (mask 16 :: u32)" by (simp add: mask_eq_exp_minus_1)
  have lt: "unat ret < 4294967296" using unsigned_less [of ret] by simp
  then have a: "unat (drop_bit 16 ret) = unat ret div 65536"
    by (simp add: unsigned_drop_bit_eq drop_bit_nat_def take_bit_nat_eq_self)
  have b: "unat (ret AND 0xffff) = unat ret mod 65536"
    unfolding m take_bit_eq_mask [symmetric] by (simp add: unsigned_take_bit_eq take_bit_nat_def)
  have "unat ret div 65536 + unat ret mod 65536 < 4294967296"
    using lt div_mult_mod_eq [of "unat ret" 65536] by linarith
  then show ?thesis
    unfolding unat_word_ariths(1) a b by simp
qed

function InternetChecksum_fold :: "u32 \<Rightarrow> u32" where
  "InternetChecksum_fold ret =
     (if 0xffff < ret then InternetChecksum_fold (drop_bit 16 ret + (ret AND 0xffff)) else ret)"
  by pat_completeness auto
termination
proof (relation "measure unat")
  fix ret :: u32
  assume "0xffff < ret"
  then have "65535 < unat ret" by (simp add: word_less_nat_alt)
  then have "1 \<le> unat ret div 65536" using div_le_mono [of 65536 "unat ret" 65536] by simp
  then have "unat ret div 65536 + unat ret mod 65536 < unat ret"
    using div_mult_mod_eq [of "unat ret" 65536] by linarith
  then show "(drop_bit 16 ret + (ret AND 0xffff), ret) \<in> measure unat"
    by (simp only: in_measure fold_step_unat)
qed simp

declare InternetChecksum_fold.simps [simp del]

definition InternetChecksum_value :: "internet_checksum \<Rightarrow> u16" where
  "InternetChecksum_value c = ucast (NOT (InternetChecksum_fold (ic_sum c)))"

section \<open>Folding\<close>

lemma fold_spec:
  "unat (InternetChecksum_fold ret) \<le> 65535 \<and>
   unat (InternetChecksum_fold ret) mod 65535 = unat ret mod 65535 \<and>
   (InternetChecksum_fold ret = 0 \<longleftrightarrow> ret = 0)"
proof (induction ret rule: InternetChecksum_fold.induct)
  case (1 ret)
  let ?n = "unat ret" let ?r = "drop_bit 16 ret + (ret AND 0xffff)"
  show ?case
  proof (cases "0xffff < ret")
    case True
    have eq: "InternetChecksum_fold ret = InternetChecksum_fold ?r"
      using True by (subst InternetChecksum_fold.simps) simp
    have "65535 * (?n div 65536) + (?n div 65536 + ?n mod 65536) = ?n"
      using div_mult_mod_eq [of ?n 65536] by linarith
    then have "unat ?r mod 65535 = ?n mod 65535"
      unfolding fold_step_unat using mod_mult_self4 [of 65535 "?n div 65536" "?n div 65536 + ?n mod 65536"]
      by simp
    moreover have "?r \<noteq> 0" "ret \<noteq> 0"
    proof -
      have "65535 < ?n" using True by (simp add: word_less_nat_alt)
      then have "1 \<le> ?n div 65536" using div_le_mono [of 65536 ?n 65536] by simp
      then have "unat ?r \<noteq> 0" unfolding fold_step_unat by simp
      then show "?r \<noteq> 0" by (simp only: unsigned_eq_0_iff simp_thms)
      show "ret \<noteq> 0" using True by auto
    qed
    ultimately show ?thesis using 1 [OF True] unfolding eq by simp
  next
    case False
    then have "InternetChecksum_fold ret = ret" by (subst InternetChecksum_fold.simps) simp
    then show ?thesis using False by (simp add: word_less_nat_alt not_less)
  qed
qed

lemma value_unat: "unat (InternetChecksum_value c) = 65535 - unat (InternetChecksum_fold (ic_sum c))"
proof -
  let ?f = "InternetChecksum_fold (ic_sum c)"
  have le: "unat ?f \<le> 65535" using fold_spec by blast
  have "NOT ?f = - 1 - ?f" by (simp add: not_eq_complement)
  then have "unat (NOT ?f) = 4294967295 - unat ?f"
    using unat_sub [of ?f "- 1"] by (simp add: unsigned_minus_1_eq_mask mask_eq_exp_minus_1 word_order.extremum)
  moreover have "4294967295 - unat ?f = 65536 * 65535 + (65535 - unat ?f)" using le by linarith
  then have "(4294967295 - unat ?f) mod 65536 = (65535 - unat ?f) mod 65536"
    by (simp only: mod_mult_self4)
  ultimately show ?thesis
    by (simp add: InternetChecksum_value_def unsigned_ucast_eq take_bit_nat_def)
qed

lemma value_eq_0: "InternetChecksum_value c = 0 \<longleftrightarrow> ic_sum c \<noteq> 0 \<and> unat (ic_sum c) mod 65535 = 0"
proof -
  let ?f = "InternetChecksum_fold (ic_sum c)"
  have "InternetChecksum_value c = 0 \<longleftrightarrow> unat (InternetChecksum_value c) = 0"
    by (simp only: unsigned_eq_0_iff)
  also have "\<dots> \<longleftrightarrow> unat ?f = 65535" using fold_spec [of "ic_sum c"] unfolding value_unat by linarith
  also have "\<dots> \<longleftrightarrow> unat ?f \<noteq> 0 \<and> unat ?f mod 65535 = 0"
  proof (cases "unat ?f < 65535")
    case False
    then have "unat ?f = 65535" using fold_spec [of "ic_sum c"] by linarith
    then show ?thesis by simp
  qed auto
  finally show ?thesis using fold_spec [of "ic_sum c"] by (simp only: unsigned_eq_0_iff)
qed

section \<open>Summing\<close>

fun be_sum :: "bool \<Rightarrow> byte list \<Rightarrow> nat" where
  "be_sum q [] = 0"
| "be_sum q (b # bs) = (if q then unat b else 256 * unat b) + be_sum (\<not> q) bs"

lemma be_sum_append: "be_sum q (xs @ ys) = be_sum q xs + be_sum (q \<noteq> odd (length xs)) ys"
proof (induction xs arbitrary: q)
  case (Cons x xs)
  have "((\<not> q) \<noteq> odd (length xs)) = (q \<noteq> odd (length (x # xs)))" by auto
  then show ?case using Cons [of "\<not> q"] by simp
qed simp

lemma byte_bound: "unat (b :: byte) \<le> 255"
proof -
  have "unat b < 256" using unsigned_less [of b] by simp
  then show ?thesis by simp
qed

lemma be_sum_bound: "be_sum q xs \<le> 65280 * length xs"
proof (induction xs arbitrary: q)
  case (Cons b xs)
  have "(if q then unat b else 256 * unat b) \<le> 65280" using byte_bound [of b] by auto
  then show ?case using Cons [of "\<not> q"] by simp
qed simp

lemma be_sum_update:
  assumes "i < length xs"
  shows "be_sum q (xs[i := b]) + (if q \<noteq> odd i then 1 else 256) * unat (xs ! i) =
    be_sum q xs + (if q \<noteq> odd i then 1 else 256) * unat b"
  using assms
proof (induction xs arbitrary: q i)
  case (Cons x xs)
  show ?case
  proof (cases i)
    case (Suc j)
    have "((\<not> q) \<noteq> odd j) = (q \<noteq> odd i)" using Suc by auto
    then show ?thesis using Cons.IH [of j "\<not> q"] Cons.prems Suc by (simp only: list_update.simps be_sum.simps nth_Cons_Suc nat.case) simp
  qed simp
qed simp

lemma be_sum_be16: "be_sum False (be16 v) = unat v"
proof -
  have lt: "unat v < 65536" using unsigned_less [of v] by simp
  have "unat (ucast (drop_bit 8 v) :: byte) = unat v div 256"
    using lt by (simp add: unsigned_ucast_eq unsigned_drop_bit_eq take_bit_nat_def drop_bit_nat_def
        mod_less less_mult_imp_div_less)
  moreover have "unat (ucast v :: byte) = unat v mod 256"
    by (simp add: unsigned_ucast_eq take_bit_nat_def)
  ultimately show ?thesis using div_mult_mod_eq [of "unat v" 256] by (simp add: be16_def)
qed

lemma add_sum:
  assumes "unat (ic_sum c) + be_sum (ic_parity c) data < 4294967296"
  shows "unat (ic_sum (InternetChecksum_add c data)) = unat (ic_sum c) + be_sum (ic_parity c) data \<and>
    ic_parity (InternetChecksum_add c data) = (ic_parity c \<noteq> odd (length data))"
  using assms
proof (induction data arbitrary: c)
  case Nil
  then show ?case by (simp add: InternetChecksum_add_def)
next
  case (Cons b data)
  let ?v = "if \<not> ic_parity c then push_bit 8 (ucast b) else ucast b :: u16"
  let ?c = "c\<lparr>ic_sum := ic_sum c + ucast ?v, ic_parity := \<not> ic_parity c\<rparr>"
  have "unat b \<le> 255" by (rule byte_bound)
  then have "unat (ucast ?v :: u32) = (if ic_parity c then unat b else 256 * unat b)"
    by (simp add: unsigned_ucast_eq unsigned_push_bit_eq take_bit_nat_def push_bit_nat_def)
  then have sum: "unat (ic_sum ?c) = unat (ic_sum c) + (if ic_parity c then unat b else 256 * unat b)"
    using Cons.prems by (simp add: unat_word_ariths)
  have "InternetChecksum_add c (b # data) = InternetChecksum_add ?c data"
    by (simp add: InternetChecksum_add_def Let_def)
  then show ?case using Cons.IH [of ?c] Cons.prems sum by auto
qed

section \<open>Verification of a checksum\<close>

abbreviation checksum_of :: "u32 \<Rightarrow> byte list \<Rightarrow> u16" where
  "checksum_of init data \<equiv> InternetChecksum_value (InternetChecksum_add (InternetChecksum_new init) data)"

text \<open>Strings of the size of an IP packet do not overflow the accumulator.\<close>

lemma packet_sum_bound:
  assumes "unat (init :: u32) < 16777216" "length data \<le> 65535"
  shows "unat init + be_sum q data < 4294967296"
  using be_sum_bound [of q data] assms by linarith

lemma checksum_of_eq_0:
  assumes "unat init + be_sum False data < 4294967296"
  shows "checksum_of init data = 0 \<longleftrightarrow>
    unat init + be_sum False data \<noteq> 0 \<and> (unat init + be_sum False data) mod 65535 = 0"
proof -
  let ?c = "InternetChecksum_add (InternetChecksum_new init) data"
  have sum: "unat (ic_sum ?c) = unat init + be_sum False data"
    using add_sum [of "InternetChecksum_new init" data] assms by (simp add: InternetChecksum_new_def)
  have "ic_sum ?c = 0 \<longleftrightarrow> unat (ic_sum ?c) = 0" by (simp only: unsigned_eq_0_iff)
  then show ?thesis unfolding value_eq_0 using sum by simp
qed

lemma checksum_of_cong:
  assumes "unat init + be_sum False data < 4294967296"
  shows "(unat init + be_sum False data + unat (checksum_of init data)) mod 65535 = 0 \<and>
    unat init + be_sum False data + unat (checksum_of init data) \<noteq> 0"
proof -
  let ?c = "InternetChecksum_add (InternetChecksum_new init) data"
  let ?s = "unat init + be_sum False data" and ?f = "unat (InternetChecksum_fold (ic_sum ?c))"
  have sum: "unat (ic_sum ?c) = ?s"
    using add_sum [of "InternetChecksum_new init" data] assms by (simp add: InternetChecksum_new_def)
  have f: "?f \<le> 65535" "?f mod 65535 = ?s mod 65535" "?f = 0 \<longleftrightarrow> ?s = 0"
    using fold_spec [of "ic_sum ?c"] unfolding sum [symmetric] unsigned_eq_0_iff by blast+
  have "(?s + (65535 - ?f)) mod 65535 = (?f + (65535 - ?f)) mod 65535"
    using f(2) by (intro mod_add_cong) simp_all
  also have "\<dots> = 0" using f(1) by simp
  finally have "(?s + (65535 - ?f)) mod 65535 = 0" .
  moreover have "?s + (65535 - ?f) \<noteq> 0" using f(1,3) by linarith
  ultimately show ?thesis unfolding value_unat by blast
qed

lemma mod_diff_contra:
  fixes a b m :: nat
  assumes "a mod m = 0" "b mod m = 0" "a < b" "b < a + m"
  shows False
proof -
  have "m dvd b - a" using assms by (simp add: dvd_diff_nat mod_eq_0_iff_dvd)
  then show False using assms by (auto dest: dvd_imp_le)
qed

text \<open>
  C28. The checksum detects every single-byte error: if a packet of at most 65535 bytes verifies
  (its checksum is 0) under some pseudo-header sum, then no packet that differs from it in exactly
  one byte does.
\<close>

theorem checksum_detects_byte_error:
  assumes "unat (init :: u32) < 16777216" "length data \<le> 65535"
    and "InternetChecksum_value (InternetChecksum_add (InternetChecksum_new init) data) = 0"
    and "i < length data" "b \<noteq> data ! i"
  shows "InternetChecksum_value (InternetChecksum_add (InternetChecksum_new init) (data[i := b])) \<noteq> 0"
proof
  let ?k = "if False \<noteq> odd i then 1 else 256 :: nat"
  let ?S = "unat init + be_sum False data" and ?T = "unat init + be_sum False (data[i := b])"
  assume bad: "checksum_of init (data[i := b]) = 0"
  have eq: "?T + ?k * unat (data ! i) = ?S + ?k * unat b"
    using be_sum_update [OF assms(4), of False b] by simp
  have S: "?S mod 65535 = 0"
    using checksum_of_eq_0 [OF packet_sum_bound [OF assms(1,2)]] assms(3) by blast
  have "length (data[i := b]) \<le> 65535" using assms(2) by simp
  then have T: "?T mod 65535 = 0"
    using checksum_of_eq_0 [OF packet_sum_bound [OF assms(1)]] bad by blast
  have ne: "unat b \<noteq> unat (data ! i)" using assms(5) by (simp add: word_unat_eq_iff)
  have "?k * unat b \<le> 65280" "?k * unat (data ! i) \<le> 65280"
    using byte_bound [of b] byte_bound [of "data ! i"] by auto
  moreover have "?k * unat b \<noteq> ?k * unat (data ! i)" using ne by auto
  ultimately have "?S < ?T \<and> ?T < ?S + 65535 \<or> ?T < ?S \<and> ?S < ?T + 65535" using eq by linarith
  then show False using mod_diff_contra [OF S T] mod_diff_contra [OF T S] by blast
qed

theorem checksum_detects_byte_error_witness:
  "InternetChecksum_value (InternetChecksum_add (InternetChecksum_new 0) ([0xff, 0xfe, 0, 1][1 := 3])) \<noteq> 0"
  by (rule checksum_detects_byte_error)
    (simp_all add: InternetChecksum_value_def InternetChecksum_add_def InternetChecksum_new_def
      InternetChecksum_fold.simps)

end
