(* ===== verification/Tcp_Segment.thy ===== *)
theory Tcp_Segment
  imports Tcp_Header Internet_Checksum
begin

text \<open>
  TCP segments, \<open>libsponge/tcp_helpers/tcp_segment.hh\<close> and \<open>tcp_segment.cc\<close>.

  \<open>TCPSegment::parse\<close> assigns to the object it is called on, which is the first argument of its model.
\<close>

section \<open>The segment\<close>

record tcp_segment =
  seg_header :: tcp_header
  seg_payload :: buffer

definition TCPSegment_default :: tcp_segment where
  "TCPSegment_default = \<lparr>seg_header = TCPHeader_default, seg_payload = Buffer_empty\<rparr>"

definition TCPSegment_parse :: "tcp_segment \<Rightarrow> buffer \<Rightarrow> u32 \<Rightarrow> (parse_result \<times> tcp_segment) result" where
  "TCPSegment_parse seg buffer datagram_layer_checksum =
     (let check = InternetChecksum_new datagram_layer_checksum;
          check = InternetChecksum_add check (Buffer_str buffer)
      in if InternetChecksum_value check \<noteq> 0 then Inr (BadChecksum, seg)
         else bindE (TCPHeader_parse (NetParser_new buffer)) (\<lambda>((_, header), p).
              Inr (np_error p, \<lparr>seg_header = header, seg_payload = np_buffer p\<rparr>)))"

definition TCPSegment_length_in_sequence_space :: "tcp_segment \<Rightarrow> size_t" where
  "TCPSegment_length_in_sequence_space seg =
     length (Buffer_str (seg_payload seg)) + (if th_syn (seg_header seg) then 1 else 0) +
     (if th_fin (seg_header seg) then 1 else 0)"

definition TCPSegment_serialize :: "tcp_segment \<Rightarrow> u32 \<Rightarrow> buffer_list result" where
  "TCPSegment_serialize seg datagram_layer_checksum =
     (let header_out = (seg_header seg)\<lparr>th_cksum := 0\<rparr>;
          check = InternetChecksum_new datagram_layer_checksum
      in bindE (TCPHeader_serialize header_out) (\<lambda>s.
         let check = InternetChecksum_add check s;
             check = InternetChecksum_add check (Buffer_str (seg_payload seg));
             header_out = header_out\<lparr>th_cksum := InternetChecksum_value check\<rparr>
         in bindE (TCPHeader_serialize header_out) (\<lambda>s.
            Inr (BufferList_append (BufferList_append [] (BufferList_of_string s))
                   (BufferList_of_buffer (seg_payload seg))))))"

section \<open>Round trip\<close>

lemma add_append: "InternetChecksum_add (InternetChecksum_add c x) y = InternetChecksum_add c (x @ y)"
  by (simp add: InternetChecksum_add_def)

lemma th_bytes_sum:
  "be_sum False (th_bytes (h\<lparr>th_cksum := c\<rparr>)) = be_sum False (th_bytes (h\<lparr>th_cksum := 0\<rparr>)) + unat c"
  by (simp add: th_bytes_def be_sum_append be_sum_be16 be_length TCPHeader_flag_byte_def)

text \<open>A segment that fits an IP packet, and a pseudo-header sum of a few 16-bit words.\<close>

definition seg_wf :: "tcp_segment \<Rightarrow> u32 \<Rightarrow> bool" where
  "seg_wf seg dlc \<longleftrightarrow>
     5 \<le> unat (th_doff (seg_header seg)) \<and> unat (th_doff (seg_header seg)) \<le> 15 \<and>
     4 * unat (th_doff (seg_header seg)) + length (Buffer_str (seg_payload seg)) \<le> 65535 \<and>
     unat dlc < 1048576"

definition seg_cksum :: "tcp_segment \<Rightarrow> u32 \<Rightarrow> u16" where
  "seg_cksum seg dlc =
     checksum_of dlc (th_bytes ((seg_header seg)\<lparr>th_cksum := 0\<rparr>) @
       replicate (4 * unat (th_doff (seg_header seg)) - 20) 0 @ Buffer_str (seg_payload seg))"

lemma TCPSegment_serialize_eq:
  assumes "\<not> th_doff (seg_header seg) < 5"
  shows "TCPSegment_serialize seg dlc =
    Inr [Buffer_new (th_bytes ((seg_header seg)\<lparr>th_cksum := seg_cksum seg dlc\<rparr>) @
           replicate (4 * unat (th_doff (seg_header seg)) - 20) 0), seg_payload seg]"
  using assms
  by (simp add: TCPSegment_serialize_def TCPHeader_serialize_eq add_append BufferList_of_buffer_def
      seg_cksum_def Let_def)

lemma seg_cksum_verifies:
  assumes "seg_wf seg dlc"
  shows "checksum_of dlc (th_bytes ((seg_header seg)\<lparr>th_cksum := seg_cksum seg dlc\<rparr>) @
       replicate (4 * unat (th_doff (seg_header seg)) - 20) 0 @ Buffer_str (seg_payload seg)) = 0"
proof -
  let ?h = "seg_header seg"
  let ?t = "replicate (4 * unat (th_doff ?h) - 20) 0 @ Buffer_str (seg_payload seg)"
  let ?data = "\<lambda>c. th_bytes (?h\<lparr>th_cksum := c\<rparr>) @ ?t"
  have len: "length (?data c) \<le> 65535" for c using assms by (simp add: seg_wf_def)
  have bound: "unat dlc + be_sum False (?data c) < 4294967296" for c
    using assms by (intro packet_sum_bound len) (simp add: seg_wf_def)
  let ?c = "seg_cksum seg dlc"
  have sum: "be_sum False (?data ?c) = be_sum False (?data 0) + unat ?c"
    by (simp only: be_sum_append th_bytes_sum [where h = ?h and c = ?c] th_bytes_length)
  have "checksum_of dlc (?data 0) = ?c" by (simp only: seg_cksum_def)
  then show ?thesis
    using checksum_of_cong [OF bound [of 0]]
    unfolding checksum_of_eq_0 [OF bound [of ?c]] sum by (simp only: add.assoc) simp
qed

definition seg_same :: "u32 \<Rightarrow> tcp_segment \<Rightarrow> tcp_segment \<Rightarrow> bool" where
  "seg_same dlc seg seg' \<longleftrightarrow> seg_header seg' = (seg_header seg)\<lparr>th_cksum := seg_cksum seg dlc\<rparr> \<and>
     Buffer_str (seg_payload seg') = Buffer_str (seg_payload seg)"

text \<open>The bytes of a segment on the wire.\<close>

definition TCPSegment_bytes :: "u32 \<Rightarrow> tcp_segment \<Rightarrow> byte list result" where
  "TCPSegment_bytes dlc seg = bindE (TCPSegment_serialize seg dlc) (\<lambda>bl. Inr (BufferList_concatenate bl))"

lemma TCPSegment_parse_serialize:
  assumes "seg_wf seg dlc"
  shows "\<exists>bl. TCPSegment_serialize seg dlc = Inr bl \<and>
    length (BufferList_concatenate bl) =
      4 * unat (th_doff (seg_header seg)) + length (Buffer_str (seg_payload seg)) \<and>
    (\<forall>b. Buffer_str b = BufferList_concatenate bl \<longrightarrow>
      (\<exists>seg'. TCPSegment_parse old b dlc = Inr (NoError, seg') \<and> seg_same dlc seg seg'))"
proof -
  let ?h = "(seg_header seg)\<lparr>th_cksum := seg_cksum seg dlc\<rparr>"
  let ?o = "replicate (4 * unat (th_doff (seg_header seg)) - 20) (0 :: byte)"
  let ?bytes = "th_bytes ?h @ ?o @ Buffer_str (seg_payload seg)"
  have doff: "5 \<le> unat (th_doff ?h)" "unat (th_doff ?h) \<le> 15" using assms by (simp_all add: seg_wf_def)
  then have "\<not> th_doff (seg_header seg) < 5" by (simp add: doff_ge)
  note ser = TCPSegment_serialize_eq [OF this, of dlc]
  have bytes: "BufferList_concatenate [Buffer_new (th_bytes ?h @ ?o), seg_payload seg] = ?bytes" by simp
  have "\<exists>seg'. TCPSegment_parse old b dlc = Inr (NoError, seg') \<and> seg_same dlc seg seg'"
    if b: "Buffer_str b = ?bytes" for b
  proof -
    have "np_returns (TCPHeader_parse (NetParser_new b)) (NoError, ?h) (Buffer_str (seg_payload seg))"
      using doff b by (intro TCPHeader_parse_bytes [where opts = ?o]) (simp_all add: NetParser_new_def)
    then obtain p' where p': "TCPHeader_parse (NetParser_new b) = Inr ((NoError, ?h), p')" "np_error p' = NoError"
      "np_str p' = Buffer_str (seg_payload seg)" by (auto simp: np_returns_def)
    have "TCPSegment_parse old b dlc = Inr (NoError, \<lparr>seg_header = ?h, seg_payload = np_buffer p'\<rparr>)"
      using seg_cksum_verifies [OF assms]
      by (simp only: TCPSegment_parse_def Let_def b p'(1,2) bindE_simps prod.case simp_thms if_False)
    then show ?thesis using p'(3) by (simp add: seg_same_def)
  qed
  moreover have "length ?bytes = 4 * unat (th_doff (seg_header seg)) + length (Buffer_str (seg_payload seg))"
    using doff by simp
  ultimately show ?thesis unfolding ser using bytes by (metis (no_types, lifting))
qed

interpretation segment: wire_format "TCPSegment_bytes dlc" "\<lambda>b. TCPSegment_parse old b dlc"
  "\<lambda>seg. seg_wf seg dlc" "seg_same dlc" for old dlc
proof unfold_locales
  fix seg
  assume "seg_wf seg dlc"
  from TCPSegment_parse_serialize [OF this, of old] show "\<exists>s. TCPSegment_bytes dlc seg = Inr s \<and>
      (\<forall>b. Buffer_str b = s \<longrightarrow> (\<exists>seg'. TCPSegment_parse old b dlc = Inr (NoError, seg') \<and> seg_same dlc seg seg'))"
    unfolding TCPSegment_bytes_def by (metis bindE_simps(2))
qed

text \<open>
  Round trip of a TCP segment: the bytes a segment serialises to, whatever its checksum field
  held, pass the checksum test of \<open>parse\<close> under the same pseudo-header sum and parse to the same
  header (with the computed checksum) and the same payload.
\<close>

theorem TCPSegment_roundtrip:
  assumes "seg_wf seg dlc"
  shows "\<exists>bl seg'. TCPSegment_serialize seg dlc = Inr bl \<and>
    TCPSegment_parse old (Buffer_new (BufferList_concatenate bl)) dlc = Inr (NoError, seg') \<and>
    seg_header seg' = (seg_header seg)\<lparr>th_cksum := seg_cksum seg dlc\<rparr> \<and>
    Buffer_str (seg_payload seg') = Buffer_str (seg_payload seg)"
proof -
  obtain bl where bl: "TCPSegment_serialize seg dlc = Inr bl"
    "\<exists>seg'. TCPSegment_parse old (Buffer_new (BufferList_concatenate bl)) dlc = Inr (NoError, seg') \<and>
      seg_same dlc seg seg'"
    using TCPSegment_parse_serialize [OF assms, of old] Buffer_new_simps by metis
  then show ?thesis by (auto simp: seg_same_def)
qed

theorem TCPSegment_roundtrip_witness:
  "\<exists>bl seg'.
    TCPSegment_serialize \<lparr>seg_header = TCPHeader_default, seg_payload = Buffer_new [104, 105, 33]\<rparr> 77 = Inr bl \<and>
    TCPSegment_parse TCPSegment_default (Buffer_new (BufferList_concatenate bl)) 77 = Inr (NoError, seg') \<and>
    seg_header seg' = (seg_header \<lparr>seg_header = TCPHeader_default, seg_payload = Buffer_new [104, 105, 33]\<rparr>)
      \<lparr>th_cksum := seg_cksum \<lparr>seg_header = TCPHeader_default, seg_payload = Buffer_new [104, 105, 33]\<rparr> 77\<rparr> \<and>
    Buffer_str (seg_payload seg') =
      Buffer_str (seg_payload \<lparr>seg_header = TCPHeader_default, seg_payload = Buffer_new [104, 105, 33]\<rparr>)"
  by (rule TCPSegment_roundtrip) (simp add: seg_wf_def TCPHeader_default_def)

lemma TCPSegment_parse_total: "\<exists>res seg'. TCPSegment_parse seg b dlc = Inr (res, seg')"
proof -
  have "np_error (NetParser_new b) = NoError" by (simp add: NetParser_new_def)
  from TCPHeader_parse_final [OF this] show ?thesis by (auto simp: TCPSegment_parse_def Let_def)
qed

text \<open>
  C27. What \<open>TCPSegment::parse\<close> accepts: it never throws, and it reports success exactly when the
  checksum verifies, the 20 fixed bytes are there, and the data offset is at most the length.  The
  \<open>HeaderTooShort\<close> that \<open>TCPHeader::parse\<close> returns for a data offset below 5 is dropped: such a
  segment is accepted.
\<close>

theorem TCPSegment_parse_accepts:
  "\<exists>res seg'. TCPSegment_parse seg buffer dlc = Inr (res, seg') \<and>
    (res = NoError \<longleftrightarrow>
       InternetChecksum_value (InternetChecksum_add (InternetChecksum_new dlc) (Buffer_str buffer)) = 0 \<and>
       20 \<le> length (Buffer_str buffer) \<and>
       (unat (drop_bit 4 (Buffer_str buffer ! 12)) < 5 \<or>
        4 * unat (drop_bit 4 (Buffer_str buffer ! 12)) \<le> length (Buffer_str buffer)))"
proof (cases "checksum_of dlc (Buffer_str buffer) = 0")
  case True
  let ?d = "unat (drop_bit 4 (Buffer_str buffer ! 12))" and ?L = "length (Buffer_str buffer)"
  have new: "np_error (NetParser_new buffer) = NoError" "np_buffer (NetParser_new buffer) = buffer"
    by (simp_all add: NetParser_new_def)
  obtain res h p' where parse: "TCPHeader_parse (NetParser_new buffer) = Inr ((res, h), p')"
    and "np_error p' = NoError \<longleftrightarrow> 20 \<le> ?L \<and> (5 \<le> ?d \<longrightarrow> 4 * ?d \<le> ?L)"
    using TCPHeader_parse_final [OF new(1)] unfolding new(2) by blast
  moreover have "(5 \<le> ?d \<longrightarrow> 4 * ?d \<le> ?L) \<longleftrightarrow> ?d < 5 \<or> 4 * ?d \<le> ?L" by linarith
  moreover have "TCPSegment_parse seg buffer dlc = Inr (np_error p', \<lparr>seg_header = h, seg_payload = np_buffer p'\<rparr>)"
    using True parse by (simp add: TCPSegment_parse_def)
  ultimately show ?thesis using True by blast
qed (simp add: TCPSegment_parse_def)

end
