(* ===== verification/Tcp_Receiver.thy ===== *)
theory Tcp_Receiver
  imports Reassembler_Eof Tcp_Segment
begin

text \<open>
  The TCP receiver, \<open>libsponge/tcp_receiver.hh\<close> and \<open>tcp_receiver.cc\<close>.

  Every method is a definition.  The lemmas follow a peer that sends substrings of its stream \<open>S\<close>
  under the initial sequence number \<open>isn\<close>: byte \<open>i\<close> of the stream has sequence number
  \<open>wrap (1 + i) isn\<close>.
\<close>

section \<open>The class\<close>

record tcp_receiver =
  rcv_reassembler :: stream_reassembler
  rcv_capacity :: size_t
  rcv_syn_set :: bool
  rcv_fin_set :: bool
  rcv_init_seqno :: wrapping_int32

definition TCPReceiver_new :: "size_t \<Rightarrow> tcp_receiver" where
  "TCPReceiver_new capacity =
     \<lparr>rcv_reassembler = StreamReassembler_new capacity, rcv_capacity = capacity, rcv_syn_set = False,
      rcv_fin_set = False, rcv_init_seqno = WrappingInt32 0\<rparr>"

definition TCPReceiver_stream_out :: "tcp_receiver \<Rightarrow> byte_stream" where
  "TCPReceiver_stream_out r = sr_output (rcv_reassembler r)"

definition TCPReceiver_unassembled_bytes :: "tcp_receiver \<Rightarrow> size_t" where
  "TCPReceiver_unassembled_bytes r = StreamReassembler_unassembled_bytes (rcv_reassembler r)"

text \<open>The last step of \<open>segment_received\<close>: the check for the end of the stream.\<close>

definition TCPReceiver_check_fin :: "tcp_receiver \<Rightarrow> bool \<Rightarrow> tcp_receiver" where
  "TCPReceiver_check_fin r fin =
     (if fin \<or> rcv_fin_set r then
        let r = r\<lparr>rcv_fin_set := True\<rparr>
        in if StreamReassembler_unassembled_bytes (rcv_reassembler r) = 0
           then r\<lparr>rcv_reassembler := (rcv_reassembler r)
                   \<lparr>sr_output := ByteStream_end_input (sr_output (rcv_reassembler r))\<rparr>\<rparr>
           else r
      else r)"

definition TCPReceiver_segment_received :: "tcp_receiver \<Rightarrow> tcp_segment \<Rightarrow> tcp_receiver result" where
  "TCPReceiver_segment_received r seg =
     (let header = seg_header seg;
          syn = th_syn header;
          fin = th_fin header
      in if \<not> syn \<and> \<not> rcv_syn_set r then Inr r
         else let r = (if \<not> rcv_syn_set r
                       then r\<lparr>rcv_syn_set := True, rcv_init_seqno := th_seqno header\<rparr> else r);
                  data = Buffer_copy (seg_payload seg)
              in bindE
                (if data \<noteq> [] \<and> (syn \<or> th_seqno header \<noteq> rcv_init_seqno r) then
                   let index = unwrap (wi_minus (th_seqno header) (if syn then 0 else 1))
                                 (rcv_init_seqno r) (sr_wait_index (rcv_reassembler r))
                   in bindE (StreamReassembler_push_substring (rcv_reassembler r) data index fin)
                        (\<lambda>ra. Inr (r\<lparr>rcv_reassembler := ra\<rparr>))
                 else Inr r)
                (\<lambda>r. Inr (TCPReceiver_check_fin r fin)))"

definition TCPReceiver_ackno :: "tcp_receiver \<Rightarrow> wrapping_int32 option" where
  "TCPReceiver_ackno r =
     (if rcv_syn_set r then
        let index = sz_add (sr_wait_index (rcv_reassembler r)) 1;
            index = (if bs_input_ended (sr_output (rcv_reassembler r)) then sz_add index 1 else index)
        in Some (wrap index (rcv_init_seqno r))
      else None)"

definition TCPReceiver_window_size :: "tcp_receiver \<Rightarrow> size_t" where
  "TCPReceiver_window_size r = sz_sub (rcv_capacity r) (ByteStream_buffer_size (sr_output (rcv_reassembler r)))"

lemma push_capacity:
  assumes "sr_inv S q" "i + length d \<le> seq_limit" "piece S i d"
    and "StreamReassembler_push_substring q d i eof = Inr q'"
  shows "sr_capacity q' = sr_capacity q"
  using push_outcome [OF assms(1-3), of eof] assms(4)
  by (auto simp: sr_outcome_def sr_frame_def)

section \<open>Runs\<close>

text \<open>
  Segments of the peer (with the stream index of their first payload byte) and reads of the
  application, together with the bytes read so far.
\<close>

datatype rcv_op = Segment size_t tcp_segment | Take_out size_t

fun TCPReceiver_step :: "tcp_receiver \<times> byte list \<Rightarrow> rcv_op \<Rightarrow> (tcp_receiver \<times> byte list) result" where
  "TCPReceiver_step (r, del) (Segment i seg) =
     bindE (TCPReceiver_segment_received r seg) (\<lambda>r'. Inr (r', del))"
| "TCPReceiver_step (r, del) (Take_out n) =
     (case StreamReassembler_take (rcv_reassembler r) n of
        (d, ra) \<Rightarrow> Inr (r\<lparr>rcv_reassembler := ra\<rparr>, del @ d))"

text \<open>
  A segment of the peer: a substring of \<open>S\<close> at index \<open>i\<close>, numbered accordingly, and within half of the
  sequence space of the receiver's position.
\<close>

definition genuine_seg ::
  "(nat \<Rightarrow> byte) \<Rightarrow> wrapping_int32 \<Rightarrow> tcp_receiver \<Rightarrow> size_t \<Rightarrow> tcp_segment \<Rightarrow> bool" where
  "genuine_seg S isn r i seg \<longleftrightarrow>
     th_seqno (seg_header seg) = wrap (if th_syn (seg_header seg) then i else 1 + i) isn \<and>
     (th_syn (seg_header seg) \<longrightarrow> i = 0) \<and>
     piece S i (Buffer_str (seg_payload seg)) \<and> i + length (Buffer_str (seg_payload seg)) \<le> seq_limit \<and>
     seq_close i (sr_wait_index (rcv_reassembler r))"

fun genuine_op :: "(nat \<Rightarrow> byte) \<Rightarrow> wrapping_int32 \<Rightarrow> tcp_receiver \<times> byte list \<Rightarrow> rcv_op \<Rightarrow> bool" where
  "genuine_op S isn s (Segment i seg) \<longleftrightarrow> genuine_seg S isn (fst s) i seg"
| "genuine_op S isn s (Take_out n) \<longleftrightarrow> True"

definition rcv_inv :: "(nat \<Rightarrow> byte) \<Rightarrow> wrapping_int32 \<Rightarrow> tcp_receiver \<times> byte list \<Rightarrow> bool" where
  "rcv_inv S isn s \<longleftrightarrow> (case s of (r, del) \<Rightarrow>
     run_inv S (rcv_reassembler r, del) \<and> rcv_capacity r = sr_capacity (rcv_reassembler r) \<and>
     (rcv_syn_set r \<longrightarrow> rcv_init_seqno r = isn))"

lemma wrap_0 [simp]: "wrap 0 isn = isn"
  by (cases isn) (simp add: wrap_def wi_plus_def)

lemma wi_minus_0 [simp]: "wi_minus a 0 = a"
  by (cases a) (simp add: wi_minus_def wi_plus_def)

text \<open>The index computed from the header is the index of the payload in the stream.\<close>

lemma genuine_index:
  assumes "genuine_seg S isn r i seg"
  shows "unwrap (wi_minus (th_seqno (seg_header seg)) (if th_syn (seg_header seg) then 0 else 1)) isn
    (sr_wait_index (rcv_reassembler r)) = i"
proof -
  have "wi_minus (th_seqno (seg_header seg)) (if th_syn (seg_header seg) then 0 else 1) = wrap i isn"
    using assms wi_minus_wrap [of "1 + i" isn] by (auto simp: genuine_seg_def)
  then show ?thesis using assms by (simp add: genuine_seg_def seqno.unwr_wr)
qed

text \<open>The reassembler after the payload has been pushed, and the receiver around it.\<close>

definition rcv_ignores :: "tcp_receiver \<Rightarrow> tcp_segment \<Rightarrow> wrapping_int32 \<Rightarrow> bool" where
  "rcv_ignores r seg isn \<longleftrightarrow>
     Buffer_str (seg_payload seg) = [] \<or>
     \<not> th_syn (seg_header seg) \<and> th_seqno (seg_header seg) = isn"

lemma segment_received_eq:
  assumes "genuine_seg S isn r i seg" "rcv_syn_set r \<longrightarrow> rcv_init_seqno r = isn"
    and "th_syn (seg_header seg) \<or> rcv_syn_set r"
  shows "TCPReceiver_segment_received r seg =
    (let r1 = r\<lparr>rcv_syn_set := True, rcv_init_seqno := isn\<rparr>
     in if rcv_ignores r seg isn then Inr (TCPReceiver_check_fin r1 (th_fin (seg_header seg)))
        else bindE (StreamReassembler_push_substring (rcv_reassembler r) (Buffer_str (seg_payload seg)) i
                      (th_fin (seg_header seg)))
               (\<lambda>ra. Inr (TCPReceiver_check_fin (r1\<lparr>rcv_reassembler := ra\<rparr>) (th_fin (seg_header seg)))))"
proof -
  have r1: "(if \<not> rcv_syn_set r then r\<lparr>rcv_syn_set := True, rcv_init_seqno := th_seqno (seg_header seg)\<rparr> else r) =
      r\<lparr>rcv_syn_set := True, rcv_init_seqno := isn\<rparr>"
    using assms by (cases "rcv_syn_set r") (auto simp: genuine_seg_def)
  show ?thesis
    using genuine_index [OF assms(1)] assms(3)
    unfolding TCPReceiver_segment_received_def Let_def r1 Buffer_copy_def rcv_ignores_def
    by (auto simp: bindE_def split: sum.splits)
qed

lemma check_fin_eq:
  "TCPReceiver_check_fin r fin =
     r\<lparr>rcv_fin_set := fin \<or> rcv_fin_set r,
       rcv_reassembler :=
         (if (fin \<or> rcv_fin_set r) \<and> StreamReassembler_unassembled_bytes (rcv_reassembler r) = 0
          then sr_close (rcv_reassembler r) else rcv_reassembler r)\<rparr>"
  by (auto simp: TCPReceiver_check_fin_def sr_close_def Let_def)

lemma run_inv_close [simp]: "run_inv S (sr_close q, del) = run_inv S (q, del)"
  by (simp add: run_inv_def)

lemma check_fin_inv: "rcv_inv S isn (r, del) \<Longrightarrow> rcv_inv S isn (TCPReceiver_check_fin r fin, del)"
  by (auto simp: rcv_inv_def check_fin_eq)

lemma segment_received_inv:
  assumes inv: "rcv_inv S isn (r, del)" and gen: "genuine_seg S isn r i seg"
  shows "\<exists>r'. TCPReceiver_segment_received r seg = Inr r' \<and> rcv_inv S isn (r', del)"
proof (cases "th_syn (seg_header seg) \<or> rcv_syn_set r")
  case False
  then show ?thesis using inv by (simp add: TCPReceiver_segment_received_def)
next
  case True
  let ?r1 = "r\<lparr>rcv_syn_set := True, rcv_init_seqno := isn\<rparr>"
  have inv1: "rcv_inv S isn (?r1, del)" "rcv_syn_set r \<longrightarrow> rcv_init_seqno r = isn"
    using inv by (simp_all add: rcv_inv_def)
  note eq = segment_received_eq [OF gen inv1(2) True]
  show ?thesis
  proof (cases "rcv_ignores r seg isn")
    case True
    then show ?thesis using eq check_fin_inv [OF inv1(1)] by simp
  next
    case False
    have q: "run_inv S (rcv_reassembler r, del)" "sr_inv S (rcv_reassembler r)"
      using inv by (simp_all add: rcv_inv_def run_inv_def)
    have d: "piece S i (Buffer_str (seg_payload seg))" "i + length (Buffer_str (seg_payload seg)) \<le> seq_limit"
      using gen by (simp_all add: genuine_seg_def)
    obtain ra where ra: "StreamReassembler_push_substring (rcv_reassembler r) (Buffer_str (seg_payload seg)) i
        (th_fin (seg_header seg)) = Inr ra" "run_inv S (ra, del)"
      using push_run_inv [OF q(1) d] by blast
    have "sr_capacity ra = sr_capacity (rcv_reassembler r)"
      by (rule push_capacity [OF q(2) d(2,1) ra(1)])
    then have "rcv_inv S isn (?r1\<lparr>rcv_reassembler := ra\<rparr>, del)" using inv1(1) ra(2) by (simp add: rcv_inv_def)
    then show ?thesis using eq False ra(1) check_fin_inv by simp
  qed
qed

interpretation rcv: safe_machine TCPReceiver_step "genuine_op S isn" "rcv_inv S isn" for S isn
proof unfold_locales
  fix s l
  assume inv: "rcv_inv S isn s" and ok: "genuine_op S isn s l"
  obtain r del where s: "s = (r, del)" by (cases s)
  show "\<exists>s'. TCPReceiver_step s l = Inr s' \<and> rcv_inv S isn s'"
  proof (cases l)
    case (Segment i seg)
    then show ?thesis using segment_received_inv [of S isn r del i seg] inv ok s by auto
  next
    case (Take_out n)
    obtain d ra where t: "StreamReassembler_take (rcv_reassembler r) n = (d, ra)" by fastforce
    have "sr_inv S (rcv_reassembler r)" using inv s by (simp add: rcv_inv_def run_inv_def)
    then show ?thesis
      using Take_out t s inv take_run_inv [OF _ t] take_spec(7) [OF _ t] by (auto simp: rcv_inv_def)
  qed
qed

lemma rcv_inv_new: "cap < seq_limit \<Longrightarrow> rcv_inv S isn (TCPReceiver_new cap, [])"
  using run_inv_new [of cap S] by (simp add: rcv_inv_def TCPReceiver_new_def StreamReassembler_new_def)

lemma rcv_inv_delivered:
  assumes "rcv_inv S isn (r, del)"
  shows "del @ bs_buf (TCPReceiver_stream_out r) = map S [0..<sr_wait_index (rcv_reassembler r)]"
  using assms piece_append [of 0 "bs_bytes_read (sr_output (rcv_reassembler r))" "sr_wait_index (rcv_reassembler r)" S]
  by (simp add: rcv_inv_def run_inv_def sr_inv_def sr_mid_def Let_def piece_def TCPReceiver_stream_out_def)

lemma rcv_inv_ackno:
  assumes "rcv_inv S isn (r, del)"
  shows "TCPReceiver_ackno r =
    (if rcv_syn_set r
     then Some (wrap (1 + sr_wait_index (rcv_reassembler r) +
            (if bs_input_ended (TCPReceiver_stream_out r) then 1 else 0)) isn)
     else None)"
proof -
  let ?w = "sr_wait_index (rcv_reassembler r)"
  have "sz_add ?w 1 = 1 + ?w" "sz_add (1 + ?w) 1 = 1 + ?w + 1"
    using assms by (auto simp: rcv_inv_def run_inv_def sr_inv_def sr_mid_def Let_def sz_add_small)
  then show ?thesis
    using assms by (simp add: rcv_inv_def TCPReceiver_ackno_def TCPReceiver_stream_out_def Let_def)
qed

text \<open>
  C21. The receiver delivers the peer's stream.  Whatever genuine segments arrive, in any order,
  repeated, overlapping, with or without SYN and FIN, and whenever the application reads:
  \<open>segment_received\<close> never throws, the bytes handed to the application followed by the buffered
  ones are exactly the first \<open>_wait_index\<close> bytes of the peer's stream, no acknowledgement is sent
  before a SYN, and afterwards the acknowledged position is the next byte expected (plus one once the
  stream is closed), and position plus window is the right edge of the reassembler's window.
\<close>

theorem receiver_delivers:
  assumes "cap < seq_limit"
    and "run_ok (genuine_op S isn) TCPReceiver_step (TCPReceiver_new cap, []) ops"
  shows "\<exists>r del. runE TCPReceiver_step (TCPReceiver_new cap, []) ops = Inr (r, del) \<and>
    del @ bs_buf (TCPReceiver_stream_out r) = map S [0..<sr_wait_index (rcv_reassembler r)] \<and>
    TCPReceiver_ackno r =
      (if rcv_syn_set r
       then Some (wrap (1 + sr_wait_index (rcv_reassembler r) +
              (if bs_input_ended (TCPReceiver_stream_out r) then 1 else 0)) isn)
       else None) \<and>
    sr_wait_index (rcv_reassembler r) + TCPReceiver_window_size r =
      bs_bytes_read (TCPReceiver_stream_out r) + rcv_capacity r"
proof -
  obtain r del where run: "runE TCPReceiver_step (TCPReceiver_new cap, []) ops = Inr (r, del)"
    and inv: "rcv_inv S isn (r, del)"
    using rcv.run_safe [OF rcv_inv_new [OF assms(1)] assms(2)] by fastforce
  let ?q = "rcv_reassembler r"
  have "sr_wait_index ?q + TCPReceiver_window_size r = bs_bytes_read (sr_output ?q) + rcv_capacity r"
    using inv by (auto simp: rcv_inv_def run_inv_def sr_inv_def sr_mid_def Let_def
        TCPReceiver_window_size_def ByteStream_buffer_size_def sz_sub_small)
  then show ?thesis
    using run rcv_inv_delivered [OF inv] rcv_inv_ackno [OF inv] by (simp add: TCPReceiver_stream_out_def)
qed

definition rcv_example_seg :: "bool \<Rightarrow> nat \<Rightarrow> byte list \<Rightarrow> bool \<Rightarrow> tcp_segment" where
  "rcv_example_seg syn n d fin =
     \<lparr>seg_header = TCPHeader_default\<lparr>th_syn := syn, th_fin := fin, th_seqno := WrappingInt32 (of_nat n)\<rparr>,
      seg_payload = Buffer_new d\<rparr>"

theorem receiver_delivers_witness:
  "\<exists>r del. runE TCPReceiver_step (TCPReceiver_new 8, [])
      [Segment 0 (rcv_example_seg True 7 [] False), Segment 1 (rcv_example_seg False 9 [1] False),
       Segment 0 (rcv_example_seg False 8 [0, 1] False), Take_out 1] = Inr (r, del) \<and>
    del @ bs_buf (TCPReceiver_stream_out r) = map of_nat [0..<sr_wait_index (rcv_reassembler r)] \<and>
    TCPReceiver_ackno r =
      (if rcv_syn_set r
       then Some (wrap (1 + sr_wait_index (rcv_reassembler r) +
              (if bs_input_ended (TCPReceiver_stream_out r) then 1 else 0)) (WrappingInt32 7))
       else None) \<and>
    sr_wait_index (rcv_reassembler r) + TCPReceiver_window_size r =
      bs_bytes_read (TCPReceiver_stream_out r) + rcv_capacity r"
  by (rule receiver_delivers)
    (simp_all add: genuine_seg_def rcv_example_seg_def TCPHeader_default_def TCPReceiver_new_def
      TCPReceiver_segment_received_def TCPReceiver_check_fin_def Buffer_copy_def
      wrap_def wi_plus_def wi_minus_def unwrap_def seq_close_def reassembler_eval piece_def upt_rec)

section \<open>In-order segments\<close>

lemma known_wait_index: "sr_known r \<subseteq> {..<N} \<Longrightarrow> sr_wait_index r \<le> N"
  by (auto simp: sr_known_def subset_eq)

lemma known_prefix:
  assumes "sr_inv S q" "sr_tight q" "sr_known q = {..<M}"
  shows "sr_wait_map q = [] \<and> sr_wait_index q = M"
proof -
  have le: "sr_wait_index q \<le> M" using assms(3) by (intro known_wait_index) auto
  have "sr_wait_map q = []"
  proof (rule ccontr)
    assume "sr_wait_map q \<noteq> []"
    then obtain k d where kd: "(k, d) \<in> set (sr_wait_map q)" by (cases "sr_wait_map q") auto
    then have k: "sr_wait_index q < k" "d \<noteq> []" using assms(1,2) by (force simp: sr_inv_def sr_tight_def)+
    then have "k \<in> sr_known q" using kd by (force simp: sr_known_def wm_dom_def)
    then have "sr_wait_index q \<in> sr_known q" using k assms(3) by auto
    then show False using assms(1) by (force simp: sr_known_def wm_dom_def sr_inv_def)
  qed
  moreover from this have "sr_known q = {..<sr_wait_index q}" by (simp add: sr_known_def wm_dom_def)
  ultimately show ?thesis using assms(3) by (auto simp: lessThan_eq_iff)
qed

lemma push_in_order:
  assumes inv: "sr_inv S q" and open_q: "sr_wait_map q = []" "\<not> bs_input_ended (sr_output q)" "sr_eof_index q = size_max"
    and d: "piece S i d" "i + length d \<le> seq_limit" "i \<le> sr_wait_index q" "i + length d \<le> sr_edge q"
  shows "\<exists>q'. StreamReassembler_push_substring q d i fin = Inr q' \<and>
    sr_wait_index q' = max (sr_wait_index q) (i + length d) \<and> sr_wait_map q' = [] \<and> sr_inv S q' \<and>
    sr_edge q' = sr_edge q \<and>
    (\<not> fin \<longrightarrow> \<not> bs_input_ended (sr_output q') \<and> sr_eof_index q' = size_max)"
proof -
  let ?w = "sr_wait_index q"
  have tight: "sr_tight q" using open_q by (simp add: sr_tight_def)
  have mid: "sr_mid S q" using inv by (simp add: sr_inv_def)
  obtain x q' where x: "StreamReassembler_push_substring q d i fin = Inr q'" "sr_inv S x"
    "sr_outcome (sr_set_eof q d i fin) x q'" "sr_tight x" "sr_known x = sr_known q \<union> sr_new q d i"
    using push_outcome [OF inv d(2,1), of fin] tight open_q d(3) by blast
  have "sr_known q = {..<?w}" using open_q by (simp add: sr_known_def wm_dom_def)
  moreover have "sr_new q d i = {?w..<max ?w (i + length d)}"
  proof (cases "?w < i + length d")
    case True
    then have "length (sr_fresh q d i) = i + length d - ?w"
      using sr_fresh_facts(2) [OF mid d(2,1,3) True] d(4) open_q by simp
    then show ?thesis using d(3) True by (simp add: sr_new_def)
  next
    case False
    then show ?thesis using d(3) sr_fresh_old [of d i q] by (simp add: sr_new_def)
  qed
  ultimately have "sr_known x = {..<max ?w (i + length d)}" using x(5) by auto
  from known_prefix [OF x(2,4) this]
  have pre: "sr_wait_map x = []" "sr_wait_index x = max ?w (i + length d)" by auto
  have wi: "sr_wait_index x \<le> seq_limit" using x(2) by (auto simp: sr_inv_def sr_mid_def Let_def)
  have "\<not> bs_input_ended (sr_output q') \<and> sr_eof_index q' = size_max" if "\<not> fin"
    using that x(3) open_q wi by (auto simp: sr_outcome_def sr_frame_def sr_set_eof_def)
  moreover have "sr_edge q' = sr_edge q" using x(3) by (auto simp: sr_outcome_def sr_frame_def sr_edge_def)
  ultimately show ?thesis using x pre by (simp add: sr_outcome_simps [OF x(3)])
qed

text \<open>A receiver whose stream is open, with nothing waiting.\<close>

definition rcv_open :: "tcp_receiver \<Rightarrow> bool" where
  "rcv_open r \<longleftrightarrow> \<not> rcv_fin_set r \<and> sr_wait_map (rcv_reassembler r) = [] \<and>
     \<not> bs_input_ended (TCPReceiver_stream_out r) \<and> sr_eof_index (rcv_reassembler r) = size_max"

lemma in_order_received:
  assumes inv: "rcv_inv S isn (r, del)" and opn: "rcv_open r" and gen: "genuine_seg S isn r i seg"
    and syn: "th_syn (seg_header seg) \<or> rcv_syn_set r"
    and skip: "\<not> rcv_ignores r seg isn \<or> Buffer_str (seg_payload seg) = []"
    and le: "i \<le> sr_wait_index (rcv_reassembler r)"
      "i + length (Buffer_str (seg_payload seg)) \<le> sr_edge (rcv_reassembler r)"
  shows "\<exists>r'. TCPReceiver_segment_received r seg = Inr r' \<and> rcv_inv S isn (r', del) \<and> rcv_syn_set r' \<and>
    sr_wait_map (rcv_reassembler r') = [] \<and>
    sr_wait_index (rcv_reassembler r') =
      max (sr_wait_index (rcv_reassembler r)) (i + length (Buffer_str (seg_payload seg))) \<and>
    sr_edge (rcv_reassembler r') = sr_edge (rcv_reassembler r) \<and>
    bs_input_ended (TCPReceiver_stream_out r') = th_fin (seg_header seg) \<and>
    (\<not> th_fin (seg_header seg) \<longrightarrow> rcv_open r')"
proof -
  let ?q = "rcv_reassembler r" and ?d = "Buffer_str (seg_payload seg)" and ?fin = "th_fin (seg_header seg)"
  have q: "sr_inv S ?q" "rcv_syn_set r \<longrightarrow> rcv_init_seqno r = isn"
    using inv by (simp_all add: rcv_inv_def run_inv_def)
  have d: "piece S i ?d" "i + length ?d \<le> seq_limit" using gen by (simp_all add: genuine_seg_def)
  have o: "\<not> rcv_fin_set r" "sr_wait_map ?q = []" "\<not> bs_input_ended (sr_output ?q)" "sr_eof_index ?q = size_max"
    using opn by (simp_all add: rcv_open_def TCPReceiver_stream_out_def)
  obtain q' where q': "TCPReceiver_segment_received r seg =
      Inr (TCPReceiver_check_fin (r\<lparr>rcv_syn_set := True, rcv_init_seqno := isn, rcv_reassembler := q'\<rparr>) ?fin)"
    "sr_wait_index q' = max (sr_wait_index ?q) (i + length ?d)" "sr_wait_map q' = []" "sr_inv S q'"
    "sr_edge q' = sr_edge ?q" "\<not> ?fin \<longrightarrow> \<not> bs_input_ended (sr_output q') \<and> sr_eof_index q' = size_max"
  proof (cases "?d = []")
    case True
    show ?thesis
      by (rule that [of ?q]) (use True q o le segment_received_eq [OF gen q(2) syn] in \<open>simp_all add: rcv_ignores_def\<close>)
  next
    case False
    obtain q' where "StreamReassembler_push_substring ?q ?d i ?fin = Inr q'"
      "sr_wait_index q' = max (sr_wait_index ?q) (i + length ?d)" "sr_wait_map q' = []" "sr_inv S q'"
      "sr_edge q' = sr_edge ?q" "\<not> ?fin \<longrightarrow> \<not> bs_input_ended (sr_output q') \<and> sr_eof_index q' = size_max"
      using push_in_order [OF q(1) o(2,3,4) d le] by blast
    then show ?thesis
      by (intro that [of q']) (use False skip segment_received_eq [OF gen q(2) syn] in simp_all)
  qed
  have "StreamReassembler_unassembled_bytes q' = 0"
    using q'(3,4) unassembled_wm_bytes [of S q'] by (auto simp: sr_inv_def wm_bytes_def)
  moreover have "rcv_inv S isn (TCPReceiver_check_fin
      (r\<lparr>rcv_syn_set := True, rcv_init_seqno := isn, rcv_reassembler := q'\<rparr>) ?fin, del)"
    using segment_received_inv [OF inv gen] q'(1) by simp
  ultimately show ?thesis
    using q' o(1) by (simp add: check_fin_eq TCPReceiver_stream_out_def rcv_open_def)
qed

text \<open>
  An in-order segment is consumed whole.  On an open stream with nothing waiting, a segment
  that starts at or before the expected byte and ends inside the window advances the stream to the
  end of its payload, leaves nothing waiting, closes the stream exactly when it carries FIN, and is
  acknowledged up to and including its FIN.
\<close>

theorem receiver_in_order:
  assumes "rcv_inv S isn (r, del)" "rcv_syn_set r" "\<not> rcv_fin_set r" "genuine_seg S isn r i seg"
    and "sr_wait_map (rcv_reassembler r) = []" "\<not> bs_input_ended (TCPReceiver_stream_out r)"
    and "sr_eof_index (rcv_reassembler r) = size_max"
    and "\<not> rcv_ignores r seg isn"
    and "i \<le> sr_wait_index (rcv_reassembler r)"
    and "i + length (Buffer_str (seg_payload seg)) \<le> sr_edge (rcv_reassembler r)"
  shows "\<exists>r'. TCPReceiver_segment_received r seg = Inr r' \<and>
    sr_wait_map (rcv_reassembler r') = [] \<and>
    bs_input_ended (TCPReceiver_stream_out r') = th_fin (seg_header seg) \<and>
    TCPReceiver_ackno r' =
      Some (wrap (1 + max (sr_wait_index (rcv_reassembler r)) (i + length (Buffer_str (seg_payload seg))) +
        (if th_fin (seg_header seg) then 1 else 0)) isn)"
proof -
  have opn: "rcv_open r" using assms(3,5,6,7) by (simp add: rcv_open_def)
  obtain r' where r': "TCPReceiver_segment_received r seg = Inr r'" "rcv_inv S isn (r', del)" "rcv_syn_set r'"
    "sr_wait_map (rcv_reassembler r') = []"
    "sr_wait_index (rcv_reassembler r') =
      max (sr_wait_index (rcv_reassembler r)) (i + length (Buffer_str (seg_payload seg)))"
    "bs_input_ended (TCPReceiver_stream_out r') = th_fin (seg_header seg)"
    using in_order_received [OF assms(1) opn assms(4) _ _ assms(9,10)] assms(2,8) by blast
  then show ?thesis using rcv_inv_ackno [OF r'(2)] by simp
qed

definition rcv_example :: tcp_receiver where
  "rcv_example = (TCPReceiver_new 8)\<lparr>rcv_syn_set := True, rcv_init_seqno := WrappingInt32 7\<rparr>"

theorem receiver_in_order_witness:
  "\<exists>r'. TCPReceiver_segment_received rcv_example (rcv_example_seg False 8 [0, 1] True) = Inr r' \<and>
    sr_wait_map (rcv_reassembler r') = [] \<and>
    bs_input_ended (TCPReceiver_stream_out r') = th_fin (seg_header (rcv_example_seg False 8 [0, 1] True)) \<and>
    TCPReceiver_ackno r' =
      Some (wrap (1 + max (sr_wait_index (rcv_reassembler rcv_example))
          (0 + length (Buffer_str (seg_payload (rcv_example_seg False 8 [0, 1] True)))) +
        (if th_fin (seg_header (rcv_example_seg False 8 [0, 1] True)) then 1 else 0)) (WrappingInt32 7))"
proof (rule receiver_in_order)
  show "rcv_inv of_nat (WrappingInt32 7) (rcv_example, [])"
    using rcv_inv_new [of 8 of_nat "WrappingInt32 7"] by (simp add: rcv_inv_def rcv_example_def)
qed (simp_all add: rcv_example_def genuine_seg_def rcv_example_seg_def TCPHeader_default_def
      TCPReceiver_new_def StreamReassembler_new_def ByteStream_new_def TCPReceiver_stream_out_def
      rcv_ignores_def sr_edge_def wrap_def wi_plus_def seq_close_def piece_def upt_rec)

section \<open>Inputs on which the receiver departs from the protocol\<close>

text \<open>
  C30. A FIN ends the stream early.  Once the SYN has arrived (before or with the segment itself), a segment
  with FIN and no payload closes the output stream whatever its sequence number, as long as no bytes wait for
  reassembly: a FIN that overtakes the data before it cuts the stream, and the output refuses whatever
  is written to it later.  Before the SYN such a segment is discarded.
\<close>

theorem receiver_early_fin:
  assumes "th_fin (seg_header seg)" "Buffer_str (seg_payload seg) = []"
    and "TCPReceiver_unassembled_bytes r = 0"
  shows "\<exists>r'. TCPReceiver_segment_received r seg = Inr r' \<and>
    (if rcv_syn_set r \<or> th_syn (seg_header seg)
     then bs_input_ended (TCPReceiver_stream_out r') \<and>
       sr_wait_index (rcv_reassembler r') = sr_wait_index (rcv_reassembler r) \<and>
       ByteStream_write (TCPReceiver_stream_out r') d = (0, TCPReceiver_stream_out r')
     else r' = r)"
  using assms
  by (simp add: TCPReceiver_segment_received_def Buffer_copy_def check_fin_eq TCPReceiver_unassembled_bytes_def
      TCPReceiver_stream_out_def ByteStream_write_def Let_def)

theorem receiver_early_fin_witness:
  "(\<exists>r'. TCPReceiver_segment_received rcv_example (rcv_example_seg False 5000 [] True) = Inr r' \<and>
    bs_input_ended (TCPReceiver_stream_out r') \<and>
    sr_wait_index (rcv_reassembler r') = sr_wait_index (rcv_reassembler rcv_example) \<and>
    ByteStream_write (TCPReceiver_stream_out r') [1, 2] = (0, TCPReceiver_stream_out r')) \<and>
   TCPReceiver_segment_received (TCPReceiver_new 8) (rcv_example_seg False 5000 [] True) = Inr (TCPReceiver_new 8)"
proof -
  let ?seg = "rcv_example_seg False 5000 [] True"
  have seg: "th_fin (seg_header ?seg)" "Buffer_str (seg_payload ?seg) = []" "\<not> th_syn (seg_header ?seg)"
    by (simp_all add: rcv_example_seg_def TCPHeader_default_def)
  have r: "rcv_syn_set rcv_example" "TCPReceiver_unassembled_bytes rcv_example = 0"
    "\<not> rcv_syn_set (TCPReceiver_new 8)" "TCPReceiver_unassembled_bytes (TCPReceiver_new 8) = 0"
    by (simp_all add: rcv_example_def TCPReceiver_new_def StreamReassembler_new_def
        TCPReceiver_unassembled_bytes_def StreamReassembler_unassembled_bytes_def)
  show ?thesis
    using receiver_early_fin [OF seg(1,2) r(2), of "[1, 2]"] receiver_early_fin [OF seg(1,2) r(4), of "[]"] seg(3) r(1,3)
    by simp
qed

text \<open>
  The data of a segment without SYN whose sequence number equals the initial one is ignored.  That is
  meant for a segment at the SYN's own number, but after \<open>2^32\<close> bytes the numbers wrap, and a genuine
  segment that starts at stream index \<open>2^32 - 1\<close> is ignored as well.
\<close>

lemma receiver_ignores_wrapped:
  assumes "rcv_syn_set r" "rcv_init_seqno r = isn" "\<not> th_syn (seg_header seg)" "\<not> th_fin (seg_header seg)"
    and "\<not> rcv_fin_set r" "th_seqno (seg_header seg) = wrap (1 + 4294967295) isn"
  shows "TCPReceiver_segment_received r seg = Inr r"
proof -
  have "wrap (1 + 4294967295) isn = isn" by (simp add: wrap_eq_iff)
  then show ?thesis
    using assms by (simp add: TCPReceiver_segment_received_def TCPReceiver_check_fin_def Let_def)
qed

text \<open>
  With capacity 8 and two bytes waiting, a last segment that carries all eight bytes and FIN is cut
  to six by the reassembler, after which the receiver closes the stream: two bytes inside the window
  are lost and acknowledged as the end.
\<close>

lemma receiver_cuts_stream:
  "\<exists>r. runE TCPReceiver_step (rcv_example, [])
      [Segment 4 (rcv_example_seg False 12 [4, 5] False),
       Segment 0 (rcv_example_seg False 8 [0, 1, 2, 3, 4, 5, 6, 7] True)] = Inr (r, []) \<and>
    bs_buf (TCPReceiver_stream_out r) = [0, 1, 2, 3, 4, 5] \<and> bs_input_ended (TCPReceiver_stream_out r)"
  by (simp add: rcv_example_def rcv_example_seg_def TCPHeader_default_def TCPReceiver_new_def
      TCPReceiver_segment_received_def TCPReceiver_check_fin_def TCPReceiver_stream_out_def Buffer_copy_def
      wi_plus_def wi_minus_def unwrap_def reassembler_eval)

end
