(* ===== verification/Tcp_Sender.thy ===== *)
theory Tcp_Sender
  imports Byte_Stream Tcp_Segment
begin

text \<open>
  The TCP sender, \<open>libsponge/tcp_sender.hh\<close> and \<open>tcp_sender.cc\<close>, with its retransmission timer and
  the constants of \<open>tcp_helpers/tcp_config.hh\<close>.

  Every method is a definition.  The two failures of the code are kept as values: updating an
  inactive timer throws, and \<open>front()\<close> of an empty retransmission buffer is undefined.  The value
  drawn from \<open>random_device\<close> is an argument of the constructor.
\<close>

section \<open>Configuration\<close>

abbreviation DEFAULT_CAPACITY :: size_t where
  "DEFAULT_CAPACITY \<equiv> 64000"

abbreviation MAX_PAYLOAD_SIZE :: size_t where
  "MAX_PAYLOAD_SIZE \<equiv> 1000"

abbreviation TIMEOUT_DFLT :: u16 where
  "TIMEOUT_DFLT \<equiv> 1000"

abbreviation MAX_RETX_ATTEMPTS :: u32 where
  "MAX_RETX_ATTEMPTS \<equiv> 8"

record tcp_config =
  cfg_rt_timeout :: u16
  cfg_recv_capacity :: size_t
  cfg_send_capacity :: size_t
  cfg_fixed_isn :: "wrapping_int32 option"

definition TCPConfig_default :: tcp_config where
  "TCPConfig_default =
     \<lparr>cfg_rt_timeout = TIMEOUT_DFLT, cfg_recv_capacity = DEFAULT_CAPACITY,
      cfg_send_capacity = DEFAULT_CAPACITY, cfg_fixed_isn = None\<rparr>"

section \<open>Timer\<close>

record timer =
  tm_active :: bool
  tm_expired :: bool
  tm_current_time :: u32
  tm_timeout :: u32

definition Timer_new :: timer where
  "Timer_new = \<lparr>tm_active = False, tm_expired = False, tm_current_time = 0, tm_timeout = 0\<rparr>"

definition Timer_start :: "timer \<Rightarrow> u32 \<Rightarrow> timer" where
  "Timer_start t timeout =
     t\<lparr>tm_active := True, tm_expired := False, tm_current_time := 0, tm_timeout := timeout\<rparr>"

definition Timer_update :: "timer \<Rightarrow> u32 \<Rightarrow> timer result" where
  "Timer_update t time_elapsed =
     (if \<not> tm_active t then Inl (RuntimeError ''Trying to update an inactive timer. Please start it first.'')
      else let t = t\<lparr>tm_current_time := tm_current_time t + time_elapsed\<rparr>
           in Inr (if tm_timeout t \<le> tm_current_time t then t\<lparr>tm_expired := True\<rparr> else t))"

definition Timer_reset :: "timer \<Rightarrow> timer" where
  "Timer_reset t =
     t\<lparr>tm_active := False, tm_expired := False, tm_timeout := 0, tm_current_time := 0\<rparr>"

definition Timer_expired :: "timer \<Rightarrow> bool" where
  "Timer_expired t \<longleftrightarrow> tm_active t \<and> tm_expired t"

section \<open>The class\<close>

record tcp_sender =
  snd_isn :: wrapping_int32
  snd_segments_out :: "tcp_segment list"
  snd_retrans_buf :: "tcp_segment list"
  snd_initial_retransmission_timeout :: u32
  snd_retrans_timeout :: u32
  snd_consec_retrans_count :: u32
  snd_stream :: byte_stream
  snd_next_seqno :: u64
  snd_window_size :: u16
  snd_syn_sent :: bool
  snd_fin_sent :: bool
  snd_timer :: timer

definition TCPSender_new :: "size_t \<Rightarrow> u16 \<Rightarrow> wrapping_int32 option \<Rightarrow> u32 \<Rightarrow> tcp_sender" where
  "TCPSender_new capacity retx_timeout fixed_isn random =
     \<lparr>snd_isn = (case fixed_isn of Some isn \<Rightarrow> isn | None \<Rightarrow> WrappingInt32 random),
      snd_segments_out = [], snd_retrans_buf = [],
      snd_initial_retransmission_timeout = ucast retx_timeout, snd_retrans_timeout = ucast retx_timeout,
      snd_consec_retrans_count = 0, snd_stream = ByteStream_new capacity, snd_next_seqno = 0,
      snd_window_size = 1, snd_syn_sent = False, snd_fin_sent = False, snd_timer = Timer_new\<rparr>"

definition TCPSender_bytes_in_flight :: "tcp_sender \<Rightarrow> size_t" where
  "TCPSender_bytes_in_flight s =
     foldl (\<lambda>res seg. sz_add res (TCPSegment_length_in_sequence_space seg)) 0 (snd_retrans_buf s)"

definition TCPSender_next_seqno :: "tcp_sender \<Rightarrow> wrapping_int32" where
  "TCPSender_next_seqno s = wrap (snd_next_seqno s) (snd_isn s)"

text \<open>
  One round of the loop of \<open>fill_window\<close>: the segment put together from a window of \<open>seg_size\<close>
  sequence numbers, and the sender after it.
\<close>

definition fill_segment :: "tcp_sender \<Rightarrow> size_t \<Rightarrow> tcp_segment \<times> tcp_sender" where
  "fill_segment s seg_size =
     (let header = TCPHeader_default;
          (seg_size, header, s) =
            (if \<not> snd_syn_sent s
             then (sz_sub seg_size 1, header\<lparr>th_syn := True\<rparr>, s\<lparr>snd_syn_sent := True\<rparr>)
             else (seg_size, header, s));
          header = header\<lparr>th_seqno := wrap (snd_next_seqno s) (snd_isn s)\<rparr>;
          (seg_data, stream) = ByteStream_read (snd_stream s) (min seg_size MAX_PAYLOAD_SIZE);
          s = s\<lparr>snd_stream := stream\<rparr>;
          seg_size = sz_sub seg_size (length seg_data);
          payload = Buffer_new seg_data;
          (header, s) =
            (if \<not> snd_fin_sent s \<and> ByteStream_eof (snd_stream s) \<and> 0 < seg_size
             then (header\<lparr>th_fin := True\<rparr>, s\<lparr>snd_fin_sent := True\<rparr>)
             else (header, s))
      in (\<lparr>seg_header = header, seg_payload = payload\<rparr>, s))"

definition fill_enqueue :: "tcp_sender \<Rightarrow> tcp_segment \<Rightarrow> tcp_sender" where
  "fill_enqueue s seg =
     (let s = s\<lparr>snd_segments_out := snd_segments_out s @ [seg], snd_retrans_buf := snd_retrans_buf s @ [seg],
                snd_next_seqno := sz_add (snd_next_seqno s) (TCPSegment_length_in_sequence_space seg)\<rparr>
      in if \<not> tm_active (snd_timer s)
         then s\<lparr>snd_timer := Timer_start (snd_timer s) (snd_retrans_timeout s)\<rparr> else s)"

text \<open>A segment never occupies more than the window it was made for, so the loop ends.\<close>

lemma read_length_le: "length (fst (ByteStream_read b n)) \<le> n"
  by (simp add: ByteStream_read_def ByteStream_peek_output_def Let_def)

lemma sz_sub_le:
  assumes "b \<le> a"
  shows "sz_sub a b \<le> a - b"
proof -
  have "b mod size_mod < size_mod" by simp
  then have "a + (size_mod - b mod size_mod) = (a - b) + (b div size_mod + 1) * size_mod"
    using assms div_mult_mod_eq [of b size_mod] unfolding add_mult_distrib mult_1 by linarith
  then have "sz_sub a b = ((a - b) + (b div size_mod + 1) * size_mod) mod size_mod"
    by (simp only: sz_sub_def)
  also have "\<dots> = (a - b) mod size_mod" by (rule mod_mult_self1)
  finally show ?thesis by (simp only: mod_less_eq_dividend)
qed

lemma fill_segment_length:
  assumes "0 < n"
  shows "TCPSegment_length_in_sequence_space (fst (fill_segment s n)) \<le> n"
proof -
  let ?n1 = "if \<not> snd_syn_sent s then sz_sub n 1 else n"
  let ?d = "fst (ByteStream_read (snd_stream s) (min ?n1 MAX_PAYLOAD_SIZE))"
  have n1: "?n1 + (if \<not> snd_syn_sent s then 1 else 0) \<le> n"
    using sz_sub_le [of 1 n] assms by (cases "snd_syn_sent s") auto
  have d: "length ?d \<le> ?n1"
    using read_length_le [of "snd_stream s" "min ?n1 MAX_PAYLOAD_SIZE"] by simp
  have rest: "sz_sub ?n1 (length ?d) \<le> ?n1 - length ?d" by (rule sz_sub_le [OF d])
  have "TCPSegment_length_in_sequence_space (fst (fill_segment s n)) \<le>
      length ?d + (if \<not> snd_syn_sent s then 1 else 0) + (if 0 < sz_sub ?n1 (length ?d) then 1 else 0)"
    by (auto simp: fill_segment_def TCPSegment_length_in_sequence_space_def TCPHeader_default_def Let_def
        split: prod.split)
  then show ?thesis using n1 d rest by (auto split: if_splits)
qed

function fill_loop :: "tcp_sender \<Rightarrow> size_t \<Rightarrow> tcp_sender" where
  "fill_loop s remaining_winsize =
     (if remaining_winsize = 0 then s
      else let (seg, s) = fill_segment s remaining_winsize;
               seg_size = TCPSegment_length_in_sequence_space seg
           in if seg_size = 0 then s
              else fill_loop (fill_enqueue s seg) (sz_sub remaining_winsize seg_size))"
  by pat_completeness auto
termination
proof (relation "measure snd", goal_cases)
  case (2 s n x seg s' k)
  then have "k \<le> n" using fill_segment_length [of n s] by (metis fst_conv neq0_conv)
  then show ?case using sz_sub_le [of k n] 2 by simp
qed simp

declare fill_loop.simps [simp del]

definition TCPSender_fill_window :: "tcp_sender \<Rightarrow> tcp_sender" where
  "TCPSender_fill_window s =
     (let remaining_winsize = (if snd_window_size s \<noteq> 0 then unat (snd_window_size s) else 1);
          out_size = TCPSender_bytes_in_flight s
      in if remaining_winsize < out_size then s
         else fill_loop s (sz_sub remaining_winsize out_size))"

text \<open>The loop of \<open>ack_received\<close> over the retransmission buffer.\<close>

fun ack_loop :: "tcp_sender \<Rightarrow> u64 \<Rightarrow> tcp_segment list \<Rightarrow> tcp_sender" where
  "ack_loop s ack_seqno [] = s\<lparr>snd_retrans_buf := []\<rparr>"
| "ack_loop s ack_seqno (seg # segs) =
     (if sz_add (unwrap (th_seqno (seg_header seg)) (snd_isn s) (snd_next_seqno s))
           (TCPSegment_length_in_sequence_space seg) \<le> ack_seqno
      then let rto = snd_initial_retransmission_timeout s
           in ack_loop (s\<lparr>snd_retrans_timeout := rto, snd_timer := Timer_start (snd_timer s) rto,
                          snd_consec_retrans_count := 0\<rparr>) ack_seqno segs
      else s\<lparr>snd_retrans_buf := seg # segs\<rparr>)"

definition TCPSender_ack_received :: "tcp_sender \<Rightarrow> wrapping_int32 \<Rightarrow> u16 \<Rightarrow> tcp_sender" where
  "TCPSender_ack_received s ackno window_size =
     (let s = s\<lparr>snd_window_size := window_size\<rparr>;
          ack_seqno = unwrap ackno (snd_isn s) (snd_next_seqno s)
      in if snd_next_seqno s < ack_seqno then s
         else let s = ack_loop s ack_seqno (snd_retrans_buf s);
                  s = (if snd_retrans_buf s = [] then s\<lparr>snd_timer := Timer_reset (snd_timer s)\<rparr> else s)
              in TCPSender_fill_window s)"

definition TCPSender_tick :: "tcp_sender \<Rightarrow> size_t \<Rightarrow> tcp_sender result" where
  "TCPSender_tick s ms_since_last_tick =
     bindE (if tm_active (snd_timer s)
            then bindE (Timer_update (snd_timer s) (of_nat ms_since_last_tick)) (\<lambda>t. Inr (s\<lparr>snd_timer := t\<rparr>))
            else Inr s) (\<lambda>s.
     if Timer_expired (snd_timer s) then
       (case snd_retrans_buf s of
          [] \<Rightarrow> Inl (UndefinedBehaviour ''TCPSender::tick: front() of an empty deque'')
        | seg # _ \<Rightarrow>
            let s = s\<lparr>snd_segments_out := snd_segments_out s @ [seg]\<rparr>;
                s = (if 0 < snd_window_size s
                     then s\<lparr>snd_consec_retrans_count := snd_consec_retrans_count s + 1,
                            snd_retrans_timeout := snd_retrans_timeout s * 2\<rparr> else s)
            in Inr (s\<lparr>snd_timer := Timer_start (snd_timer s) (snd_retrans_timeout s)\<rparr>))
     else Inr s)"

definition TCPSender_consecutive_retransmissions :: "tcp_sender \<Rightarrow> u32" where
  "TCPSender_consecutive_retransmissions s = snd_consec_retrans_count s"

definition TCPSender_send_empty_segment :: "tcp_sender \<Rightarrow> bool \<Rightarrow> bool \<Rightarrow> bool \<Rightarrow> tcp_sender" where
  "TCPSender_send_empty_segment s syn fin rst =
     (let s = (if syn then s\<lparr>snd_syn_sent := True\<rparr> else s);
          s = (if fin then s\<lparr>snd_fin_sent := True\<rparr> else s);
          seg = \<lparr>seg_header = TCPHeader_default\<lparr>th_seqno := wrap (snd_next_seqno s) (snd_isn s),
                   th_syn := syn, th_fin := fin, th_rst := rst\<rparr>, seg_payload = Buffer_empty\<rparr>
      in s\<lparr>snd_next_seqno := sz_add (snd_next_seqno s) (TCPSegment_length_in_sequence_space seg),
           snd_segments_out := snd_segments_out s @ [seg]\<rparr>)"

end
