(* ===== verification/Tcp_State.thy ===== *)
theory Tcp_State
  imports Tcp_Receiver Tcp_Sender
begin

text \<open>
  The summary of a connection's state, \<open>tcp_helpers/tcp_state.hh\<close> and \<open>tcp_state.cc\<close>: the texts for
  the states of the sender and of the receiver, and the official state names of the protocol.
\<close>

section \<open>Texts\<close>

definition RCV_ERROR :: string where "RCV_ERROR = ''error (connection was reset)''"
definition RCV_LISTEN :: string where "RCV_LISTEN = ''waiting for SYN: ackno is empty''"
definition RCV_SYN_RECV :: string where "RCV_SYN_RECV = ''SYN received (ackno exists), and input to stream hasn't ended''"
definition RCV_FIN_RECV :: string where "RCV_FIN_RECV = ''input to stream has ended''"

definition SND_ERROR :: string where "SND_ERROR = ''error (connection was reset)''"
definition SND_CLOSED :: string where "SND_CLOSED = ''waiting for stream to begin (no SYN sent)''"
definition SND_SYN_SENT :: string where "SND_SYN_SENT = ''stream started but nothing acknowledged''"
definition SND_SYN_ACKED :: string where "SND_SYN_ACKED = ''stream ongoing''"
definition SND_FIN_SENT :: string where "SND_FIN_SENT = ''stream finished (FIN sent) but not fully acknowledged''"
definition SND_FIN_ACKED :: string where "SND_FIN_ACKED = ''stream finished and fully acknowledged''"

lemmas state_texts =
  RCV_ERROR_def RCV_LISTEN_def RCV_SYN_RECV_def RCV_FIN_RECV_def SND_ERROR_def SND_CLOSED_def
  SND_SYN_SENT_def SND_SYN_ACKED_def SND_FIN_SENT_def SND_FIN_ACKED_def

section \<open>The class\<close>

record tcp_state =
  ts_sender :: string
  ts_receiver :: string
  ts_active :: bool
  ts_linger_after_streams_finish :: bool

datatype state =
  LISTEN | SYN_RCVD | SYN_SENT | ESTABLISHED | CLOSE_WAIT | LAST_ACK | FIN_WAIT_1 | FIN_WAIT_2 |
  CLOSING | TIME_WAIT | CLOSED | RESET

definition TCPState_eq :: "tcp_state \<Rightarrow> tcp_state \<Rightarrow> bool" where
  "TCPState_eq a b \<longleftrightarrow>
     ts_active a = ts_active b \<and> ts_linger_after_streams_finish a = ts_linger_after_streams_finish b \<and>
     ts_sender a = ts_sender b \<and> ts_receiver a = ts_receiver b"

definition to_string_bool :: "bool \<Rightarrow> string" where
  "to_string_bool b = (if b then ''1'' else ''0'')"

definition TCPState_name :: "tcp_state \<Rightarrow> string" where
  "TCPState_name s =
     ''sender=`'' @ ts_sender s @ ''`, receiver=`'' @ ts_receiver s @ ''`, active='' @ to_string_bool (ts_active s) @
     '', linger_after_streams_finish='' @ to_string_bool (ts_linger_after_streams_finish s)"

definition TCPState_default :: tcp_state where
  "TCPState_default = \<lparr>ts_sender = [], ts_receiver = [], ts_active = True, ts_linger_after_streams_finish = True\<rparr>"

fun TCPState_of_state :: "state \<Rightarrow> tcp_state" where
  "TCPState_of_state LISTEN = TCPState_default\<lparr>ts_receiver := RCV_LISTEN, ts_sender := SND_CLOSED\<rparr>"
| "TCPState_of_state SYN_RCVD = TCPState_default\<lparr>ts_receiver := RCV_SYN_RECV, ts_sender := SND_SYN_SENT\<rparr>"
| "TCPState_of_state SYN_SENT = TCPState_default\<lparr>ts_receiver := RCV_LISTEN, ts_sender := SND_SYN_SENT\<rparr>"
| "TCPState_of_state ESTABLISHED = TCPState_default\<lparr>ts_receiver := RCV_SYN_RECV, ts_sender := SND_SYN_ACKED\<rparr>"
| "TCPState_of_state CLOSE_WAIT =
     TCPState_default\<lparr>ts_receiver := RCV_FIN_RECV, ts_sender := SND_SYN_ACKED, ts_linger_after_streams_finish := False\<rparr>"
| "TCPState_of_state LAST_ACK =
     TCPState_default\<lparr>ts_receiver := RCV_FIN_RECV, ts_sender := SND_FIN_SENT, ts_linger_after_streams_finish := False\<rparr>"
| "TCPState_of_state CLOSING = TCPState_default\<lparr>ts_receiver := RCV_FIN_RECV, ts_sender := SND_FIN_SENT\<rparr>"
| "TCPState_of_state FIN_WAIT_1 = TCPState_default\<lparr>ts_receiver := RCV_SYN_RECV, ts_sender := SND_FIN_SENT\<rparr>"
| "TCPState_of_state FIN_WAIT_2 = TCPState_default\<lparr>ts_receiver := RCV_SYN_RECV, ts_sender := SND_FIN_ACKED\<rparr>"
| "TCPState_of_state TIME_WAIT = TCPState_default\<lparr>ts_receiver := RCV_FIN_RECV, ts_sender := SND_FIN_ACKED\<rparr>"
| "TCPState_of_state RESET =
     TCPState_default\<lparr>ts_receiver := RCV_ERROR, ts_sender := SND_ERROR, ts_linger_after_streams_finish := False,
                      ts_active := False\<rparr>"
| "TCPState_of_state CLOSED =
     TCPState_default\<lparr>ts_receiver := RCV_FIN_RECV, ts_sender := SND_FIN_ACKED, ts_linger_after_streams_finish := False,
                      ts_active := False\<rparr>"

definition state_summary_receiver :: "tcp_receiver \<Rightarrow> string" where
  "state_summary_receiver r =
     (if bs_error (TCPReceiver_stream_out r) then RCV_ERROR
      else if TCPReceiver_ackno r = None then RCV_LISTEN
      else if bs_input_ended (TCPReceiver_stream_out r) then RCV_FIN_RECV
      else RCV_SYN_RECV)"

definition state_summary_sender :: "tcp_sender \<Rightarrow> string" where
  "state_summary_sender s =
     (if bs_error (snd_stream s) then SND_ERROR
      else if snd_next_seqno s = 0 then SND_CLOSED
      else if snd_next_seqno s = TCPSender_bytes_in_flight s then SND_SYN_SENT
      else if \<not> ByteStream_eof (snd_stream s) then SND_SYN_ACKED
      else if snd_next_seqno s < sz_add (bs_bytes_written (snd_stream s)) 2 then SND_SYN_ACKED
      else if TCPSender_bytes_in_flight s \<noteq> 0 then SND_FIN_SENT
      else SND_FIN_ACKED)"

definition TCPState_new :: "tcp_sender \<Rightarrow> tcp_receiver \<Rightarrow> bool \<Rightarrow> bool \<Rightarrow> tcp_state" where
  "TCPState_new sender receiver active linger =
     \<lparr>ts_sender = state_summary_sender sender, ts_receiver = state_summary_receiver receiver,
      ts_active = active, ts_linger_after_streams_finish = (if active then linger else False)\<rparr>"

section \<open>Comparison\<close>

lemma TCPState_eq_iff: "TCPState_eq a b \<longleftrightarrow> a = b"
  by (auto simp: TCPState_eq_def)

lemma receiver_texts_neq:
  "RCV_ERROR \<noteq> RCV_LISTEN" "RCV_ERROR \<noteq> RCV_SYN_RECV" "RCV_ERROR \<noteq> RCV_FIN_RECV"
  "RCV_LISTEN \<noteq> RCV_SYN_RECV" "RCV_LISTEN \<noteq> RCV_FIN_RECV" "RCV_SYN_RECV \<noteq> RCV_FIN_RECV"
  by (simp_all add: state_texts)

lemma sender_texts_neq:
  "SND_ERROR \<noteq> SND_CLOSED" "SND_ERROR \<noteq> SND_SYN_SENT" "SND_ERROR \<noteq> SND_SYN_ACKED" "SND_ERROR \<noteq> SND_FIN_SENT"
  "SND_ERROR \<noteq> SND_FIN_ACKED" "SND_CLOSED \<noteq> SND_SYN_SENT" "SND_CLOSED \<noteq> SND_SYN_ACKED"
  "SND_CLOSED \<noteq> SND_FIN_SENT" "SND_CLOSED \<noteq> SND_FIN_ACKED" "SND_SYN_SENT \<noteq> SND_SYN_ACKED"
  "SND_SYN_SENT \<noteq> SND_FIN_SENT" "SND_SYN_SENT \<noteq> SND_FIN_ACKED" "SND_SYN_ACKED \<noteq> SND_FIN_SENT"
  "SND_SYN_ACKED \<noteq> SND_FIN_ACKED" "SND_FIN_SENT \<noteq> SND_FIN_ACKED"
  by (simp_all add: state_texts)

lemmas texts_neq [simp] =
  receiver_texts_neq sender_texts_neq

lemmas texts_neq_sym [simp] = texts_neq [THEN not_sym]

text \<open>The official states are told apart by \<open>operator==\<close>.\<close>

lemma official_states_distinct: "TCPState_eq (TCPState_of_state a) (TCPState_of_state b) \<longleftrightarrow> a = b"
  by (cases a; cases b) (simp_all add: TCPState_eq_def TCPState_default_def)

end
