(* ===== verification/Sender_Spec.thy ===== *)
theory Sender_Spec
  imports Tcp_Sender Wait_Map
begin

text \<open>
  The invariant of the TCP sender.

  The application writes the stream \<open>S\<close> of \<open>N\<close> bytes.  Absolute sequence number 0 is the SYN, byte
  \<open>i\<close> of the stream has number \<open>1 + i\<close>, and the FIN has number \<open>1 + N\<close>.  \<open>seg_at\<close> says what a segment
  that starts at an absolute number has to look like, \<open>seg_chain\<close> that a queue of segments covers an
  interval of numbers without gap or overlap.
\<close>

section \<open>Segments of a stream\<close>

abbreviation seg_len :: "tcp_segment \<Rightarrow> nat" where
  "seg_len seg \<equiv> TCPSegment_length_in_sequence_space seg"

abbreviation seg_data :: "tcp_segment \<Rightarrow> byte list" where
  "seg_data seg \<equiv> Buffer_str (seg_payload seg)"

definition seg_at :: "(nat \<Rightarrow> byte) \<Rightarrow> nat \<Rightarrow> wrapping_int32 \<Rightarrow> nat \<Rightarrow> tcp_segment \<Rightarrow> bool" where
  "seg_at S N isn a seg \<longleftrightarrow>
     seg_header seg = TCPHeader_default\<lparr>th_seqno := wrap a isn, th_syn := (a = 0), th_fin := th_fin (seg_header seg)\<rparr> \<and>
     piece S (a - 1) (seg_data seg) \<and> a - 1 + length (seg_data seg) \<le> N \<and>
     (th_fin (seg_header seg) \<longrightarrow> a - 1 + length (seg_data seg) = N) \<and>
     length (seg_data seg) \<le> MAX_PAYLOAD_SIZE \<and> 0 < seg_len seg"

lemma seg_at_header:
  assumes "seg_at S N isn a seg"
  shows "th_seqno (seg_header seg) = wrap a isn" "th_syn (seg_header seg) \<longleftrightarrow> a = 0"
proof -
  have hdr: "seg_header seg =
      TCPHeader_default\<lparr>th_seqno := wrap a isn, th_syn := (a = 0), th_fin := th_fin (seg_header seg)\<rparr>"
    using assms by (simp add: seg_at_def)
  show "th_seqno (seg_header seg) = wrap a isn" "th_syn (seg_header seg) \<longleftrightarrow> a = 0"
    by (subst hdr, simp add: TCPHeader_default_def)+
qed

fun seg_chain :: "(nat \<Rightarrow> byte) \<Rightarrow> nat \<Rightarrow> wrapping_int32 \<Rightarrow> nat \<Rightarrow> tcp_segment list \<Rightarrow> nat \<Rightarrow> bool" where
  "seg_chain S N isn a [] b \<longleftrightarrow> a = b"
| "seg_chain S N isn a (seg # segs) b \<longleftrightarrow> seg_at S N isn a seg \<and> seg_chain S N isn (a + seg_len seg) segs b"

lemma seg_chain_append:
  "seg_chain S N isn a (xs @ ys) c \<longleftrightarrow> (\<exists>b. seg_chain S N isn a xs b \<and> seg_chain S N isn b ys c)"
  by (induction xs arbitrary: a) auto

lemma seg_chain_le: "seg_chain S N isn a segs b \<Longrightarrow> b = a + sum_list (map seg_len segs)"
proof (induction segs arbitrary: a)
  case (Cons x segs)
  then have "seg_chain S N isn (a + seg_len x) segs b" by simp
  from Cons.IH [OF this] show ?case by simp
qed simp

lemma seg_chain_empty: "seg_chain S N isn a segs a \<longleftrightarrow> segs = []"
proof
  assume c: "seg_chain S N isn a segs a"
  show "segs = []"
  proof (cases segs)
    case (Cons x xs)
    then have "0 < seg_len x" using c by (simp add: seg_at_def)
    then show ?thesis using seg_chain_le [OF c] Cons by simp
  qed simp
qed simp

section \<open>The invariant\<close>

definition snd_core :: "(nat \<Rightarrow> byte) \<Rightarrow> nat \<Rightarrow> tcp_sender \<Rightarrow> bool" where
  "snd_core S N s \<longleftrightarrow>
     (let st = snd_stream s in
      bs_wf st \<and> piece S (bs_bytes_read st) (bs_buf st) \<and> bs_capacity st < seq_limit \<and>
      bs_bytes_written st = bs_bytes_read st + length (bs_buf st) \<and> bs_bytes_written st \<le> N \<and>
      N + 2 \<le> seq_limit \<and>
      (bs_input_ended st \<longrightarrow> bs_bytes_written st = N) \<and>
      snd_next_seqno s = (if snd_syn_sent s then 1 else 0) + bs_bytes_read st + (if snd_fin_sent s then 1 else 0) \<and>
      (\<not> snd_syn_sent s \<longrightarrow> bs_bytes_read st = 0 \<and> \<not> snd_fin_sent s) \<and>
      (snd_fin_sent s \<longrightarrow> bs_input_ended st \<and> bs_buf st = []))"

definition snd_flight :: "(nat \<Rightarrow> byte) \<Rightarrow> nat \<Rightarrow> nat \<Rightarrow> tcp_sender \<Rightarrow> bool" where
  "snd_flight S N a s \<longleftrightarrow>
     seg_chain S N (snd_isn s) a (snd_retrans_buf s) (snd_next_seqno s) \<and>
     snd_next_seqno s \<le> a + 65535 \<and> (tm_active (snd_timer s) \<longleftrightarrow> snd_retrans_buf s \<noteq> [])"

section \<open>One segment\<close>

lemma fill_segment_eq:
  assumes "bs_wf (snd_stream s)" "0 < n" "n < size_mod"
  defines "n1 \<equiv> (if snd_syn_sent s then n else n - 1)"
  defines "d \<equiv> take (min n1 MAX_PAYLOAD_SIZE) (bs_buf (snd_stream s))"
  defines "st \<equiv> snd (ByteStream_read (snd_stream s) (min n1 MAX_PAYLOAD_SIZE))"
  defines "f \<equiv> \<not> snd_fin_sent s \<and> ByteStream_eof st \<and> length d < n1"
  shows "fill_segment s n =
    (\<lparr>seg_header = TCPHeader_default\<lparr>th_syn := \<not> snd_syn_sent s, th_seqno := wrap (snd_next_seqno s) (snd_isn s),
        th_fin := f\<rparr>, seg_payload = Buffer_new d\<rparr>,
     s\<lparr>snd_syn_sent := True, snd_stream := st, snd_fin_sent := snd_fin_sent s \<or> f\<rparr>)"
proof -
  have n1: "(if \<not> snd_syn_sent s then sz_sub n 1 else n) = n1"
    using assms(2,3) by (simp add: n1_def sz_sub_small)
  have rd: "ByteStream_read (snd_stream s) (min n1 MAX_PAYLOAD_SIZE) = (d, st)"
    using assms(1) by (simp add: d_def st_def read_eq)
  have "length d \<le> n1" by (simp add: d_def)
  moreover have "n1 < size_mod" using assms(3) by (auto simp: n1_def)
  ultimately have "sz_sub n1 (length d) = n1 - length d" by (rule sz_sub_small)
  then show ?thesis
    using n1 rd unfolding fill_segment_def
    by (cases "snd_syn_sent s") (auto simp: Let_def f_def TCPHeader_default_def)
qed

lemma read_pop:
  assumes "bs_wf st" "piece S (bs_bytes_read st) (bs_buf st)"
    and "bs_bytes_written st = bs_bytes_read st + length (bs_buf st)" "bs_bytes_written st < size_mod"
  shows "bs_bytes_read (snd (ByteStream_read st k)) = bs_bytes_read st + length (take k (bs_buf st))"
    and "bs_buf (snd (ByteStream_read st k)) = drop k (bs_buf st)"
    and "bs_bytes_written (snd (ByteStream_read st k)) = bs_bytes_written st"
    and "bs_capacity (snd (ByteStream_read st k)) = bs_capacity st"
    and "bs_input_ended (snd (ByteStream_read st k)) = bs_input_ended st"
    and "bs_error (snd (ByteStream_read st k)) = bs_error st"
    and "bs_wf (snd (ByteStream_read st k))"
    and "piece S (bs_bytes_read st) (take k (bs_buf st))"
    and "piece S (bs_bytes_read st + length (take k (bs_buf st))) (drop k (bs_buf st))"
    and "k = 0 \<Longrightarrow> snd (ByteStream_read st k) = st"
proof -
  show "bs_bytes_read (snd (ByteStream_read st k)) = bs_bytes_read st + length (take k (bs_buf st))"
    using assms by (auto simp: read_eq pop_read sz_add_small min.commute)
  show "bs_wf (snd (ByteStream_read st k))" using assms(1) by (simp add: read_eq bs_wf_pop)
  show "piece S (bs_bytes_read st) (take k (bs_buf st))" using assms(2) by (simp add: piece_iff_nth)
  show "piece S (bs_bytes_read st + length (take k (bs_buf st))) (drop k (bs_buf st))"
    using assms(2) by (auto simp: piece_iff_nth min_def add.assoc)
qed (simp_all add: read_eq min_def)

text \<open>
  The segment made for a window of \<open>n\<close> numbers is the right one at the next sequence number, fits
  the window, and is empty only when the stream has nothing to send.
\<close>

lemma fill_segment_spec:
  assumes core: "snd_core S N s" and n: "0 < n" "n < size_mod"
    and seg: "fill_segment s n = (seg, s')"
  shows "0 < seg_len seg \<Longrightarrow> seg_at S N (snd_isn s) (snd_next_seqno s) seg"
    and "seg_len seg \<le> n"
    and "snd_core S N (s'\<lparr>snd_next_seqno := snd_next_seqno s + seg_len seg\<rparr>)"
    and "seg_len seg = 0 \<Longrightarrow> s' = s \<and> snd_syn_sent s \<and> bs_buf (snd_stream s) = [] \<and>
      (bs_input_ended (snd_stream s) \<longrightarrow> snd_fin_sent s)"
    and "\<exists>syn fin st. s' = s\<lparr>snd_syn_sent := syn, snd_stream := st, snd_fin_sent := fin\<rparr> \<and>
      bs_bytes_written st = bs_bytes_written (snd_stream s) \<and> bs_error st = bs_error (snd_stream s) \<and>
      bs_capacity st = bs_capacity (snd_stream s) \<and> bs_input_ended st = bs_input_ended (snd_stream s)"
proof -
  define st where "st = snd_stream s"
  define n1 where "n1 = (if snd_syn_sent s then n else n - 1)"
  define d where "d = take (min n1 MAX_PAYLOAD_SIZE) (bs_buf st)"
  define st' where "st' = snd (ByteStream_read st (min n1 MAX_PAYLOAD_SIZE))"
  define f where "f = (\<not> snd_fin_sent s \<and> ByteStream_eof st' \<and> length d < n1)"
  have c: "bs_wf st" "piece S (bs_bytes_read st) (bs_buf st)"
    "bs_bytes_written st = bs_bytes_read st + length (bs_buf st)" "bs_bytes_written st < size_mod"
    "bs_bytes_written st \<le> N" "N + 2 \<le> seq_limit" "bs_input_ended st \<longrightarrow> bs_bytes_written st = N"
    "bs_capacity st < seq_limit"
    using core by (auto simp: snd_core_def Let_def st_def)
  note pop = read_pop [OF c(1-4), of "min n1 MAX_PAYLOAD_SIZE", folded d_def st'_def]
  have seg': "seg = \<lparr>seg_header = TCPHeader_default\<lparr>th_syn := \<not> snd_syn_sent s,
        th_seqno := wrap (snd_next_seqno s) (snd_isn s), th_fin := f\<rparr>, seg_payload = Buffer_new d\<rparr>"
    and s': "s' = s\<lparr>snd_syn_sent := True, snd_stream := st', snd_fin_sent := snd_fin_sent s \<or> f\<rparr>"
    using fill_segment_eq [OF c(1) [unfolded st_def] n, folded st_def, folded n1_def, folded d_def st'_def,
        folded f_def] seg by simp_all
  have len: "seg_len seg = length d + (if snd_syn_sent s then 0 else 1) + (if f then 1 else 0)"
    by (simp add: seg' TCPSegment_length_in_sequence_space_def TCPHeader_default_def)
  have d: "length d \<le> n1" "length d \<le> MAX_PAYLOAD_SIZE" "length d \<le> length (bs_buf st)"
    by (simp_all add: d_def)
  show "seg_len seg \<le> n" unfolding len using n d(1) by (auto simp: n1_def f_def split: if_splits)
  have buf': "bs_buf st' = [] \<Longrightarrow> length d = length (bs_buf st)"
    using pop(2) by (auto simp: d_def)
  have fN: "f \<Longrightarrow> bs_bytes_read st + length d = N" "f \<Longrightarrow> bs_buf st' = []" "f \<Longrightarrow> bs_input_ended st"
    using c(3,7) pop(5) buf' by (auto simp: f_def ByteStream_eof_def ByteStream_buffer_empty_def)
  have next_s: "snd_next_seqno s = (if snd_syn_sent s then 1 else 0) + bs_bytes_read st + (if snd_fin_sent s then 1 else 0)"
    "\<not> snd_syn_sent s \<longrightarrow> bs_bytes_read st = 0 \<and> \<not> snd_fin_sent s"
    "snd_fin_sent s \<longrightarrow> bs_input_ended st \<and> bs_buf st = []"
    using core by (auto simp: snd_core_def Let_def st_def)
  have old_fin: "snd_fin_sent s \<Longrightarrow> d = [] \<and> bs_buf st' = [] \<and> \<not> f"
    using next_s(3) pop(2) by (auto simp: d_def f_def)
  have rd: "bs_bytes_read st' = bs_bytes_read st + length d" using pop(1) by (simp add: d_def)
  have drop: "length (bs_buf st') + length d = length (bs_buf st)"
    using pop(2) by (simp add: d_def)
  have "bs_bytes_written st' = bs_bytes_read st' + length (bs_buf st')"
    using c(3) pop(3) rd drop by simp
  moreover have "snd_next_seqno s + seg_len seg = 1 + bs_bytes_read st' + (if snd_fin_sent s \<or> f then 1 else 0)"
    using next_s(1,2) old_fin unfolding len rd by auto
  moreover have "piece S (bs_bytes_read st') (bs_buf st')" using pop(1,2,9) by (simp add: d_def)
  ultimately show "snd_core S N (s'\<lparr>snd_next_seqno := snd_next_seqno s + seg_len seg\<rparr>)"
    using c pop(3,4,5,7) fN next_s(3) old_fin unfolding snd_core_def Let_def s' by auto
  show "\<exists>syn fin st. s' = s\<lparr>snd_syn_sent := syn, snd_stream := st, snd_fin_sent := fin\<rparr> \<and>
      bs_bytes_written st = bs_bytes_written (snd_stream s) \<and> bs_error st = bs_error (snd_stream s) \<and>
      bs_capacity st = bs_capacity (snd_stream s) \<and> bs_input_ended st = bs_input_ended (snd_stream s)"
    using pop(3,4,5,6) s' unfolding st_def by blast
  show "seg_at S N (snd_isn s) (snd_next_seqno s) seg" if pos: "0 < seg_len seg"
  proof -
    have nofin: "\<not> snd_fin_sent s" using pos len next_s(2) old_fin by auto
    have idx: "snd_next_seqno s - 1 = bs_bytes_read st" "snd_next_seqno s = 0 \<longleftrightarrow> \<not> snd_syn_sent s"
      using next_s nofin by auto
    have "bs_bytes_read st + length d \<le> N" using c(3,5) d(3) by linarith
    then show ?thesis
      using pos pop(8) fN(1) idx d(2) unfolding seg_at_def
      by (simp add: seg' d_def TCPHeader_default_def)
  qed
  show "s' = s \<and> snd_syn_sent s \<and> bs_buf (snd_stream s) = [] \<and>
      (bs_input_ended (snd_stream s) \<longrightarrow> snd_fin_sent s)" if zero: "seg_len seg = 0"
  proof -
    have z: "snd_syn_sent s" "d = []" "\<not> f" using zero len by (auto split: if_splits)
    have n1: "n1 = n" using z(1) by (simp add: n1_def)
    have buf: "bs_buf st = []" using z(2) n n1 by (auto simp: d_def)
    have "st' = st" using buf c by (simp add: st'_def read_eq ByteStream_pop_output_def sz_add_small)
    moreover have "bs_input_ended st \<longrightarrow> snd_fin_sent s"
      using z buf n n1 \<open>st' = st\<close> by (auto simp: f_def ByteStream_eof_def ByteStream_buffer_empty_def)
    ultimately show ?thesis using s' z buf by (auto simp: st_def)
  qed
qed

section \<open>Filling the window\<close>

text \<open>Everything there is to send has been sent.\<close>

definition snd_drained :: "tcp_sender \<Rightarrow> bool" where
  "snd_drained s \<longleftrightarrow> snd_syn_sent s \<and> bs_buf (snd_stream s) = [] \<and>
     (bs_input_ended (snd_stream s) \<longrightarrow> snd_fin_sent s)"

text \<open>What an operation of the sender keeps.\<close>

definition snd_keeps :: "tcp_sender \<Rightarrow> tcp_sender \<Rightarrow> bool" where
  "snd_keeps s s' \<longleftrightarrow>
     snd_isn s' = snd_isn s \<and>
     snd_initial_retransmission_timeout s' = snd_initial_retransmission_timeout s \<and>
     bs_bytes_written (snd_stream s') = bs_bytes_written (snd_stream s) \<and>
     bs_capacity (snd_stream s') = bs_capacity (snd_stream s) \<and>
     bs_input_ended (snd_stream s') = bs_input_ended (snd_stream s) \<and>
     bs_error (snd_stream s') = bs_error (snd_stream s)"

definition snd_rto_same :: "tcp_sender \<Rightarrow> tcp_sender \<Rightarrow> bool" where
  "snd_rto_same s s' \<longleftrightarrow>
     snd_window_size s' = snd_window_size s \<and> snd_retrans_timeout s' = snd_retrans_timeout s \<and>
     snd_consec_retrans_count s' = snd_consec_retrans_count s"

lemma snd_keeps_trans: "snd_keeps s s' \<Longrightarrow> snd_keeps s' s'' \<Longrightarrow> snd_keeps s s''"
  by (simp add: snd_keeps_def)

lemma snd_rto_same_trans: "snd_rto_same s s' \<Longrightarrow> snd_rto_same s' s'' \<Longrightarrow> snd_rto_same s s''"
  by (simp add: snd_rto_same_def)

definition filled :: "(nat \<Rightarrow> byte) \<Rightarrow> nat \<Rightarrow> nat \<Rightarrow> tcp_sender \<Rightarrow> nat \<Rightarrow> tcp_sender \<Rightarrow> bool" where
  "filled S N a s n s' \<longleftrightarrow>
     snd_core S N s' \<and> snd_flight S N a s' \<and> snd_keeps s s' \<and> snd_rto_same s s' \<and>
     snd_next_seqno s \<le> snd_next_seqno s' \<and> snd_next_seqno s' \<le> snd_next_seqno s + n \<and>
     (\<exists>new. snd_segments_out s' = snd_segments_out s @ new \<and> snd_retrans_buf s' = snd_retrans_buf s @ new \<and>
        seg_chain S N (snd_isn s) (snd_next_seqno s) new (snd_next_seqno s')) \<and>
     (snd_next_seqno s' = snd_next_seqno s + n \<or> snd_drained s')"

lemma filled_refl:
  "snd_core S N s \<Longrightarrow> snd_flight S N a s \<Longrightarrow> n = 0 \<or> snd_drained s \<Longrightarrow> filled S N a s n s"
  by (auto simp: filled_def snd_keeps_def snd_rto_same_def)

lemma filled_step:
  assumes "snd_keeps s s1" "snd_rto_same s s1" "snd_next_seqno s1 = snd_next_seqno s + k" "k \<le> n"
    and "snd_segments_out s1 = snd_segments_out s @ [seg]" "snd_retrans_buf s1 = snd_retrans_buf s @ [seg]"
    and "seg_at S N (snd_isn s) (snd_next_seqno s) seg" "seg_len seg = k"
    and "filled S N a s1 (n - k) s'"
  shows "filled S N a s n s'"
proof -
  obtain new where new: "snd_segments_out s' = snd_segments_out s1 @ new" "snd_retrans_buf s' = snd_retrans_buf s1 @ new"
    "seg_chain S N (snd_isn s1) (snd_next_seqno s1) new (snd_next_seqno s')"
    using assms(9) by (auto simp: filled_def)
  have "snd_isn s1 = snd_isn s" using assms(1) by (simp add: snd_keeps_def)
  then have "seg_chain S N (snd_isn s) (snd_next_seqno s) (seg # new) (snd_next_seqno s')"
    using new(3) assms(3,7,8) by simp
  then have "\<exists>new. snd_segments_out s' = snd_segments_out s @ new \<and> snd_retrans_buf s' = snd_retrans_buf s @ new \<and>
        seg_chain S N (snd_isn s) (snd_next_seqno s) new (snd_next_seqno s')"
    using new assms(5,6) by (intro exI [of _ "seg # new"]) simp
  then show ?thesis
    using assms snd_keeps_trans [of s s1 s'] snd_rto_same_trans [of s s1 s'] unfolding filled_def by auto
qed

lemma snd_core_next: "snd_core S N s \<Longrightarrow> snd_next_seqno s \<le> N + 2"
  by (auto simp: snd_core_def Let_def)

lemma fill_loop_spec:
  assumes "snd_core S N s" "snd_flight S N a s" "snd_next_seqno s + n \<le> a + 65535"
  shows "filled S N a s n (fill_loop s n)"
  using assms
proof (induction s n rule: fill_loop.induct)
  case (1 s n)
  note core = "1.prems"(1) and flight = "1.prems"(2) and room = "1.prems"(3)
  show ?case
  proof (cases "n = 0")
    case True
    then show ?thesis using filled_refl [OF core flight] by (simp add: fill_loop.simps)
  next
    case n0: False
    obtain seg s1 where seg: "fill_segment s n = (seg, s1)" by fastforce
    have le: "a \<le> snd_next_seqno s" using flight seg_chain_le by (fastforce simp: snd_flight_def)
    then have n: "0 < n" "n < size_mod" using n0 room by auto
    note spec = fill_segment_spec [OF core n seg]
    obtain syn fin st where s1: "s1 = s\<lparr>snd_syn_sent := syn, snd_stream := st, snd_fin_sent := fin\<rparr>"
      "bs_bytes_written st = bs_bytes_written (snd_stream s)" "bs_error st = bs_error (snd_stream s)"
      "bs_capacity st = bs_capacity (snd_stream s)" "bs_input_ended st = bs_input_ended (snd_stream s)"
      using spec(5) by blast
    show ?thesis
    proof (cases "seg_len seg = 0")
      case True
      then have "fill_loop s n = s" using n0 seg spec(4) by (subst fill_loop.simps) simp
      then show ?thesis using True spec(4) filled_refl [OF core flight, of n] by (simp add: snd_drained_def)
    next
      case False
      let ?k = "seg_len seg" and ?s2 = "fill_enqueue s1 seg"
      have next2: "sz_add (snd_next_seqno s) ?k = snd_next_seqno s + ?k"
        using snd_core_next [OF spec(3)] core by (intro sz_add_small) (auto simp: snd_core_def Let_def)
      have s2: "snd_next_seqno ?s2 = snd_next_seqno s + ?k" "snd_isn ?s2 = snd_isn s"
        "snd_segments_out ?s2 = snd_segments_out s @ [seg]" "snd_retrans_buf ?s2 = snd_retrans_buf s @ [seg]"
        "tm_active (snd_timer ?s2)" "snd_keeps s ?s2" "snd_rto_same s ?s2"
        using next2 s1 by (auto simp: fill_enqueue_def Timer_start_def snd_keeps_def snd_rto_same_def Let_def)
      have at: "seg_at S N (snd_isn s) (snd_next_seqno s) seg" using spec(1) False by simp
      have core2: "snd_core S N ?s2"
        using spec(3) next2 s1(1) unfolding fill_enqueue_def snd_core_def Let_def by auto
      have flight2: "snd_flight S N a ?s2"
        using flight at s2 room spec(2) unfolding snd_flight_def by (auto simp: seg_chain_append)
      have sub: "sz_sub n ?k = n - ?k" using spec(2) n(2) by (rule sz_sub_small)
      have IH: "filled S N a ?s2 (n - ?k) (fill_loop ?s2 (n - ?k))"
        using "1.IH" [OF n0 seg [symmetric] refl] False core2 flight2 room spec(2) s2(1) sub by auto
      have "fill_loop s n = fill_loop ?s2 (n - ?k)"
        using n0 seg False sub by (subst fill_loop.simps) simp
      then show ?thesis using filled_step [OF s2(6,7,1) spec(2) s2(3,4) at refl IH] by simp
    qed
  qed
qed

definition snd_inv :: "(nat \<Rightarrow> byte) \<Rightarrow> nat \<Rightarrow> tcp_sender \<Rightarrow> bool" where
  "snd_inv S N s \<longleftrightarrow> snd_core S N s \<and> (\<exists>a. snd_flight S N a s)"

text \<open>The first sequence number that is still outstanding.\<close>

definition snd_una :: "tcp_sender \<Rightarrow> nat" where
  "snd_una s = snd_next_seqno s - sum_list (map seg_len (snd_retrans_buf s))"

lemma flight_una: "snd_flight S N a s \<Longrightarrow> a = snd_una s"
  by (auto simp: snd_flight_def snd_una_def dest: seg_chain_le)

lemma snd_inv_una: "snd_inv S N s \<longleftrightarrow> snd_core S N s \<and> snd_flight S N (snd_una s) s"
  using flight_una by (auto simp: snd_inv_def)

lemma una_le: "snd_una s \<le> snd_next_seqno s"
  by (simp add: snd_una_def)

lemma bytes_in_flight_eq:
  assumes "snd_flight S N a s"
  shows "TCPSender_bytes_in_flight s = snd_next_seqno s - a"
proof -
  have chain: "snd_next_seqno s = a + sum_list (map seg_len (snd_retrans_buf s))" "snd_next_seqno s \<le> a + 65535"
    using assms seg_chain_le by (auto simp: snd_flight_def)
  have "TCPSender_bytes_in_flight s = sum_list (map seg_len (snd_retrans_buf s)) mod size_mod"
    using foldl_sz_add [of seg_len 0 "snd_retrans_buf s"] by (simp add: TCPSender_bytes_in_flight_def)
  then show ?thesis using chain by simp
qed

definition snd_window :: "tcp_sender \<Rightarrow> nat" where
  "snd_window s = (if snd_window_size s \<noteq> 0 then unat (snd_window_size s) else 1)"

lemma snd_window_bounds: "0 < snd_window s" "snd_window s \<le> 65535"
proof -
  have "unat (snd_window_size s) < 65536" using unsigned_less [of "snd_window_size s"] by simp
  then show "0 < snd_window s" "snd_window s \<le> 65535"
    by (auto simp: snd_window_def unat_gt_0)
qed

lemma fill_window_spec:
  assumes core: "snd_core S N s" and flight: "snd_flight S N a s"
  shows "filled S N a s (a + snd_window s - snd_next_seqno s) (TCPSender_fill_window s) \<or>
    TCPSender_fill_window s = s \<and> a + snd_window s < snd_next_seqno s"
proof -
  have le: "a \<le> snd_next_seqno s" using flight seg_chain_le by (fastforce simp: snd_flight_def)
  note out = bytes_in_flight_eq [OF flight]
  have fw: "TCPSender_fill_window s =
      (if snd_window s < TCPSender_bytes_in_flight s then s
       else fill_loop s (sz_sub (snd_window s) (TCPSender_bytes_in_flight s)))"
    unfolding TCPSender_fill_window_def snd_window_def Let_def by simp
  show ?thesis
  proof (cases "snd_window s < snd_next_seqno s - a")
    case True
    then show ?thesis using fw out by simp linarith
  next
    case False
    then have "sz_sub (snd_window s) (snd_next_seqno s - a) = a + snd_window s - snd_next_seqno s"
      using snd_window_bounds [of s] le by (simp add: sz_sub_small)
    then have "TCPSender_fill_window s = fill_loop s (a + snd_window s - snd_next_seqno s)"
      using fw out False by simp
    moreover have "snd_next_seqno s + (a + snd_window s - snd_next_seqno s) \<le> a + 65535"
      using snd_window_bounds(2) [of s] False le by linarith
    ultimately show ?thesis using fill_loop_spec [OF core flight] by simp
  qed
qed

text \<open>What \<open>fill_window\<close> leaves behind, in both cases.\<close>

lemma fill_window_result:
  assumes core: "snd_core S N s" and flight: "snd_flight S N a s"
  defines "s' \<equiv> TCPSender_fill_window s"
  shows "snd_core S N s' \<and> snd_flight S N a s' \<and> snd_keeps s s' \<and> snd_rto_same s s' \<and>
    (\<exists>new. snd_segments_out s' = snd_segments_out s @ new \<and> snd_retrans_buf s' = snd_retrans_buf s @ new \<and>
        seg_chain S N (snd_isn s) (snd_next_seqno s) new (snd_next_seqno s')) \<and>
    snd_next_seqno s' \<le> max (snd_next_seqno s) (a + snd_window s) \<and>
    (a + snd_window s \<le> snd_next_seqno s' \<or> snd_drained s')"
  using fill_window_spec [OF core flight] unfolding s'_def [symmetric]
proof (elim disjE conjE)
  assume "filled S N a s (a + snd_window s - snd_next_seqno s) s'"
  then show ?thesis unfolding filled_def by auto
next
  assume "s' = s" "a + snd_window s < snd_next_seqno s"
  then show ?thesis using core flight by (auto simp: snd_keeps_def snd_rto_same_def)
qed

section \<open>Acknowledgements\<close>

lemma seg_close:
  assumes "a \<le> n" "n \<le> a + 65535" "n \<le> seq_limit"
  shows "seq_close a n"
  using assms by (simp add: seq_close_def)

lemma ack_loop_spec:
  assumes "seg_chain S N (snd_isn s) a segs (snd_next_seqno s)" "snd_next_seqno s \<le> a + 65535"
    and "snd_next_seqno s \<le> seq_limit"
  shows "\<exists>a' segs'. seg_chain S N (snd_isn s) a' segs' (snd_next_seqno s) \<and> a \<le> a' \<and> (a' = a \<or> a' \<le> ack) \<and>
    (segs' = [] \<or> ack < a' + seg_len (hd segs')) \<and> (a' = a \<longrightarrow> segs' = segs) \<and>
    ack_loop s ack segs =
      (if a' = a then s
       else s\<lparr>snd_retrans_timeout := snd_initial_retransmission_timeout s,
              snd_timer := Timer_start (snd_timer s) (snd_initial_retransmission_timeout s),
              snd_consec_retrans_count := 0\<rparr>)\<lparr>snd_retrans_buf := segs'\<rparr>"
  using assms
proof (induction segs arbitrary: a s)
  case Nil
  then show ?case by (intro exI [of _ a] exI [of _ "[]"]) simp
next
  case (Cons seg segs)
  have at: "seg_at S N (snd_isn s) a seg" and chain: "seg_chain S N (snd_isn s) (a + seg_len seg) segs (snd_next_seqno s)"
    using Cons.prems(1) by simp_all
  have le: "a + seg_len seg \<le> snd_next_seqno s" using seg_chain_le [OF chain] by simp
  have pos: "0 < seg_len seg" using at by (simp add: seg_at_def)
  have "th_seqno (seg_header seg) = wrap a (snd_isn s)"
    using at by (metis seg_at_def tcp_header.select_convs(3) tcp_header.surjective tcp_header.update_convs(3,10,11))
  moreover have "seq_close a (snd_next_seqno s)" using le Cons.prems by (intro seg_close) simp_all
  ultimately have "sz_add (unwrap (th_seqno (seg_header seg)) (snd_isn s) (snd_next_seqno s)) (seg_len seg) = a + seg_len seg"
    using le Cons.prems(3) by (simp add: seqno.unwr_wr sz_add_small)
  note test = this
  show ?case
  proof (cases "a + seg_len seg \<le> ack")
    case False
    then show ?thesis using Cons.prems(1) test by (intro exI [of _ a] exI [of _ "seg # segs"]) simp
  next
    case True
    let ?i = "snd_initial_retransmission_timeout s"
    let ?s = "s\<lparr>snd_retrans_timeout := ?i, snd_timer := Timer_start (snd_timer s) ?i, snd_consec_retrans_count := 0\<rparr>"
    have p: "seg_chain S N (snd_isn ?s) (a + seg_len seg) segs (snd_next_seqno ?s)"
      "snd_next_seqno ?s \<le> a + seg_len seg + 65535" "snd_next_seqno ?s \<le> seq_limit"
      using chain Cons.prems by simp_all
    obtain a' segs' where IH: "seg_chain S N (snd_isn ?s) a' segs' (snd_next_seqno ?s)" "a + seg_len seg \<le> a'"
      "a' = a + seg_len seg \<or> a' \<le> ack" "segs' = [] \<or> ack < a' + seg_len (hd segs')"
      "ack_loop ?s ack segs = (if a' = a + seg_len seg then ?s
         else ?s\<lparr>snd_retrans_timeout := snd_initial_retransmission_timeout ?s,
              snd_timer := Timer_start (snd_timer ?s) (snd_initial_retransmission_timeout ?s),
              snd_consec_retrans_count := 0\<rparr>)\<lparr>snd_retrans_buf := segs'\<rparr>"
      using Cons.IH [OF p] by blast
    have "ack_loop s ack (seg # segs) = ?s\<lparr>snd_retrans_buf := segs'\<rparr>"
      using True test IH(5) by (simp add: Let_def Timer_start_def)
    then show ?thesis
      using IH(1-4) True pos by (intro exI [of _ a'] exI [of _ segs']) auto
  qed
qed

text \<open>
  The sender between the removal of acknowledged segments and the refill of the window: \<open>a'\<close> is the
  new first outstanding number.
\<close>

definition acked :: "(nat \<Rightarrow> byte) \<Rightarrow> nat \<Rightarrow> nat \<Rightarrow> nat \<Rightarrow> u16 \<Rightarrow> tcp_sender \<Rightarrow> nat \<Rightarrow> tcp_sender \<Rightarrow> bool" where
  "acked S N a ack win s a' s' \<longleftrightarrow>
     snd_core S N s' \<and> snd_flight S N a' s' \<and> snd_keeps s s' \<and> snd_window_size s' = win \<and>
     snd_next_seqno s' = snd_next_seqno s \<and> snd_segments_out s' = snd_segments_out s \<and>
     a \<le> a' \<and> (a' = a \<or> a' \<le> ack) \<and>
     (snd_retrans_buf s' = [] \<or> ack < a' + seg_len (hd (snd_retrans_buf s'))) \<and>
     (if a' = a
      then snd_retrans_timeout s' = snd_retrans_timeout s \<and>
           snd_consec_retrans_count s' = snd_consec_retrans_count s \<and>
           (snd_retrans_buf s \<noteq> [] \<longrightarrow> snd_timer s' = snd_timer s)
      else snd_retrans_timeout s' = snd_initial_retransmission_timeout s \<and> snd_consec_retrans_count s' = 0 \<and>
           (snd_retrans_buf s' \<noteq> [] \<longrightarrow>
              snd_timer s' = Timer_start (snd_timer s) (snd_initial_retransmission_timeout s)))"

lemma Timer_simps [simp]:
  "tm_active (Timer_start t n)" "\<not> tm_active (Timer_reset t)"
  by (simp_all add: Timer_start_def Timer_reset_def)

lemma ack_received_spec:
  fixes ackno :: wrapping_int32 and s :: tcp_sender
  assumes core: "snd_core S N s" and flight: "snd_flight S N a s"
  defines "ack \<equiv> unwrap ackno (snd_isn s) (snd_next_seqno s)"
  shows "if snd_next_seqno s < ack
    then TCPSender_ack_received s ackno win = s\<lparr>snd_window_size := win\<rparr>
    else \<exists>a' s1. acked S N a ack win s a' s1 \<and> TCPSender_ack_received s ackno win = TCPSender_fill_window s1"
proof (cases "snd_next_seqno s < ack")
  case True
  then show ?thesis by (simp add: TCPSender_ack_received_def ack_def Let_def)
next
  case False
  let ?s = "s\<lparr>snd_window_size := win\<rparr>"
  have lim: "snd_next_seqno s \<le> seq_limit" using core by (auto simp: snd_core_def Let_def)
  have p: "seg_chain S N (snd_isn ?s) a (snd_retrans_buf s) (snd_next_seqno ?s)"
    "snd_next_seqno ?s \<le> a + 65535" "snd_next_seqno ?s \<le> seq_limit"
    using flight lim by (simp_all add: snd_flight_def)
  obtain a' segs' where l: "seg_chain S N (snd_isn ?s) a' segs' (snd_next_seqno ?s)" "a \<le> a'" "a' = a \<or> a' \<le> ack"
    "segs' = [] \<or> ack < a' + seg_len (hd segs')" "a' = a \<longrightarrow> segs' = snd_retrans_buf s"
    "ack_loop ?s ack (snd_retrans_buf s) =
      (if a' = a then ?s
       else ?s\<lparr>snd_retrans_timeout := snd_initial_retransmission_timeout ?s,
              snd_timer := Timer_start (snd_timer ?s) (snd_initial_retransmission_timeout ?s),
              snd_consec_retrans_count := 0\<rparr>)\<lparr>snd_retrans_buf := segs'\<rparr>"
    using ack_loop_spec [OF p, of ack] by blast
  let ?s1 = "ack_loop ?s ack (snd_retrans_buf s)"
  let ?s2 = "if segs' = [] then ?s1\<lparr>snd_timer := Timer_reset (snd_timer ?s1)\<rparr> else ?s1"
  have eq: "TCPSender_ack_received s ackno win = TCPSender_fill_window ?s2"
    using False l(6) by (auto simp: TCPSender_ack_received_def ack_def Let_def)
  have "snd_core S N ?s2" using core l(6) unfolding snd_core_def Let_def by auto
  moreover have "snd_flight S N a' ?s2"
    using l flight unfolding snd_flight_def by (cases "a' = a") auto
  moreover have "snd_keeps s ?s2" using l(6) by (auto simp: snd_keeps_def)
  ultimately have "acked S N a ack win s a' ?s2"
    using l unfolding acked_def by (cases "a' = a") auto
  then show ?thesis using eq unfolding if_not_P [OF False] by blast
qed

end
