(* ===== verification/Sender_Runs.thy ===== *)
theory Sender_Runs
  imports Sender_Spec
begin

text \<open>
  The other operations of the sender and its runs: writing to the stream, ending it, the passage of
  time, empty segments, and the owner of the sender taking the queued segments away.
\<close>

section \<open>Retransmission\<close>

lemma snd_inv_timer:
  assumes "snd_inv S N s" "tm_active t = tm_active (snd_timer s)"
  shows "snd_inv S N (s\<lparr>snd_timer := t\<rparr>)"
  using assms by (auto simp: snd_inv_def snd_core_def snd_flight_def Let_def)

text \<open>Has the timer run out after \<open>ms\<close> more milliseconds?\<close>

definition snd_timeout :: "tcp_sender \<Rightarrow> size_t \<Rightarrow> bool" where
  "snd_timeout s ms \<longleftrightarrow> tm_active (snd_timer s) \<and>
     (tm_expired (snd_timer s) \<or> tm_timeout (snd_timer s) \<le> tm_current_time (snd_timer s) + of_nat ms)"

lemma tick_ok:
  assumes "snd_inv S N s"
  shows "\<exists>s'. TCPSender_tick s ms = Inr s' \<and> snd_inv S N s' \<and>
    snd_retrans_buf s' = snd_retrans_buf s \<and> snd_next_seqno s' = snd_next_seqno s \<and> snd_keeps s s' \<and>
    (if snd_timeout s ms
     then snd_retrans_buf s \<noteq> [] \<and>
          snd_segments_out s' = snd_segments_out s @ [hd (snd_retrans_buf s)] \<and>
          snd_consec_retrans_count s' = snd_consec_retrans_count s + (if snd_window_size s = 0 then 0 else 1) \<and>
          snd_retrans_timeout s' = snd_retrans_timeout s * (if snd_window_size s = 0 then 1 else 2) \<and>
          snd_timer s' = Timer_start (snd_timer s') (snd_retrans_timeout s')
     else snd_segments_out s' = snd_segments_out s \<and>
          snd_consec_retrans_count s' = snd_consec_retrans_count s \<and>
          snd_retrans_timeout s' = snd_retrans_timeout s)"
proof -
  have act: "tm_active (snd_timer s) \<longleftrightarrow> snd_retrans_buf s \<noteq> []"
    using assms by (auto simp: snd_inv_def snd_flight_def)
  show ?thesis
  proof (cases "tm_active (snd_timer s)")
    case False
    then show ?thesis using assms by (auto simp: snd_keeps_def TCPSender_tick_def Timer_expired_def snd_timeout_def)
  next
    case True
    then obtain seg segs where buf: "snd_retrans_buf s = seg # segs" using act by (cases "snd_retrans_buf s") auto
    define t where "t = (snd_timer s)\<lparr>tm_current_time := tm_current_time (snd_timer s) + of_nat ms,
        tm_expired := tm_expired (snd_timer s) \<or> tm_timeout (snd_timer s) \<le> tm_current_time (snd_timer s) + of_nat ms\<rparr>"
    have upd: "Timer_update (snd_timer s) (of_nat ms) = Inr t"
      using True by (auto simp: Timer_update_def t_def Let_def)
    have t: "tm_active t" "Timer_expired t \<longleftrightarrow> snd_timeout s ms"
      using True by (auto simp: t_def Timer_expired_def snd_timeout_def)
    show ?thesis
    proof (cases "snd_timeout s ms")
      case False
      then have "TCPSender_tick s ms = Inr (s\<lparr>snd_timer := t\<rparr>)"
        using True upd t by (simp add: TCPSender_tick_def)
      then show ?thesis using False t(1) True snd_inv_timer [OF assms, of t] by (simp add: snd_keeps_def)
    next
      case timeout: True
      let ?w = "snd_window_size s = 0"
      let ?rto = "snd_retrans_timeout s * (if ?w then 1 else 2)"
      let ?s' = "s\<lparr>snd_segments_out := snd_segments_out s @ [seg],
          snd_consec_retrans_count := snd_consec_retrans_count s + (if ?w then 0 else 1),
          snd_retrans_timeout := ?rto, snd_timer := Timer_start t ?rto\<rparr>"
      have "TCPSender_tick s ms = Inr ?s'"
        using True upd t timeout buf by (auto simp: TCPSender_tick_def Let_def word_neq_0_conv)
      moreover have "snd_inv S N ?s'"
        using assms True by (auto simp: snd_inv_def snd_core_def snd_flight_def Let_def)
      moreover have "Timer_start t ?rto = Timer_start (Timer_start t ?rto) ?rto" by (simp add: Timer_start_def)
      ultimately show ?thesis using timeout buf by (simp add: snd_keeps_def)
    qed
  qed
qed

text \<open>
  C29. Time.  In a sender that satisfies its invariant \<open>tick\<close> never fails (the retransmission
  buffer is never empty when the timer runs out) and keeps the invariant.  When the timer has run out
  exactly the oldest outstanding segment is sent again and the timer restarts; if the window is not
  zero the retransmission count grows by one and the timeout doubles (both in 32 bits), otherwise
  they stay.  When it has not, nothing is sent.
\<close>

theorem tick_spec:
  assumes "snd_inv S N s"
  shows "\<exists>s'. TCPSender_tick s ms = Inr s' \<and> snd_inv S N s' \<and>
    snd_retrans_buf s' = snd_retrans_buf s \<and> snd_next_seqno s' = snd_next_seqno s \<and>
    (if snd_timeout s ms
     then snd_retrans_buf s \<noteq> [] \<and>
          snd_segments_out s' = snd_segments_out s @ [hd (snd_retrans_buf s)] \<and>
          snd_consec_retrans_count s' = snd_consec_retrans_count s + (if snd_window_size s = 0 then 0 else 1) \<and>
          snd_retrans_timeout s' = snd_retrans_timeout s * (if snd_window_size s = 0 then 1 else 2) \<and>
          snd_timer s' = Timer_start (snd_timer s') (snd_retrans_timeout s')
     else snd_segments_out s' = snd_segments_out s \<and>
          snd_consec_retrans_count s' = snd_consec_retrans_count s \<and>
          snd_retrans_timeout s' = snd_retrans_timeout s)"
  using tick_ok [OF assms, of ms] by blast

section \<open>Acknowledgement\<close>

text \<open>An acknowledgement of everything leaves nothing outstanding.\<close>

lemma acked_all:
  assumes "acked S N a ack win s a' s1" "ack = snd_next_seqno s"
  shows "a' = ack \<and> snd_retrans_buf s1 = []"
proof (cases "snd_retrans_buf s1")
  case Nil
  then show ?thesis using assms by (simp add: acked_def snd_flight_def)
next
  case (Cons x xs)
  then have "ack < a' + seg_len x" using assms(1) by (simp add: acked_def)
  moreover have "a' + seg_len x \<le> snd_next_seqno s"
    using assms(1) Cons seg_chain_le by (fastforce simp: snd_flight_def acked_def)
  ultimately show ?thesis using assms(2) by simp
qed

lemma ack_received_valid:
  assumes "snd_inv S N s" "ackno = wrap ack (snd_isn s)" "snd_una s \<le> ack" "ack \<le> snd_next_seqno s"
  shows "\<exists>a' s1. acked S N (snd_una s) ack win s a' s1 \<and>
    TCPSender_ack_received s ackno win = TCPSender_fill_window s1"
proof -
  have core: "snd_core S N s" and flight: "snd_flight S N (snd_una s) s"
    using assms(1) by (simp_all add: snd_inv_una)
  have lim: "snd_next_seqno s \<le> seq_limit" "snd_next_seqno s \<le> snd_una s + 65535"
    using core flight by (auto simp: snd_core_def snd_flight_def Let_def)
  have "seq_close ack (snd_next_seqno s)" using assms(3,4) lim by (intro seg_close) simp_all
  then have ack: "unwrap ackno (snd_isn s) (snd_next_seqno s) = ack"
    using assms(2) by (simp add: seqno.unwr_wr)
  show ?thesis using ack_received_spec [OF core flight, of ackno win] assms(4) unfolding ack by (auto simp: not_less)
qed

lemma ack_received_all:
  assumes "snd_inv S N s" "ackno = wrap (snd_next_seqno s) (snd_isn s)"
  shows "\<exists>s'. TCPSender_ack_received s ackno win = s' \<and> snd_inv S N s' \<and> snd_keeps s s' \<and>
    snd_una s' = snd_next_seqno s \<and> snd_segments_out s' = snd_segments_out s @ snd_retrans_buf s' \<and>
    snd_window_size s' = win \<and> snd_next_seqno s' \<le> snd_next_seqno s + snd_window s'"
proof -
  obtain a' s1 where a: "acked S N (snd_una s) (snd_next_seqno s) win s a' s1"
    "TCPSender_ack_received s ackno win = TCPSender_fill_window s1"
    using ack_received_valid [OF assms una_le order_refl] by blast
  have s1: "a' = snd_next_seqno s" "snd_retrans_buf s1 = []" "snd_core S N s1" "snd_flight S N a' s1"
    "snd_keeps s s1" "snd_segments_out s1 = snd_segments_out s" "snd_window_size s1 = win" "snd_next_seqno s1 = snd_next_seqno s"
    using acked_all [OF a(1)] a(1) by (simp_all add: acked_def)
  note fill = fill_window_result [OF s1(3,4)]
  have "snd_una (TCPSender_fill_window s1) = a'" using fill flight_una by blast
  moreover have "snd_window (TCPSender_fill_window s1) = snd_window s1" "snd_window_size (TCPSender_fill_window s1) = win"
    using fill s1(7) by (simp_all add: snd_rto_same_def snd_window_def)
  ultimately show ?thesis
    using fill s1 snd_keeps_trans [OF s1(5)] by (auto simp: a(2) snd_inv_def)
qed

text \<open>
  C22. Acknowledgement and window.  In a sender that satisfies its invariant, a valid
  acknowledgement of absolute number \<open>ack\<close> removes exactly the outstanding segments that lie wholly
  below \<open>ack\<close>; when it removes one, the timeout and the retransmission count are reset.  The sender
  then puts out new segments that continue the sequence numbers without a gap, never beyond the new
  window (a window of zero counts as one), and stops only when the window is full or nothing is left
  to send.
\<close>

theorem ack_received_window:
  assumes "snd_inv S N s" "ackno = wrap ack (snd_isn s)" "snd_una s \<le> ack" "ack \<le> snd_next_seqno s"
  shows "\<exists>a' new. snd_una s \<le> a' \<and> a' \<le> ack \<and> snd_inv S N (TCPSender_ack_received s ackno win) \<and>
    snd_una (TCPSender_ack_received s ackno win) = a' \<and>
    snd_segments_out (TCPSender_ack_received s ackno win) = snd_segments_out s @ new \<and>
    seg_chain S N (snd_isn s) (snd_next_seqno s) new (snd_next_seqno (TCPSender_ack_received s ackno win)) \<and>
    snd_next_seqno (TCPSender_ack_received s ackno win) \<le>
      max (snd_next_seqno s) (a' + max 1 (unat win)) \<and>
    (a' + max 1 (unat win) \<le> snd_next_seqno (TCPSender_ack_received s ackno win) \<or>
     snd_drained (TCPSender_ack_received s ackno win)) \<and>
    (a' = snd_una s \<or>
     snd_retrans_timeout (TCPSender_ack_received s ackno win) = snd_initial_retransmission_timeout s \<and>
     snd_consec_retrans_count (TCPSender_ack_received s ackno win) = 0) \<and>
    (snd_retrans_buf (TCPSender_ack_received s ackno win) = [] \<or>
     ack < a' + seg_len (hd (snd_retrans_buf (TCPSender_ack_received s ackno win)))) \<and>
    (ack = snd_next_seqno s \<longrightarrow> a' = ack)"
proof -
  let ?s' = "TCPSender_ack_received s ackno win"
  obtain a' s1 where a: "acked S N (snd_una s) ack win s a' s1" "?s' = TCPSender_fill_window s1"
    using ack_received_valid [OF assms] by blast
  have s1: "snd_core S N s1" "snd_flight S N a' s1" "snd_next_seqno s1 = snd_next_seqno s"
    "snd_isn s1 = snd_isn s" "snd_segments_out s1 = snd_segments_out s" "snd_window s1 = max 1 (unat win)"
    "snd_una s \<le> a'" "a' \<le> ack"
    using a(1) assms(3) by (auto simp: acked_def snd_keeps_def snd_window_def unat_gt_0 max_def Suc_le_eq)
  note fill = fill_window_result [OF s1(1,2), folded a(2)]
  have rto: "a' = snd_una s \<or> snd_retrans_timeout ?s' = snd_initial_retransmission_timeout s \<and>
      snd_consec_retrans_count ?s' = 0"
    using a(1) fill by (auto simp: acked_def snd_rto_same_def split: if_splits)
  have all: "a' = ack" if "ack = snd_next_seqno s" using acked_all [OF a(1) that] by simp
  have rest: "snd_retrans_buf ?s' = [] \<or> ack < a' + seg_len (hd (snd_retrans_buf ?s'))"
  proof (cases "snd_retrans_buf s1")
    case Nil
    then have "a' = snd_next_seqno s" using s1(2,3) by (simp add: snd_flight_def)
    moreover have "snd_retrans_buf ?s' = [] \<or> 0 < seg_len (hd (snd_retrans_buf ?s'))"
      using fill unfolding snd_flight_def by (cases "snd_retrans_buf ?s'") (auto simp: seg_at_def)
    ultimately show ?thesis using assms(4) by auto
  next
    case (Cons x xs)
    then show ?thesis using a(1) fill by (auto simp: acked_def)
  qed
  have "snd_una ?s' = a'" using fill flight_una by blast
  then show ?thesis
    using fill s1 rto all rest by (auto simp: snd_inv_def)
qed

section \<open>Runs\<close>

datatype snd_op =
    Write_in "byte list"
  | Close_in
  | Fill_window
  | Ack_received wrapping_int32 u16
  | Tick size_t
  | Send_empty bool
  | Collect

text \<open>The state of a run: the sender, and all segments its owner has taken from the queue.\<close>

fun TCPSender_step :: "tcp_sender \<times> tcp_segment list \<Rightarrow> snd_op \<Rightarrow> (tcp_sender \<times> tcp_segment list) result" where
  "TCPSender_step (s, h) (Write_in d) = Inr (s\<lparr>snd_stream := snd (ByteStream_write (snd_stream s) d)\<rparr>, h)"
| "TCPSender_step (s, h) Close_in = Inr (s\<lparr>snd_stream := ByteStream_end_input (snd_stream s)\<rparr>, h)"
| "TCPSender_step (s, h) Fill_window = Inr (TCPSender_fill_window s, h)"
| "TCPSender_step (s, h) (Ack_received ackno win) = Inr (TCPSender_ack_received s ackno win, h)"
| "TCPSender_step (s, h) (Tick ms) = bindE (TCPSender_tick s ms) (\<lambda>s'. Inr (s', h))"
| "TCPSender_step (s, h) (Send_empty rst) = Inr (TCPSender_send_empty_segment s False False rst, h)"
| "TCPSender_step (s, h) Collect = Inr (s\<lparr>snd_segments_out := []\<rparr>, h @ snd_segments_out s)"

text \<open>The application writes the bytes of \<open>S\<close> in order, and ends the stream after \<open>N\<close> of them.\<close>

fun snd_ok :: "(nat \<Rightarrow> byte) \<Rightarrow> nat \<Rightarrow> tcp_sender \<times> tcp_segment list \<Rightarrow> snd_op \<Rightarrow> bool" where
  "snd_ok S N (s, h) (Write_in d) \<longleftrightarrow>
     piece S (bs_bytes_written (snd_stream s)) d \<and> bs_bytes_written (snd_stream s) + length d \<le> N"
| "snd_ok S N (s, h) Close_in \<longleftrightarrow> bs_bytes_written (snd_stream s) = N"
| "snd_ok S N (s, h) _ \<longleftrightarrow> True"

text \<open>A segment of the stream, or one that occupies no sequence number.\<close>

definition seg_emitted :: "(nat \<Rightarrow> byte) \<Rightarrow> nat \<Rightarrow> wrapping_int32 \<Rightarrow> tcp_segment \<Rightarrow> bool" where
  "seg_emitted S N isn seg \<longleftrightarrow>
     (\<exists>a. a \<le> N + 1 \<and> seg_at S N isn a seg) \<or>
     seg_data seg = [] \<and> \<not> th_syn (seg_header seg) \<and> \<not> th_fin (seg_header seg)"

definition snd_run_inv :: "(nat \<Rightarrow> byte) \<Rightarrow> nat \<Rightarrow> wrapping_int32 \<Rightarrow> tcp_sender \<times> tcp_segment list \<Rightarrow> bool" where
  "snd_run_inv S N isn st \<longleftrightarrow> (case st of (s, h) \<Rightarrow>
     snd_inv S N s \<and> snd_isn s = isn \<and> (\<forall>seg \<in> set (h @ snd_segments_out s). seg_emitted S N isn seg))"

lemma seg_chain_emitted:
  assumes "seg_chain S N isn a segs b" "b \<le> N + 2" "seg \<in> set segs"
  shows "seg_emitted S N isn seg"
  using assms
proof (induction segs arbitrary: a)
  case (Cons x segs)
  have chain: "seg_chain S N isn (a + seg_len x) segs b" and at: "seg_at S N isn a x" using Cons.prems by simp_all
  have "a \<le> N + 1" using seg_chain_le [OF chain] Cons.prems(2) at by (simp add: seg_at_def)
  then have "seg_emitted S N isn x" using at by (auto simp: seg_emitted_def)
  then show ?case using Cons.IH [OF chain Cons.prems(2)] Cons.prems(3) by auto
qed simp

lemma write_spec:
  assumes "bs_wf st" "piece S (bs_bytes_read st) (bs_buf st)"
    and "bs_bytes_written st = bs_bytes_read st + length (bs_buf st)"
    and "piece S (bs_bytes_written st) d" "bs_bytes_written st + length d \<le> N" "N < size_mod"
  defines "st' \<equiv> snd (ByteStream_write st d)"
  shows "bs_wf st' \<and> piece S (bs_bytes_read st') (bs_buf st') \<and> bs_bytes_read st' = bs_bytes_read st \<and>
    bs_bytes_written st' = bs_bytes_read st' + length (bs_buf st') \<and> bs_bytes_written st' \<le> N \<and>
    bs_capacity st' = bs_capacity st \<and> bs_input_ended st' = bs_input_ended st \<and>
    (bs_input_ended st \<longrightarrow> st' = st)"
proof (cases "bs_input_ended st")
  case True
  then have "st' = st" by (simp add: st'_def ByteStream_write_def)
  then show ?thesis using assms(1-5) by auto
next
  case False
  define k where "k = min (length d) (bs_capacity st - length (bs_buf st))"
  have st': "st' = st\<lparr>bs_buf := bs_buf st @ take k d, bs_bytes_written := bs_bytes_written st + k\<rparr>"
    using assms(1,5,6) False
    by (simp add: st'_def ByteStream_write_def remaining_capacity_wf k_def sz_add_small Let_def)
  have "piece S (bs_bytes_read st + length (bs_buf st)) (take k d)"
    using assms(3,4) by (simp add: piece_iff_nth)
  then have "piece S (bs_bytes_read st) (bs_buf st @ take k d)" by (intro piece_Append assms(2))
  moreover have "bs_wf st'" using bs.wr_wf [OF assms(1)] by (simp add: st'_def)
  moreover have "length (take k d) = k" by (simp add: k_def)
  moreover have "bs_bytes_written st + k \<le> N" using assms(5) by (simp add: k_def)
  ultimately show ?thesis using st' assms(3) False by simp
qed

lemma snd_inv_write:
  assumes "snd_inv S N s" "piece S (bs_bytes_written (snd_stream s)) d"
    and "bs_bytes_written (snd_stream s) + length d \<le> N"
  shows "snd_inv S N (s\<lparr>snd_stream := snd (ByteStream_write (snd_stream s) d)\<rparr>)"
proof -
  have core: "snd_core S N s" using assms(1) by (simp add: snd_inv_def)
  then have c: "bs_wf (snd_stream s)" "piece S (bs_bytes_read (snd_stream s)) (bs_buf (snd_stream s))"
    "bs_bytes_written (snd_stream s) = bs_bytes_read (snd_stream s) + length (bs_buf (snd_stream s))"
    "N < size_mod" by (auto simp: snd_core_def Let_def)
  note w = write_spec [OF c(1-3) assms(2,3) c(4)]
  have "snd_core S N (s\<lparr>snd_stream := snd (ByteStream_write (snd_stream s) d)\<rparr>)"
    using core w unfolding snd_core_def Let_def by auto
  then show ?thesis using assms(1) by (auto simp: snd_inv_def snd_flight_def)
qed

lemma snd_inv_close:
  assumes "snd_inv S N s" "bs_bytes_written (snd_stream s) = N"
  shows "snd_inv S N (s\<lparr>snd_stream := ByteStream_end_input (snd_stream s)\<rparr>)"
  using assms by (auto simp: snd_inv_def snd_core_def snd_flight_def Let_def ByteStream_end_input_def bs_wf_def)

lemma snd_inv_fill: "snd_inv S N s \<Longrightarrow> snd_inv S N (TCPSender_fill_window s)"
  using fill_window_result unfolding snd_inv_def by blast

lemma fill_window_run_inv:
  assumes core: "snd_core S N s" and flight: "snd_flight S N a s" and isn: "snd_isn s = isn"
    and h: "\<forall>seg \<in> set (h @ snd_segments_out s). seg_emitted S N isn seg"
  shows "snd_run_inv S N isn (TCPSender_fill_window s, h)"
proof -
  note fill = fill_window_result [OF core flight]
  obtain new where new: "snd_segments_out (TCPSender_fill_window s) = snd_segments_out s @ new"
    "seg_chain S N isn (snd_next_seqno s) new (snd_next_seqno (TCPSender_fill_window s))"
    using fill isn by auto
  have "snd_next_seqno (TCPSender_fill_window s) \<le> N + 2" using fill snd_core_next by blast
  then have "\<forall>seg \<in> set new. seg_emitted S N isn seg" using seg_chain_emitted [OF new(2)] by blast
  then show ?thesis using fill h isn new(1) by (auto simp: snd_run_inv_def snd_inv_def snd_keeps_def)
qed

lemma ack_received_run_inv:
  assumes "snd_run_inv S N isn (s, h)"
  shows "snd_run_inv S N isn (TCPSender_ack_received s ackno win, h)"
proof -
  have inv: "snd_core S N s" "snd_flight S N (snd_una s) s" "snd_isn s = isn"
    "\<forall>seg \<in> set (h @ snd_segments_out s). seg_emitted S N isn seg"
    using assms by (simp_all add: snd_run_inv_def snd_inv_una)
  show ?thesis
  proof (cases "snd_next_seqno s < unwrap ackno (snd_isn s) (snd_next_seqno s)")
    case True
    then have "TCPSender_ack_received s ackno win = s\<lparr>snd_window_size := win\<rparr>"
      by (simp add: TCPSender_ack_received_def Let_def)
    then show ?thesis
      using assms by (auto simp: snd_run_inv_def snd_inv_def snd_core_def snd_flight_def Let_def)
  next
    case False
    then obtain a' s1 where a: "acked S N (snd_una s) (unwrap ackno (snd_isn s) (snd_next_seqno s)) win s a' s1"
      "TCPSender_ack_received s ackno win = TCPSender_fill_window s1"
      using ack_received_spec [OF inv(1,2), of ackno win] by auto
    then show ?thesis
      using fill_window_run_inv [of S N s1 a' isn h] inv(3,4) by (simp add: acked_def snd_keeps_def)
  qed
qed

lemma tick_run_inv:
  assumes "snd_run_inv S N isn (s, h)"
  shows "\<exists>s'. TCPSender_tick s ms = Inr s' \<and> snd_run_inv S N isn (s', h)"
proof -
  have inv: "snd_inv S N s" "snd_isn s = isn" "\<forall>seg \<in> set (h @ snd_segments_out s). seg_emitted S N isn seg"
    using assms by (simp_all add: snd_run_inv_def)
  have "seg_chain S N isn (snd_una s) (snd_retrans_buf s) (snd_next_seqno s)" "snd_next_seqno s \<le> N + 2"
    using inv snd_core_next by (auto simp: snd_inv_una snd_flight_def)
  then have "\<forall>seg \<in> set (snd_retrans_buf s). seg_emitted S N isn seg" using seg_chain_emitted by blast
  then show ?thesis
    using tick_ok [OF inv(1), of ms] inv(2,3)
    by (auto simp: snd_run_inv_def snd_keeps_def split: if_splits)
qed

lemma send_empty_run_inv:
  assumes "snd_run_inv S N isn (s, h)"
  shows "snd_run_inv S N isn (TCPSender_send_empty_segment s False False rst, h)"
proof -
  have "snd_core S N s" using assms by (simp add: snd_run_inv_def snd_inv_def)
  then have "sz_add (snd_next_seqno s) 0 = snd_next_seqno s"
    by (intro sz_add_small [THEN trans]) (auto simp: snd_core_def Let_def)
  then show ?thesis
    using assms
    by (auto simp: snd_run_inv_def snd_inv_def snd_core_def snd_flight_def seg_emitted_def
        TCPSender_send_empty_segment_def TCPSegment_length_in_sequence_space_def TCPHeader_default_def Let_def)
qed

interpretation snd: safe_machine TCPSender_step "snd_ok S N" "snd_run_inv S N isn" for S N isn
proof unfold_locales
  fix st l
  assume inv: "snd_run_inv S N isn st" and ok: "snd_ok S N st l"
  obtain s h where st: "st = (s, h)" by (cases st)
  have i: "snd_inv S N s" "snd_isn s = isn" "\<forall>seg \<in> set (h @ snd_segments_out s). seg_emitted S N isn seg"
    using inv st by (simp_all add: snd_run_inv_def)
  show "\<exists>st'. TCPSender_step st l = Inr st' \<and> snd_run_inv S N isn st'"
  proof (cases l)
    case (Write_in d)
    then show ?thesis using i ok st snd_inv_write [OF i(1)] by (auto simp: snd_run_inv_def)
  next
    case Close_in
    then show ?thesis using i ok st snd_inv_close [OF i(1)] by (auto simp: snd_run_inv_def)
  next
    case Fill_window
    then show ?thesis
      using st i fill_window_run_inv [of S N s "snd_una s" isn h] by (simp add: snd_inv_una)
  next
    case (Ack_received ackno win)
    then show ?thesis using st inv ack_received_run_inv by simp
  next
    case (Tick ms)
    then show ?thesis using st inv tick_run_inv [of S N isn s h ms] by auto
  next
    case (Send_empty rst)
    then show ?thesis using st inv send_empty_run_inv by simp
  next
    case Collect
    then show ?thesis
      using st i by (auto simp: snd_run_inv_def snd_inv_def snd_core_def snd_flight_def Let_def)
  qed
qed

lemma snd_inv_new:
  assumes "cap < seq_limit" "N + 2 \<le> seq_limit"
  shows "snd_inv S N (TCPSender_new cap rto fixed_isn random)"
  using assms bs_wf_new [of cap]
  by (simp add: snd_inv_def snd_core_def snd_flight_def TCPSender_new_def ByteStream_new_def Timer_new_def
      piece_def Let_def)

text \<open>
  C11. The sender sends the stream.  Whatever the application writes, whatever acknowledgements
  arrive (valid or not), however much time passes and whenever the queue is emptied: no operation
  fails, every segment the sender ever puts out is either empty or carries exactly the bytes of the
  stream that its sequence number says, with SYN only at number 0 and FIN only after the last byte,
  and at most 1000 bytes; and the segments kept for retransmission cover the outstanding numbers
  without gap or overlap, so that \<open>bytes_in_flight\<close> is their count.
\<close>

theorem sender_segments:
  assumes "cap < seq_limit" "N + 2 \<le> seq_limit"
    and "run_ok (snd_ok S N) TCPSender_step (TCPSender_new cap rto (Some isn) random, []) ops"
  shows "\<exists>s h. runE TCPSender_step (TCPSender_new cap rto (Some isn) random, []) ops = Inr (s, h) \<and>
    (\<forall>seg \<in> set (h @ snd_segments_out s). seg_emitted S N isn seg) \<and>
    seg_chain S N isn (snd_next_seqno s - TCPSender_bytes_in_flight s) (snd_retrans_buf s) (snd_next_seqno s) \<and>
    TCPSender_bytes_in_flight s \<le> 65535 \<and>
    snd_next_seqno s =
      (if snd_syn_sent s then 1 else 0) + bs_bytes_read (snd_stream s) + (if snd_fin_sent s then 1 else 0)"
proof -
  let ?new = "TCPSender_new cap rto (Some isn) random"
  have "snd_run_inv S N isn (?new, [])"
    using snd_inv_new [OF assms(1,2)] by (simp add: snd_run_inv_def) (simp add: TCPSender_new_def)
  then obtain s h where run: "runE TCPSender_step (?new, []) ops = Inr (s, h)" and inv: "snd_run_inv S N isn (s, h)"
    using snd.run_safe [OF _ assms(3)] by fastforce
  have core: "snd_core S N s" and flight: "snd_flight S N (snd_una s) s" and isn: "snd_isn s = isn"
    using inv by (simp_all add: snd_run_inv_def snd_inv_una)
  note out = bytes_in_flight_eq [OF flight]
  have "snd_next_seqno s - TCPSender_bytes_in_flight s = snd_una s" using out una_le [of s] by simp
  then show ?thesis
    using run inv core flight isn out by (auto simp: snd_run_inv_def snd_core_def snd_flight_def Let_def)
qed

theorem sender_segments_witness:
  "\<exists>s h. runE TCPSender_step (TCPSender_new 64000 1000 (Some (WrappingInt32 5)) 0, [])
      [Write_in [0, 1], Close_in, Fill_window] = Inr (s, h) \<and>
    (\<forall>seg \<in> set (h @ snd_segments_out s). seg_emitted of_nat 2 (WrappingInt32 5) seg) \<and>
    seg_chain of_nat 2 (WrappingInt32 5) (snd_next_seqno s - TCPSender_bytes_in_flight s) (snd_retrans_buf s) (snd_next_seqno s) \<and>
    TCPSender_bytes_in_flight s \<le> 65535 \<and>
    snd_next_seqno s =
      (if snd_syn_sent s then 1 else 0) + bs_bytes_read (snd_stream s) + (if snd_fin_sent s then 1 else 0)"
  by (rule sender_segments)
    (simp_all add: TCPSender_new_def ByteStream_new_def ByteStream_write_def ByteStream_remaining_capacity_def
      sz_add_def sz_sub_def piece_def upt_rec Let_def)

text \<open>A sender whose SYN is outstanding.\<close>

definition snd_example :: tcp_sender where
  "snd_example = TCPSender_fill_window (TCPSender_new 64000 1000 (Some (WrappingInt32 5)) 0)"

lemma snd_example_eq:
  "snd_example = (TCPSender_new 64000 1000 (Some (WrappingInt32 5)) 0)
     \<lparr>snd_segments_out := [\<lparr>seg_header = TCPHeader_default\<lparr>th_syn := True, th_seqno := WrappingInt32 5\<rparr>,
                          seg_payload = Buffer_new []\<rparr>],
      snd_retrans_buf := [\<lparr>seg_header = TCPHeader_default\<lparr>th_syn := True, th_seqno := WrappingInt32 5\<rparr>,
                          seg_payload = Buffer_new []\<rparr>],
      snd_next_seqno := 1, snd_syn_sent := True, snd_timer := Timer_start Timer_new 1000\<rparr>"
  unfolding snd_example_def TCPSender_fill_window_def
  by (simp add: TCPSender_new_def TCPSender_bytes_in_flight_def fill_loop.simps fill_segment_def
      fill_enqueue_def TCPSegment_length_in_sequence_space_def TCPHeader_default_def Timer_new_def
      Timer_start_def ByteStream_new_def ByteStream_read_def ByteStream_eof_def wrap_def wi_plus_def
      sz_add_def sz_sub_def Let_def)

lemma snd_example_inv: "snd_inv of_nat 2 snd_example"
  unfolding snd_example_def by (intro snd_inv_fill snd_inv_new) simp_all

theorem tick_spec_witness:
  "\<exists>s'. TCPSender_tick snd_example 1500 = Inr s' \<and> snd_inv of_nat 2 s' \<and>
    snd_retrans_buf s' = snd_retrans_buf snd_example \<and> snd_next_seqno s' = snd_next_seqno snd_example \<and>
    (if snd_timeout snd_example 1500
     then snd_retrans_buf snd_example \<noteq> [] \<and>
          snd_segments_out s' = snd_segments_out snd_example @ [hd (snd_retrans_buf snd_example)] \<and>
          snd_consec_retrans_count s' = snd_consec_retrans_count snd_example + (if snd_window_size snd_example = 0 then 0 else 1) \<and>
          snd_retrans_timeout s' = snd_retrans_timeout snd_example * (if snd_window_size snd_example = 0 then 1 else 2) \<and>
          snd_timer s' = Timer_start (snd_timer s') (snd_retrans_timeout s')
     else snd_segments_out s' = snd_segments_out snd_example \<and>
          snd_consec_retrans_count s' = snd_consec_retrans_count snd_example \<and>
          snd_retrans_timeout s' = snd_retrans_timeout snd_example)"
  by (rule tick_spec) (rule snd_example_inv)

theorem ack_received_window_witness:
  "\<exists>a' new. snd_una snd_example \<le> a' \<and> a' \<le> 1 \<and>
    snd_inv of_nat 2 (TCPSender_ack_received snd_example (wrap 1 (snd_isn snd_example)) 10) \<and>
    snd_una (TCPSender_ack_received snd_example (wrap 1 (snd_isn snd_example)) 10) = a' \<and>
    snd_segments_out (TCPSender_ack_received snd_example (wrap 1 (snd_isn snd_example)) 10) =
      snd_segments_out snd_example @ new \<and>
    seg_chain of_nat 2 (snd_isn snd_example) (snd_next_seqno snd_example) new
      (snd_next_seqno (TCPSender_ack_received snd_example (wrap 1 (snd_isn snd_example)) 10)) \<and>
    snd_next_seqno (TCPSender_ack_received snd_example (wrap 1 (snd_isn snd_example)) 10) \<le>
      max (snd_next_seqno snd_example) (a' + max 1 (unat (10 :: u16))) \<and>
    (a' + max 1 (unat (10 :: u16)) \<le> snd_next_seqno (TCPSender_ack_received snd_example (wrap 1 (snd_isn snd_example)) 10) \<or>
     snd_drained (TCPSender_ack_received snd_example (wrap 1 (snd_isn snd_example)) 10)) \<and>
    (a' = snd_una snd_example \<or>
     snd_retrans_timeout (TCPSender_ack_received snd_example (wrap 1 (snd_isn snd_example)) 10) =
       snd_initial_retransmission_timeout snd_example \<and>
     snd_consec_retrans_count (TCPSender_ack_received snd_example (wrap 1 (snd_isn snd_example)) 10) = 0) \<and>
    (snd_retrans_buf (TCPSender_ack_received snd_example (wrap 1 (snd_isn snd_example)) 10) = [] \<or>
     1 < a' + seg_len (hd (snd_retrans_buf (TCPSender_ack_received snd_example (wrap 1 (snd_isn snd_example)) 10)))) \<and>
    (1 = snd_next_seqno snd_example \<longrightarrow> a' = 1)"
  by (rule ack_received_window [OF snd_example_inv refl])
    (simp_all add: snd_example_eq snd_una_def TCPSegment_length_in_sequence_space_def TCPHeader_default_def)

end
