(* ===== verification/Tcp_Transfer.thy ===== *)
theory Tcp_Transfer
  imports Tcp_Receiver Sender_Runs
begin

text \<open>
  A sender and a receiver joined by an unreliable network.

  The composition has a \<open>TCPSender\<close>, a \<open>TCPReceiver\<close>, and the segments taken from the sender's queue
  so far.  The network may deliver any of these segments at any time, any number of times and in any
  order, or never.  Its only restriction is the one sequence numbers need: a segment is not delivered
  so late that its first byte is \<open>2^31\<close> or more away from the receiver's position.
\<close>

section \<open>The composed system\<close>

record tcp_link =
  lk_sender :: tcp_sender
  lk_sent :: "tcp_segment list"
  lk_receiver :: tcp_receiver
  lk_read :: "byte list"

definition link_init :: "size_t \<Rightarrow> size_t \<Rightarrow> u16 \<Rightarrow> wrapping_int32 \<Rightarrow> tcp_link" where
  "link_init scap rcap rto isn =
     \<lparr>lk_sender = TCPSender_new scap rto (Some isn) 0, lk_sent = [], lk_receiver = TCPReceiver_new rcap,
      lk_read = []\<rparr>"

definition seg_empty :: "tcp_segment \<Rightarrow> bool" where
  "seg_empty seg \<longleftrightarrow> seg_data seg = [] \<and> \<not> th_syn (seg_header seg) \<and> \<not> th_fin (seg_header seg)"

inductive link_step ::
  "(nat \<Rightarrow> byte) \<Rightarrow> nat \<Rightarrow> wrapping_int32 \<Rightarrow> tcp_link \<Rightarrow> tcp_link \<Rightarrow> bool" for S N isn where
  sender_step:
    "snd_ok S N (lk_sender l, lk_sent l) x \<Longrightarrow>
     TCPSender_step (lk_sender l, lk_sent l) x = Inr (s', h') \<Longrightarrow>
     link_step S N isn l (l\<lparr>lk_sender := s', lk_sent := h'\<rparr>)"
| deliver:
    "seg \<in> set (lk_sent l) \<Longrightarrow> seg_at S N isn a seg \<Longrightarrow>
     seq_close (a - 1) (sr_wait_index (rcv_reassembler (lk_receiver l))) \<Longrightarrow>
     TCPReceiver_segment_received (lk_receiver l) seg = Inr r' \<Longrightarrow>
     link_step S N isn l (l\<lparr>lk_receiver := r'\<rparr>)"
| deliver_empty:
    "seg \<in> set (lk_sent l) \<Longrightarrow> seg_empty seg \<Longrightarrow>
     TCPReceiver_segment_received (lk_receiver l) seg = Inr r' \<Longrightarrow>
     link_step S N isn l (l\<lparr>lk_receiver := r'\<rparr>)"
| read_out:
    "StreamReassembler_take (rcv_reassembler (lk_receiver l)) n = (d, q) \<Longrightarrow>
     link_step S N isn l
       (l\<lparr>lk_receiver := (lk_receiver l)\<lparr>rcv_reassembler := q\<rparr>, lk_read := lk_read l @ d\<rparr>)"

inductive link_reach ::
  "(nat \<Rightarrow> byte) \<Rightarrow> nat \<Rightarrow> wrapping_int32 \<Rightarrow> tcp_link \<Rightarrow> tcp_link \<Rightarrow> bool" for S N isn l0 where
  init [intro]: "link_reach S N isn l0 l0"
| step [intro]: "link_reach S N isn l0 l \<Longrightarrow> link_step S N isn l l' \<Longrightarrow> link_reach S N isn l0 l'"

section \<open>The invariant\<close>

definition link_inv :: "(nat \<Rightarrow> byte) \<Rightarrow> nat \<Rightarrow> wrapping_int32 \<Rightarrow> tcp_link \<Rightarrow> bool" where
  "link_inv S N isn l \<longleftrightarrow>
     snd_run_inv S N isn (lk_sender l, lk_sent l) \<and> rcv_inv S isn (lk_receiver l, lk_read l)"

text \<open>A segment of the sender is a genuine segment for the receiver.\<close>

lemma seg_at_genuine:
  assumes "seg_at S N isn a seg" "N \<le> seq_limit" "seq_close (a - 1) (sr_wait_index (rcv_reassembler r))"
  shows "genuine_seg S isn r (a - 1) seg"
  using assms seg_at_header [OF assms(1)] by (auto simp: genuine_seg_def seg_at_def)

lemma empty_received:
  assumes "rcv_inv S isn (r, del)" "seg_empty seg"
  shows "\<exists>r'. TCPReceiver_segment_received r seg = Inr r' \<and> rcv_inv S isn (r', del)"
  using assms check_fin_inv [OF assms(1), of False]
  by (auto simp: TCPReceiver_segment_received_def seg_empty_def Buffer_copy_def Let_def)

lemma link_inv_N: "link_inv S N isn l \<Longrightarrow> N \<le> seq_limit"
  by (auto simp: link_inv_def snd_run_inv_def snd_inv_def snd_core_def Let_def)

lemma link_inv_step:
  assumes "link_step S N isn l l'" "link_inv S N isn l"
  shows "link_inv S N isn l'"
  using assms(1)
proof cases
  case (sender_step x s' h')
  then show ?thesis
    using snd.step_safe [of S N isn "(lk_sender l, lk_sent l)" x] assms(2) by (auto simp: link_inv_def)
next
  case (deliver seg a r')
  have "genuine_seg S isn (lk_receiver l) (a - 1) seg"
    using deliver link_inv_N [OF assms(2)] by (intro seg_at_genuine)
  then show ?thesis
    using segment_received_inv [of S isn "lk_receiver l" "lk_read l" "a - 1" seg] assms(2) deliver
    by (auto simp: link_inv_def)
next
  case (deliver_empty seg r')
  then show ?thesis
    using empty_received [of S isn "lk_receiver l" "lk_read l" seg] assms(2) by (auto simp: link_inv_def)
next
  case (read_out n d q)
  have "TCPReceiver_step (lk_receiver l, lk_read l) (Take_out n) =
      Inr ((lk_receiver l)\<lparr>rcv_reassembler := q\<rparr>, lk_read l @ d)"
    using read_out by simp
  then show ?thesis
    using rcv.step_safe [of S isn "(lk_receiver l, lk_read l)" "Take_out n"] assms(2) read_out
    by (auto simp: link_inv_def)
qed

lemma link_inv_init:
  assumes "scap < seq_limit" "rcap < seq_limit" "N + 2 \<le> seq_limit"
  shows "link_inv S N isn (link_init scap rcap rto isn)"
  using snd_inv_new [OF assms(1,3), of S rto "Some isn" 0] rcv_inv_new [OF assms(2), of S isn]
  by (simp add: link_inv_def link_init_def snd_run_inv_def) (simp add: TCPSender_new_def)

lemma link_inv_reach:
  assumes "link_reach S N isn l0 l" "link_inv S N isn l0"
  shows "link_inv S N isn l"
  using assms by (induction rule: link_reach.induct) (auto intro: link_inv_step)

section \<open>Only the written bytes matter\<close>

definition agree :: "nat \<Rightarrow> (nat \<Rightarrow> byte) \<Rightarrow> (nat \<Rightarrow> byte) \<Rightarrow> bool" where
  "agree N S T \<longleftrightarrow> (\<forall>i < N. S i = T i)"

lemma piece_agree: "agree N S T \<Longrightarrow> k + length d \<le> N \<Longrightarrow> piece S k d \<longleftrightarrow> piece T k d"
  by (auto simp: piece_iff_nth agree_def)

lemma snd_ok_agree: "agree N S T \<Longrightarrow> snd_ok S N st x \<Longrightarrow> snd_ok T N st x"
  using piece_agree [of N S T] by (cases st; cases x) auto

lemma seg_at_agree: "agree N S T \<Longrightarrow> seg_at S N isn a seg \<Longrightarrow> seg_at T N isn a seg"
  using piece_agree [of N S T "a - 1" "seg_data seg"] by (auto simp: seg_at_def)

lemma link_reach_agree:
  assumes agree: "agree N S T" and reach: "link_reach S N isn l0 l"
  shows "link_reach T N isn l0 l"
  using reach
proof induction
  case (step l l')
  from step(2) have "link_step T N isn l l'"
  proof cases
    case (sender_step x s' h')
    then show ?thesis unfolding sender_step(1) using snd_ok_agree [OF agree] by (intro link_step.sender_step) auto
  next
    case (deliver seg a r')
    have "seg_at T N isn a seg" using agree deliver(3) by (rule seg_at_agree)
    then show ?thesis unfolding deliver(1) using deliver(2,4,5) by (intro link_step.deliver)
  qed (auto intro: link_step.deliver_empty link_step.read_out)
  then show ?case using step(3) by blast
qed blast

section \<open>What the receiving application sees\<close>

definition link_received :: "tcp_link \<Rightarrow> byte list" where
  "link_received l = lk_read l @ bs_buf (TCPReceiver_stream_out (lk_receiver l))"

lemma link_inv_received:
  "link_inv S N isn l \<Longrightarrow> link_received l = map S [0..<sr_wait_index (rcv_reassembler (lk_receiver l))]"
  using rcv_inv_delivered by (auto simp: link_inv_def link_received_def)

text \<open>
  The receiver is never past the end of the stream: what it holds does not depend on what \<open>S\<close> is
  there.
\<close>

lemma link_reach_bound:
  assumes "link_reach S N isn l0 l" "\<And>S. link_inv S N isn l0"
  shows "sr_wait_index (rcv_reassembler (lk_receiver l)) \<le> N"
proof (rule ccontr)
  let ?w = "sr_wait_index (rcv_reassembler (lk_receiver l))" and ?S = "S(N := S N + 1)"
  assume "\<not> ?w \<le> N"
  have "link_reach ?S N isn l0 l" by (rule link_reach_agree [OF _ assms(1)]) (simp add: agree_def)
  then have "link_received l = map ?S [0..<?w]" using assms(2) link_inv_reach link_inv_received by blast
  moreover have "link_received l = map S [0..<?w]" using assms link_inv_reach link_inv_received by blast
  ultimately have "map S [0..<?w] = map ?S [0..<?w]" by (simp only:)
  from arg_cong [OF this, of "\<lambda>xs. xs ! N"] show False using \<open>\<not> ?w \<le> N\<close> by simp
qed

text \<open>
  C4. The transfer is safe.  A \<open>TCPSender\<close> whose application writes the \<open>N\<close> bytes of \<open>S\<close> and a
  \<open>TCPReceiver\<close> are joined by a network that loses, repeats and reorders segments, while the sender
  gets arbitrary acknowledgements and any amount of time passes.  In every reachable state the bytes
  that the receiving application has read or can read are a prefix of the \<open>N\<close> written bytes; every
  segment on the way is either empty or one of the stream; and the next delivery does not fail.
\<close>

theorem transfer_safe:
  assumes "scap < seq_limit" "rcap < seq_limit" "N + 2 \<le> seq_limit"
    and "link_reach S N isn (link_init scap rcap rto isn) l"
  shows "\<exists>k \<le> N. link_received l = take k (map S [0..<N]) \<and>
    (\<forall>seg \<in> set (lk_sent l). seg_empty seg \<or> (\<exists>a. seg_at S N isn a seg)) \<and>
    (\<forall>seg \<in> set (lk_sent l). \<forall>a. seg_empty seg \<or> seg_at S N isn a seg \<and> seq_close (a - 1) k \<longrightarrow>
       (\<exists>r'. TCPReceiver_segment_received (lk_receiver l) seg = Inr r'))"
proof -
  let ?w = "sr_wait_index (rcv_reassembler (lk_receiver l))"
  have init: "link_inv S N isn (link_init scap rcap rto isn)" for S using assms(1-3) by (rule link_inv_init)
  then have inv: "link_inv S N isn l" using assms(4) link_inv_reach by blast
  have le: "?w \<le> N" using link_reach_bound [OF assms(4) init] .
  have "link_received l = take ?w (map S [0..<N])"
    using le link_inv_received [OF inv] by (simp add: take_map)
  moreover have "\<forall>seg \<in> set (lk_sent l). seg_empty seg \<or> (\<exists>a. seg_at S N isn a seg)"
    using inv by (auto simp: link_inv_def snd_run_inv_def seg_emitted_def seg_empty_def)
  moreover have "\<exists>r'. TCPReceiver_segment_received (lk_receiver l) seg = Inr r'"
    if "seg_empty seg \<or> seg_at S N isn a seg \<and> seq_close (a - 1) ?w" for seg a
    using that empty_received segment_received_inv seg_at_genuine link_inv_N [OF inv] inv
    unfolding link_inv_def by blast
  ultimately show ?thesis using le by blast
qed

section \<open>A loss-free transfer\<close>

lemma chain_received:
  assumes "seg_chain S N isn a segs b" "rcv_inv S isn (r, del)" "rcv_open r" "a \<le> N + 1"
    and "rcv_syn_set r \<longleftrightarrow> 0 < a" "sr_wait_index (rcv_reassembler r) = a - 1"
    and "min (b - 1) N \<le> sr_edge (rcv_reassembler r)" "N < 4294967295"
  shows "\<exists>r'. runE TCPReceiver_segment_received r segs = Inr r' \<and> rcv_inv S isn (r', del) \<and>
    sr_wait_index (rcv_reassembler r') = min (b - 1) N \<and> (rcv_syn_set r' \<longleftrightarrow> 0 < b) \<and>
    sr_edge (rcv_reassembler r') = sr_edge (rcv_reassembler r) \<and>
    (if b = N + 2 then bs_input_ended (TCPReceiver_stream_out r') else rcv_open r')"
  using assms
proof (induction segs arbitrary: a r)
  case Nil
  then show ?case by (auto simp: rcv_open_def)
next
  case (Cons seg segs)
  have at: "seg_at S N isn a seg" and chain: "seg_chain S N isn (a + seg_len seg) segs b"
    using Cons.prems(1) by simp_all
  have sz: "a - 1 + length (seg_data seg) \<le> N" "th_fin (seg_header seg) \<longrightarrow> a - 1 + length (seg_data seg) = N"
    using at by (simp_all add: seg_at_def)
  note h = seg_at_header [OF at]
  have gen: "genuine_seg S isn r (a - 1) seg"
    using at Cons.prems(4,6,8) by (intro seg_at_genuine) (auto simp: seq_close_def)
  have heard: "\<not> rcv_ignores r seg isn \<or> seg_data seg = []"
    using h Cons.prems(4,8) by (auto simp: rcv_ignores_def wrap_eq_iff)
  have len: "seg_len seg = length (seg_data seg) + (if a = 0 then 1 else 0) + (if th_fin (seg_header seg) then 1 else 0)"
    using h(2) sz(1) Cons.prems(8) by (simp add: TCPSegment_length_in_sequence_space_def sz_add_small)
  have "a + seg_len seg \<le> b" using seg_chain_le [OF chain] by simp
  then have "a - 1 + length (seg_data seg) \<le> b - 1" using len by (cases "a = 0") simp_all
  then have win: "a - 1 + length (seg_data seg) \<le> sr_edge (rcv_reassembler r)" using sz(1) Cons.prems(7) by linarith
  obtain r' where r': "TCPReceiver_segment_received r seg = Inr r'" "rcv_inv S isn (r', del)" "rcv_syn_set r'"
    "sr_wait_index (rcv_reassembler r') = a - 1 + length (seg_data seg)"
    "sr_edge (rcv_reassembler r') = sr_edge (rcv_reassembler r)"
    "bs_input_ended (TCPReceiver_stream_out r') = th_fin (seg_header seg)"
    "\<not> th_fin (seg_header seg) \<longrightarrow> rcv_open r'"
    using in_order_received [OF Cons.prems(2,3) gen] heard win h(2) Cons.prems(5,6) by auto
  show ?case
  proof (cases "th_fin (seg_header seg)")
    case True
    have end_seq: "a + seg_len seg = N + 2" using True sz len by auto
    have "segs = []"
    proof (cases segs)
      case (Cons x xs)
      then show ?thesis using chain end_seq by (auto simp: seg_at_def)
    qed
    then have "b = N + 2" using chain end_seq by simp
    then show ?thesis using r' True sz \<open>segs = []\<close> by auto
  next
    case False
    have next_seq: "a + seg_len seg \<le> N + 1" "0 < a + seg_len seg" "a + seg_len seg - 1 = a - 1 + length (seg_data seg)"
      using False sz len at by (auto simp: seg_at_def)
    have "rcv_syn_set r' \<longleftrightarrow> 0 < a + seg_len seg" "sr_wait_index (rcv_reassembler r') = a + seg_len seg - 1"
      "min (b - 1) N \<le> sr_edge (rcv_reassembler r')" "rcv_open r'"
      using r' next_seq False Cons.prems(7) by simp_all
    from Cons.IH [OF chain r'(2) this(4) next_seq(1) this(1-3) Cons.prems(8)] show ?thesis
      using r'(1,5) by simp
  qed
qed

text \<open>
  One round trip without loss.  The sending application writes what fits into its stream and closes it
  after the last byte; the queued segments reach the receiver in order; the receiving application reads
  all there is; and the sender gets the acknowledgement number and the window (at most 65535, as the
  connection advertises it).  The state is the sender with the bytes still to be written, and the receiver
  with the bytes read so far.
\<close>

definition app_write :: "tcp_sender \<Rightarrow> byte list \<Rightarrow> tcp_sender \<times> byte list" where
  "app_write s todo =
     (let (n, st) = ByteStream_write (snd_stream s) todo;
          rest = drop n todo
      in (s\<lparr>snd_stream := (if rest = [] then ByteStream_end_input st else st)\<rparr>, rest))"

definition app_read :: "tcp_receiver \<Rightarrow> byte list \<times> tcp_receiver" where
  "app_read r =
     (let (d, q) = StreamReassembler_take (rcv_reassembler r) (ByteStream_buffer_size (TCPReceiver_stream_out r))
      in (d, r\<lparr>rcv_reassembler := q\<rparr>))"

type_synonym transfer = "tcp_sender \<times> byte list \<times> tcp_receiver \<times> byte list"

fun round_trip :: "transfer \<Rightarrow> transfer result" where
  "round_trip (s, todo, r, got) =
     (let (s, todo) = app_write s todo;
          s = TCPSender_fill_window s
      in bindE (runE TCPReceiver_segment_received r (snd_segments_out s)) (\<lambda>r.
           let (d, r) = app_read r;
               s = s\<lparr>snd_segments_out := []\<rparr>;
               s = (case TCPReceiver_ackno r of
                      None \<Rightarrow> s
                    | Some ackno \<Rightarrow> TCPSender_ack_received s ackno (of_nat (min (TCPReceiver_window_size r) 65535)))
           in Inr (s, todo, r, got @ d)))"

primrec round_trips :: "nat \<Rightarrow> transfer \<Rightarrow> transfer result" where
  "round_trips 0 st = Inr st"
| "round_trips (Suc k) st = bindE (round_trip st) (round_trips k)"

declare round_trip.simps [simp del]

section \<open>Sender and receiver in step\<close>

lemma drained_next:
  assumes "snd_inv S N s" "bs_input_ended (snd_stream s)" "snd_drained s"
  shows "snd_next_seqno s = N + 2"
  using assms by (auto simp: snd_inv_def snd_core_def snd_drained_def Let_def)

lemma finished_next:
  assumes "snd_core S N s" "snd_next_seqno s = N + 2"
  shows "snd_fin_sent s" "bs_buf (snd_stream s) = []" "bs_bytes_written (snd_stream s) = N"
proof -
  have s: "bs_bytes_read (snd_stream s) \<le> N" "snd_fin_sent s \<longrightarrow> bs_buf (snd_stream s) = []"
    "bs_bytes_written (snd_stream s) = bs_bytes_read (snd_stream s) + length (bs_buf (snd_stream s))"
    "snd_next_seqno s = (if snd_syn_sent s then 1 else 0) + bs_bytes_read (snd_stream s) + (if snd_fin_sent s then 1 else 0)"
    using assms(1) by (simp_all add: snd_core_def Let_def)
  then show "snd_fin_sent s" "bs_buf (snd_stream s) = []" "bs_bytes_written (snd_stream s) = N"
    using assms(2) by (simp_all split: if_splits)
qed

text \<open>What the application writes: the invariant stays, and there is something to send or the stream has ended.\<close>

lemma app_write_spec:
  assumes inv: "snd_inv S N s" and todo: "bs_bytes_written (snd_stream s) + length todo = N"
    "piece S (bs_bytes_written (snd_stream s)) todo" and cap: "0 < bs_capacity (snd_stream s)"
    and w: "app_write s todo = (s', rest)"
  shows "snd_inv S N s'" "bs_bytes_written (snd_stream s') + length rest = N"
    "piece S (bs_bytes_written (snd_stream s')) rest" "bs_capacity (snd_stream s') = bs_capacity (snd_stream s)"
    "if rest = [] then bs_input_ended (snd_stream s') else bs_buf (snd_stream s') \<noteq> [] \<and> \<not> bs_input_ended (snd_stream s')"
    "snd_una s' = snd_una s" "snd_next_seqno s' = snd_next_seqno s" "snd_isn s' = snd_isn s"
    "snd_segments_out s' = snd_segments_out s" "snd_retrans_buf s' = snd_retrans_buf s" "snd_window s' = snd_window s"
proof -
  let ?st = "snd_stream s"
  have core: "bs_wf ?st" "bs_bytes_written ?st \<le> N" "N + 2 \<le> seq_limit" "bs_input_ended ?st \<longrightarrow> bs_bytes_written ?st = N"
    using inv by (auto simp: snd_inv_def snd_core_def Let_def)
  obtain n st where wr: "ByteStream_write ?st todo = (n, st)" by fastforce
  have s': "s' = s\<lparr>snd_stream := (if rest = [] then ByteStream_end_input st else st)\<rparr>" "rest = drop n todo"
    using w wr by (auto simp: app_write_def Let_def)
  have len: "length (bs_buf ?st) \<le> bs_capacity ?st" "bs_capacity ?st < size_mod"
    using core(1) by (simp_all add: bs_wf_def)
  have n: "n = (if bs_input_ended ?st then 0 else min (length todo) (bs_capacity ?st - length (bs_buf ?st)))"
    "bs_buf st = bs_buf ?st @ take n todo" "bs_bytes_written st = bs_bytes_written ?st + n"
    "bs_input_ended st = bs_input_ended ?st" "bs_capacity st = bs_capacity ?st"
    using wr len core(3) todo(1)
    by (auto simp: ByteStream_write_def ByteStream_remaining_capacity_def sz_sub_small sz_add_small Let_def split: if_splits)
  have ended: "bs_input_ended ?st \<Longrightarrow> todo = []" using core(4) todo(1) by simp
  have le: "n \<le> length todo" using n(1) by simp
  have "snd_inv S N (s\<lparr>snd_stream := st\<rparr>)"
    using snd_inv_write [OF inv todo(2)] todo(1) wr by simp
  moreover have "rest = [] \<Longrightarrow> bs_bytes_written st = N" using s'(2) le n(3) todo(1) by simp
  ultimately show "snd_inv S N s'" using snd_inv_close [of S N "s\<lparr>snd_stream := st\<rparr>"] s'(1) by auto
  show "bs_bytes_written (snd_stream s') + length rest = N"
    using s' n(3) todo(1) le by (simp add: ByteStream_end_input_def)
  show "piece S (bs_bytes_written (snd_stream s')) rest"
    using todo(2) s' n(3) le by (auto simp: ByteStream_end_input_def piece_iff_nth add.assoc)
  show "if rest = [] then bs_input_ended (snd_stream s') else bs_buf (snd_stream s') \<noteq> [] \<and> \<not> bs_input_ended (snd_stream s')"
    using s' n len(1) cap ended by (auto simp: ByteStream_end_input_def min_def split: if_splits)
qed (use w in \<open>auto simp: app_write_def snd_una_def snd_window_def ByteStream_end_input_def ByteStream_write_def split_beta Let_def\<close>)

text \<open>
  In step: the queue holds exactly the outstanding segments, they fit the receiver's window, the receiver
  expects the first of them, and its application has read all that has arrived.
\<close>

definition in_step :: "(nat \<Rightarrow> byte) \<Rightarrow> nat \<Rightarrow> wrapping_int32 \<Rightarrow> transfer \<Rightarrow> bool" where
  "in_step S N isn st \<longleftrightarrow> (case st of (s, todo, r, got) \<Rightarrow>
     snd_inv S N s \<and> snd_isn s = isn \<and> snd_segments_out s = snd_retrans_buf s \<and> N < 4294967295 \<and>
     bs_bytes_written (snd_stream s) + length todo = N \<and> piece S (bs_bytes_written (snd_stream s)) todo \<and>
     0 < bs_capacity (snd_stream s) \<and> snd_window s \<le> rcv_capacity r \<and>
     snd_next_seqno s \<le> snd_una s + rcv_capacity r \<and>
     rcv_inv S isn (r, got) \<and> bs_buf (TCPReceiver_stream_out r) = [] \<and>
     sr_wait_index (rcv_reassembler r) = min (snd_una s - 1) N \<and> (rcv_syn_set r \<longleftrightarrow> 0 < snd_una s) \<and>
     (if snd_una s = N + 2 then bs_input_ended (TCPReceiver_stream_out r) else rcv_open r))"

text \<open>After the application has written and the window is filled there is a segment to send, or all has been acknowledged.\<close>

lemma fill_progress:
  assumes inv: "snd_inv S N s" and some: "bs_input_ended (snd_stream s) \<or> bs_buf (snd_stream s) \<noteq> []"
  shows "snd_una s = N + 2 \<or> snd_una s < snd_next_seqno (TCPSender_fill_window s)"
proof -
  let ?s = "TCPSender_fill_window s"
  have core: "snd_core S N s" and flight: "snd_flight S N (snd_una s) s" using inv by (simp_all add: snd_inv_una)
  note fill = fill_window_result [OF core flight]
  have inv': "snd_inv S N ?s" using fill by (auto simp: snd_inv_def)
  consider "snd_una s + snd_window s \<le> snd_next_seqno ?s" | (drained) "snd_drained ?s" using fill by blast
  then show ?thesis
  proof cases
    case 1
    then show ?thesis using snd_window_bounds(1) [of s] by linarith
  next
    case drained
    show ?thesis
    proof (cases "bs_input_ended (snd_stream s)")
      case True
      then have "snd_next_seqno ?s = N + 2" using drained_next [OF inv' _ drained] fill by (auto simp: snd_keeps_def)
      moreover have "snd_una s \<le> N + 2" using una_le [of s] snd_core_next [OF core] by simp
      ultimately show ?thesis by linarith
    next
      case False
      have a: "snd_next_seqno s \<le> 1 + bs_bytes_read (snd_stream s)" "bs_bytes_read (snd_stream s) < bs_bytes_written (snd_stream s)"
        using core False some by (auto simp: snd_core_def Let_def)
      have "bs_bytes_written (snd_stream ?s) = bs_bytes_written (snd_stream s)" using fill by (simp add: snd_keeps_def)
      then have "1 + bs_bytes_written (snd_stream s) \<le> snd_next_seqno ?s"
        using inv' drained by (auto simp: snd_inv_def snd_core_def snd_drained_def Let_def)
      then show ?thesis using a una_le [of s] by linarith
    qed
  qed
qed

lemma app_read_spec:
  assumes inv: "rcv_inv S isn (r, got)" and rd: "app_read r = (d, r')"
  shows "rcv_inv S isn (r', got @ d)" "bs_buf (TCPReceiver_stream_out r') = []" "rcv_capacity r' = rcv_capacity r"
    "sr_wait_index (rcv_reassembler r') = sr_wait_index (rcv_reassembler r)" "rcv_syn_set r' = rcv_syn_set r"
    "bs_input_ended (TCPReceiver_stream_out r') = bs_input_ended (TCPReceiver_stream_out r)" "rcv_open r' = rcv_open r"
proof -
  let ?q = "rcv_reassembler r"
  obtain q where q: "StreamReassembler_take ?q (ByteStream_buffer_size (TCPReceiver_stream_out r)) = (d, q)" "r' = r\<lparr>rcv_reassembler := q\<rparr>"
    using rd by (auto simp: app_read_def split: prod.splits)
  have run: "run_inv S (?q, got)" and sr: "sr_inv S ?q" using inv by (simp_all add: rcv_inv_def run_inv_def)
  note t = take_spec [OF sr q(1)]
  have run': "run_inv S (q, got @ d)" by (rule take_run_inv [OF run q(1)])
  then show "rcv_inv S isn (r', got @ d)" using inv t(7) q(2) by (simp add: rcv_inv_def)
  have "d = bs_buf (sr_output ?q)" using t(9) by (simp add: ByteStream_buffer_size_def TCPReceiver_stream_out_def)
  then have "length (bs_buf (sr_output q)) = 0"
    using t(1,3,4) sr by (auto simp: sr_inv_def sr_mid_def Let_def)
  then show "bs_buf (TCPReceiver_stream_out r') = []" by (simp add: q(2) TCPReceiver_stream_out_def)
  show "rcv_capacity r' = rcv_capacity r" "sr_wait_index (rcv_reassembler r') = sr_wait_index ?q" "rcv_syn_set r' = rcv_syn_set r"
    "bs_input_ended (TCPReceiver_stream_out r') = bs_input_ended (TCPReceiver_stream_out r)" "rcv_open r' = rcv_open r"
    using t q(2) by (simp_all add: TCPReceiver_stream_out_def rcv_open_def)
qed

text \<open>The receiver takes everything that is in flight.\<close>

lemma flight_received:
  assumes chain: "seg_chain S N isn a segs b" and b: "b \<le> N + 2" "b \<le> a + rcv_capacity r" "a = N + 2 \<or> a < b"
    and inv: "rcv_inv S isn (r, got)" "bs_buf (TCPReceiver_stream_out r) = []" "N < 4294967295"
    and at: "sr_wait_index (rcv_reassembler r) = min (a - 1) N" "rcv_syn_set r \<longleftrightarrow> 0 < a"
      "if a = N + 2 then bs_input_ended (TCPReceiver_stream_out r) else rcv_open r"
  shows "\<exists>r'. runE TCPReceiver_segment_received r segs = Inr r' \<and> rcv_inv S isn (r', got) \<and>
    sr_wait_index (rcv_reassembler r') = min (b - 1) N \<and> rcv_syn_set r' \<and> rcv_capacity r' = rcv_capacity r \<and>
    (if b = N + 2 then bs_input_ended (TCPReceiver_stream_out r') else rcv_open r')"
proof (cases "a = N + 2")
  case True
  then have ab: "b = a" using b(1) seg_chain_le [OF chain] by simp
  then have "segs = []" using chain seg_chain_empty by metis
  then show ?thesis using assms True ab by (intro exI [of _ r]) auto
next
  case False
  have a: "a \<le> N + 1" "0 < b" using b False by auto
  have "sr_capacity (rcv_reassembler r) = rcv_capacity r"
    "sr_wait_index (rcv_reassembler r) = bs_bytes_read (sr_output (rcv_reassembler r))"
    using inv by (auto simp: rcv_inv_def run_inv_def sr_inv_def sr_mid_def TCPReceiver_stream_out_def Let_def)
  moreover have "min (a - 1) N = a - 1" using a(1) by linarith
  ultimately have edge: "sr_edge (rcv_reassembler r) = rcv_capacity r + (a - 1)" using at(1) by (simp add: sr_edge_def)
  have cap: "rcv_capacity r' = rcv_capacity r"
    if "rcv_inv S isn (r', got)" "sr_edge (rcv_reassembler r') = sr_edge (rcv_reassembler r)" for r'
  proof -
    have "rcv_inv S isn (x, got) \<Longrightarrow> bs_bytes_read (sr_output (rcv_reassembler x)) = length got" for x
      by (simp add: rcv_inv_def run_inv_def)
    then show ?thesis using that inv(1) by (simp add: sr_edge_def rcv_inv_def)
  qed
  have win: "min (b - 1) N \<le> sr_edge (rcv_reassembler r)" using edge b(2) by auto
  obtain r' where r': "runE TCPReceiver_segment_received r segs = Inr r'" "rcv_inv S isn (r', got)"
    "sr_wait_index (rcv_reassembler r') = min (b - 1) N" "rcv_syn_set r' \<longleftrightarrow> 0 < b"
    "sr_edge (rcv_reassembler r') = sr_edge (rcv_reassembler r)"
    "if b = N + 2 then bs_input_ended (TCPReceiver_stream_out r') else rcv_open r'"
    using chain_received [OF chain inv(1) _ a(1) at(2) _ win inv(3)] at(1,3) a(1) False by auto
  then show ?thesis using cap [OF r'(2,5)] a(2) by (intro exI [of _ r']) simp
qed

lemma round_trip_in_step:
  assumes st: "in_step S N isn (s, todo, r, got)"
  shows "\<exists>s' todo' r' got'. round_trip (s, todo, r, got) = Inr (s', todo', r', got') \<and>
    in_step S N isn (s', todo', r', got') \<and> (snd_una s' = N + 2 \<or> snd_una s < snd_una s')"
proof -
  obtain s1 rest where w: "app_write s todo = (s1, rest)" by fastforce
  let ?s2 = "TCPSender_fill_window s1"
  let ?a = "snd_una s" and ?b = "snd_next_seqno ?s2"
  have i: "snd_inv S N s" "snd_isn s = isn" "snd_segments_out s = snd_retrans_buf s" "N < 4294967295"
    "bs_bytes_written (snd_stream s) + length todo = N" "piece S (bs_bytes_written (snd_stream s)) todo"
    "0 < bs_capacity (snd_stream s)" "snd_window s \<le> rcv_capacity r" "snd_next_seqno s \<le> ?a + rcv_capacity r"
    "rcv_inv S isn (r, got)" "bs_buf (TCPReceiver_stream_out r) = []"
    "sr_wait_index (rcv_reassembler r) = min (?a - 1) N" "rcv_syn_set r \<longleftrightarrow> 0 < ?a"
    "if ?a = N + 2 then bs_input_ended (TCPReceiver_stream_out r) else rcv_open r"
    using st unfolding in_step_def by simp_all
  note s1 = app_write_spec [OF i(1,5,6,7) w]
  have "snd_core S N s1" "snd_flight S N ?a s1" using s1(1,6) by (simp_all add: snd_inv_una)
  note fill = fill_window_result [OF this]
  have una2: "snd_una ?s2 = ?a" using fill flight_una by metis
  have s2: "snd_inv S N ?s2" "snd_isn ?s2 = isn" "snd_segments_out ?s2 = snd_retrans_buf ?s2" "snd_keeps s1 ?s2"
    using fill s1(8,9,10) i(2,3) by (auto simp: snd_inv_def snd_keeps_def)
  have some: "bs_input_ended (snd_stream s1) \<or> bs_buf (snd_stream s1) \<noteq> []" using s1(5) by (auto split: if_splits)
  have progress: "?a = N + 2 \<or> ?a < ?b" using fill_progress [OF s1(1) some] s1(6) by simp
  have b: "?b \<le> N + 2" "?b \<le> ?a + rcv_capacity r"
    using s2(1) snd_core_next fill i(8,9) s1(7,11) by (auto simp: snd_inv_def)
  have chain: "seg_chain S N isn ?a (snd_segments_out ?s2) ?b"
    using s2 una2 by (simp add: snd_inv_una snd_flight_def)
  obtain r1 where r1: "runE TCPReceiver_segment_received r (snd_segments_out ?s2) = Inr r1" "rcv_inv S isn (r1, got)"
    "sr_wait_index (rcv_reassembler r1) = min (?b - 1) N" "rcv_syn_set r1" "rcv_capacity r1 = rcv_capacity r"
    "if ?b = N + 2 then bs_input_ended (TCPReceiver_stream_out r1) else rcv_open r1"
    using flight_received [OF chain b progress i(10,11,4,12,13,14)] by blast
  obtain d r2 where rd: "app_read r1 = (d, r2)" by fastforce
  note r2 = app_read_spec [OF r1(2) rd]
  have pos: "0 < ?b" using progress b(1) una_le [of ?s2] una2 by auto
  have ackno: "TCPReceiver_ackno r2 = Some (wrap ?b isn)"
    using rcv_inv_ackno [OF r2(1)] r1(3,4,6) r2(4,5,6) b(1) pos by (auto simp: rcv_open_def min_def split: if_splits)
  have cap: "0 < rcv_capacity r" using i(8) snd_window_bounds(1) [of s] by simp
  have small: "rcv_capacity r < size_mod"
    using i(10) by (simp add: rcv_inv_def run_inv_def sr_inv_def sr_mid_def Let_def)
  let ?win = "of_nat (min (TCPReceiver_window_size r2) 65535) :: u16"
  have win: "unat ?win = min (rcv_capacity r) 65535"
    using r2(2,3) r1(5) small
    by (simp add: TCPReceiver_window_size_def ByteStream_buffer_size_def TCPReceiver_stream_out_def sz_sub_small unat_of_nat)
  let ?s3 = "?s2\<lparr>snd_segments_out := []\<rparr>"
  have "snd_inv S N ?s3" using s2(1) unfolding snd_inv_def snd_core_def snd_flight_def Let_def by auto
  then obtain s4 where s4: "TCPSender_ack_received ?s3 (wrap ?b isn) ?win = s4" "snd_inv S N s4" "snd_keeps ?s3 s4"
    "snd_una s4 = ?b" "snd_segments_out s4 = snd_retrans_buf s4" "snd_window_size s4 = ?win"
    "snd_next_seqno s4 \<le> ?b + snd_window s4"
    using ack_received_all [of S N ?s3 "wrap ?b isn" ?win] s2(2) by auto
  have win4: "snd_window s4 \<le> rcv_capacity r" using s4(6) win cap by (auto simp: snd_window_def)
  have keep: "bs_bytes_written (snd_stream s4) = bs_bytes_written (snd_stream s1)" "snd_isn s4 = isn"
    "bs_capacity (snd_stream s4) = bs_capacity (snd_stream s)"
    using s4(3) s2(2,4) s1(4) by (simp_all add: snd_keeps_def)
  have "in_step S N isn (s4, rest, r2, got @ d)"
    unfolding in_step_def using s4 keep s1(2,3) i(4,7) win4 r2 r1 pos by auto
  moreover have "round_trip (s, todo, r, got) = Inr (s4, rest, r2, got @ d)"
    using w r1(1) rd ackno s4(1) by (simp add: round_trip.simps Let_def)
  ultimately show ?thesis using progress b(1) s4(4) una_le [of ?s2] una2 by auto
qed

lemma round_trips_in_step:
  assumes "in_step S N isn (s, todo, r, got)" "N + 2 \<le> snd_una s + k"
  shows "\<exists>s' todo' r' got'. round_trips k (s, todo, r, got) = Inr (s', todo', r', got') \<and>
    in_step S N isn (s', todo', r', got') \<and> snd_una s' = N + 2"
  using assms
proof (induction k arbitrary: s todo r got)
  case 0
  have "snd_una s \<le> N + 2"
    using 0(1) una_le [of s] snd_core_next by (fastforce simp: in_step_def snd_inv_def)
  then show ?case using 0 by auto
next
  case (Suc k)
  obtain s1 todo1 r1 got1 where e: "round_trip (s, todo, r, got) = Inr (s1, todo1, r1, got1)"
    "in_step S N isn (s1, todo1, r1, got1)" "snd_una s1 = N + 2 \<or> snd_una s < snd_una s1"
    using round_trip_in_step [OF Suc.prems(1)] by blast
  have "N + 2 \<le> snd_una s1 + k" using Suc.prems(2) e(3) by auto
  from Suc.IH [OF e(2) this] show ?case by (simp add: e(1))
qed

lemma piece_nth: "piece ((!) d) 0 d"
  by (simp add: piece_iff_nth)

lemma in_step_start:
  assumes "0 < scap" "scap < seq_limit" "0 < rcap" "rcap < seq_limit" "length d < 4294967295"
  shows "in_step ((!) d) (length d) isn (TCPSender_new scap rto (Some isn) 0, d, TCPReceiver_new rcap, [])"
    and "snd_una (TCPSender_new scap rto (Some isn) 0) = 0"
proof -
  let ?s = "TCPSender_new scap rto (Some isn) 0"
  have "snd_core ((!) d) (length d) ?s" "snd_flight ((!) d) (length d) 0 ?s"
    using assms by (simp_all add: snd_core_def snd_flight_def TCPSender_new_def ByteStream_new_def bs_wf_def Timer_new_def piece_def Let_def)
  then have "snd_inv ((!) d) (length d) ?s" by (auto simp: snd_inv_def)
  moreover show una: "snd_una ?s = 0" by (simp add: snd_una_def TCPSender_new_def)
  moreover have "rcv_inv ((!) d) isn (TCPReceiver_new rcap, [])" using assms(4) by (rule rcv_inv_new)
  ultimately show "in_step ((!) d) (length d) isn (?s, d, TCPReceiver_new rcap, [])"
    using assms piece_nth [of d]
    by (simp add: in_step_def rcv_open_def TCPReceiver_new_def StreamReassembler_new_def snd_window_def
        TCPReceiver_stream_out_def ByteStream_new_def TCPSender_new_def)
qed

text \<open>
  C3. Without loss a transfer completes.  A new sender and a new receiver with streams of any capacity,
  down to one byte, transfer any \<open>d\<close> of fewer than \<open>2^32 - 1\<close> bytes, also when it is longer than
  both capacities: in every round trip the sending application writes what fits and closes the stream after
  the last byte, all segments arrive in order, the receiving application reads all there is, and
  the acknowledgement gets back.  After \<open>length d + 2\<close> round trips the application has read exactly \<open>d\<close>
  and sees the end of the stream, and the sender has sent the FIN and has nothing outstanding.
\<close>

theorem transfer_complete:
  assumes "0 < scap" "scap < seq_limit" "0 < rcap" "rcap < seq_limit" "length d < 4294967295"
  shows "\<exists>s r. round_trips (length d + 2) (TCPSender_new scap rto (Some isn) 0, d, TCPReceiver_new rcap, []) =
      Inr (s, [], r, d) \<and>
    ByteStream_eof (TCPReceiver_stream_out r) \<and>
    snd_fin_sent s \<and> ByteStream_buffer_empty (snd_stream s) \<and> TCPSender_bytes_in_flight s = 0"
proof -
  let ?S = "(!) d" and ?N = "length d" and ?s = "TCPSender_new scap rto (Some isn) 0"
  have "?N + 2 \<le> snd_una ?s + (?N + 2)" by simp
  from round_trips_in_step [OF in_step_start(1) [OF assms, of isn rto] this]
  obtain s todo r got where e: "round_trips (?N + 2) (?s, d, TCPReceiver_new rcap, []) = Inr (s, todo, r, got)"
    "in_step ?S ?N isn (s, todo, r, got)" "snd_una s = ?N + 2" by blast
  have r: "rcv_inv ?S isn (r, got)" "sr_wait_index (rcv_reassembler r) = ?N" "bs_input_ended (TCPReceiver_stream_out r)"
    "bs_buf (TCPReceiver_stream_out r) = []" and todo: "bs_bytes_written (snd_stream s) + length todo = ?N"
    using e(2,3) by (simp_all add: in_step_def)
  have got: "got = d" using rcv_inv_delivered [OF r(1)] r(2,4) by (simp add: map_nth)
  have s: "snd_core ?S ?N s" "snd_flight ?S ?N (snd_una s) s"
    using e(2) by (simp_all add: in_step_def snd_inv_una)
  have next_eq: "snd_next_seqno s = ?N + 2" using snd_core_next [OF s(1)] una_le [of s] e(3) by simp
  note fin = finished_next [OF s(1) next_eq]
  have "todo = []" using todo fin(3) by simp
  moreover have "TCPSender_bytes_in_flight s = 0" using bytes_in_flight_eq [OF s(2)] next_eq e(3) by simp
  ultimately show ?thesis
    using e(1) got r(3,4) fin by (auto simp: ByteStream_buffer_empty_def ByteStream_eof_def)
qed

theorem transfer_complete_witness:
  "\<exists>s r. round_trips (length [7, 8, 9 :: byte] + 2) (TCPSender_new 2 1000 (Some (WrappingInt32 4294967295)) 0, [7, 8, 9], TCPReceiver_new 1, []) =
      Inr (s, [], r, [7, 8, 9]) \<and>
    ByteStream_eof (TCPReceiver_stream_out r) \<and>
    snd_fin_sent s \<and> ByteStream_buffer_empty (snd_stream s) \<and> TCPSender_bytes_in_flight s = 0"
  by (rule transfer_complete) simp_all

section \<open>An example\<close>

text \<open>The sender's SYN is put on the wire and reaches the receiver twice.\<close>

definition link_example :: tcp_link where
  "link_example = \<lparr>lk_sender = snd_example\<lparr>snd_segments_out := []\<rparr>, lk_sent = snd_segments_out snd_example,
     lk_receiver = (TCPReceiver_new 8)\<lparr>rcv_syn_set := True, rcv_init_seqno := WrappingInt32 5\<rparr>, lk_read = []\<rparr>"

lemma link_example_reach: "link_reach of_nat 2 (WrappingInt32 5) (link_init 64000 8 1000 (WrappingInt32 5)) link_example"
proof -
  let ?isn = "WrappingInt32 5" and ?l0 = "link_init 64000 8 1000 (WrappingInt32 5)"
  let ?seg = "\<lparr>seg_header = TCPHeader_default\<lparr>th_syn := True, th_seqno := ?isn\<rparr>, seg_payload = Buffer_new []\<rparr>"
  let ?l1 = "?l0\<lparr>lk_sender := snd_example, lk_sent := []\<rparr>"
  let ?l2 = "?l1\<lparr>lk_sender := snd_example\<lparr>snd_segments_out := []\<rparr>, lk_sent := [?seg]\<rparr>"
  let ?r = "(TCPReceiver_new 8)\<lparr>rcv_syn_set := True, rcv_init_seqno := ?isn\<rparr>"
  have 1: "link_step of_nat 2 ?isn ?l0 ?l1"
    by (rule link_step.sender_step [where x = Fill_window]) (simp_all add: link_init_def snd_example_def)
  have 2: "link_step of_nat 2 ?isn ?l1 ?l2"
    by (rule link_step.sender_step [where x = Collect]) (simp_all add: snd_example_eq)
  have at: "seg_at of_nat 2 ?isn 0 ?seg"
    by (simp add: seg_at_def TCPHeader_default_def piece_def TCPSegment_length_in_sequence_space_def)
  have rcv: "TCPReceiver_segment_received (TCPReceiver_new 8) ?seg = Inr ?r"
    "TCPReceiver_segment_received ?r ?seg = Inr ?r"
    by (simp_all add: TCPReceiver_segment_received_def TCPReceiver_check_fin_def TCPReceiver_new_def
        TCPHeader_default_def Buffer_copy_def)
  have 3: "link_step of_nat 2 ?isn ?l2 (?l2\<lparr>lk_receiver := ?r\<rparr>)"
    by (rule link_step.deliver [where seg = ?seg and a = 0])
      (use at rcv in \<open>simp_all add: link_init_def seq_close_def TCPReceiver_new_def StreamReassembler_new_def\<close>)
  have 4: "link_step of_nat 2 ?isn (?l2\<lparr>lk_receiver := ?r\<rparr>) (?l2\<lparr>lk_receiver := ?r, lk_receiver := ?r\<rparr>)"
    by (rule link_step.deliver [where seg = ?seg and a = 0])
      (use at rcv in \<open>simp_all add: link_init_def seq_close_def TCPReceiver_new_def StreamReassembler_new_def\<close>)
  have eq: "link_example = ?l2\<lparr>lk_receiver := ?r, lk_receiver := ?r\<rparr>"
    by (simp add: link_example_def link_init_def snd_example_eq)
  show ?thesis unfolding eq
    by (rule link_reach.step [OF link_reach.step [OF link_reach.step [OF link_reach.step [OF link_reach.init 1] 2] 3] 4])
qed

theorem transfer_safe_witness:
  "\<exists>k \<le> 2. link_received link_example = take k (map of_nat [0..<2]) \<and>
    (\<forall>seg \<in> set (lk_sent link_example). seg_empty seg \<or> (\<exists>a. seg_at of_nat 2 (WrappingInt32 5) a seg)) \<and>
    (\<forall>seg \<in> set (lk_sent link_example). \<forall>a. seg_empty seg \<or> seg_at of_nat 2 (WrappingInt32 5) a seg \<and> seq_close (a - 1) k \<longrightarrow>
       (\<exists>r'. TCPReceiver_segment_received (lk_receiver link_example) seg = Inr r'))"
  by (rule transfer_safe [OF _ _ _ link_example_reach]) simp_all

end
