(* ===== verification/Tcp_Connection.thy ===== *)
theory Tcp_Connection
  imports Tcp_Transfer
begin

text \<open>
  The TCP connection, \<open>libsponge/tcp_connection.hh\<close> and \<open>tcp_connection.cc\<close>.

  A connection owns one sender and one receiver, stamps the receiver's acknowledgement and window on
  every outgoing segment, and decides when the connection ends.  Every method is a definition.  A run
  of a connection is driven by its application and by the segments of the peer.
\<close>

section \<open>The class\<close>

record tcp_connection =
  tc_cfg :: tcp_config
  tc_receiver :: tcp_receiver
  tc_sender :: tcp_sender
  tc_segments_out :: "tcp_segment list"
  tc_last_recv_et :: size_t
  tc_linger_after_streams_finish :: bool
  tc_active :: bool

definition TCPConnection_new :: "tcp_config \<Rightarrow> u32 \<Rightarrow> tcp_connection" where
  "TCPConnection_new cfg random =
     \<lparr>tc_cfg = cfg, tc_receiver = TCPReceiver_new (cfg_recv_capacity cfg),
      tc_sender = TCPSender_new (cfg_send_capacity cfg) (cfg_rt_timeout cfg) (cfg_fixed_isn cfg) random,
      tc_segments_out = [], tc_last_recv_et = 0, tc_linger_after_streams_finish = True, tc_active = True\<rparr>"

definition TCPConnection_remaining_outbound_capacity :: "tcp_connection \<Rightarrow> size_t" where
  "TCPConnection_remaining_outbound_capacity c = ByteStream_remaining_capacity (snd_stream (tc_sender c))"

definition TCPConnection_bytes_in_flight :: "tcp_connection \<Rightarrow> size_t" where
  "TCPConnection_bytes_in_flight c = TCPSender_bytes_in_flight (tc_sender c)"

definition TCPConnection_unassembled_bytes :: "tcp_connection \<Rightarrow> size_t" where
  "TCPConnection_unassembled_bytes c = TCPReceiver_unassembled_bytes (tc_receiver c)"

definition TCPConnection_inbound_stream :: "tcp_connection \<Rightarrow> byte_stream" where
  "TCPConnection_inbound_stream c = TCPReceiver_stream_out (tc_receiver c)"

text \<open>The header fields that the connection fills in before it queues a segment.\<close>

definition stamp_segment :: "tcp_receiver \<Rightarrow> tcp_segment \<Rightarrow> tcp_segment" where
  "stamp_segment r seg =
     (let max_winsize = 65535;
          header = seg_header seg;
          header = (if max_winsize < TCPReceiver_window_size r then header\<lparr>th_win := of_nat max_winsize\<rparr>
                    else header\<lparr>th_win := of_nat (TCPReceiver_window_size r)\<rparr>);
          header = (case TCPReceiver_ackno r of
                      Some ackno \<Rightarrow> header\<lparr>th_ack := True, th_ackno := ackno\<rparr>
                    | None \<Rightarrow> header)
      in seg\<lparr>seg_header := header\<rparr>)"

fun clear_sendbuf_loop :: "tcp_connection \<Rightarrow> tcp_segment list \<Rightarrow> tcp_connection" where
  "clear_sendbuf_loop c [] = c\<lparr>tc_sender := (tc_sender c)\<lparr>snd_segments_out := []\<rparr>\<rparr>"
| "clear_sendbuf_loop c (seg # sender_queue) =
     clear_sendbuf_loop (c\<lparr>tc_segments_out := tc_segments_out c @ [stamp_segment (tc_receiver c) seg]\<rparr>) sender_queue"

definition TCPConnection_clear_sendbuf :: "tcp_connection \<Rightarrow> tcp_connection" where
  "TCPConnection_clear_sendbuf c = clear_sendbuf_loop c (snd_segments_out (tc_sender c))"

definition TCPConnection_shutdown :: "tcp_connection \<Rightarrow> bool \<Rightarrow> tcp_connection" where
  "TCPConnection_shutdown c clean =
     (let c = (if \<not> clean then
                 let s = tc_sender c; r = tc_receiver c; q = rcv_reassembler r
                 in c\<lparr>tc_sender := s\<lparr>snd_stream := ByteStream_set_error (snd_stream s)\<rparr>,
                      tc_receiver := r\<lparr>rcv_reassembler := q\<lparr>sr_output := ByteStream_set_error (sr_output q)\<rparr>\<rparr>\<rparr>
               else c)
      in c\<lparr>tc_active := False\<rparr>)"

definition TCPConnection_send_rst_segment :: "tcp_connection \<Rightarrow> tcp_connection" where
  "TCPConnection_send_rst_segment c =
     TCPConnection_clear_sendbuf (c\<lparr>tc_sender := TCPSender_send_empty_segment (tc_sender c) False False True\<rparr>)"

definition TCPConnection_should_shutdown :: "tcp_connection \<Rightarrow> bool" where
  "TCPConnection_should_shutdown c \<longleftrightarrow>
     bs_input_ended (TCPReceiver_stream_out (tc_receiver c)) \<and> TCPReceiver_unassembled_bytes (tc_receiver c) = 0 \<and>
     bs_input_ended (snd_stream (tc_sender c)) \<and> TCPSender_bytes_in_flight (tc_sender c) = 0 \<and>
     snd_next_seqno (tc_sender c) = sz_add (bs_bytes_written (snd_stream (tc_sender c))) 2"

text \<open>
  The part of \<open>segment_received\<close> between the receiver and the queue: the acknowledgement is passed to
  the sender, a segment that occupies sequence numbers is answered, and so is a keep-alive.
\<close>

definition TCPConnection_reply :: "tcp_connection \<Rightarrow> tcp_segment \<Rightarrow> tcp_connection" where
  "TCPConnection_reply c seg =
     (let header = seg_header seg;
          c = (if th_ack header
               then c\<lparr>tc_sender := TCPSender_ack_received (tc_sender c) (th_ackno header) (th_win header)\<rparr>
               else c);
          c = (if 0 < TCPSegment_length_in_sequence_space seg \<and> snd_segments_out (tc_sender c) = [] then
                 let s = TCPSender_fill_window (tc_sender c);
                     s = (if snd_segments_out s = [] then TCPSender_send_empty_segment s False False False else s)
                 in c\<lparr>tc_sender := s\<rparr>
               else c)
      in case TCPReceiver_ackno (tc_receiver c) of
           Some ackno \<Rightarrow>
             if TCPSegment_length_in_sequence_space seg = 0 \<and> th_seqno header = wi_minus ackno 1
             then c\<lparr>tc_sender := TCPSender_send_empty_segment (tc_sender c) False False False\<rparr> else c
         | None \<Rightarrow> c)"

definition TCPConnection_segment_received :: "tcp_connection \<Rightarrow> tcp_segment \<Rightarrow> tcp_connection result" where
  "TCPConnection_segment_received c seg =
     (let c = c\<lparr>tc_last_recv_et := 0\<rparr>
      in if th_rst (seg_header seg) then Inr (TCPConnection_shutdown c False)
         else bindE (TCPReceiver_segment_received (tc_receiver c) seg) (\<lambda>r.
           let c = TCPConnection_clear_sendbuf (TCPConnection_reply (c\<lparr>tc_receiver := r\<rparr>) seg)
           in Inr (if bs_input_ended (TCPReceiver_stream_out (tc_receiver c)) \<and>
                      \<not> bs_input_ended (snd_stream (tc_sender c))
                   then c\<lparr>tc_linger_after_streams_finish := False\<rparr> else c)))"

definition TCPConnection_write :: "tcp_connection \<Rightarrow> byte list \<Rightarrow> size_t \<times> tcp_connection" where
  "TCPConnection_write c data =
     (let s = tc_sender c;
          (data_size, stream) = ByteStream_write (snd_stream s) data;
          s = TCPSender_fill_window (s\<lparr>snd_stream := stream\<rparr>)
      in (data_size, TCPConnection_clear_sendbuf (c\<lparr>tc_sender := s\<rparr>)))"

definition TCPConnection_tick :: "tcp_connection \<Rightarrow> size_t \<Rightarrow> tcp_connection result" where
  "TCPConnection_tick c ms_since_last_tick =
     (let c = c\<lparr>tc_last_recv_et := sz_add (tc_last_recv_et c) ms_since_last_tick\<rparr>
      in if MAX_RETX_ATTEMPTS \<le> TCPSender_consecutive_retransmissions (tc_sender c)
         then Inr (TCPConnection_shutdown (TCPConnection_send_rst_segment c) False)
         else bindE (TCPSender_tick (tc_sender c) ms_since_last_tick) (\<lambda>s.
           let c = c\<lparr>tc_sender := s\<rparr>;
               c = (if TCPConnection_should_shutdown c then
                      if tc_linger_after_streams_finish c then
                        if 10 * unat (cfg_rt_timeout (tc_cfg c)) \<le> tc_last_recv_et c
                        then TCPConnection_shutdown c True else c
                      else TCPConnection_shutdown c True
                    else c)
           in Inr (TCPConnection_clear_sendbuf c)))"

definition TCPConnection_end_input_stream :: "tcp_connection \<Rightarrow> tcp_connection" where
  "TCPConnection_end_input_stream c =
     (let s = tc_sender c;
          s = TCPSender_fill_window (s\<lparr>snd_stream := ByteStream_end_input (snd_stream s)\<rparr>)
      in TCPConnection_clear_sendbuf (c\<lparr>tc_sender := s\<rparr>))"

definition TCPConnection_connect :: "tcp_connection \<Rightarrow> tcp_connection" where
  "TCPConnection_connect c =
     TCPConnection_clear_sendbuf (c\<lparr>tc_sender := TCPSender_fill_window (tc_sender c)\<rparr>)"

text \<open>The destructor.\<close>

definition TCPConnection_destroy :: "tcp_connection \<Rightarrow> tcp_connection" where
  "TCPConnection_destroy c =
     (if tc_active c
      then TCPConnection_clear_sendbuf (TCPConnection_shutdown (TCPConnection_send_rst_segment c) False)
      else c)"

section \<open>Outgoing segments\<close>

text \<open>What the connection fills in does not change what a segment carries.\<close>

lemma stamp_simps [simp]:
  "th_seqno (seg_header (stamp_segment r seg)) = th_seqno (seg_header seg)"
  "th_syn (seg_header (stamp_segment r seg)) = th_syn (seg_header seg)"
  "th_fin (seg_header (stamp_segment r seg)) = th_fin (seg_header seg)"
  "th_rst (seg_header (stamp_segment r seg)) = th_rst (seg_header seg)"
  "seg_payload (stamp_segment r seg) = seg_payload seg"
  by (simp_all add: stamp_segment_def Let_def split: option.split)

lemma clear_sendbuf_loop_eq:
  "clear_sendbuf_loop c q =
     c\<lparr>tc_sender := (tc_sender c)\<lparr>snd_segments_out := []\<rparr>,
       tc_segments_out := tc_segments_out c @ map (stamp_segment (tc_receiver c)) q\<rparr>"
  by (induction q arbitrary: c) simp_all

lemma clear_sendbuf_eq:
  "TCPConnection_clear_sendbuf c =
     c\<lparr>tc_sender := (tc_sender c)\<lparr>snd_segments_out := []\<rparr>,
       tc_segments_out := tc_segments_out c @ map (stamp_segment (tc_receiver c)) (snd_segments_out (tc_sender c))\<rparr>"
  by (simp add: TCPConnection_clear_sendbuf_def clear_sendbuf_loop_eq)

text \<open>A segment that carries the stream at an absolute number, whatever its other fields.\<close>

definition seg_carries :: "(nat \<Rightarrow> byte) \<Rightarrow> nat \<Rightarrow> wrapping_int32 \<Rightarrow> nat \<Rightarrow> tcp_segment \<Rightarrow> bool" where
  "seg_carries S N isn a seg \<longleftrightarrow>
     th_seqno (seg_header seg) = wrap a isn \<and> (th_syn (seg_header seg) \<longleftrightarrow> a = 0) \<and>
     piece S (a - 1) (seg_data seg) \<and> a - 1 + length (seg_data seg) \<le> N \<and>
     (th_fin (seg_header seg) \<longrightarrow> a - 1 + length (seg_data seg) = N) \<and>
     length (seg_data seg) \<le> MAX_PAYLOAD_SIZE"

definition seg_sent :: "(nat \<Rightarrow> byte) \<Rightarrow> nat \<Rightarrow> wrapping_int32 \<Rightarrow> tcp_segment \<Rightarrow> bool" where
  "seg_sent S N isn seg \<longleftrightarrow> seg_empty seg \<or> (\<exists>a \<le> N + 1. seg_carries S N isn a seg)"

lemma seg_at_carries:
  assumes "seg_at S N isn a seg"
  shows "seg_carries S N isn a seg"
  using assms seg_at_header [OF assms] by (simp add: seg_carries_def seg_at_def)

lemma stamp_sent:
  assumes "seg_emitted S N isn seg"
  shows "seg_sent S N isn (stamp_segment r seg)"
  using assms seg_at_carries
  by (fastforce simp: seg_emitted_def seg_sent_def seg_empty_def seg_carries_def)

lemma carries_genuine:
  assumes "seg_carries S N isn a seg" "N \<le> seq_limit" "seq_close (a - 1) (sr_wait_index (rcv_reassembler r))"
  shows "genuine_seg S isn r (a - 1) seg"
  using assms by (auto simp: genuine_seg_def seg_carries_def)

end
