(* ===== verification/Connection_Runs.thy ===== *)
theory Connection_Runs
  imports Tcp_Connection
begin

text \<open>
  Runs of a connection.  The invariant joins those of the sender and of the receiver: the outgoing
  stream is \<open>S\<close> with \<open>N\<close> bytes under \<open>isn\<close>, the incoming one \<open>S'\<close> with \<open>N'\<close> bytes under \<open>isn'\<close>.
\<close>

section \<open>The invariant\<close>

definition conn_mid ::
  "(nat \<Rightarrow> byte) \<Rightarrow> nat \<Rightarrow> wrapping_int32 \<Rightarrow> (nat \<Rightarrow> byte) \<Rightarrow> wrapping_int32 \<Rightarrow>
   tcp_connection \<times> tcp_segment list \<times> byte list \<Rightarrow> bool" where
  "conn_mid S N isn S' isn' e \<longleftrightarrow> (case e of (c, h, del) \<Rightarrow>
     snd_run_inv S N isn (tc_sender c, []) \<and> rcv_inv S' isn' (tc_receiver c, del) \<and>
     (\<forall>seg \<in> set (h @ tc_segments_out c). seg_sent S N isn seg))"

definition conn_inv ::
  "(nat \<Rightarrow> byte) \<Rightarrow> nat \<Rightarrow> wrapping_int32 \<Rightarrow> (nat \<Rightarrow> byte) \<Rightarrow> wrapping_int32 \<Rightarrow>
   tcp_connection \<times> tcp_segment list \<times> byte list \<Rightarrow> bool" where
  "conn_inv S N isn S' isn' e \<longleftrightarrow>
     conn_mid S N isn S' isn' e \<and> snd_segments_out (tc_sender (fst e)) = []"

lemma conn_mid_update [simp]:
  "conn_mid S N isn S' isn' (c\<lparr>tc_last_recv_et := t\<rparr>, h, del) = conn_mid S N isn S' isn' (c, h, del)"
  "conn_mid S N isn S' isn' (c\<lparr>tc_linger_after_streams_finish := b\<rparr>, h, del) = conn_mid S N isn S' isn' (c, h, del)"
  "conn_mid S N isn S' isn' (c\<lparr>tc_active := b\<rparr>, h, del) = conn_mid S N isn S' isn' (c, h, del)"
  by (simp_all add: conn_mid_def)

lemma snd_inv_queue: "snd_inv S N s \<Longrightarrow> snd_inv S N (s\<lparr>snd_segments_out := q\<rparr>)"
  unfolding snd_inv_def snd_core_def snd_flight_def Let_def by auto

lemma snd_inv_error: "snd_inv S N s \<Longrightarrow> snd_inv S N (s\<lparr>snd_stream := ByteStream_set_error (snd_stream s)\<rparr>)"
  unfolding snd_inv_def snd_core_def snd_flight_def Let_def by (auto simp: ByteStream_set_error_def bs_wf_def)

lemma rcv_inv_error:
  "rcv_inv S isn (r, del) \<Longrightarrow>
   rcv_inv S isn (r\<lparr>rcv_reassembler := (rcv_reassembler r)
     \<lparr>sr_output := ByteStream_set_error (sr_output (rcv_reassembler r))\<rparr>\<rparr>, del)"
  by (auto simp: rcv_inv_def run_inv_def sr_inv_def sr_mid_def Let_def ByteStream_set_error_def bs_wf_def)

lemma fill_run_inv: "snd_run_inv S N isn (s, h) \<Longrightarrow> snd_run_inv S N isn (TCPSender_fill_window s, h)"
  using fill_window_run_inv [of S N s "snd_una s" isn h] by (simp add: snd_run_inv_def snd_inv_una)

lemma conn_mid_sender:
  "conn_mid S N isn S' isn' (c, h, del) \<Longrightarrow> snd_run_inv S N isn (s, []) \<Longrightarrow>
   conn_mid S N isn S' isn' (c\<lparr>tc_sender := s\<rparr>, h, del)"
  by (simp add: conn_mid_def)

lemma conn_midD:
  "conn_mid S N isn S' isn' (c, h, del) \<Longrightarrow> snd_run_inv S N isn (tc_sender c, [])"
  "conn_mid S N isn S' isn' (c, h, del) \<Longrightarrow> rcv_inv S' isn' (tc_receiver c, del)"
  by (simp_all add: conn_mid_def)

lemma conn_mid_clear:
  assumes "conn_mid S N isn S' isn' (c, h, del)"
  shows "conn_inv S N isn S' isn' (TCPConnection_clear_sendbuf c, h, del)"
  using assms stamp_sent
  by (auto simp: conn_inv_def conn_mid_def clear_sendbuf_eq snd_run_inv_def snd_inv_queue)

lemma conn_mid_shutdown:
  assumes "conn_mid S N isn S' isn' (c, h, del)"
  shows "conn_mid S N isn S' isn' (TCPConnection_shutdown c clean, h, del)"
  using assms snd_inv_error rcv_inv_error
  by (auto simp: TCPConnection_shutdown_def conn_mid_def snd_run_inv_def Let_def)

lemma shutdown_queue [simp]:
  "snd_segments_out (tc_sender (TCPConnection_shutdown c clean)) = snd_segments_out (tc_sender c)"
  by (simp add: TCPConnection_shutdown_def Let_def)

lemma conn_inv_shutdown:
  "conn_inv S N isn S' isn' (c, h, del) \<Longrightarrow> conn_inv S N isn S' isn' (TCPConnection_shutdown c clean, h, del)"
  by (simp add: conn_inv_def conn_mid_shutdown)

lemma conn_inv_mid: "conn_inv S N isn S' isn' e \<Longrightarrow> conn_mid S N isn S' isn' e"
  by (simp add: conn_inv_def)

lemmas conn_sender_steps = conn_mid_sender fill_run_inv ack_received_run_inv send_empty_run_inv conn_midD(1)

section \<open>The operations keep the invariant\<close>

lemma conn_inv_connect:
  assumes "conn_inv S N isn S' isn' (c, h, del)"
  shows "conn_inv S N isn S' isn' (TCPConnection_connect c, h, del)"
  unfolding TCPConnection_connect_def
  using conn_inv_mid [OF assms] by (intro conn_mid_clear conn_sender_steps)

lemma conn_inv_rst:
  assumes "conn_mid S N isn S' isn' (c, h, del)"
  shows "conn_inv S N isn S' isn' (TCPConnection_send_rst_segment c, h, del)"
  unfolding TCPConnection_send_rst_segment_def
  using assms by (intro conn_mid_clear conn_sender_steps)

lemma conn_inv_write:
  assumes "conn_inv S N isn S' isn' (c, h, del)"
    and "piece S (bs_bytes_written (snd_stream (tc_sender c))) d" "bs_bytes_written (snd_stream (tc_sender c)) + length d \<le> N"
  shows "conn_inv S N isn S' isn' (snd (TCPConnection_write c d), h, del)"
proof -
  have mid: "conn_mid S N isn S' isn' (c, h, del)" using assms(1) by (rule conn_inv_mid)
  let ?s = "(tc_sender c)\<lparr>snd_stream := snd (ByteStream_write (snd_stream (tc_sender c)) d)\<rparr>"
  have "snd_run_inv S N isn (?s, [])"
    using conn_midD(1) [OF mid] snd_inv_write [of S N "tc_sender c" d] assms(2,3) by (simp add: snd_run_inv_def)
  then have "conn_inv S N isn S' isn'
      (TCPConnection_clear_sendbuf (c\<lparr>tc_sender := TCPSender_fill_window ?s\<rparr>), h, del)"
    using mid by (intro conn_mid_clear conn_sender_steps)
  then show ?thesis
    by (cases "ByteStream_write (snd_stream (tc_sender c)) d") (simp add: TCPConnection_write_def)
qed

lemma conn_inv_end_input:
  assumes "conn_inv S N isn S' isn' (c, h, del)" "bs_bytes_written (snd_stream (tc_sender c)) = N"
  shows "conn_inv S N isn S' isn' (TCPConnection_end_input_stream c, h, del)"
proof -
  have mid: "conn_mid S N isn S' isn' (c, h, del)" using assms(1) by (rule conn_inv_mid)
  have "snd_run_inv S N isn
      ((tc_sender c)\<lparr>snd_stream := ByteStream_end_input (snd_stream (tc_sender c))\<rparr>, [])"
    using conn_midD(1) [OF mid] snd_inv_close [of S N "tc_sender c"] assms(2) by (simp add: snd_run_inv_def)
  then show ?thesis
    unfolding TCPConnection_end_input_stream_def Let_def using mid by (intro conn_mid_clear conn_sender_steps)
qed

lemma conn_inv_tick:
  assumes "conn_inv S N isn S' isn' (c, h, del)"
  shows "\<exists>c'. TCPConnection_tick c ms = Inr c' \<and> conn_inv S N isn S' isn' (c', h, del)"
proof -
  let ?c = "c\<lparr>tc_last_recv_et := sz_add (tc_last_recv_et c) ms\<rparr>"
  have mid: "conn_mid S N isn S' isn' (?c, h, del)" using conn_inv_mid [OF assms] by simp
  show ?thesis
  proof (cases "MAX_RETX_ATTEMPTS \<le> TCPSender_consecutive_retransmissions (tc_sender c)")
    case True
    then show ?thesis
      using conn_inv_shutdown [OF conn_inv_rst [OF mid]] by (simp add: TCPConnection_tick_def)
  next
    case False
    obtain s where s: "TCPSender_tick (tc_sender c) ms = Inr s" "snd_run_inv S N isn (s, [])"
      using tick_run_inv [OF conn_midD(1) [OF mid], of ms] by auto
    then have mid': "conn_mid S N isn S' isn' (?c\<lparr>tc_sender := s\<rparr>, h, del)" using mid by (intro conn_mid_sender)
    let ?c1 = "?c\<lparr>tc_sender := s\<rparr>"
    obtain c1 where "TCPConnection_tick c ms = Inr (TCPConnection_clear_sendbuf c1)"
      and "c1 = ?c1 \<or> c1 = TCPConnection_shutdown ?c1 True"
      using False s(1) by (auto simp: TCPConnection_tick_def Let_def)
    then show ?thesis using mid' conn_mid_shutdown [OF mid'] conn_mid_clear by blast
  qed
qed

text \<open>
  The reply changes only the sender, keeps its invariant, and puts out a segment when the received
  one occupies sequence numbers.
\<close>

lemma send_empty_queue: "snd_segments_out (TCPSender_send_empty_segment s syn fin rst) \<noteq> []"
  by (simp add: TCPSender_send_empty_segment_def Let_def)

lemma reply_spec:
  assumes "snd_run_inv S N isn (tc_sender c, [])"
  shows "\<exists>s. TCPConnection_reply c seg = c\<lparr>tc_sender := s\<rparr> \<and> snd_run_inv S N isn (s, []) \<and>
    (0 < TCPSegment_length_in_sequence_space seg \<longrightarrow> snd_segments_out s \<noteq> [])"
proof -
  let ?hd = "seg_header seg" and ?len = "TCPSegment_length_in_sequence_space seg"
  define s1 where "s1 = (if th_ack ?hd then TCPSender_ack_received (tc_sender c) (th_ackno ?hd) (th_win ?hd)
      else tc_sender c)"
  define s2 where "s2 = (if 0 < ?len \<and> snd_segments_out s1 = [] then
      if snd_segments_out (TCPSender_fill_window s1) = []
      then TCPSender_send_empty_segment (TCPSender_fill_window s1) False False False
      else TCPSender_fill_window s1 else s1)"
  have c1: "(if th_ack ?hd then c\<lparr>tc_sender := TCPSender_ack_received (tc_sender c) (th_ackno ?hd) (th_win ?hd)\<rparr>
      else c) = c\<lparr>tc_sender := s1\<rparr>" by (simp add: s1_def)
  let ?t1 = "tc_sender (c\<lparr>tc_sender := s1\<rparr>)"
  have c2: "(if 0 < ?len \<and> snd_segments_out ?t1 = [] then c\<lparr>tc_sender := s1, tc_sender :=
        if snd_segments_out (TCPSender_fill_window ?t1) = []
        then TCPSender_send_empty_segment (TCPSender_fill_window ?t1) False False False
        else TCPSender_fill_window ?t1\<rparr> else c\<lparr>tc_sender := s1\<rparr>) = c\<lparr>tc_sender := s2\<rparr>"
    by (simp add: s2_def)
  have eq: "TCPConnection_reply c seg = (case TCPReceiver_ackno (tc_receiver c) of
      Some ackno \<Rightarrow> if ?len = 0 \<and> th_seqno ?hd = wi_minus ackno 1
        then c\<lparr>tc_sender := TCPSender_send_empty_segment s2 False False False\<rparr> else c\<lparr>tc_sender := s2\<rparr>
    | None \<Rightarrow> c\<lparr>tc_sender := s2\<rparr>)"
    unfolding TCPConnection_reply_def Let_def c1 c2 by (simp split: option.split)
  have i1: "snd_run_inv S N isn (s1, [])" using assms by (simp add: s1_def ack_received_run_inv)
  then have i2: "snd_run_inv S N isn (s2, [])" by (simp add: s2_def fill_run_inv send_empty_run_inv)
  have "0 < ?len \<longrightarrow> snd_segments_out s2 \<noteq> []" by (simp add: s2_def send_empty_queue)
  then show ?thesis
    unfolding eq using i2 send_empty_run_inv [OF i2] send_empty_queue
    by (cases "TCPReceiver_ackno (tc_receiver c)") auto
qed

text \<open>A segment that the receiver accepts keeps the invariant of the connection.\<close>

lemma conn_inv_segment:
  assumes "conn_inv S N isn S' isn' (c, h, del)"
    and rcv: "th_rst (seg_header seg) \<or>
      (\<exists>r. TCPReceiver_segment_received (tc_receiver c) seg = Inr r \<and> rcv_inv S' isn' (r, del))"
  shows "\<exists>c'. TCPConnection_segment_received c seg = Inr c' \<and> conn_inv S N isn S' isn' (c', h, del)"
proof (cases "th_rst (seg_header seg)")
  case True
  have "conn_inv S N isn S' isn' (c\<lparr>tc_last_recv_et := 0\<rparr>, h, del)"
    using assms(1) by (simp add: conn_inv_def)
  then show ?thesis using True conn_inv_shutdown by (simp add: TCPConnection_segment_received_def)
next
  case False
  obtain r where r: "TCPReceiver_segment_received (tc_receiver c) seg = Inr r" "rcv_inv S' isn' (r, del)"
    using rcv False by blast
  let ?c = "c\<lparr>tc_last_recv_et := 0, tc_receiver := r\<rparr>"
  have "conn_mid S N isn S' isn' (?c, h, del)"
    using conn_inv_mid [OF assms(1)] r(2) by (simp add: conn_mid_def)
  then have "conn_mid S N isn S' isn' (TCPConnection_reply ?c seg, h, del)"
    using reply_spec [of S N isn ?c seg] conn_mid_sender conn_midD(1) by metis
  then have "conn_inv S N isn S' isn' (TCPConnection_clear_sendbuf (TCPConnection_reply ?c seg), h, del)"
    by (rule conn_mid_clear)
  then show ?thesis using False r(1) by (simp add: TCPConnection_segment_received_def conn_inv_def Let_def)
qed

section \<open>Runs\<close>

datatype conn_op =
    Connect
  | Write "byte list"
  | End_input_stream
  | Segment_received nat tcp_segment
  | Clock size_t
  | Read_inbound size_t
  | Take_segments

text \<open>The state of a run: the connection, the segments sent so far, and the bytes read so far.\<close>

fun TCPConnection_step ::
  "tcp_connection \<times> tcp_segment list \<times> byte list \<Rightarrow> conn_op \<Rightarrow>
   (tcp_connection \<times> tcp_segment list \<times> byte list) result" where
  "TCPConnection_step (c, h, del) Connect = Inr (TCPConnection_connect c, h, del)"
| "TCPConnection_step (c, h, del) (Write d) = Inr (snd (TCPConnection_write c d), h, del)"
| "TCPConnection_step (c, h, del) End_input_stream = Inr (TCPConnection_end_input_stream c, h, del)"
| "TCPConnection_step (c, h, del) (Segment_received a seg) =
     bindE (TCPConnection_segment_received c seg) (\<lambda>c'. Inr (c', h, del))"
| "TCPConnection_step (c, h, del) (Clock ms) = bindE (TCPConnection_tick c ms) (\<lambda>c'. Inr (c', h, del))"
| "TCPConnection_step (c, h, del) (Read_inbound n) =
     (case StreamReassembler_take (rcv_reassembler (tc_receiver c)) n of
        (d, q) \<Rightarrow> Inr (c\<lparr>tc_receiver := (tc_receiver c)\<lparr>rcv_reassembler := q\<rparr>\<rparr>, h, del @ d))"
| "TCPConnection_step (c, h, del) Take_segments = Inr (c\<lparr>tc_segments_out := []\<rparr>, h @ tc_segments_out c, del)"

text \<open>
  The application writes the bytes of \<open>S\<close> in order and ends the stream after \<open>N\<close> of them.  The peer's
  segments carry \<open>S'\<close> and are not further than half of the sequence space away, or are empty.
\<close>

fun conn_ok ::
  "(nat \<Rightarrow> byte) \<Rightarrow> nat \<Rightarrow> (nat \<Rightarrow> byte) \<Rightarrow> nat \<Rightarrow> wrapping_int32 \<Rightarrow>
   tcp_connection \<times> tcp_segment list \<times> byte list \<Rightarrow> conn_op \<Rightarrow> bool" where
  "conn_ok S N S' N' isn' (c, h, del) (Write d) \<longleftrightarrow>
     piece S (bs_bytes_written (snd_stream (tc_sender c))) d \<and>
     bs_bytes_written (snd_stream (tc_sender c)) + length d \<le> N"
| "conn_ok S N S' N' isn' (c, h, del) End_input_stream \<longleftrightarrow> bs_bytes_written (snd_stream (tc_sender c)) = N"
| "conn_ok S N S' N' isn' (c, h, del) (Segment_received a seg) \<longleftrightarrow>
     seg_empty seg \<or>
     N' \<le> seq_limit \<and> seg_carries S' N' isn' a seg \<and>
     seq_close (a - 1) (sr_wait_index (rcv_reassembler (tc_receiver c)))"
| "conn_ok S N S' N' isn' e _ \<longleftrightarrow> True"

lemma conn_segment_ok:
  assumes "conn_inv S N isn S' isn' (c, h, del)" "conn_ok S N S' N' isn' (c, h, del) (Segment_received a seg)"
  shows "\<exists>c'. TCPConnection_segment_received c seg = Inr c' \<and> conn_inv S N isn S' isn' (c', h, del)"
proof -
  have "rcv_inv S' isn' (tc_receiver c, del)" using assms(1) by (intro conn_midD conn_inv_mid)
  then have "\<exists>r. TCPReceiver_segment_received (tc_receiver c) seg = Inr r \<and> rcv_inv S' isn' (r, del)"
    using assms(2) empty_received segment_received_inv carries_genuine by (fastforce simp del: One_nat_def)
  then show ?thesis using conn_inv_segment [OF assms(1)] by blast
qed

interpretation conn: safe_machine TCPConnection_step "conn_ok S N S' N' isn'" "conn_inv S N isn S' isn'"
  for S N isn S' N' isn'
proof unfold_locales
  fix e l
  assume inv: "conn_inv S N isn S' isn' e" and ok: "conn_ok S N S' N' isn' e l"
  obtain c h del where e: "e = (c, h, del)" by (cases e)
  show "\<exists>e'. TCPConnection_step e l = Inr e' \<and> conn_inv S N isn S' isn' e'"
  proof (cases l)
    case (Segment_received a seg)
    then show ?thesis using conn_segment_ok [of S N isn S' isn' c h del N' a seg] inv ok e by auto
  next
    case (Clock ms)
    then show ?thesis using conn_inv_tick [of S N isn S' isn' c h del ms] inv e by auto
  next
    case (Read_inbound n)
    obtain d q where t: "StreamReassembler_take (rcv_reassembler (tc_receiver c)) n = (d, q)" by fastforce
    have "TCPReceiver_step (tc_receiver c, del) (Take_out n) = Inr ((tc_receiver c)\<lparr>rcv_reassembler := q\<rparr>, del @ d)"
      using t by simp
    then have "rcv_inv S' isn' ((tc_receiver c)\<lparr>rcv_reassembler := q\<rparr>, del @ d)"
      using rcv.step_safe [of S' isn' "(tc_receiver c, del)" "Take_out n"] inv e
      by (auto simp: conn_inv_def conn_mid_def)
    then show ?thesis using inv e t Read_inbound by (simp add: conn_inv_def conn_mid_def)
  next
    case Take_segments
    then show ?thesis using inv e by (auto simp: conn_inv_def conn_mid_def)
  qed (use inv ok e in \<open>simp_all add: conn_inv_connect conn_inv_write conn_inv_end_input\<close>)
qed

lemma conn_inv_new:
  assumes "cfg_send_capacity cfg < seq_limit" "cfg_recv_capacity cfg < seq_limit" "N + 2 \<le> seq_limit"
    and "cfg_fixed_isn cfg = Some isn"
  shows "conn_inv S N isn S' isn' (TCPConnection_new cfg random, [], [])"
  using snd_inv_new [OF assms(1,3), of S "cfg_rt_timeout cfg" "Some isn" random]
    rcv_inv_new [OF assms(2), of S' isn'] assms(4)
  by (simp add: conn_inv_def conn_mid_def TCPConnection_new_def snd_run_inv_def) (simp add: TCPSender_new_def)

end
