(* ===== verification/Connection_Pair.thy ===== *)
theory Connection_Pair
  imports Connection_Runs
begin

text \<open>
  Two connections joined by an unreliable network.

  Each endpoint is a connection with the segments it has sent and the bytes its application has read.
  The network delivers any segment ever sent by one side to the other, at any time, any number of
  times and in any order, or never; a segment of the stream is only not delivered half of the
  sequence space late.
\<close>

section \<open>The composed system\<close>

type_synonym endpoint = "tcp_connection \<times> tcp_segment list \<times> byte list"

text \<open>Only segments that the peer has sent arrive.\<close>

fun from_peer :: "endpoint \<Rightarrow> conn_op \<Rightarrow> bool" where
  "from_peer (c, h, del) (Segment_received a seg) \<longleftrightarrow> seg \<in> set h"
| "from_peer e _ \<longleftrightarrow> True"

inductive pair_step ::
  "(nat \<Rightarrow> byte) \<Rightarrow> nat \<Rightarrow> wrapping_int32 \<Rightarrow> (nat \<Rightarrow> byte) \<Rightarrow> nat \<Rightarrow> wrapping_int32 \<Rightarrow>
   endpoint \<times> endpoint \<Rightarrow> endpoint \<times> endpoint \<Rightarrow> bool" for S N isn S' N' isn' where
  left: "conn_ok S N S' N' isn' e x \<Longrightarrow> from_peer f x \<Longrightarrow> TCPConnection_step e x = Inr e' \<Longrightarrow>
    pair_step S N isn S' N' isn' (e, f) (e', f)"
| right: "conn_ok S' N' S N isn f x \<Longrightarrow> from_peer e x \<Longrightarrow> TCPConnection_step f x = Inr f' \<Longrightarrow>
    pair_step S N isn S' N' isn' (e, f) (e, f')"

inductive pair_reach ::
  "(nat \<Rightarrow> byte) \<Rightarrow> nat \<Rightarrow> wrapping_int32 \<Rightarrow> (nat \<Rightarrow> byte) \<Rightarrow> nat \<Rightarrow> wrapping_int32 \<Rightarrow>
   endpoint \<times> endpoint \<Rightarrow> endpoint \<times> endpoint \<Rightarrow> bool" for S N isn S' N' isn' p0 where
  start: "pair_reach S N isn S' N' isn' p0 p0"
| step: "pair_reach S N isn S' N' isn' p0 p \<Longrightarrow> pair_step S N isn S' N' isn' p p' \<Longrightarrow>
    pair_reach S N isn S' N' isn' p0 p'"

inductive_cases pair_stepE: "pair_step S N isn S' N' isn' (e, f) p'"

fun pair_inv ::
  "(nat \<Rightarrow> byte) \<Rightarrow> nat \<Rightarrow> wrapping_int32 \<Rightarrow> (nat \<Rightarrow> byte) \<Rightarrow> nat \<Rightarrow> wrapping_int32 \<Rightarrow> endpoint \<times> endpoint \<Rightarrow> bool" where
  "pair_inv S N isn S' N' isn' (e, f) \<longleftrightarrow> conn_inv S N isn S' isn' e \<and> conn_inv S' N' isn' S isn f"

lemma pair_inv_step:
  assumes "pair_step S N isn S' N' isn' p p'" "pair_inv S N isn S' N' isn' p"
  shows "pair_inv S N isn S' N' isn' p'"
  using assms
proof cases
  case (left e x f e')
  then show ?thesis using assms(2) conn.step_safe [of S N isn S' isn' e N' x] by auto
next
  case (right f x e f')
  then show ?thesis using assms(2) conn.step_safe [of S' N' isn' S isn f N x] by auto
qed

lemma pair_inv_reach:
  assumes "pair_reach S N isn S' N' isn' p0 p" "pair_inv S N isn S' N' isn' p0"
  shows "pair_inv S N isn S' N' isn' p"
  using assms by (induction rule: pair_reach.induct) (auto intro: pair_inv_step)

section \<open>Only the written bytes matter\<close>

lemma conn_ok_agree:
  assumes "agree N S T" "agree N' S' T'" "conn_ok S N S' N' isn' e x"
  shows "conn_ok T N T' N' isn' e x"
  using assms piece_agree
  by (cases e; cases x) (auto simp: seg_carries_def)

lemma pair_reach_agree:
  assumes "pair_reach S N isn S' N' isn' p0 p" "agree N S T" "agree N' S' T'"
  shows "pair_reach T N isn T' N' isn' p0 p"
  using assms(1)
proof induction
  case (step p p')
  from step(2) have "pair_step T N isn T' N' isn' p p'"
    by cases (auto intro: pair_step.intros conn_ok_agree [OF assms(2,3)] conn_ok_agree [OF assms(3,2)])
  then show ?case using step(3) pair_reach.step by blast
qed (rule pair_reach.start)

section \<open>What the applications see\<close>

fun conn_received :: "endpoint \<Rightarrow> byte list" where
  "conn_received (c, h, del) = del @ bs_buf (TCPConnection_inbound_stream c)"

fun conn_position :: "endpoint \<Rightarrow> nat" where
  "conn_position (c, h, del) = sr_wait_index (rcv_reassembler (tc_receiver c))"

lemma conn_inv_received: "conn_inv S N isn S' isn' e \<Longrightarrow> conn_received e = map S' [0..<conn_position e]"
  using rcv_inv_delivered by (cases e) (auto simp: conn_inv_def conn_mid_def TCPConnection_inbound_stream_def)

text \<open>What an endpoint holds would not depend on the bytes past the end of the peer's stream.\<close>

lemma position_le:
  assumes "\<And>S'. agree N' T S' \<Longrightarrow> conn_inv S N isn S' isn' e"
  shows "conn_position e \<le> N'"
proof (rule ccontr)
  let ?w = "conn_position e" and ?T = "T(N' := T N' + 1)"
  assume "\<not> ?w \<le> N'"
  have "conn_received e = map T [0..<?w]" by (rule conn_inv_received) (rule assms, simp add: agree_def)
  moreover have "conn_received e = map ?T [0..<?w]" by (rule conn_inv_received) (rule assms, simp add: agree_def)
  ultimately have "map T [0..<?w] = map ?T [0..<?w]" by (simp only:)
  from arg_cong [OF this, of "\<lambda>xs. xs ! N'"] show False using \<open>\<not> ?w \<le> N'\<close> by simp
qed

lemma received_prefix:
  assumes "\<And>S'. agree N' T S' \<Longrightarrow> conn_inv S N isn S' isn' e"
  shows "\<exists>k \<le> N'. conn_received e = take k (map T [0..<N'])"
proof -
  have "conn_inv S N isn T isn' e" by (rule assms) (simp add: agree_def)
  then show ?thesis
    using conn_inv_received position_le [OF assms] by (intro exI [of _ "conn_position e"]) (simp add: take_map)
qed

text \<open>
  C1. Two connections.  Each application writes its stream, ends it, reads and lets time pass as
  it likes, and the network loses, repeats and reorders segments in both directions.  In every
  reachable state each application has received a prefix of what the other wrote, all segments sent
  are empty or carry the sender's stream, no operation that may come next fails, and the queues
  between the connections and their senders are empty.
\<close>

theorem connections_safe:
  assumes "cfg_send_capacity cfg < seq_limit" "cfg_recv_capacity cfg < seq_limit" "N + 2 \<le> seq_limit"
    and "cfg_send_capacity cfg' < seq_limit" "cfg_recv_capacity cfg' < seq_limit" "N' + 2 \<le> seq_limit"
    and "cfg_fixed_isn cfg = Some isn" "cfg_fixed_isn cfg' = Some isn'"
    and "pair_reach S N isn S' N' isn'
      ((TCPConnection_new cfg rnd, [], []), (TCPConnection_new cfg' rnd', [], [])) (e, f)"
  shows "(\<exists>k \<le> N'. conn_received e = take k (map S' [0..<N'])) \<and>
    (\<exists>k \<le> N. conn_received f = take k (map S [0..<N])) \<and>
    (\<forall>seg \<in> set (fst (snd e)). seg_sent S N isn seg) \<and> (\<forall>seg \<in> set (fst (snd f)). seg_sent S' N' isn' seg) \<and>
    (\<forall>x. conn_ok S N S' N' isn' e x \<longrightarrow> (\<exists>e'. TCPConnection_step e x = Inr e')) \<and>
    (\<forall>x. conn_ok S' N' S N isn f x \<longrightarrow> (\<exists>f'. TCPConnection_step f x = Inr f')) \<and>
    snd_segments_out (tc_sender (fst e)) = [] \<and> snd_segments_out (tc_sender (fst f)) = []"
proof -
  let ?p0 = "((TCPConnection_new cfg rnd, [], []), (TCPConnection_new cfg' rnd', [], []))"
  have init: "pair_inv T N isn T' N' isn' ?p0" for T T'
    using assms(1-8) by (simp add: conn_inv_new)
  have inv: "conn_inv T N isn T' isn' e" "conn_inv T' N' isn' T isn f" if "agree N S T" "agree N' S' T'" for T T'
    using pair_inv_reach [OF pair_reach_agree [OF assms(9) that] init] by simp_all
  have refl: "agree N S S" "agree N' S' S'" by (simp_all add: agree_def)
  note i = inv [OF refl]
  have "\<exists>k \<le> N'. conn_received e = take k (map S' [0..<N'])"
    by (rule received_prefix) (rule inv(1) [OF refl(1)])
  moreover have "\<exists>k \<le> N. conn_received f = take k (map S [0..<N])"
    by (rule received_prefix) (rule inv(2) [OF _ refl(2)])
  moreover have "\<forall>seg \<in> set (fst (snd e)). seg_sent S N isn seg" "\<forall>seg \<in> set (fst (snd f)). seg_sent S' N' isn' seg"
    using i by (auto simp: conn_inv_def conn_mid_def split: prod.splits)
  moreover have "snd_segments_out (tc_sender (fst e)) = []" "snd_segments_out (tc_sender (fst f)) = []"
    using i by (simp_all add: conn_inv_def)
  ultimately show ?thesis using conn.step_safe [OF i(1)] conn.step_safe [OF i(2)] by blast
qed

end
