(* ===== verification/Connection_States.thy ===== *)
theory Connection_States
  imports Tcp_State Connection_Pair
begin

text \<open>
  The life of a connection: how segments are answered, how it opens, how it ends, and the official
  state names it goes through.
\<close>

definition TCPConnection_state :: "tcp_connection \<Rightarrow> tcp_state" where
  "TCPConnection_state c =
     TCPState_new (tc_sender c) (tc_receiver c) (tc_active c) (tc_linger_after_streams_finish c)"

section \<open>Answers\<close>

text \<open>The acknowledgement and window of a receiver are on a segment.\<close>

definition stamped :: "tcp_receiver \<Rightarrow> tcp_segment \<Rightarrow> bool" where
  "stamped r seg \<longleftrightarrow>
     th_win (seg_header seg) = of_nat (min (TCPReceiver_window_size r) 65535) \<and>
     (\<forall>ackno. TCPReceiver_ackno r = Some ackno \<longrightarrow> th_ack (seg_header seg) \<and> th_ackno (seg_header seg) = ackno)"

lemma stamp_stamped: "stamped r (stamp_segment r seg)"
  by (cases "TCPReceiver_ackno r") (auto simp: stamped_def stamp_segment_def min_def Let_def)

text \<open>
  How a segment is answered.  When a segment of the peer arrives that is no reset, the
  connection does not fail, stays as active as it was, and puts out a segment whenever the received
  one occupies sequence numbers; everything it puts out carries the acknowledgement number and the
  window (at most 65535) of its receiver.  It will not linger at the end once the peer's stream has
  ended before its own.  The code makes no exception for data that arrives before a SYN: in LISTEN and
  in SYN\_SENT such a segment is answered too, with the connection's own SYN or with an empty segment, where
  \<open>tests/fsm_listen.cc\<close> and \<open>tests/fsm_ack_rst.cc\<close> expect silence.
\<close>

lemma segment_answered:
  assumes "conn_inv S N isn S' isn' (c, h, del)" "conn_ok S N S' N' isn' (c, h, del) (Segment_received a seg)"
    and "\<not> th_rst (seg_header seg)"
  shows "\<exists>c' new. TCPConnection_segment_received c seg = Inr c' \<and>
    tc_segments_out c' = tc_segments_out c @ new \<and>
    (TCPSegment_length_in_sequence_space seg = 0 \<or> new \<noteq> []) \<and>
    (\<forall>out \<in> set new. stamped (tc_receiver c') out) \<and>
    tc_last_recv_et c' = 0 \<and> tc_active c' = tc_active c \<and>
    tc_linger_after_streams_finish c' =
      (tc_linger_after_streams_finish c \<and>
       \<not> (bs_input_ended (TCPConnection_inbound_stream c') \<and> \<not> bs_input_ended (snd_stream (tc_sender c'))))"
proof -
  obtain c' where c': "TCPConnection_segment_received c seg = Inr c'"
    using conn_segment_ok [OF assms(1,2)] by blast
  then obtain r where r: "TCPReceiver_segment_received (tc_receiver c) seg = Inr r"
    using assms(3) by (auto simp: TCPConnection_segment_received_def Let_def)
  let ?c = "c\<lparr>tc_last_recv_et := 0, tc_receiver := r\<rparr>"
  have "snd_run_inv S N isn (tc_sender ?c, [])" using assms(1) by (simp add: conn_inv_def conn_mid_def)
  from reply_spec [OF this, of seg] obtain s where s: "TCPConnection_reply ?c seg = ?c\<lparr>tc_sender := s\<rparr>"
    "TCPSegment_length_in_sequence_space seg = 0 \<or> snd_segments_out s \<noteq> []" by auto
  let ?c' = "TCPConnection_clear_sendbuf (?c\<lparr>tc_sender := s\<rparr>)"
  have "TCPConnection_segment_received c seg =
      Inr (if bs_input_ended (TCPReceiver_stream_out r) \<and> \<not> bs_input_ended (snd_stream s)
           then ?c'\<lparr>tc_linger_after_streams_finish := False\<rparr> else ?c')"
    using r s(1) assms(3) by (simp add: TCPConnection_segment_received_def clear_sendbuf_eq Let_def)
  then show ?thesis
    using s(2) stamp_stamped by (auto simp: clear_sendbuf_eq TCPConnection_inbound_stream_def)
qed

section \<open>Ends\<close>

lemma shutdown_simps [simp]:
  "\<not> tc_active (TCPConnection_shutdown c clean)"
  "TCPConnection_shutdown c True = c\<lparr>tc_active := False\<rparr>"
  by (simp_all add: TCPConnection_shutdown_def Let_def)

lemma shutdown_reset: "TCPConnection_state (TCPConnection_shutdown c False) = TCPState_of_state RESET"
  by (simp add: TCPConnection_state_def TCPState_new_def TCPConnection_shutdown_def TCPState_default_def
      state_summary_sender_def state_summary_receiver_def TCPReceiver_stream_out_def ByteStream_set_error_def Let_def)

text \<open>Does a tick of \<open>ms\<close> milliseconds end the connection cleanly?\<close>

definition conn_done :: "tcp_connection \<Rightarrow> size_t \<Rightarrow> bool" where
  "conn_done c ms \<longleftrightarrow> TCPConnection_should_shutdown c \<and>
     (tc_linger_after_streams_finish c \<longrightarrow>
      10 * unat (cfg_rt_timeout (tc_cfg c)) \<le> sz_add (tc_last_recv_et c) ms)"

lemma sender_finished:
  assumes "snd_inv S N s" "bs_input_ended (snd_stream s)" "TCPSender_bytes_in_flight s = 0"
    and "snd_next_seqno s = sz_add (bs_bytes_written (snd_stream s)) 2" "\<not> bs_error (snd_stream s)"
  shows "state_summary_sender s = SND_FIN_ACKED"
proof -
  have core: "snd_core S N s" using assms(1) by (simp add: snd_inv_def)
  then have w: "bs_bytes_written (snd_stream s) = N" "N + 2 \<le> seq_limit"
    using assms(2) by (auto simp: snd_core_def Let_def)
  then have "snd_next_seqno s = N + 2" using assms(4) by (simp add: sz_add_small)
  with finished_next [OF core this] show ?thesis
    using assms w by (simp add: state_summary_sender_def ByteStream_eof_def ByteStream_buffer_empty_def sz_add_small)
qed

text \<open>
  C20. How a connection ends.  On every connection that a run can lead to, \<open>tick\<close> does not fail.  After
  eight consecutive retransmissions, in whatever state the connection is, an unanswered SYN included, it puts
  out a reset and the state becomes RESET.  Otherwise it leaves the error flags of both streams alone and
  makes the connection inactive exactly when both streams have ended and are fully acknowledged, and either
  there is no need to linger or ten times the retransmission timeout has passed since the last segment.  If the
  connection was active, had received the SYN and had no error, and both streams are finished, the state is then
  CLOSED, or TIME\_WAIT while it still lingers.
\<close>

theorem tick_lifecycle:
  assumes "conn_inv S N isn S' isn' (c, h, del)"
  shows "\<exists>c'. TCPConnection_tick c ms = Inr c' \<and>
    (if MAX_RETX_ATTEMPTS \<le> TCPSender_consecutive_retransmissions (tc_sender c)
     then TCPConnection_state c' = TCPState_of_state RESET \<and>
       (\<exists>seg. tc_segments_out c' = tc_segments_out c @ [seg] \<and> th_rst (seg_header seg))
     else tc_active c' = (tc_active c \<and> \<not> conn_done c ms) \<and>
       bs_error (snd_stream (tc_sender c')) = bs_error (snd_stream (tc_sender c)) \<and>
       bs_error (TCPConnection_inbound_stream c') = bs_error (TCPConnection_inbound_stream c) \<and>
       (if tc_active c \<and> rcv_syn_set (tc_receiver c) \<and> \<not> bs_error (snd_stream (tc_sender c)) \<and>
           \<not> bs_error (TCPConnection_inbound_stream c) \<and> TCPConnection_should_shutdown c
        then TCPConnection_state c' = TCPState_of_state (if conn_done c ms then CLOSED else TIME_WAIT)
        else True))"
proof (cases "MAX_RETX_ATTEMPTS \<le> TCPSender_consecutive_retransmissions (tc_sender c)")
  case True
  have "snd_segments_out (tc_sender c) = []" using assms by (simp add: conn_inv_def)
  then show ?thesis
    using True shutdown_reset
    by (simp add: TCPConnection_tick_def TCPConnection_send_rst_segment_def clear_sendbuf_eq Let_def)
      (simp add: TCPConnection_shutdown_def TCPSender_send_empty_segment_def stamp_segment_def Let_def split: option.split)
next
  case False
  let ?et = "sz_add (tc_last_recv_et c) ms"
  have inv: "snd_inv S N (tc_sender c)" using assms by (simp add: conn_inv_def conn_mid_def snd_run_inv_def)
  obtain s where s: "TCPSender_tick (tc_sender c) ms = Inr s" "snd_inv S N s"
    "snd_retrans_buf s = snd_retrans_buf (tc_sender c)" "snd_next_seqno s = snd_next_seqno (tc_sender c)"
    "snd_keeps (tc_sender c) s"
    using tick_ok [OF inv, of ms] by auto
  let ?c = "c\<lparr>tc_last_recv_et := ?et, tc_sender := s\<rparr>"
  have same: "TCPConnection_should_shutdown ?c = TCPConnection_should_shutdown c"
    using s by (simp add: TCPConnection_should_shutdown_def TCPSender_bytes_in_flight_def snd_keeps_def)
  have tick: "TCPConnection_tick c ms =
      Inr (TCPConnection_clear_sendbuf (if conn_done c ms then ?c\<lparr>tc_active := False\<rparr> else ?c))"
    using False s(1) same by (simp add: TCPConnection_tick_def conn_done_def Let_def)
  have err: "bs_error (snd_stream s) = bs_error (snd_stream (tc_sender c))" using s(5) by (simp add: snd_keeps_def)
  have state: "TCPConnection_state (TCPConnection_clear_sendbuf (if conn_done c ms then ?c\<lparr>tc_active := False\<rparr> else ?c)) =
      TCPState_of_state (if conn_done c ms then CLOSED else TIME_WAIT)"
    if a: "tc_active c" "rcv_syn_set (tc_receiver c)" "\<not> bs_error (snd_stream (tc_sender c))"
      "\<not> bs_error (TCPConnection_inbound_stream c)" "TCPConnection_should_shutdown c"
  proof -
    have "TCPConnection_should_shutdown ?c" using a(5) by (simp add: same)
    then have fin: "state_summary_sender s = SND_FIN_ACKED" "state_summary_receiver (tc_receiver c) = RCV_FIN_RECV"
      using sender_finished [OF s(2)] err a(2-4)
      by (simp_all add: TCPConnection_should_shutdown_def state_summary_receiver_def TCPReceiver_ackno_def
          TCPConnection_inbound_stream_def Let_def)
    have "state_summary_sender (s\<lparr>snd_segments_out := []\<rparr>) = state_summary_sender s"
      by (simp add: state_summary_sender_def TCPSender_bytes_in_flight_def)
    then show ?thesis
      using fin a(1,5)
      by (auto simp: clear_sendbuf_eq TCPConnection_state_def TCPState_new_def TCPState_default_def conn_done_def)
  qed
  show ?thesis
    using tick False err state by (auto simp: clear_sendbuf_eq TCPConnection_inbound_stream_def)
qed

end
