(* ===== verification/Handshake.thy ===== *)
theory Handshake
  imports Connection_States
begin

text \<open>
  The three-way handshake, for all configurations: the segments the two sides exchange, the states
  they go through, and the example runs of connections built from it.
\<close>

section \<open>The sender\<close>

definition syn_segment :: "wrapping_int32 \<Rightarrow> tcp_segment" where
  "syn_segment isn =
     \<lparr>seg_header = TCPHeader_default\<lparr>th_syn := True, th_seqno := isn\<rparr>, seg_payload = Buffer_new []\<rparr>"

definition syn_sender :: "tcp_sender \<Rightarrow> tcp_sender" where
  "syn_sender s =
     s\<lparr>snd_segments_out := snd_segments_out s @ [syn_segment (snd_isn s)], snd_retrans_buf := [syn_segment (snd_isn s)],
       snd_next_seqno := 1, snd_syn_sent := True, snd_timer := Timer_start (snd_timer s) (snd_retrans_timeout s)\<rparr>"

lemma fill_new:
  "TCPSender_fill_window (TCPSender_new cap rto fixed rnd) = syn_sender (TCPSender_new cap rto fixed rnd)"
  unfolding TCPSender_fill_window_def syn_sender_def
  by (simp add: TCPSender_new_def TCPSender_bytes_in_flight_def fill_loop.simps fill_segment_def syn_segment_def
      fill_enqueue_def TCPSegment_length_in_sequence_space_def TCPHeader_default_def Timer_new_def
      Timer_start_def ByteStream_new_def ByteStream_read_def ByteStream_eof_def
      sz_add_def sz_sub_def Let_def)

text \<open>With nothing to send, \<open>fill_window\<close> changes nothing.\<close>

lemma read_nothing:
  assumes "bs_buf st = []" "bs_bytes_read st < size_mod"
  shows "ByteStream_read st n = ([], st)"
  using assms by (simp add: ByteStream_read_def ByteStream_peek_output_def ByteStream_pop_output_def sz_add_small Let_def)

lemma fill_idle:
  assumes "bs_buf (snd_stream s) = []" "bs_bytes_read (snd_stream s) < size_mod"
    and "\<not> bs_input_ended (snd_stream s)" "snd_syn_sent s"
  shows "TCPSender_fill_window s = s"
proof -
  have "fill_loop s n = s" for n
    using assms
    by (subst fill_loop.simps)
      (simp add: fill_segment_def read_nothing ByteStream_eof_def TCPSegment_length_in_sequence_space_def
        TCPHeader_default_def Let_def)
  then show ?thesis by (simp add: TCPSender_fill_window_def Let_def)
qed

text \<open>The sender once its SYN has been acknowledged.\<close>

definition open_sender :: "tcp_sender \<Rightarrow> u16 \<Rightarrow> tcp_sender" where
  "open_sender s win =
     (syn_sender s)\<lparr>snd_segments_out := [], snd_window_size := win, snd_retrans_buf := [],
       snd_timer := Timer_reset (snd_timer s)\<rparr>"

lemma ack_syn:
  fixes cap rto fixed rnd
  defines "s \<equiv> TCPSender_new cap rto fixed rnd"
  shows "TCPSender_ack_received ((syn_sender s)\<lparr>snd_segments_out := []\<rparr>) (wrap 1 (snd_isn s)) win = open_sender s win"
proof -
  have "unwrap (wrap 1 (snd_isn s)) (snd_isn s) 1 = 1" "unwrap (wrap 0 (snd_isn s)) (snd_isn s) 1 = 0"
    by (rule seqno.unwr_wr, simp add: seq_close_def)+
  then show ?thesis
    unfolding TCPSender_ack_received_def Let_def
    by (simp add: syn_sender_def syn_segment_def TCPHeader_default_def TCPSegment_length_in_sequence_space_def
        sz_add_def fill_idle open_sender_def)
      (simp add: s_def TCPSender_new_def Timer_reset_def Timer_start_def Timer_new_def ByteStream_new_def fill_idle Let_def)
qed

section \<open>The connection\<close>

definition syn_receiver :: "size_t \<Rightarrow> wrapping_int32 \<Rightarrow> tcp_receiver" where
  "syn_receiver cap isn = (TCPReceiver_new cap)\<lparr>rcv_syn_set := True, rcv_init_seqno := isn\<rparr>"

lemma syn_received:
  assumes "th_syn (seg_header seg)" "\<not> th_fin (seg_header seg)" "Buffer_str (seg_payload seg) = []"
  shows "TCPReceiver_segment_received (TCPReceiver_new cap) seg = Inr (syn_receiver cap (th_seqno (seg_header seg)))"
  using assms
  by (simp add: TCPReceiver_segment_received_def syn_receiver_def TCPReceiver_new_def TCPReceiver_check_fin_def Buffer_copy_def)

lemma nothing_received:
  assumes "\<not> th_fin (seg_header seg)" "Buffer_str (seg_payload seg) = []"
  shows "TCPReceiver_segment_received (syn_receiver cap isn) seg = Inr (syn_receiver cap isn)"
  using assms
  by (simp add: TCPReceiver_segment_received_def syn_receiver_def TCPReceiver_new_def TCPReceiver_check_fin_def Buffer_copy_def)

lemma syn_receiver_simps [simp]:
  "TCPReceiver_ackno (TCPReceiver_new cap) = None"
  "TCPReceiver_ackno (syn_receiver cap isn) = Some (wrap 1 isn)"
  "\<not> bs_input_ended (TCPReceiver_stream_out (syn_receiver cap isn))"
  "state_summary_receiver (TCPReceiver_new cap) = RCV_LISTEN"
  "state_summary_receiver (syn_receiver cap isn) = RCV_SYN_RECV"
  by (simp_all add: syn_receiver_def TCPReceiver_ackno_def TCPReceiver_new_def StreamReassembler_new_def
      TCPReceiver_stream_out_def ByteStream_new_def state_summary_receiver_def sz_add_def)

abbreviation conn_isn :: "tcp_connection \<Rightarrow> wrapping_int32" where
  "conn_isn c \<equiv> snd_isn (tc_sender c)"

text \<open>The two sides after their SYN is out, and once it is acknowledged.\<close>

definition conn_syn :: "tcp_connection \<Rightarrow> tcp_receiver \<Rightarrow> tcp_connection" where
  "conn_syn c r = c\<lparr>tc_receiver := r, tc_sender := (syn_sender (tc_sender c))\<lparr>snd_segments_out := []\<rparr>\<rparr>"

definition conn_open :: "tcp_connection \<Rightarrow> tcp_receiver \<Rightarrow> u16 \<Rightarrow> tcp_connection" where
  "conn_open c r win = c\<lparr>tc_receiver := r, tc_sender := open_sender (tc_sender c) win\<rparr>"

lemma connect_new:
  assumes "c = TCPConnection_new cfg rnd"
  shows "TCPConnection_connect c =
    (conn_syn c (tc_receiver c))\<lparr>tc_segments_out := [stamp_segment (tc_receiver c) (syn_segment (conn_isn c))]\<rparr>"
  by (simp add: assms TCPConnection_connect_def clear_sendbuf_eq TCPConnection_new_def fill_new conn_syn_def)
    (simp add: syn_sender_def TCPSender_new_def)

lemma segment_received_open:
  assumes "\<not> th_rst (seg_header seg)" "TCPReceiver_segment_received (tc_receiver c) seg = Inr r"
    and "TCPConnection_reply (c\<lparr>tc_last_recv_et := 0, tc_receiver := r\<rparr>) seg = c'"
    and "\<not> bs_input_ended (TCPReceiver_stream_out (tc_receiver c'))"
  shows "TCPConnection_segment_received c seg = Inr (TCPConnection_clear_sendbuf c')"
  using assms by (simp add: TCPConnection_segment_received_def clear_sendbuf_eq)

lemma new_receives_syn:
  assumes "c = TCPConnection_new cfg rnd" and seg: "th_syn (seg_header seg)" "\<not> th_ack (seg_header seg)"
    "\<not> th_fin (seg_header seg)" "\<not> th_rst (seg_header seg)" "Buffer_str (seg_payload seg) = []"
    and r: "r = syn_receiver (cfg_recv_capacity cfg) (th_seqno (seg_header seg))"
  shows "TCPConnection_segment_received c seg =
    Inr ((conn_syn c r)\<lparr>tc_last_recv_et := 0, tc_segments_out := [stamp_segment r (syn_segment (conn_isn c))]\<rparr>)"
proof -
  have queue: "snd_segments_out (syn_sender (tc_sender c)) = [syn_segment (conn_isn c)]"
    by (simp add: assms(1) TCPConnection_new_def syn_sender_def TCPSender_new_def)
  have fill: "TCPSender_fill_window (tc_sender c) = syn_sender (tc_sender c)"
    by (simp add: assms(1) TCPConnection_new_def fill_new)
  have c: "tc_receiver c = TCPReceiver_new (cfg_recv_capacity cfg)" "snd_segments_out (tc_sender c) = []"
    "tc_segments_out c = []"
    by (simp_all add: assms(1) TCPConnection_new_def TCPSender_new_def)
  have rcv: "TCPReceiver_segment_received (tc_receiver c) seg = Inr r"
    unfolding c r by (rule syn_received [OF seg(1,3,5)])
  have "0 < TCPSegment_length_in_sequence_space seg" using seg by (simp add: TCPSegment_length_in_sequence_space_def)
  then have "TCPConnection_reply (c\<lparr>tc_last_recv_et := 0, tc_receiver := r\<rparr>) seg =
      c\<lparr>tc_last_recv_et := 0, tc_receiver := r, tc_sender := syn_sender (tc_sender c)\<rparr>"
    using seg c(2) queue fill by (simp add: TCPConnection_reply_def r)
  from segment_received_open [OF seg(4) rcv this] show ?thesis
    using c(3) queue by (simp add: clear_sendbuf_eq conn_syn_def r)
qed

lemma syn_receives_syn_ack:
  assumes "c = TCPConnection_new cfg rnd" and seg: "th_syn (seg_header seg)" "th_ack (seg_header seg)"
    "\<not> th_fin (seg_header seg)" "\<not> th_rst (seg_header seg)" "Buffer_str (seg_payload seg) = []"
    "th_ackno (seg_header seg) = wrap 1 (conn_isn c)"
    and r: "r = syn_receiver (cfg_recv_capacity cfg) (th_seqno (seg_header seg))"
  shows "\<exists>out. TCPConnection_segment_received (conn_syn c (tc_receiver c)) seg =
      Inr ((conn_open c r (th_win (seg_header seg)))\<lparr>tc_last_recv_et := 0, tc_segments_out := [stamp_segment r out]\<rparr>) \<and>
    seg_header out = TCPHeader_default\<lparr>th_seqno := wrap 1 (conn_isn c)\<rparr> \<and> Buffer_str (seg_payload out) = []"
proof -
  let ?s = "tc_sender c" and ?c = "conn_syn c (tc_receiver c)" and ?win = "th_win (seg_header seg)"
  let ?out = "\<lparr>seg_header = TCPHeader_default\<lparr>th_seqno := wrap 1 (conn_isn c)\<rparr>, seg_payload = Buffer_empty\<rparr>"
  have s: "?s = TCPSender_new (cfg_send_capacity cfg) (cfg_rt_timeout cfg) (cfg_fixed_isn cfg) rnd"
    by (simp add: assms(1) TCPConnection_new_def)
  have c: "tc_receiver c = TCPReceiver_new (cfg_recv_capacity cfg)" "tc_segments_out c = []"
    by (simp_all add: assms(1) TCPConnection_new_def)
  have rcv: "TCPReceiver_segment_received (tc_receiver ?c) seg = Inr r"
    using syn_received [OF seg(1,3,5)] c(1) by (simp add: conn_syn_def r)
  have ack: "TCPSender_ack_received ((syn_sender ?s)\<lparr>snd_segments_out := []\<rparr>) (wrap 1 (conn_isn c)) ?win = open_sender ?s ?win"
    unfolding s by (rule ack_syn)
  have idle: "TCPSender_fill_window (open_sender ?s ?win) = open_sender ?s ?win"
    by (rule fill_idle) (simp_all add: s open_sender_def syn_sender_def TCPSender_new_def ByteStream_new_def)
  have queue: "snd_segments_out (open_sender ?s ?win) = []" by (simp add: open_sender_def)
  have send: "TCPSender_send_empty_segment (open_sender ?s ?win) False False False =
      (open_sender ?s ?win)\<lparr>snd_segments_out := [?out]\<rparr>"
    by (simp add: TCPSender_send_empty_segment_def open_sender_def syn_sender_def TCPHeader_default_def
        TCPSegment_length_in_sequence_space_def sz_add_def Let_def)
  have "0 < TCPSegment_length_in_sequence_space seg" using seg by (simp add: TCPSegment_length_in_sequence_space_def)
  then have "TCPConnection_reply (?c\<lparr>tc_last_recv_et := 0, tc_receiver := r\<rparr>) seg =
      c\<lparr>tc_last_recv_et := 0, tc_receiver := r, tc_sender := (open_sender ?s ?win)\<lparr>snd_segments_out := [?out]\<rparr>\<rparr>"
    using seg ack idle queue send by (simp add: TCPConnection_reply_def conn_syn_def r Let_def)
  from segment_received_open [OF seg(4) rcv this] show ?thesis
    using c(2) by (intro exI [of _ ?out]) (simp add: clear_sendbuf_eq conn_open_def r open_sender_def)
qed

lemma syn_receives_ack:
  assumes "c = TCPConnection_new cfg rnd" and seg: "\<not> th_syn (seg_header seg)" "th_ack (seg_header seg)"
    "\<not> th_fin (seg_header seg)" "\<not> th_rst (seg_header seg)" "Buffer_str (seg_payload seg) = []"
    "th_ackno (seg_header seg) = wrap 1 (conn_isn c)" "th_seqno (seg_header seg) = wrap 1 isn"
    and r: "r = syn_receiver (cfg_recv_capacity cfg) isn"
  shows "TCPConnection_segment_received (conn_syn c r) seg =
      Inr ((conn_open c r (th_win (seg_header seg)))\<lparr>tc_last_recv_et := 0\<rparr>)"
proof -
  let ?s = "tc_sender c" and ?c = "conn_syn c r" and ?win = "th_win (seg_header seg)"
  have s: "?s = TCPSender_new (cfg_send_capacity cfg) (cfg_rt_timeout cfg) (cfg_fixed_isn cfg) rnd"
    by (simp add: assms(1) TCPConnection_new_def)
  have rcv: "TCPReceiver_segment_received (tc_receiver ?c) seg = Inr r"
    using nothing_received [OF seg(3,5)] by (simp add: conn_syn_def r)
  have ack: "TCPSender_ack_received ((syn_sender ?s)\<lparr>snd_segments_out := []\<rparr>) (wrap 1 (conn_isn c)) ?win = open_sender ?s ?win"
    unfolding s by (rule ack_syn)
  have queue: "snd_segments_out (open_sender ?s ?win) = []" by (simp add: open_sender_def)
  have "wrap 1 isn \<noteq> wi_minus (wrap 1 isn) 1" by (simp add: wi_minus_wrap wrap_eq_iff)
  then have "TCPConnection_reply (?c\<lparr>tc_last_recv_et := 0, tc_receiver := r\<rparr>) seg =
      c\<lparr>tc_last_recv_et := 0, tc_receiver := r, tc_sender := open_sender ?s ?win\<rparr>"
    using seg ack queue by (simp add: TCPConnection_reply_def conn_syn_def r TCPSegment_length_in_sequence_space_def)
  from segment_received_open [OF seg(4) rcv this] show ?thesis
    by (simp add: clear_sendbuf_eq conn_open_def r open_sender_def)
qed

section \<open>The handshake\<close>

lemma stamp_ack:
  "th_ack (seg_header (stamp_segment (TCPReceiver_new cap) seg)) = th_ack (seg_header seg)"
  "th_ack (seg_header (stamp_segment (syn_receiver cap isn) seg))"
  "th_ackno (seg_header (stamp_segment (syn_receiver cap isn) seg)) = wrap 1 isn"
  by (simp_all add: stamp_segment_def Let_def)

lemma handshake_states:
  assumes "c = TCPConnection_new cfg rnd"
  shows "TCPConnection_state ((conn_syn c (tc_receiver c))\<lparr>tc_segments_out := q\<rparr>) = TCPState_of_state SYN_SENT"
    and "TCPConnection_state ((conn_syn c (syn_receiver cap isn))\<lparr>tc_last_recv_et := t, tc_segments_out := q\<rparr>) =
      TCPState_of_state SYN_RCVD"
    and "TCPConnection_state ((conn_open c (syn_receiver cap isn) win)\<lparr>tc_last_recv_et := t, tc_segments_out := q\<rparr>) =
      TCPState_of_state ESTABLISHED"
  by (simp_all add: assms TCPConnection_state_def TCPState_new_def TCPState_default_def conn_syn_def conn_open_def
      TCPConnection_new_def)
    (simp_all add: state_summary_sender_def syn_sender_def open_sender_def syn_segment_def TCPSender_new_def ByteStream_new_def
      TCPSender_bytes_in_flight_def TCPSegment_length_in_sequence_space_def TCPHeader_default_def sz_add_def ByteStream_eof_def)

text \<open>
  One side connects, the other listens, and each segment is delivered: the connecting side after its
  SYN, the listening side after it, both sides at the end.
\<close>

definition handshake ::
  "tcp_connection \<Rightarrow> tcp_connection \<Rightarrow> (tcp_connection \<times> tcp_connection \<times> tcp_connection \<times> tcp_connection) result" where
  "handshake a b =
     (let a1 = TCPConnection_connect a
      in bindE (TCPConnection_segment_received b (hd (tc_segments_out a1))) (\<lambda>b1.
         bindE (TCPConnection_segment_received (a1\<lparr>tc_segments_out := []\<rparr>) (hd (tc_segments_out b1))) (\<lambda>a2.
         bindE (TCPConnection_segment_received (b1\<lparr>tc_segments_out := []\<rparr>) (hd (tc_segments_out a2))) (\<lambda>b2.
         Inr (a1, b1, a2, b2)))))"

text \<open>
  C18. The three-way handshake.  For all configurations and initial sequence numbers, a connecting
  and a listening side go through the states SYN\_SENT and SYN\_RCVD and are both ESTABLISHED after
  three segments: SYN, SYN with ACK, and ACK.  Nothing is left to be sent or acknowledged, and each
  side knows the window of the other.
\<close>

theorem handshake_established:
  "\<exists>a1 b1 a2 b2. handshake (TCPConnection_new cfg rnd) (TCPConnection_new cfg' rnd') = Inr (a1, b1, a2, b2) \<and>
    TCPConnection_state a1 = TCPState_of_state SYN_SENT \<and> TCPConnection_state b1 = TCPState_of_state SYN_RCVD \<and>
    TCPConnection_state a2 = TCPState_of_state ESTABLISHED \<and> TCPConnection_state b2 = TCPState_of_state ESTABLISHED \<and>
    length (tc_segments_out a1) = 1 \<and> length (tc_segments_out b1) = 1 \<and> length (tc_segments_out a2) = 1 \<and>
    tc_segments_out b2 = [] \<and> TCPConnection_bytes_in_flight a2 = 0 \<and> TCPConnection_bytes_in_flight b2 = 0 \<and>
    snd_window_size (tc_sender a2) = of_nat (min (TCPReceiver_window_size (tc_receiver b2)) 65535) \<and>
    snd_window_size (tc_sender b2) = of_nat (min (TCPReceiver_window_size (tc_receiver a2)) 65535)"
proof -
  define a where "a = TCPConnection_new cfg rnd"
  define b where "b = TCPConnection_new cfg' rnd'"
  let ?ra = "syn_receiver (cfg_recv_capacity cfg) (conn_isn b)" and ?rb = "syn_receiver (cfg_recv_capacity cfg') (conn_isn a)"
  let ?syn = "stamp_segment (tc_receiver a) (syn_segment (conn_isn a))"
  let ?synack = "stamp_segment ?rb (syn_segment (conn_isn b))"
  have rcv: "tc_receiver a = TCPReceiver_new (cfg_recv_capacity cfg)" "tc_segments_out a = []" "tc_segments_out b = []"
    by (simp_all add: a_def b_def TCPConnection_new_def)
  note seg = syn_segment_def TCPHeader_default_def stamp_ack rcv
  let ?a1 = "(conn_syn a (tc_receiver a))\<lparr>tc_segments_out := [?syn]\<rparr>"
  have a1: "TCPConnection_connect a = ?a1" by (rule connect_new [OF a_def])
  let ?b1 = "(conn_syn b ?rb)\<lparr>tc_last_recv_et := 0, tc_segments_out := [?synack]\<rparr>"
  have b1: "TCPConnection_segment_received b ?syn = Inr ?b1"
    by (rule new_receives_syn [OF b_def]) (simp_all add: seg)
  obtain out where out: "TCPConnection_segment_received (conn_syn a (tc_receiver a)) ?synack =
      Inr ((conn_open a ?ra (th_win (seg_header ?synack)))\<lparr>tc_last_recv_et := 0, tc_segments_out := [stamp_segment ?ra out]\<rparr>)"
    "seg_header out = TCPHeader_default\<lparr>th_seqno := wrap 1 (conn_isn a)\<rparr>" "Buffer_str (seg_payload out) = []"
    using syn_receives_syn_ack [OF a_def, of ?synack ?ra] by (auto simp: seg)
  let ?ack = "stamp_segment ?ra out"
  let ?a2 = "(conn_open a ?ra (th_win (seg_header ?synack)))\<lparr>tc_last_recv_et := 0, tc_segments_out := [?ack]\<rparr>"
  let ?b2 = "(conn_open b ?rb (th_win (seg_header ?ack)))\<lparr>tc_last_recv_et := 0, tc_segments_out := []\<rparr>"
  have clr: "(conn_syn a (tc_receiver a))\<lparr>tc_segments_out := []\<rparr> = conn_syn a (tc_receiver a)"
    "(conn_syn b ?rb)\<lparr>tc_last_recv_et := 0, tc_segments_out := []\<rparr> = conn_syn b ?rb"
    "(conn_open b ?rb w)\<lparr>tc_last_recv_et := 0\<rparr> = (conn_open b ?rb w)\<lparr>tc_last_recv_et := 0, tc_segments_out := []\<rparr>" for w
    by (simp_all add: conn_syn_def conn_open_def a_def b_def TCPConnection_new_def)
  have b2: "TCPConnection_segment_received (conn_syn b ?rb) ?ack = Inr ?b2"
    unfolding clr(3) [symmetric]
    by (rule syn_receives_ack [OF b_def]) (simp_all add: out(2,3) seg)
  have "handshake a b = Inr (?a1, ?b1, ?a2, ?b2)"
    using a1 b1 out(1) b2 clr by (simp add: handshake_def)
  moreover have "th_win (seg_header (stamp_segment r s)) = of_nat (min (TCPReceiver_window_size r) 65535)" for r s
    using stamp_stamped [of r s] by (simp add: stamped_def)
  ultimately show ?thesis
    using handshake_states [OF a_def] handshake_states [OF b_def] rcv
    unfolding a_def [symmetric] b_def [symmetric]
    by (simp add: TCPConnection_bytes_in_flight_def TCPSender_bytes_in_flight_def)
      (simp add: conn_open_def open_sender_def)
qed

section \<open>Examples\<close>

text \<open>A connecting side with two bytes to write and a listening one, after the SYN has arrived.\<close>

definition cfg_a :: tcp_config where
  "cfg_a = TCPConfig_default\<lparr>cfg_fixed_isn := Some (WrappingInt32 5)\<rparr>"

definition cfg_b :: tcp_config where
  "cfg_b = TCPConfig_default\<lparr>cfg_fixed_isn := Some (WrappingInt32 7)\<rparr>"

abbreviation new_a :: tcp_connection where
  "new_a \<equiv> TCPConnection_new cfg_a 0"

abbreviation new_b :: tcp_connection where
  "new_b \<equiv> TCPConnection_new cfg_b 0"


definition syn_a :: tcp_segment where
  "syn_a = stamp_segment (tc_receiver new_a) (syn_segment (WrappingInt32 5))"

definition conn_a :: tcp_connection where
  "conn_a = conn_syn new_a (tc_receiver new_a)"

definition conn_b :: tcp_connection where
  "conn_b = (let r = syn_receiver 64000 (WrappingInt32 5)
     in (conn_syn new_b r)\<lparr>tc_segments_out := [stamp_segment r (syn_segment (WrappingInt32 7))]\<rparr>)"

lemma example_isn: "conn_isn new_a = WrappingInt32 5" "conn_isn new_b = WrappingInt32 7"
  by (simp_all add: TCPConnection_new_def TCPSender_new_def cfg_a_def cfg_b_def)

lemma example_cfg:
  "cfg_send_capacity cfg_a < seq_limit" "cfg_recv_capacity cfg_a < seq_limit" "cfg_fixed_isn cfg_a = Some (WrappingInt32 5)"
  "cfg_send_capacity cfg_b < seq_limit" "cfg_recv_capacity cfg_b < seq_limit" "cfg_fixed_isn cfg_b = Some (WrappingInt32 7)"
  "cfg_recv_capacity cfg_b = 64000"
  by (simp_all add: cfg_a_def cfg_b_def TCPConfig_default_def)

lemma example_connect: "TCPConnection_connect new_a = conn_a\<lparr>tc_segments_out := [syn_a]\<rparr>"
  using connect_new [OF refl, of cfg_a 0] by (simp add: conn_a_def syn_a_def example_isn)

lemma example_syn: "TCPConnection_segment_received new_b syn_a = Inr conn_b"
proof -
  have "tc_receiver new_a = TCPReceiver_new 64000" by (simp add: TCPConnection_new_def cfg_a_def TCPConfig_default_def)
  then have "TCPConnection_segment_received new_b syn_a = Inr (conn_b\<lparr>tc_last_recv_et := 0\<rparr>)"
    using new_receives_syn [OF refl, of syn_a _ cfg_b 0]
    by (simp add: syn_a_def syn_segment_def TCPHeader_default_def stamp_ack conn_b_def example_isn example_cfg Let_def)
  moreover have "conn_b\<lparr>tc_last_recv_et := 0\<rparr> = conn_b" by (simp add: conn_b_def conn_syn_def TCPConnection_new_def Let_def)
  ultimately show ?thesis by simp
qed

lemma example_ok: "conn_ok of_nat 1 of_nat 2 (WrappingInt32 5) (new_b, [], []) (Segment_received 0 syn_a)"
  by (simp add: seg_carries_def syn_a_def syn_segment_def TCPHeader_default_def piece_def seq_close_def
      TCPConnection_new_def TCPReceiver_new_def StreamReassembler_new_def)

lemma example_new_inv: "conn_inv of_nat 1 (WrappingInt32 7) of_nat (WrappingInt32 5) (new_b, [], [])"
  by (rule conn_inv_new) (simp_all add: example_cfg)

lemma example_inv: "conn_inv of_nat 1 (WrappingInt32 7) of_nat (WrappingInt32 5) (conn_b, [], [])"
  using conn_segment_ok [OF example_new_inv example_ok] example_syn by simp

lemma example_reach:
  "pair_reach of_nat 2 (WrappingInt32 5) of_nat 1 (WrappingInt32 7)
     ((new_a, [], []), (new_b, [], [])) ((conn_a, [syn_a], []), (conn_b, [], []))"
proof -
  let ?step = "pair_step of_nat 2 (WrappingInt32 5) of_nat 1 (WrappingInt32 7)"
  have 1: "?step ((new_a, [], []), (new_b, [], [])) ((conn_a\<lparr>tc_segments_out := [syn_a]\<rparr>, [], []), (new_b, [], []))"
    by (rule pair_step.left [where x = Connect]) (simp_all add: example_connect)
  have "conn_a\<lparr>tc_segments_out := []\<rparr> = conn_a" by (simp add: conn_a_def conn_syn_def TCPConnection_new_def)
  then have 2: "?step ((conn_a\<lparr>tc_segments_out := [syn_a]\<rparr>, [], []), (new_b, [], [])) ((conn_a, [syn_a], []), (new_b, [], []))"
    by (intro pair_step.left [where x = Take_segments]) simp_all
  have 3: "?step ((conn_a, [syn_a], []), (new_b, [], [])) ((conn_a, [syn_a], []), (conn_b, [], []))"
    by (rule pair_step.right [OF example_ok]) (simp_all add: example_syn)
  show ?thesis by (rule pair_reach.step [OF pair_reach.step [OF pair_reach.step [OF pair_reach.start 1] 2] 3])
qed

theorem connections_safe_witness:
  "(\<exists>k \<le> 1. conn_received (conn_a, [syn_a], []) = take k (map of_nat [0..<1])) \<and>
    (\<exists>k \<le> 2. conn_received (conn_b, [], []) = take k (map of_nat [0..<2])) \<and>
    seg_sent of_nat 2 (WrappingInt32 5) syn_a \<and>
    snd_segments_out (tc_sender conn_a) = [] \<and> snd_segments_out (tc_sender conn_b) = []"
proof -
  have N: "(2 :: nat) + 2 \<le> seq_limit" "(1 :: nat) + 2 \<le> seq_limit" by simp_all
  note safe = connections_safe [OF example_cfg(1,2) N(1) example_cfg(4,5) N(2) example_cfg(3,6) example_reach]
  have "\<forall>seg \<in> set (fst (snd (conn_a, [syn_a], [] :: byte list))). seg_sent of_nat 2 (WrappingInt32 5) seg"
    using safe by blast
  then have "seg_sent of_nat 2 (WrappingInt32 5) syn_a" by simp
  moreover have "snd_segments_out (tc_sender (fst (conn_a, [syn_a], [] :: byte list))) = []"
    "snd_segments_out (tc_sender (fst (conn_b, [] :: tcp_segment list, [] :: byte list))) = []" using safe by blast+
  ultimately show ?thesis using safe by auto
qed

text \<open>
  A connection whose SYN was retransmitted eight times without an answer, and one whose two streams, both
  empty, have ended.
\<close>

definition conn_unanswered :: tcp_connection where
  "conn_unanswered = (let c = TCPConnection_connect new_a
     in c\<lparr>tc_sender := (tc_sender c)\<lparr>snd_consec_retrans_count := 8\<rparr>\<rparr>)"

definition conn_finished :: tcp_connection where
  "conn_finished = new_b
     \<lparr>tc_sender := (tc_sender new_b)\<lparr>snd_syn_sent := True, snd_fin_sent := True, snd_next_seqno := 2,
        snd_stream := ByteStream_end_input (snd_stream (tc_sender new_b))\<rparr>,
      tc_receiver := (syn_receiver 64000 (WrappingInt32 5))
        \<lparr>rcv_fin_set := True, rcv_reassembler := (StreamReassembler_new 64000)
          \<lparr>sr_output := ByteStream_end_input (ByteStream_new 64000)\<rparr>\<rparr>\<rparr>"

lemma snd_inv_count: "snd_inv S N (s\<lparr>snd_consec_retrans_count := k\<rparr>) = snd_inv S N s"
  by (simp add: snd_inv_def snd_core_def snd_flight_def)

lemma conn_unanswered_inv: "conn_inv of_nat 2 (WrappingInt32 5) of_nat (WrappingInt32 7) (conn_unanswered, [], [])"
proof -
  have "conn_inv of_nat 2 (WrappingInt32 5) of_nat (WrappingInt32 7) (new_a, [], [])"
    by (rule conn_inv_new) (simp_all add: example_cfg)
  then have "conn_inv of_nat 2 (WrappingInt32 5) of_nat (WrappingInt32 7) (TCPConnection_connect new_a, [], [])"
    by (rule conn_inv_connect)
  then show ?thesis
    by (simp add: conn_unanswered_def conn_inv_def conn_mid_def snd_run_inv_def snd_inv_count Let_def)
qed

lemmas conn_finished_eval = conn_finished_def TCPConnection_new_def TCPSender_new_def TCPReceiver_new_def
  StreamReassembler_new_def ByteStream_new_def ByteStream_end_input_def Timer_new_def cfg_b_def TCPConfig_default_def
  syn_receiver_def TCPConnection_inbound_stream_def TCPReceiver_stream_out_def Let_def

lemma conn_finished_inv: "conn_inv of_nat 0 (WrappingInt32 7) of_nat (WrappingInt32 5) (conn_finished, [], [])"
  by (simp add: conn_inv_def conn_mid_def snd_run_inv_def snd_inv_def snd_core_def snd_flight_def
      rcv_inv_def run_inv_def sr_inv_def sr_mid_def bs_wf_def piece_def conn_finished_eval)

theorem tick_lifecycle_witness:
  "(\<exists>c'. TCPConnection_tick conn_unanswered 20 = Inr c' \<and> TCPConnection_state c' = TCPState_of_state RESET \<and>
      th_rst (seg_header (last (tc_segments_out c')))) \<and>
   (\<exists>c'. TCPConnection_tick conn_finished 20 = Inr c' \<and> tc_active c' \<and> TCPConnection_state c' = TCPState_of_state TIME_WAIT) \<and>
   (\<exists>c'. TCPConnection_tick conn_finished 10000 = Inr c' \<and> \<not> tc_active c' \<and> TCPConnection_state c' = TCPState_of_state CLOSED)"
proof -
  have "MAX_RETX_ATTEMPTS \<le> TCPSender_consecutive_retransmissions (tc_sender conn_unanswered)"
    by (simp add: conn_unanswered_def TCPSender_consecutive_retransmissions_def Let_def)
  moreover have f: "\<not> MAX_RETX_ATTEMPTS \<le> TCPSender_consecutive_retransmissions (tc_sender conn_finished)"
    "tc_active conn_finished" "rcv_syn_set (tc_receiver conn_finished)" "\<not> bs_error (snd_stream (tc_sender conn_finished))"
    "\<not> bs_error (TCPConnection_inbound_stream conn_finished)" "TCPConnection_should_shutdown conn_finished"
    "\<not> conn_done conn_finished 20" "conn_done conn_finished 10000"
    by (simp_all add: conn_done_def TCPConnection_should_shutdown_def TCPSender_bytes_in_flight_def
        TCPReceiver_unassembled_bytes_def StreamReassembler_unassembled_bytes_def TCPSender_consecutive_retransmissions_def
        conn_finished_eval)
  ultimately show ?thesis
    using tick_lifecycle [OF conn_unanswered_inv, of 20] tick_lifecycle [OF conn_finished_inv, of 20]
      tick_lifecycle [OF conn_finished_inv, of 10000] by auto
qed

end
