(* ===== verification/Text.thy ===== *)
theory Text
  imports Sponge_Prelude
begin

text \<open>
  Numbers as text: \<open>std::to_string\<close>, \<open>std::stoi\<close>, and the printing of IPv4 addresses in dotted
  decimal form.
\<close>

unbundle bit_operations_syntax

definition digit_char :: "nat \<Rightarrow> char" where
  "digit_char d = char_of (48 + d)"

fun decimal :: "nat \<Rightarrow> string" where
  "decimal n = (if n < 10 then [digit_char n] else decimal (n div 10) @ [digit_char (n mod 10)])"

declare decimal.simps [simp del]

definition isdigit :: "char \<Rightarrow> bool" where
  "isdigit c \<longleftrightarrow> 48 \<le> (of_char c :: nat) \<and> (of_char c :: nat) \<le> 57"

definition isspace :: "char \<Rightarrow> bool" where
  "isspace c \<longleftrightarrow> (of_char c :: nat) \<in> {9, 10, 11, 12, 13, 32}"

definition digits_value :: "string \<Rightarrow> nat" where
  "digits_value s = foldl (\<lambda>a c. 10 * a + (of_char c - 48)) 0 s"

definition stoi :: "string \<Rightarrow> int result" where
  "stoi s =
     (let t = dropWhile isspace s;
          negative = (t \<noteq> [] \<and> hd t = CHR ''-'');
          u = (if t \<noteq> [] \<and> hd t \<in> {CHR ''-'', CHR ''+''} then tl t else t);
          ds = takeWhile isdigit u;
          v = (if negative then - int (digits_value ds) else int (digits_value ds))
      in if ds = [] then Inl (InvalidArgument ''stoi'')
         else if v < - (2 ^ 31) \<or> 2 ^ 31 \<le> v then Inl (OutOfRange ''stoi'')
         else Inr v)"

definition dotted :: "u32 \<Rightarrow> string" where
  "dotted ip =
     decimal (unat (drop_bit 24 ip AND 255)) @ ''.'' @ decimal (unat (drop_bit 16 ip AND 255)) @ ''.'' @
     decimal (unat (drop_bit 8 ip AND 255)) @ ''.'' @ decimal (unat (ip AND 255))"

lemma of_digit_char: "d < 10 \<Longrightarrow> (of_char (digit_char d) :: nat) = 48 + d"
  by (simp add: digit_char_def of_char_of)

lemma isdigit_digit_char [simp]: "d < 10 \<Longrightarrow> isdigit (digit_char d)"
  by (simp add: isdigit_def of_digit_char)

lemma decimal_digits: "decimal n \<noteq> [] \<and> list_all isdigit (decimal n)"
  by (induction n rule: decimal.induct) (subst (1 2) decimal.simps, simp)

lemma digits_value_decimal [simp]: "digits_value (decimal n) = n"
  by (induction n rule: decimal.induct)
    (subst decimal.simps, simp add: digits_value_def of_digit_char)

lemma isdigit_not:
  assumes "isdigit c"
  shows "\<not> isspace c" "c \<noteq> CHR ''-''" "c \<noteq> CHR ''+''" "c \<noteq> CHR ''.''"
  using assms by (auto simp: isdigit_def isspace_def)

lemma stoi_decimal: "n < 2 ^ 31 \<Longrightarrow> stoi (decimal n) = Inr (int n)"
proof -
  assume n: "n < 2 ^ 31"
  obtain c cs where d: "decimal n = c # cs" using decimal_digits by (cases "decimal n") auto
  have c: "isdigit c" "list_all isdigit cs" using decimal_digits [of n] d by auto
  have "takeWhile isdigit (c # cs) = c # cs" using c by (simp add: takeWhile_eq_all_conv list_all_iff)
  then show ?thesis
    using n d digits_value_decimal [of n] isdigit_not [OF c(1)] by (simp add: stoi_def Let_def)
qed

lemma decimal_inject [simp]: "decimal m = decimal n \<longleftrightarrow> m = n"
  using digits_value_decimal by metis

section \<open>Reading dotted addresses\<close>

fun split_on :: "char \<Rightarrow> string \<Rightarrow> string list" where
  "split_on c [] = [[]]"
| "split_on c (x # xs) =
     (if x = c then [] # split_on c xs
      else case split_on c xs of [] \<Rightarrow> [[x]] | w # ws \<Rightarrow> (x # w) # ws)"

lemma split_on_nonempty: "split_on c s \<noteq> []"
  by (cases s) (auto split: list.splits)

lemma split_on_word: "c \<notin> set w \<Longrightarrow> split_on c w = [w]"
  by (induction w) auto

lemma split_on_append: "c \<notin> set w \<Longrightarrow> split_on c (w @ c # s) = w # split_on c s"
  by (induction w) auto

lemma dot_notin_decimal: "CHR ''.'' \<notin> set (decimal n)"
  using decimal_digits [of n] isdigit_not(4) by (auto simp: list_all_iff)

lemma split_dotted:
  "map digits_value (split_on CHR ''.'' (dotted ip)) =
    [unat (drop_bit 24 ip AND 255), unat (drop_bit 16 ip AND 255), unat (drop_bit 8 ip AND 255), unat (ip AND 255)]"
  by (simp add: dotted_def split_on_append [OF dot_notin_decimal] split_on_word [OF dot_notin_decimal])

end
