(* ===== verification/Addresses.thy ===== *)
theory Addresses
  imports Net_Parser Text
begin

text \<open>
  IPv4 socket addresses, \<open>util/address.hh\<close> and \<open>address.cc\<close>.

  An address wraps a \<open>sockaddr_storage\<close>: its bytes and the size in use, in the layout of Linux on a
  little-endian machine (family in host order, port and IPv4 address in network order).  The two
  functions of the C library that translate between names and addresses, \<open>getaddrinfo\<close> and
  \<open>getnameinfo\<close>, are arguments of the definitions that call them.
\<close>

abbreviation (input) AF_INET :: nat where
  "AF_INET \<equiv> 2"

abbreviation (input) sizeof_sockaddr_in :: size_t where
  "sizeof_sockaddr_in \<equiv> 16"

abbreviation (input) sizeof_sockaddr_storage :: size_t where
  "sizeof_sockaddr_storage \<equiv> 128"

definition sockaddr_in :: "u16 \<Rightarrow> u32 \<Rightarrow> byte list" where
  "sockaddr_in sin_port sin_addr = [of_nat AF_INET, 0] @ be16 sin_port @ be32 sin_addr @ replicate 8 0"

record address =
  addr_size :: size_t
  addr_storage :: "byte list"

definition Address_of_sockaddr :: "byte list \<Rightarrow> size_t \<Rightarrow> address result" where
  "Address_of_sockaddr addr sz =
     (if sizeof_sockaddr_storage < sz then Inl (RuntimeError ''invalid sockaddr size'')
      else Inr \<lparr>addr_size = sz, addr_storage = take sz addr @ replicate (sizeof_sockaddr_storage - sz) 0\<rparr>)"

text \<open>
  \<open>getaddrinfo\<close>: an error code, no result, or the bytes and the length of the first address found.
\<close>

record addrinfo_hints =
  ai_flags :: nat
  ai_family :: nat

type_synonym getaddrinfo = "string \<Rightarrow> string \<Rightarrow> addrinfo_hints \<Rightarrow> nat + (byte list \<times> size_t) option"

definition Address_resolve :: "getaddrinfo \<Rightarrow> string \<Rightarrow> string \<Rightarrow> addrinfo_hints \<Rightarrow> address result" where
  "Address_resolve getaddrinfo node service hints =
     (case getaddrinfo node service hints of
        Inl gai_ret \<Rightarrow> Inl (RuntimeError (''getaddrinfo('' @ node @ '', '' @ service @ '')''))
      | Inr None \<Rightarrow> Inl (RuntimeError ''getaddrinfo returned successfully but with no results'')
      | Inr (Some (ai_addr, ai_addrlen)) \<Rightarrow> Address_of_sockaddr ai_addr ai_addrlen)"

definition make_hints :: "nat \<Rightarrow> nat \<Rightarrow> addrinfo_hints" where
  "make_hints flags family = \<lparr>ai_flags = flags, ai_family = family\<rparr>"

abbreviation (input) AI_ALL :: nat where
  "AI_ALL \<equiv> 0x10"

abbreviation (input) AI_NUMERICHOST :: nat where
  "AI_NUMERICHOST \<equiv> 0x4"

abbreviation (input) AI_NUMERICSERV :: nat where
  "AI_NUMERICSERV \<equiv> 0x400"

definition Address_of_host :: "getaddrinfo \<Rightarrow> string \<Rightarrow> string \<Rightarrow> address result" where
  "Address_of_host getaddrinfo hostname service =
     Address_resolve getaddrinfo hostname service (make_hints AI_ALL AF_INET)"

definition Address_of_ip :: "getaddrinfo \<Rightarrow> string \<Rightarrow> u16 \<Rightarrow> address result" where
  "Address_of_ip getaddrinfo ip port =
     Address_resolve getaddrinfo ip (decimal (unat port)) (make_hints (AI_NUMERICHOST OR AI_NUMERICSERV) AF_INET)"

text \<open>\<open>getnameinfo\<close>, with the flags that ask for numbers: an error code, or host and service.\<close>

type_synonym getnameinfo = "byte list \<Rightarrow> size_t \<Rightarrow> nat + string \<times> string"

definition Address_ip_port :: "getnameinfo \<Rightarrow> address \<Rightarrow> (string \<times> u16) result" where
  "Address_ip_port getnameinfo a =
     (case getnameinfo (addr_storage a) (addr_size a) of
        Inl gni_ret \<Rightarrow> Inl (RuntimeError ''getnameinfo'')
      | Inr (ip, port) \<Rightarrow> bindE (stoi port) (\<lambda>n. Inr (ip, of_int n)))"

definition Address_ip :: "getnameinfo \<Rightarrow> address \<Rightarrow> string result" where
  "Address_ip getnameinfo a = bindE (Address_ip_port getnameinfo a) (\<lambda>(ip, port). Inr ip)"

definition Address_port :: "getnameinfo \<Rightarrow> address \<Rightarrow> u16 result" where
  "Address_port getnameinfo a = bindE (Address_ip_port getnameinfo a) (\<lambda>(ip, port). Inr port)"

definition Address_to_string :: "getnameinfo \<Rightarrow> address \<Rightarrow> string result" where
  "Address_to_string getnameinfo a =
     bindE (Address_ip_port getnameinfo a) (\<lambda>(ip, port). Inr (ip @ '':'' @ decimal (unat port)))"

definition ss_family :: "address \<Rightarrow> nat" where
  "ss_family a = unat (addr_storage a ! 0) + 256 * unat (addr_storage a ! 1)"

definition Address_ipv4_numeric :: "address \<Rightarrow> u32 result" where
  "Address_ipv4_numeric a =
     (if ss_family a \<noteq> AF_INET \<or> addr_size a \<noteq> sizeof_sockaddr_in
      then Inl (RuntimeError ''ipv4_numeric called on non-IPV4 address'')
      else Inr (be_join 0 (take 4 (drop 4 (addr_storage a)))))"

definition Address_from_ipv4_numeric :: "u32 \<Rightarrow> address result" where
  "Address_from_ipv4_numeric ip_address = Address_of_sockaddr (sockaddr_in 0 ip_address) sizeof_sockaddr_in"

definition Address_eq :: "address \<Rightarrow> address \<Rightarrow> bool" where
  "Address_eq a b \<longleftrightarrow>
     addr_size a = addr_size b \<and> take (addr_size a) (addr_storage a) = take (addr_size a) (addr_storage b)"

section \<open>IPv4 addresses\<close>

definition ipv4_address :: "u32 \<Rightarrow> u16 \<Rightarrow> address" where
  "ipv4_address ip port = \<lparr>addr_size = 16, addr_storage = sockaddr_in port ip @ replicate 112 0\<rparr>"

lemma length_sockaddr_in [simp]: "length (sockaddr_in port ip) = 16"
  by (simp add: sockaddr_in_def)

lemma Address_constructors [simp]:
  "Address_of_sockaddr (sockaddr_in port ip) 16 = Inr (ipv4_address ip port)"
  "Address_from_ipv4_numeric ip = Inr (ipv4_address ip 0)"
  by (simp_all add: Address_from_ipv4_numeric_def Address_of_sockaddr_def ipv4_address_def)

lemma ipv4_family [simp]: "ss_family (ipv4_address ip port) = AF_INET"
  by (simp add: ss_family_def ipv4_address_def sockaddr_in_def)

lemma sockaddr_fields:
  "take 4 (drop 4 (sockaddr_in port ip)) = be32 ip"
  "take 2 (drop 2 (sockaddr_in port ip)) = be16 port"
  by (simp_all add: sockaddr_in_def be16_def be32_def)

lemma sockaddr_inject: "sockaddr_in port ip = sockaddr_in port' ip' \<longleftrightarrow> ip = ip' \<and> port = port'"
  using sockaddr_fields [of port ip] sockaddr_fields [of port' ip'] be_join_be16 be_join_be32 by metis

lemma ipv4_address_simps [simp]:
  "Address_ipv4_numeric (ipv4_address ip port) = Inr ip"
  "Address_eq (ipv4_address ip port) (ipv4_address ip' port') \<longleftrightarrow> ip = ip' \<and> port = port'"
  using ipv4_family [of ip port] sockaddr_inject
  by (simp_all add: Address_ipv4_numeric_def Address_eq_def)
    (simp_all add: ipv4_address_def sockaddr_fields)

text \<open>
  The C library translates numeric addresses faithfully: a dotted quad and a decimal port give the
  IPv4 socket address with these numbers, and that address is printed as the same texts.
\<close>

definition resolves_numeric :: "getaddrinfo \<Rightarrow> u32 \<Rightarrow> u16 \<Rightarrow> bool" where
  "resolves_numeric getaddrinfo ip port \<longleftrightarrow>
     getaddrinfo (dotted ip) (decimal (unat port)) (make_hints (AI_NUMERICHOST OR AI_NUMERICSERV) AF_INET) =
       Inr (Some (sockaddr_in port ip, sizeof_sockaddr_in))"

definition prints_numeric :: "getnameinfo \<Rightarrow> u32 \<Rightarrow> u16 \<Rightarrow> bool" where
  "prints_numeric getnameinfo ip port \<longleftrightarrow>
     getnameinfo (sockaddr_in port ip @ replicate 112 0) sizeof_sockaddr_in = Inr (dotted ip, decimal (unat port))"

locale c_library =
  fixes getaddrinfo :: getaddrinfo
    and getnameinfo :: getnameinfo
  assumes resolves: "resolves_numeric getaddrinfo ip port"
    and prints: "prints_numeric getnameinfo ip port"
begin

lemma Address_of_ip_dotted: "Address_of_ip getaddrinfo (dotted ip) port = Inr (ipv4_address ip port)"
  using resolves [of ip port] by (simp add: Address_of_ip_def Address_resolve_def resolves_numeric_def)

lemma ipv4_ip_port: "Address_ip_port getnameinfo (ipv4_address ip port) = Inr (dotted ip, port)"
proof -
  have "unat port < 2 ^ 16" using unsigned_less [of port] by simp
  then have "stoi (decimal (unat port)) = Inr (int (unat port))" by (intro stoi_decimal) simp
  then show ?thesis
    using prints [of ip port] by (simp add: Address_ip_port_def prints_numeric_def ipv4_address_def)
qed

lemma ipv4_port: "Address_port getnameinfo (ipv4_address ip port) = Inr port"
  by (simp add: Address_port_def ipv4_ip_port)

lemma ipv4_to_string:
  "Address_to_string getnameinfo (ipv4_address ip port) = Inr (dotted ip @ '':'' @ decimal (unat port))"
  by (simp add: Address_to_string_def ipv4_ip_port)

end

text \<open>The numeric part of the C library: it reads dotted quads and decimal ports.\<close>

definition numeric_getaddrinfo :: getaddrinfo where
  "numeric_getaddrinfo node service hints =
     Inr (Some (sockaddr_in (of_nat (digits_value service))
       (be_join 0 (map (\<lambda>w. of_nat (digits_value w)) (split_on CHR ''.'' node))), sizeof_sockaddr_in))"

definition numeric_getnameinfo :: getnameinfo where
  "numeric_getnameinfo addr sz =
     (let port = be_join 0 (take 2 (drop 2 addr)) :: u16; ip = be_join 0 (take 4 (drop 4 addr)) :: u32
      in Inr (dotted ip, decimal (unat port)))"

interpretation numeric: c_library numeric_getaddrinfo numeric_getnameinfo
proof unfold_locales
  fix ip port
  have "map (\<lambda>w. of_nat (digits_value w)) (split_on CHR ''.'' (dotted ip)) =
      map of_nat (map digits_value (split_on CHR ''.'' (dotted ip)))" by simp
  also have "\<dots> = be32 ip" unfolding split_dotted by (simp add: be32_def ucast_mask_byte)
  finally show "resolves_numeric numeric_getaddrinfo ip port"
    by (simp add: resolves_numeric_def numeric_getaddrinfo_def)
  show "prints_numeric numeric_getnameinfo ip port"
    by (simp add: prints_numeric_def numeric_getnameinfo_def sockaddr_fields)
qed

text \<open>
  Round trip of addresses.  Provided the C library translates numeric addresses faithfully, the
  address built from a dotted quad and a port has that numeric value, prints as that quad and that
  port, and two such addresses are equal exactly when both numbers are.
\<close>

theorem Address_roundtrip:
  assumes "c_library gai gni"
  shows "\<exists>a b. Address_of_ip gai (dotted ip) port = Inr a \<and> Address_of_ip gai (dotted ip') port' = Inr b \<and>
    Address_ipv4_numeric a = Inr ip \<and> Address_ip_port gni a = Inr (dotted ip, port) \<and>
    Address_to_string gni a = Inr (dotted ip @ '':'' @ decimal (unat port)) \<and>
    (Address_eq a b \<longleftrightarrow> ip = ip' \<and> port = port')"
  using c_library.Address_of_ip_dotted [OF assms] c_library.ipv4_ip_port [OF assms] c_library.ipv4_to_string [OF assms]
  by simp

theorem Address_roundtrip_witness:
  "\<exists>a b. Address_of_ip numeric_getaddrinfo (dotted 0x0a000001) 80 = Inr a \<and>
    Address_of_ip numeric_getaddrinfo (dotted 0x0a000002) 443 = Inr b \<and>
    Address_ipv4_numeric a = Inr 0x0a000001 \<and>
    Address_ip_port numeric_getnameinfo a = Inr (dotted 0x0a000001, 80) \<and>
    Address_to_string numeric_getnameinfo a = Inr (dotted 0x0a000001 @ '':'' @ decimal (unat (80 :: u16))) \<and>
    (Address_eq a b \<longleftrightarrow> (0x0a000001 :: u32) = 0x0a000002 \<and> (80 :: u16) = 443)"
  by (rule Address_roundtrip [OF numeric.c_library_axioms])

end
