(* ===== verification/Ipv4.thy ===== *)
theory Ipv4
  imports Internet_Checksum
begin

text \<open>
  IPv4 headers and datagrams, \<open>libsponge/tcp_helpers/ipv4_header.hh\<close>, \<open>ipv4_header.cc\<close>,
  \<open>ipv4_datagram.hh\<close> and \<open>ipv4_datagram.cc\<close>.

  \<open>IPv4Header::parse\<close> returns early on a short buffer and then leaves the object as it was, so the
  model takes the old header.  The functions that print a header are in the
  theory \<open>Printing\<close>.
\<close>

unbundle bit_operations_syntax

section \<open>The header\<close>

abbreviation IPv4Header_LENGTH :: nat where
  "IPv4Header_LENGTH \<equiv> 20"

abbreviation IPv4Header_DEFAULT_TTL :: u8 where
  "IPv4Header_DEFAULT_TTL \<equiv> 128"

abbreviation IPv4Header_PROTO_TCP :: u8 where
  "IPv4Header_PROTO_TCP \<equiv> 6"

record ipv4_header =
  ip_ver :: u8
  ip_hlen :: u8
  ip_tos :: u8
  ip_len :: u16
  ip_id :: u16
  ip_df :: bool
  ip_mf :: bool
  ip_offset :: u16
  ip_ttl :: u8
  ip_proto :: u8
  ip_cksum :: u16
  ip_src :: u32
  ip_dst :: u32

definition IPv4Header_default :: ipv4_header where
  "IPv4Header_default =
     \<lparr>ip_ver = 4, ip_hlen = 5, ip_tos = 0, ip_len = 0, ip_id = 0, ip_df = True, ip_mf = False,
      ip_offset = 0, ip_ttl = IPv4Header_DEFAULT_TTL, ip_proto = IPv4Header_PROTO_TCP, ip_cksum = 0,
      ip_src = 0, ip_dst = 0\<rparr>"

definition IPv4Header_parse ::
  "ipv4_header \<Rightarrow> net_parser \<Rightarrow> ((parse_result \<times> ipv4_header) \<times> net_parser) result" where
  "IPv4Header_parse old p0 =
     (let original_serialized_version = np_buffer p0;
          data_size = Buffer_size (np_buffer p0)
      in if data_size < IPv4Header_LENGTH then Inr ((PacketTooShort, old), p0)
         else
           np_bind NetParser_u8 (\<lambda>first_byte.
           np_bind NetParser_u8 (\<lambda>tos.
           np_bind NetParser_u16 (\<lambda>len.
           np_bind NetParser_u16 (\<lambda>id.
           np_bind NetParser_u16 (\<lambda>fo_val.
           np_bind NetParser_u8 (\<lambda>ttl.
           np_bind NetParser_u8 (\<lambda>proto.
           np_bind NetParser_u16 (\<lambda>cksum.
           np_bind NetParser_u32 (\<lambda>src.
           np_bind NetParser_u32 (\<lambda>dst.
             let h = \<lparr>ip_ver = drop_bit 4 first_byte, ip_hlen = first_byte AND 0x0f, ip_tos = tos,
                      ip_len = len, ip_id = id, ip_df = (fo_val AND 0x4000 \<noteq> 0),
                      ip_mf = (fo_val AND 0x2000 \<noteq> 0), ip_offset = fo_val AND 0x1fff, ip_ttl = ttl,
                      ip_proto = proto, ip_cksum = cksum, ip_src = src, ip_dst = dst\<rparr>
             in if data_size < 4 * unat (ip_hlen h) then (\<lambda>p. Inr ((PacketTooShort, h), p))
                else if ip_ver h \<noteq> 4 then (\<lambda>p. Inr ((WrongIPVersion, h), p))
                else if ip_hlen h < 5 then (\<lambda>p. Inr ((HeaderTooShort, h), p))
                else if data_size \<noteq> unat (ip_len h) then (\<lambda>p. Inr ((TruncatedPacket, h), p))
                else np_bind (NetParser_remove_prefix (unat (ip_hlen h) * 4 - IPv4Header_LENGTH)) (\<lambda>_ p.
                       if NetParser_error p then Inr ((np_error p, h), p)
                       else let check = InternetChecksum_new 0;
                                check = InternetChecksum_add check
                                  (take (4 * unat (ip_hlen h)) (Buffer_str original_serialized_version))
                            in if InternetChecksum_value check \<noteq> 0 then Inr ((BadChecksum, h), p)
                               else Inr ((NoError, h), p)))))))))))) p0)"

definition IPv4Header_first_byte :: "ipv4_header \<Rightarrow> u8" where
  "IPv4Header_first_byte h = push_bit 4 (ip_ver h) OR (ip_hlen h AND 0xf)"

definition IPv4Header_fo_val :: "ipv4_header \<Rightarrow> u16" where
  "IPv4Header_fo_val h =
     (if ip_df h then 0x4000 else 0) OR (if ip_mf h then 0x2000 else 0) OR (ip_offset h AND 0x1fff)"

definition IPv4Header_serialize :: "ipv4_header \<Rightarrow> byte list result" where
  "IPv4Header_serialize h =
     (if ip_ver h \<noteq> 4 then Inl (RuntimeError ''wrong IP version'')
      else if 4 * unat (ip_hlen h) < IPv4Header_LENGTH then Inl (RuntimeError ''IP header too short'')
      else let ret = [];
               ret = NetUnparser_u8 ret (IPv4Header_first_byte h);
               ret = NetUnparser_u8 ret (ip_tos h);
               ret = NetUnparser_u16 ret (ip_len h);
               ret = NetUnparser_u16 ret (ip_id h);
               ret = NetUnparser_u16 ret (IPv4Header_fo_val h);
               ret = NetUnparser_u8 ret (ip_ttl h);
               ret = NetUnparser_u8 ret (ip_proto h);
               ret = NetUnparser_u16 ret (ip_cksum h);
               ret = NetUnparser_u32 ret (ip_src h);
               ret = NetUnparser_u32 ret (ip_dst h)
           in Inr (string_resize (4 * unat (ip_hlen h)) ret))"

definition IPv4Header_payload_length :: "ipv4_header \<Rightarrow> u16" where
  "IPv4Header_payload_length h = ip_len h - 4 * ucast (ip_hlen h)"

definition IPv4Header_pseudo_cksum :: "ipv4_header \<Rightarrow> u32" where
  "IPv4Header_pseudo_cksum h =
     (let pcksum = drop_bit 16 (ip_src h) + (ip_src h AND 0xffff);
          pcksum = pcksum + (drop_bit 16 (ip_dst h) + (ip_dst h AND 0xffff));
          pcksum = pcksum + ucast (ip_proto h)
      in pcksum + ucast (IPv4Header_payload_length h))"

section \<open>The datagram\<close>

record ipv4_datagram =
  dg_header :: ipv4_header
  dg_payload :: buffer_list

definition IPv4Datagram_default :: ipv4_datagram where
  "IPv4Datagram_default = \<lparr>dg_header = IPv4Header_default, dg_payload = []\<rparr>"

definition IPv4Datagram_parse :: "ipv4_datagram \<Rightarrow> buffer \<Rightarrow> (parse_result \<times> ipv4_datagram) result" where
  "IPv4Datagram_parse old buffer =
     bindE (IPv4Header_parse (dg_header old) (NetParser_new buffer)) (\<lambda>((_, header), p).
       let dg = \<lparr>dg_header = header, dg_payload = BufferList_of_buffer (np_buffer p)\<rparr>
       in if BufferList_size (dg_payload dg) \<noteq> unat (IPv4Header_payload_length header)
          then Inr (PacketTooShort, dg) else Inr (np_error p, dg))"

definition IPv4Datagram_serialize :: "ipv4_datagram \<Rightarrow> buffer_list result" where
  "IPv4Datagram_serialize dg =
     (if BufferList_size (dg_payload dg) \<noteq> unat (IPv4Header_payload_length (dg_header dg))
      then Inl (RuntimeError ''IPv4Datagram::serialize: payload is wrong size'')
      else let header_out = (dg_header dg)\<lparr>ip_cksum := 0\<rparr>
           in bindE (IPv4Header_serialize header_out) (\<lambda>header_zero_checksum.
              let check = InternetChecksum_new 0;
                  check = InternetChecksum_add check header_zero_checksum;
                  header_out = header_out\<lparr>ip_cksum := InternetChecksum_value check\<rparr>
              in bindE (IPv4Header_serialize header_out) (\<lambda>s.
                 Inr (BufferList_append (BufferList_append [] (BufferList_of_string s)) (dg_payload dg)))))"

section \<open>Bit fields\<close>

definition ip_wf :: "ipv4_header \<Rightarrow> bool" where
  "ip_wf h \<longleftrightarrow> ip_ver h = 4 \<and> 5 \<le> unat (ip_hlen h) \<and> unat (ip_hlen h) \<le> 15 \<and>
     ip_offset h AND 0x1fff = ip_offset h"

lemma fo_bits:
  "(IPv4Header_fo_val h AND 0x4000 \<noteq> 0) = ip_df h"
  "(IPv4Header_fo_val h AND 0x2000 \<noteq> 0) = ip_mf h"
  "ip_wf h \<Longrightarrow> IPv4Header_fo_val h AND 0x1fff = ip_offset h"
  by (simp_all add: IPv4Header_fo_val_def ip_wf_def bit.conj_disj_distrib2 and.assoc)

lemma small_byte_cases:
  assumes "unat (b :: u8) \<le> 15"
  shows "b \<in> {0, 1, 2, 3, 4, 5, 6, 7, 8, 9, 10, 11, 12, 13, 14, 15}"
proof -
  have "unat b \<in> {0, 1, 2, 3, 4, 5, 6, 7, 8, 9, 10, 11, 12, 13, 14, 15}"
    using assms unfolding insert_iff empty_iff by presburger
  then show ?thesis by (auto simp: word_unat_eq_iff)
qed

lemma first_byte_bits:
  assumes "ip_wf h"
  shows "drop_bit 4 (IPv4Header_first_byte h) = ip_ver h" "IPv4Header_first_byte h AND 0x0f = ip_hlen h"
  using assms small_byte_cases [of "ip_hlen h"]
  by (auto simp: ip_wf_def IPv4Header_first_byte_def)

section \<open>Round trip of the header\<close>

definition ip_bytes :: "ipv4_header \<Rightarrow> byte list" where
  "ip_bytes h =
     [IPv4Header_first_byte h] @ [ip_tos h] @ be16 (ip_len h) @ be16 (ip_id h) @
     be16 (IPv4Header_fo_val h) @ [ip_ttl h] @ [ip_proto h] @ be16 (ip_cksum h) @
     be32 (ip_src h) @ be32 (ip_dst h)"

abbreviation ip_opts :: "ipv4_header \<Rightarrow> byte list" where
  "ip_opts h \<equiv> replicate (4 * unat (ip_hlen h) - 20) 0"

lemma ip_bytes_length [simp]: "length (ip_bytes h) = 20"
  by (simp add: ip_bytes_def)

lemma IPv4Header_serialize_eq:
  assumes "ip_wf h"
  shows "IPv4Header_serialize h = Inr (ip_bytes h @ ip_opts h)"
proof -
  have "take (4 * unat (ip_hlen h)) (ip_bytes h) = ip_bytes h" using assms by (simp add: ip_wf_def)
  then show ?thesis
    using assms
    by (simp add: IPv4Header_serialize_def write_eq_rules string_resize_def Let_def ip_wf_def)
      (simp add: ip_bytes_def)
qed

lemma IPv4Header_parse_bytes:
  assumes p: "np_error p = NoError" "np_str p = ip_bytes h @ opts @ rest"
    and wf: "ip_wf h" and opts: "length opts = 4 * unat (ip_hlen h) - 20"
    and len: "unat (ip_len h) = length (np_str p)"
  shows "np_returns (IPv4Header_parse old p)
    (if checksum_of 0 (ip_bytes h @ opts) = 0 then NoError else BadChecksum, h) rest"
proof -
  have hlen: "5 \<le> unat (ip_hlen h)" "(ip_ver h \<noteq> 4) = False" "\<not> ip_hlen h < 5"
    using wf by (simp_all add: ip_wf_def word_less_nat_alt not_less)
  have size: "\<not> length (np_str p) < IPv4Header_LENGTH" "\<not> unat (ip_len h) < 4 * unat (ip_hlen h)"
    "length (np_str p) = unat (ip_len h)" "unat (ip_hlen h) * 4 - IPv4Header_LENGTH = length opts"
    using p(2) opts hlen(1) len by simp_all
  have hdr: "take (4 * unat (ip_hlen h)) (np_str p) = ip_bytes h @ opts"
    using p(2) opts hlen(1) by simp
  have str: "np_str p = [IPv4Header_first_byte h] @ [ip_tos h] @ be16 (ip_len h) @ be16 (ip_id h) @
     be16 (IPv4Header_fo_val h) @ [ip_ttl h] @ [ip_proto h] @ be16 (ip_cksum h) @
     be32 (ip_src h) @ be32 (ip_dst h) @ opts @ rest"
    using p by (simp add: ip_bytes_def)
  show ?thesis
    unfolding IPv4Header_parse_def Let_def Buffer_size_def if_not_P [OF size(1)]
    apply (rule tok_steps, fact, fact str)
    apply (rule tok_steps, assumption, assumption)+
    apply (simp only: fo_bits first_byte_bits [OF wf] fo_bits(3) [OF wf] ipv4_header.simps size hlen
        if_False simp_thms hdr)
    apply (rule remove_prefix_step, assumption, assumption, rule refl)
    apply (simp add: NetParser_error_def np_returns_def)
    done
qed

section \<open>Round trip of the datagram\<close>

definition dg_wf :: "ipv4_datagram \<Rightarrow> bool" where
  "dg_wf dg \<longleftrightarrow> ip_wf (dg_header dg) \<and>
     unat (ip_len (dg_header dg)) =
       4 * unat (ip_hlen (dg_header dg)) + length (BufferList_concatenate (dg_payload dg))"

lemma payload_length_unat:
  assumes "ip_wf h" "4 * unat (ip_hlen h) \<le> unat (ip_len h)"
  shows "unat (IPv4Header_payload_length h) = unat (ip_len h) - 4 * unat (ip_hlen h)"
proof -
  have "unat (4 * ucast (ip_hlen h) :: u16) = 4 * unat (ip_hlen h)"
    using assms(1) by (simp add: ip_wf_def unat_word_ariths unsigned_ucast_eq take_bit_nat_def)
  then show ?thesis
    using assms(2) by (simp add: IPv4Header_payload_length_def unat_sub word_le_nat_alt)
qed

lemma ip_bytes_sum:
  "be_sum False (ip_bytes (h\<lparr>ip_cksum := c\<rparr>)) = be_sum False (ip_bytes (h\<lparr>ip_cksum := 0\<rparr>)) + unat c"
  by (simp add: ip_bytes_def be_sum_append be_sum_be16 IPv4Header_first_byte_def IPv4Header_fo_val_def)

definition dg_cksum :: "ipv4_header \<Rightarrow> u16" where
  "dg_cksum h = checksum_of 0 (ip_bytes (h\<lparr>ip_cksum := 0\<rparr>) @ ip_opts h)"

lemma dg_cksum_verifies:
  assumes "ip_wf h"
  shows "checksum_of 0 (ip_bytes (h\<lparr>ip_cksum := dg_cksum h\<rparr>) @ ip_opts h) = 0"
proof -
  let ?data = "\<lambda>c. ip_bytes (h\<lparr>ip_cksum := c\<rparr>) @ ip_opts h" and ?c = "dg_cksum h"
  have bound: "unat (0 :: u32) + be_sum False (?data c) < 4294967296" for c
    using assms by (intro packet_sum_bound) (simp_all add: ip_wf_def)
  have sum: "be_sum False (?data ?c) = be_sum False (?data 0) + unat ?c"
    by (simp only: be_sum_append ip_bytes_sum [where h = h and c = ?c] ip_bytes_length)
  have "checksum_of 0 (?data 0) = ?c" by (simp only: dg_cksum_def)
  then show ?thesis
    using checksum_of_cong [OF bound [of 0]]
    unfolding checksum_of_eq_0 [OF bound [of ?c]] sum by (simp only: add.assoc) simp
qed

lemma ip_wf_cksum [simp]: "ip_wf (h\<lparr>ip_cksum := c\<rparr>) = ip_wf h"
  by (simp add: ip_wf_def)

lemma payload_size:
  assumes "dg_wf dg"
  shows "BufferList_size (dg_payload dg) = length (BufferList_concatenate (dg_payload dg))"
    and "unat (IPv4Header_payload_length (dg_header dg)) = length (BufferList_concatenate (dg_payload dg))"
proof -
  have "unat (ip_len (dg_header dg)) < 65536" using unsigned_less [of "ip_len (dg_header dg)"] by simp
  then show "BufferList_size (dg_payload dg) = length (BufferList_concatenate (dg_payload dg))"
    using assms unfolding BufferList_size_eq dg_wf_def by (intro mod_less) linarith
  show "unat (IPv4Header_payload_length (dg_header dg)) = length (BufferList_concatenate (dg_payload dg))"
    using assms payload_length_unat [of "dg_header dg"] unfolding dg_wf_def by linarith
qed

lemma IPv4Datagram_serialize_eq:
  assumes "dg_wf dg"
  shows "IPv4Datagram_serialize dg =
    Inr (Buffer_new (ip_bytes ((dg_header dg)\<lparr>ip_cksum := dg_cksum (dg_header dg)\<rparr>) @ ip_opts (dg_header dg))
      # dg_payload dg)"
proof -
  have wf: "ip_wf (dg_header dg)" using assms by (simp add: dg_wf_def)
  then have "IPv4Header_serialize ((dg_header dg)\<lparr>ip_cksum := c\<rparr>) =
      Inr (ip_bytes ((dg_header dg)\<lparr>ip_cksum := c\<rparr>) @ ip_opts (dg_header dg))" for c
    using IPv4Header_serialize_eq [of "(dg_header dg)\<lparr>ip_cksum := c\<rparr>"] by simp
  then show ?thesis
    using payload_size [OF assms]
    by (simp add: IPv4Datagram_serialize_def dg_cksum_def Let_def del: BufferList_concatenate_eq)
qed

definition dgram_same :: "ipv4_datagram \<Rightarrow> ipv4_datagram \<Rightarrow> bool" where
  "dgram_same dg dg' \<longleftrightarrow> dg_header dg' = (dg_header dg)\<lparr>ip_cksum := dg_cksum (dg_header dg)\<rparr> \<and>
     (\<exists>b. dg_payload dg' = [b] \<and> Buffer_str b = BufferList_concatenate (dg_payload dg))"

text \<open>The bytes of a datagram on the wire.\<close>

definition IPv4Datagram_bytes :: "ipv4_datagram \<Rightarrow> byte list result" where
  "IPv4Datagram_bytes dg = bindE (IPv4Datagram_serialize dg) (\<lambda>bl. Inr (BufferList_concatenate bl))"

lemma IPv4Datagram_parse_serialize:
  assumes "dg_wf dg"
  shows "\<exists>bl. IPv4Datagram_serialize dg = Inr bl \<and> (\<forall>b. Buffer_str b = BufferList_concatenate bl \<longrightarrow>
    (\<exists>dg' p. IPv4Datagram_parse old b = Inr (NoError, dg') \<and> dgram_same dg dg' \<and>
      IPv4Header_parse (dg_header old) (NetParser_new b) = Inr ((NoError, dg_header dg'), p)))"
proof -
  let ?h = "(dg_header dg)\<lparr>ip_cksum := dg_cksum (dg_header dg)\<rparr>"
  let ?pl = "BufferList_concatenate (dg_payload dg)"
  let ?bytes = "ip_bytes ?h @ ip_opts (dg_header dg) @ ?pl"
  let ?bl = "Buffer_new (ip_bytes ?h @ ip_opts (dg_header dg)) # dg_payload dg"
  have wf: "ip_wf ?h" "ip_wf (dg_header dg)" using assms by (simp_all add: dg_wf_def)
  have len: "length ?bytes = unat (ip_len (dg_header dg))" using assms by (simp add: dg_wf_def ip_wf_def)
  have pl: "IPv4Header_payload_length ?h = IPv4Header_payload_length (dg_header dg)"
    by (simp add: IPv4Header_payload_length_def)
  have bytes: "BufferList_concatenate ?bl = ?bytes" by simp
  have "\<exists>dg' p. IPv4Datagram_parse old b = Inr (NoError, dg') \<and> dgram_same dg dg' \<and>
      IPv4Header_parse (dg_header old) (NetParser_new b) = Inr ((NoError, dg_header dg'), p)"
    if b: "Buffer_str b = ?bytes" for b
  proof -
    have "np_returns (IPv4Header_parse (dg_header old) (NetParser_new b)) (NoError, ?h) ?pl"
      using IPv4Header_parse_bytes [of "NetParser_new b" ?h "ip_opts (dg_header dg)" ?pl]
        b wf len dg_cksum_verifies [OF wf(2)]
      by (simp add: NetParser_new_def del: BufferList_concatenate_eq)
    then obtain p where p: "IPv4Header_parse (dg_header old) (NetParser_new b) = Inr ((NoError, ?h), p)"
      "np_error p = NoError" "np_str p = ?pl" by (auto simp: np_returns_def simp del: BufferList_concatenate_eq)
    have "BufferList_size [np_buffer p] = length ?pl"
      using payload_size(1) [OF assms] p(3) by (simp add: BufferList_size_eq)
    then have "IPv4Datagram_parse old b = Inr (NoError, \<lparr>dg_header = ?h, dg_payload = [np_buffer p]\<rparr>)"
      using p(1,2) pl payload_size(2) [OF assms]
      by (simp add: IPv4Datagram_parse_def BufferList_of_buffer_def Let_def del: BufferList_concatenate_eq)
    then show ?thesis
      using p(1,3)
      by (intro exI [of _ "\<lparr>dg_header = ?h, dg_payload = [np_buffer p]\<rparr>"] exI [of _ p])
        (simp add: dgram_same_def del: BufferList_concatenate_eq)
  qed
  then show ?thesis
    using IPv4Datagram_serialize_eq [OF assms] bytes by (intro exI [of _ ?bl] conjI allI impI) (simp_all only:)
qed

interpretation dgram: wire_format IPv4Datagram_bytes "IPv4Datagram_parse old" dg_wf dgram_same for old
proof unfold_locales
  fix dg
  assume "dg_wf dg"
  from IPv4Datagram_parse_serialize [OF this, of old] show "\<exists>s. IPv4Datagram_bytes dg = Inr s \<and>
      (\<forall>b. Buffer_str b = s \<longrightarrow> (\<exists>dg'. IPv4Datagram_parse old b = Inr (NoError, dg') \<and> dgram_same dg dg'))"
    unfolding IPv4Datagram_bytes_def by (auto simp del: BufferList_concatenate_eq) blast
qed

text \<open>
  Round trip of an IPv4 datagram: a datagram whose length field is right serialises, and the
  bytes parse back, with no error and a header that \<open>IPv4Header::parse\<close> itself accepts (its checksum
  verifies), to the same header fields and the same payload.
\<close>

theorem IPv4Datagram_roundtrip:
  assumes "dg_wf dg"
  shows "\<exists>bl dg' p. IPv4Datagram_serialize dg = Inr bl \<and>
    IPv4Datagram_parse old (Buffer_new (BufferList_concatenate bl)) = Inr (NoError, dg') \<and>
    dg_header dg' = (dg_header dg)\<lparr>ip_cksum := dg_cksum (dg_header dg)\<rparr> \<and>
    BufferList_concatenate (dg_payload dg') = BufferList_concatenate (dg_payload dg) \<and>
    IPv4Header_parse (dg_header old) (NetParser_new (Buffer_new (BufferList_concatenate bl))) =
      Inr ((NoError, dg_header dg'), p)"
proof -
  obtain bl where bl: "IPv4Datagram_serialize dg = Inr bl"
    "\<exists>dg' p. IPv4Datagram_parse old (Buffer_new (BufferList_concatenate bl)) = Inr (NoError, dg') \<and>
      dgram_same dg dg' \<and>
      IPv4Header_parse (dg_header old) (NetParser_new (Buffer_new (BufferList_concatenate bl))) =
        Inr ((NoError, dg_header dg'), p)"
    using IPv4Datagram_parse_serialize [OF assms, of old] Buffer_new_simps by metis
  then show ?thesis by (auto simp: dgram_same_def)
qed

definition dg_example :: ipv4_datagram where
  "dg_example = \<lparr>dg_header = IPv4Header_default\<lparr>ip_len := 23, ip_src := 0x0a000001, ip_dst := 0x0a000002\<rparr>,
     dg_payload = [Buffer_new [1], Buffer_new [2, 3]]\<rparr>"

theorem IPv4Datagram_roundtrip_witness:
  "\<exists>bl dg' p. IPv4Datagram_serialize dg_example = Inr bl \<and>
    IPv4Datagram_parse IPv4Datagram_default (Buffer_new (BufferList_concatenate bl)) = Inr (NoError, dg') \<and>
    dg_header dg' = (dg_header dg_example)\<lparr>ip_cksum := dg_cksum (dg_header dg_example)\<rparr> \<and>
    BufferList_concatenate (dg_payload dg') = BufferList_concatenate (dg_payload dg_example) \<and>
    IPv4Header_parse (dg_header IPv4Datagram_default) (NetParser_new (Buffer_new (BufferList_concatenate bl))) =
      Inr ((NoError, dg_header dg'), p)"
  by (rule IPv4Datagram_roundtrip) (simp add: dg_wf_def dg_example_def IPv4Header_default_def ip_wf_def)

section \<open>The pseudo-header\<close>

lemma half_words_bound: "unat (drop_bit 16 w + (w AND 0xffff) :: u32) \<le> 131070"
proof -
  have lt: "unat w < 4294967296" using unsigned_less [of w] by simp
  have "unat w div 65536 \<le> 65535" using lt div_le_mono [of "unat w" 4294967295 65536] by simp
  moreover have "unat w mod 65536 \<le> 65535" using mod_less_divisor [of 65536 "unat w"] by linarith
  ultimately show ?thesis unfolding fold_step_unat by linarith
qed

text \<open>The sum of the pseudo-header never overflows and stays in the range of \<open>TCPSegment_roundtrip\<close>.\<close>

lemma pseudo_cksum_bound: "unat (IPv4Header_pseudo_cksum h) < 1048576"
proof -
  let ?s = "drop_bit 16 (ip_src h) + (ip_src h AND 0xffff)"
  let ?d = "drop_bit 16 (ip_dst h) + (ip_dst h AND 0xffff)"
  let ?p = "ucast (ip_proto h) :: u32" and ?l = "ucast (IPv4Header_payload_length h) :: u32"
  have p: "unat ?p \<le> 255"
    using byte_bound [of "ip_proto h"] by (simp add: unsigned_ucast_eq take_bit_nat_def)
  have "unat (IPv4Header_payload_length h) < 65536"
    using unsigned_less [of "IPv4Header_payload_length h"] by simp
  then have l: "unat ?l \<le> 65535" by (simp add: unsigned_ucast_eq take_bit_nat_def)
  have add: "unat (a + b :: u32) \<le> unat a + unat b" for a b
    unfolding unat_word_ariths(1) by (rule mod_less_eq_dividend)
  show ?thesis
    using half_words_bound [of "ip_src h"] half_words_bound [of "ip_dst h"] p l
      add [of "?s + ?d + ?p" ?l] add [of "?s + ?d" ?p] add [of ?s ?d]
    unfolding IPv4Header_pseudo_cksum_def Let_def by linarith
qed

text \<open>
  \<open>IPv4Datagram::parse\<close> drops the result of \<open>IPv4Header::parse\<close>: a datagram of the right length is
  accepted whatever its checksum field holds.
\<close>

lemma IPv4Datagram_ignores_checksum:
  assumes "ip_wf h" "unat (ip_len h) = 4 * unat (ip_hlen h) + length pl"
  shows "\<exists>dg. IPv4Datagram_parse old (Buffer_new (ip_bytes h @ ip_opts h @ pl)) = Inr (NoError, dg) \<and>
    dg_header dg = h \<and> BufferList_concatenate (dg_payload dg) = pl"
proof -
  let ?p = "NetParser_new (Buffer_new (ip_bytes h @ ip_opts h @ pl))"
  obtain res p where p: "IPv4Header_parse (dg_header old) ?p = Inr ((res, h), p)" "np_error p = NoError" "np_str p = pl"
    using IPv4Header_parse_bytes [of ?p h "ip_opts h" pl "dg_header old"] assms
    by (auto simp: np_returns_def NetParser_new_def ip_wf_def)
  have "unat (IPv4Header_payload_length h) = length pl"
    using payload_length_unat [OF assms(1)] assms(2) by linarith
  moreover have "BufferList_size [np_buffer p] = length pl"
  proof -
    have "unat (ip_len h) < 65536" using unsigned_less [of "ip_len h"] by simp
    then show ?thesis using assms(2) p(3) by (simp add: BufferList_size_eq)
  qed
  ultimately show ?thesis
    using p by (simp add: IPv4Datagram_parse_def BufferList_of_buffer_def Let_def)
qed

end
