(* ===== verification/Ethernet_Arp.thy ===== *)
theory Ethernet_Arp
  imports Ipv4
begin

text \<open>
  Ethernet frames and ARP messages, \<open>libsponge/tcp_helpers/ethernet_header.hh\<close>,
  \<open>ethernet_header.cc\<close>, \<open>ethernet_frame.hh\<close>, \<open>ethernet_frame.cc\<close>, \<open>arp_message.hh\<close> and
  \<open>arp_message.cc\<close>.

  An \<open>EthernetAddress\<close> is the list of its six bytes.  A parse that returns early leaves the object as
  it was, so the models take the old object.  The functions that print are in the theory
  \<open>Printing\<close>.
\<close>

section \<open>Ethernet\<close>

type_synonym ethernet_address = "byte list"

definition ETHERNET_BROADCAST :: ethernet_address where
  "ETHERNET_BROADCAST = [0xff, 0xff, 0xff, 0xff, 0xff, 0xff]"

abbreviation EthernetHeader_LENGTH :: nat where
  "EthernetHeader_LENGTH \<equiv> 14"

definition TYPE_IPv4 :: u16 where
  "TYPE_IPv4 = 0x800"

definition TYPE_ARP :: u16 where
  "TYPE_ARP = 0x806"

record ethernet_header =
  eh_dst :: ethernet_address
  eh_src :: ethernet_address
  eh_type :: u16

definition EthernetHeader_default :: ethernet_header where
  "EthernetHeader_default = \<lparr>eh_dst = replicate 6 0, eh_src = replicate 6 0, eh_type = 0\<rparr>"

definition EthernetHeader_parse ::
  "ethernet_header \<Rightarrow> net_parser \<Rightarrow> ((parse_result \<times> ethernet_header) \<times> net_parser) result" where
  "EthernetHeader_parse old p0 =
     (if Buffer_size (np_buffer p0) < EthernetHeader_LENGTH then Inr ((PacketTooShort, old), p0)
      else
        np_bind (np_repeat NetParser_u8 6) (\<lambda>dst.
        np_bind (np_repeat NetParser_u8 6) (\<lambda>src.
        np_bind NetParser_u16 (\<lambda>type p.
          Inr ((np_error p, \<lparr>eh_dst = dst, eh_src = src, eh_type = type\<rparr>), p)))) p0)"

definition EthernetHeader_serialize :: "ethernet_header \<Rightarrow> byte list" where
  "EthernetHeader_serialize h =
     (let ret = [];
          ret = foldl NetUnparser_u8 ret (eh_dst h);
          ret = foldl NetUnparser_u8 ret (eh_src h)
      in NetUnparser_u16 ret (eh_type h))"

record ethernet_frame =
  ef_header :: ethernet_header
  ef_payload :: buffer_list

definition EthernetFrame_default :: ethernet_frame where
  "EthernetFrame_default = \<lparr>ef_header = EthernetHeader_default, ef_payload = []\<rparr>"

definition EthernetFrame_parse :: "ethernet_frame \<Rightarrow> buffer \<Rightarrow> (parse_result \<times> ethernet_frame) result" where
  "EthernetFrame_parse old buffer =
     bindE (EthernetHeader_parse (ef_header old) (NetParser_new buffer)) (\<lambda>((_, header), p).
       Inr (np_error p, \<lparr>ef_header = header, ef_payload = BufferList_of_buffer (np_buffer p)\<rparr>))"

definition EthernetFrame_serialize :: "ethernet_frame \<Rightarrow> buffer_list" where
  "EthernetFrame_serialize f =
     BufferList_append (BufferList_append [] (BufferList_of_string (EthernetHeader_serialize (ef_header f))))
       (ef_payload f)"

section \<open>ARP\<close>

abbreviation ARPMessage_LENGTH :: nat where
  "ARPMessage_LENGTH \<equiv> 28"

definition TYPE_ETHERNET :: u16 where
  "TYPE_ETHERNET = 1"

definition OPCODE_REQUEST :: u16 where
  "OPCODE_REQUEST = 1"

definition OPCODE_REPLY :: u16 where
  "OPCODE_REPLY = 2"

record arp_message =
  arp_hardware_type :: u16
  arp_protocol_type :: u16
  arp_hardware_address_size :: u8
  arp_protocol_address_size :: u8
  arp_opcode :: u16
  arp_sender_ethernet_address :: ethernet_address
  arp_sender_ip_address :: u32
  arp_target_ethernet_address :: ethernet_address
  arp_target_ip_address :: u32

definition ARPMessage_default :: arp_message where
  "ARPMessage_default =
     \<lparr>arp_hardware_type = TYPE_ETHERNET, arp_protocol_type = TYPE_IPv4, arp_hardware_address_size = 6,
      arp_protocol_address_size = 4, arp_opcode = 0, arp_sender_ethernet_address = replicate 6 0,
      arp_sender_ip_address = 0, arp_target_ethernet_address = replicate 6 0, arp_target_ip_address = 0\<rparr>"

definition ARPMessage_supported :: "arp_message \<Rightarrow> bool" where
  "ARPMessage_supported m \<longleftrightarrow>
     arp_hardware_type m = TYPE_ETHERNET \<and> arp_protocol_type m = TYPE_IPv4 \<and>
     arp_hardware_address_size m = 6 \<and> arp_protocol_address_size m = 4 \<and>
     (arp_opcode m = OPCODE_REQUEST \<or> arp_opcode m = OPCODE_REPLY)"

definition ARPMessage_parse :: "arp_message \<Rightarrow> buffer \<Rightarrow> (parse_result \<times> arp_message) result" where
  "ARPMessage_parse old buffer =
     (let p0 = NetParser_new buffer
      in if Buffer_size (np_buffer p0) < ARPMessage_LENGTH then Inr (PacketTooShort, old)
         else bindE (
           np_bind NetParser_u16 (\<lambda>hardware_type.
           np_bind NetParser_u16 (\<lambda>protocol_type.
           np_bind NetParser_u8 (\<lambda>hardware_address_size.
           np_bind NetParser_u8 (\<lambda>protocol_address_size.
           np_bind NetParser_u16 (\<lambda>opcode.
             let m = old\<lparr>arp_hardware_type := hardware_type, arp_protocol_type := protocol_type,
                         arp_hardware_address_size := hardware_address_size,
                         arp_protocol_address_size := protocol_address_size, arp_opcode := opcode\<rparr>
             in if \<not> ARPMessage_supported m then (\<lambda>p. Inr ((Unsupported, m), p))
                else
                  np_bind (np_repeat NetParser_u8 6) (\<lambda>sender_ethernet_address.
                  np_bind NetParser_u32 (\<lambda>sender_ip_address.
                  np_bind (np_repeat NetParser_u8 6) (\<lambda>target_ethernet_address.
                  np_bind NetParser_u32 (\<lambda>target_ip_address p.
                    Inr ((np_error p,
                      m\<lparr>arp_sender_ethernet_address := sender_ethernet_address,
                        arp_sender_ip_address := sender_ip_address,
                        arp_target_ethernet_address := target_ethernet_address,
                        arp_target_ip_address := target_ip_address\<rparr>), p)))))))))) p0)
           (\<lambda>(res, _). Inr res))"

definition ARPMessage_serialize :: "arp_message \<Rightarrow> byte list result" where
  "ARPMessage_serialize m =
     (if \<not> ARPMessage_supported m
      then Inl (RuntimeError ''ARPMessage::serialize(): unsupported field combination'')
      else let ret = [];
               ret = NetUnparser_u16 ret (arp_hardware_type m);
               ret = NetUnparser_u16 ret (arp_protocol_type m);
               ret = NetUnparser_u8 ret (arp_hardware_address_size m);
               ret = NetUnparser_u8 ret (arp_protocol_address_size m);
               ret = NetUnparser_u16 ret (arp_opcode m);
               ret = foldl NetUnparser_u8 ret (arp_sender_ethernet_address m);
               ret = NetUnparser_u32 ret (arp_sender_ip_address m);
               ret = foldl NetUnparser_u8 ret (arp_target_ethernet_address m)
           in Inr (NetUnparser_u32 ret (arp_target_ip_address m)))"

section \<open>Round trips\<close>

lemma foldl_u8: "foldl NetUnparser_u8 s a = s @ a"
  by (induction a arbitrary: s) (auto simp: NetUnparser_u8_eq)

lemma concat_singles: "concat (map (\<lambda>v. [v]) xs) = xs"
  by (induction xs) auto

lemma address_step:
  assumes "np_error p = NoError" "np_str p = a @ rest" "length a = 6"
    and "\<And>p'. np_error p' = NoError \<Longrightarrow> np_str p' = rest \<Longrightarrow> np_returns (f a p') w rest'"
  shows "np_returns (np_bind (np_repeat NetParser_u8 6) f p) w rest'"
proof (rule np_returns_bind [where v = a])
  show "np_returns (np_repeat NetParser_u8 6 p) a rest"
    using tok8.array_returns [OF assms(1), of a rest] assms(2,3) by (simp add: concat_singles)
qed (fact assms(4))

definition eh_wf :: "ethernet_header \<Rightarrow> bool" where
  "eh_wf h \<longleftrightarrow> length (eh_dst h) = 6 \<and> length (eh_src h) = 6"

lemma EthernetHeader_serialize_eq: "EthernetHeader_serialize h = eh_dst h @ eh_src h @ be16 (eh_type h)"
  by (simp add: EthernetHeader_serialize_def foldl_u8 NetUnparser_u16_eq Let_def)

lemma EthernetHeader_parse_bytes:
  assumes "np_error p = NoError" "np_str p = EthernetHeader_serialize h @ rest" "eh_wf h"
  shows "np_returns (EthernetHeader_parse old p) (NoError, h) rest"
proof -
  have str: "np_str p = eh_dst h @ eh_src h @ be16 (eh_type h) @ rest"
    using assms(2) by (simp add: EthernetHeader_serialize_eq)
  have len: "length (eh_dst h) = 6" "length (eh_src h) = 6" using assms(3) by (simp_all add: eh_wf_def)
  have size: "\<not> length (np_str p) < EthernetHeader_LENGTH" using str len by simp
  show ?thesis
    unfolding EthernetHeader_parse_def Buffer_size_def if_not_P [OF size]
    apply (rule address_step, fact, fact str, fact len)
    apply (rule address_step, assumption, assumption, rule len)
    apply (rule tok_steps, assumption, assumption)
    apply (simp add: np_returns_def)
    done
qed

definition frame_same :: "ethernet_frame \<Rightarrow> ethernet_frame \<Rightarrow> bool" where
  "frame_same f f' \<longleftrightarrow> ef_header f' = ef_header f \<and>
     (\<exists>b. ef_payload f' = [b] \<and> Buffer_str b = BufferList_concatenate (ef_payload f))"

lemma EthernetFrame_parse_serialize:
  assumes "eh_wf (ef_header f)" "Buffer_str b = BufferList_concatenate (EthernetFrame_serialize f)"
  shows "\<exists>f'. EthernetFrame_parse old b = Inr (NoError, f') \<and> frame_same f f'"
proof -
  let ?s = "EthernetHeader_serialize (ef_header f)" and ?pl = "BufferList_concatenate (ef_payload f)"
  have "Buffer_str b = ?s @ ?pl" using assms(2) by (simp add: EthernetFrame_serialize_def)
  then have "np_returns (EthernetHeader_parse (ef_header old) (NetParser_new b)) (NoError, ef_header f) ?pl"
    using assms(1) by (intro EthernetHeader_parse_bytes) (simp_all add: NetParser_new_def)
  then show ?thesis
    by (auto simp: np_returns_def EthernetFrame_parse_def BufferList_of_buffer_def frame_same_def
        simp del: BufferList_concatenate_eq)
qed

interpretation frame: wire_format "\<lambda>f. Inr (BufferList_concatenate (EthernetFrame_serialize f))"
  "EthernetFrame_parse old" "\<lambda>f. eh_wf (ef_header f)" frame_same for old
  using EthernetFrame_parse_serialize by unfold_locales blast

text \<open>
  Round trip of an Ethernet frame: the bytes of any frame parse back, with no error, to the
  same header and the same payload.
\<close>

theorem EthernetFrame_roundtrip:
  assumes "eh_wf (ef_header f)"
  shows "\<exists>f'. EthernetFrame_parse old (Buffer_new (BufferList_concatenate (EthernetFrame_serialize f))) =
      Inr (NoError, f') \<and>
    ef_header f' = ef_header f \<and> BufferList_concatenate (ef_payload f') = BufferList_concatenate (ef_payload f)"
  using frame.roundtrip [OF assms, of old] by (auto simp: frame_same_def)

theorem EthernetFrame_roundtrip_witness:
  "\<exists>f'. EthernetFrame_parse EthernetFrame_default
      (Buffer_new (BufferList_concatenate (EthernetFrame_serialize
        \<lparr>ef_header = EthernetHeader_default\<lparr>eh_type := TYPE_ARP\<rparr>, ef_payload = [Buffer_new [7]]\<rparr>))) =
      Inr (NoError, f') \<and>
    ef_header f' = ef_header \<lparr>ef_header = EthernetHeader_default\<lparr>eh_type := TYPE_ARP\<rparr>, ef_payload = [Buffer_new [7]]\<rparr> \<and>
    BufferList_concatenate (ef_payload f') = BufferList_concatenate
      (ef_payload \<lparr>ef_header = EthernetHeader_default\<lparr>eh_type := TYPE_ARP\<rparr>, ef_payload = [Buffer_new [7]]\<rparr>)"
  by (rule EthernetFrame_roundtrip) (simp add: eh_wf_def EthernetHeader_default_def)

text \<open>
  \<open>EthernetFrame::parse\<close> drops the result of \<open>EthernetHeader::parse\<close>: a buffer too short for a header
  is accepted, with the old header and the whole buffer as payload.
\<close>

lemma EthernetFrame_accepts_short:
  assumes "length (Buffer_str b) < 14"
  shows "EthernetFrame_parse old b = Inr (NoError, \<lparr>ef_header = ef_header old, ef_payload = [b]\<rparr>)"
  using assms
  by (simp add: EthernetFrame_parse_def EthernetHeader_parse_def NetParser_new_def Buffer_size_def
      BufferList_of_buffer_def)

definition arp_wf :: "arp_message \<Rightarrow> bool" where
  "arp_wf m \<longleftrightarrow> ARPMessage_supported m \<and> length (arp_sender_ethernet_address m) = 6 \<and>
     length (arp_target_ethernet_address m) = 6"

lemma ARPMessage_serialize_eq:
  "ARPMessage_supported m \<Longrightarrow> ARPMessage_serialize m =
     Inr (be16 (arp_hardware_type m) @ be16 (arp_protocol_type m) @ [arp_hardware_address_size m] @
       [arp_protocol_address_size m] @ be16 (arp_opcode m) @ arp_sender_ethernet_address m @
       be32 (arp_sender_ip_address m) @ arp_target_ethernet_address m @ be32 (arp_target_ip_address m))"
  by (simp add: ARPMessage_serialize_def foldl_u8 write_eq_rules Let_def)

lemma ARPMessage_parse_serialize:
  assumes "arp_wf m"
  shows "\<exists>s. ARPMessage_serialize m = Inr s \<and> length s = 28 \<and>
    (\<forall>b. Buffer_str b = s \<longrightarrow> ARPMessage_parse old b = Inr (NoError, m))"
proof -
  let ?s = "be16 (arp_hardware_type m) @ be16 (arp_protocol_type m) @ [arp_hardware_address_size m] @
       [arp_protocol_address_size m] @ be16 (arp_opcode m) @ arp_sender_ethernet_address m @
       be32 (arp_sender_ip_address m) @ arp_target_ethernet_address m @ be32 (arp_target_ip_address m) @ []"
  have len: "length (arp_sender_ethernet_address m) = 6" "length (arp_target_ethernet_address m) = 6"
    "ARPMessage_supported m" using assms by (simp_all add: arp_wf_def)
  have sup: "ARPMessage_supported (old\<lparr>arp_hardware_type := arp_hardware_type m, arp_protocol_type := arp_protocol_type m,
      arp_hardware_address_size := arp_hardware_address_size m,
      arp_protocol_address_size := arp_protocol_address_size m, arp_opcode := arp_opcode m\<rparr>) = True"
    using len(3) by (simp add: ARPMessage_supported_def)
  have size: "\<not> length ?s < ARPMessage_LENGTH" "length ?s = 28" using len by simp_all
  have parse: "np_returns ((np_bind NetParser_u16 (\<lambda>hardware_type.
           np_bind NetParser_u16 (\<lambda>protocol_type.
           np_bind NetParser_u8 (\<lambda>hardware_address_size.
           np_bind NetParser_u8 (\<lambda>protocol_address_size.
           np_bind NetParser_u16 (\<lambda>opcode.
             let m = old\<lparr>arp_hardware_type := hardware_type, arp_protocol_type := protocol_type,
                         arp_hardware_address_size := hardware_address_size,
                         arp_protocol_address_size := protocol_address_size, arp_opcode := opcode\<rparr>
             in if \<not> ARPMessage_supported m then (\<lambda>p. Inr ((Unsupported, m), p))
                else
                  np_bind (np_repeat NetParser_u8 6) (\<lambda>sender_ethernet_address.
                  np_bind NetParser_u32 (\<lambda>sender_ip_address.
                  np_bind (np_repeat NetParser_u8 6) (\<lambda>target_ethernet_address.
                  np_bind NetParser_u32 (\<lambda>target_ip_address p.
                    Inr ((np_error p,
                      m\<lparr>arp_sender_ethernet_address := sender_ethernet_address,
                        arp_sender_ip_address := sender_ip_address,
                        arp_target_ethernet_address := target_ethernet_address,
                        arp_target_ip_address := target_ip_address\<rparr>), p))))))))))) q) (NoError, m) []"
    if p: "np_error q = NoError" "np_str q = ?s" for q
    unfolding Let_def
    apply (rule tok_steps, rule p, rule p)
    apply (rule tok_steps, assumption, assumption)+
    apply (simp only: sup simp_thms if_False)
    apply (rule address_step, assumption, assumption, rule len)
    apply (rule tok_steps, assumption, assumption)
    apply (rule address_step, assumption, assumption, rule len)
    apply (rule tok_steps, assumption, assumption)
    apply (simp add: np_returns_def)
    done
  have "ARPMessage_parse old b = Inr (NoError, m)" if b: "Buffer_str b = ?s" for b
  proof -
    have p: "np_error (NetParser_new b) = NoError" "np_str (NetParser_new b) = ?s"
      using b by (simp_all add: NetParser_new_def)
    show ?thesis
      using parse [OF p] size(1) unfolding ARPMessage_parse_def Let_def Buffer_size_def np_returns_def p(2) by auto
  qed
  then show ?thesis using ARPMessage_serialize_eq [OF len(3)] size(2) by auto
qed

interpretation arp: wire_format ARPMessage_serialize "ARPMessage_parse old" arp_wf "(=)" for old
  using ARPMessage_parse_serialize by unfold_locales blast

text \<open>
  Round trip of an ARP message: a supported message serialises to 28 bytes that parse back, with
  no error, to the same message.
\<close>

theorem ARPMessage_roundtrip:
  assumes "arp_wf m"
  shows "\<exists>s. ARPMessage_serialize m = Inr s \<and> length s = 28 \<and>
    ARPMessage_parse old (Buffer_new s) = Inr (NoError, m)"
  using ARPMessage_parse_serialize [OF assms, of old] by auto

theorem ARPMessage_roundtrip_witness:
  "\<exists>s. ARPMessage_serialize (ARPMessage_default\<lparr>arp_opcode := OPCODE_REPLY\<rparr>) = Inr s \<and> length s = 28 \<and>
    ARPMessage_parse ARPMessage_default (Buffer_new s) = Inr (NoError, ARPMessage_default\<lparr>arp_opcode := OPCODE_REPLY\<rparr>)"
  by (rule ARPMessage_roundtrip) (simp add: arp_wf_def ARPMessage_default_def ARPMessage_supported_def)

end
