(* ===== verification/Parser_Logic.thy ===== *)
theory Parser_Logic
  imports Ethernet_Arp
begin

text \<open>
  Total correctness of parsers.  \<open>np_always m Q\<close> says that the parser \<open>m\<close> never throws, whatever the
  input, and that the value it returns satisfies \<open>Q\<close>.  With one rule per combinator it follows that
  the parsers of the wire formats never throw, and that the fields of what they return are
  well-formed.
\<close>

section \<open>Rules\<close>

definition np_always :: "(net_parser \<Rightarrow> ('a \<times> net_parser) result) \<Rightarrow> ('a \<Rightarrow> bool) \<Rightarrow> bool" where
  "np_always m Q \<longleftrightarrow> (\<forall>p. \<exists>x p'. m p = Inr (x, p') \<and> Q x)"

lemma always_read:
  "np_always NetParser_u8 (\<lambda>_. True)" "np_always NetParser_u16 (\<lambda>_. True)" "np_always NetParser_u32 (\<lambda>_. True)"
  "np_always (NetParser_remove_prefix n) (\<lambda>_. True)"
  by (simp_all add: np_always_def np_reads)

lemma always_bind:
  assumes "np_always m P" "\<And>x. P x \<Longrightarrow> np_always (f x) Q"
  shows "np_always (np_bind m f) Q"
  using assms unfolding np_always_def np_bind_def by (metis bindE_simps(2) case_prod_conv)

lemma always_return: "(\<And>p. Q (g p)) \<Longrightarrow> np_always (\<lambda>p. Inr (g p, p)) Q"
  by (simp add: np_always_def)

lemma always_if:
  "(b \<Longrightarrow> np_always m Q) \<Longrightarrow> (\<not> b \<Longrightarrow> np_always n Q) \<Longrightarrow> np_always (if b then m else n) Q"
  by simp

lemma always_repeat:
  assumes "np_always m (\<lambda>_. True)"
  shows "np_always (np_repeat m k) (\<lambda>xs. length xs = k)"
proof (induction k)
  case (Suc k)
  have "np_always (np_bind m (\<lambda>v. np_bind (np_repeat m k) (\<lambda>vs p'. Inr (v # vs, p')))) (\<lambda>xs. length xs = Suc k)"
    by (rule always_bind [OF assms], rule always_bind [OF Suc.IH], rule always_return) simp
  then show ?case by (simp add: np_always_def)
qed (simp add: np_always_def)

lemmas always_token = always_read always_repeat [OF always_read(1)]

lemma always_run:
  assumes "np_always m P" "\<And>x. P x \<Longrightarrow> np_always (f x) Q"
  shows "\<exists>x p'. np_bind m f p = Inr (x, p') \<and> Q x"
  using always_bind [OF assms] by (simp add: np_always_def)

section \<open>The wire formats\<close>

lemma IPv4Header_parse_total: "\<exists>r p'. IPv4Header_parse old p = Inr (r, p')"
proof (cases "length (np_str p) < IPv4Header_LENGTH")
  case False
  have last: "np_always (\<lambda>p. if NetParser_error p then Inr ((np_error p, h), p)
      else if c then Inr ((BadChecksum, h), p) else Inr ((NoError, h), p)) (\<lambda>_. True)" for h c
    by (simp add: np_always_def)
  have "\<exists>r p'. IPv4Header_parse old p = Inr (r, p') \<and> True"
    unfolding IPv4Header_parse_def Let_def Buffer_size_def if_not_P [OF False]
    by (rule always_run, rule always_read)
      (rule always_bind, rule always_read | rule always_if | rule always_return | rule last | rule TrueI)+
  then show ?thesis by blast
qed (auto simp: IPv4Header_parse_def Buffer_size_def)

lemma IPv4Datagram_parse_total: "\<exists>res dg. IPv4Datagram_parse old b = Inr (res, dg)"
  using IPv4Header_parse_total [of "dg_header old" "NetParser_new b"]
  by (auto simp: IPv4Datagram_parse_def Let_def)

text \<open>An ARP message that parses without error is supported, with addresses of six bytes.\<close>

lemma always_run_result:
  assumes "np_always m P" "\<And>x. P x \<Longrightarrow> np_always (f x) (\<lambda>(a, b). R a b)"
  shows "\<exists>a b. bindE (np_bind m f p) (\<lambda>(r, _). Inr r) = Inr (a, b) \<and> R a b"
  using always_run [OF assms, where p = p] by force

lemma ARPMessage_parse_total: "\<exists>res m. ARPMessage_parse old b = Inr (res, m) \<and> (res = NoError \<longrightarrow> arp_wf m)"
proof (cases "length (Buffer_str b) < ARPMessage_LENGTH")
  case False
  then have size: "\<not> length (np_str (NetParser_new b)) < ARPMessage_LENGTH" by (simp add: NetParser_new_def)
  show ?thesis
    unfolding ARPMessage_parse_def Let_def Buffer_size_def if_not_P [OF size]
    by (rule always_run_result, rule always_read)
      (rule always_bind, rule always_token | rule always_if | rule always_return |
        simp add: arp_wf_def ARPMessage_supported_def)+
next
  case True
  then show ?thesis by (simp add: ARPMessage_parse_def Buffer_size_def NetParser_new_def)
qed

lemma EthernetFrame_parse_total:
  assumes "eh_wf (ef_header old)"
  shows "\<exists>res f. EthernetFrame_parse old b = Inr (res, f) \<and> eh_wf (ef_header f)"
proof -
  have "\<exists>r p'. EthernetHeader_parse h p = Inr (r, p') \<and> eh_wf (snd r)" if "eh_wf h" for h p
  proof (cases "length (np_str p) < EthernetHeader_LENGTH")
    case True
    then show ?thesis using that by (simp add: EthernetHeader_parse_def Buffer_size_def)
  next
    case False
    show ?thesis
      unfolding EthernetHeader_parse_def Let_def Buffer_size_def if_not_P [OF False]
      by (rule always_run, rule always_token)
        (rule always_bind, rule always_token | rule always_return | simp add: eh_wf_def)+
  qed
  from this [OF assms, of "NetParser_new b"] show ?thesis by (auto simp: EthernetFrame_parse_def Let_def)
qed

text \<open>
  C31. The parsers are total.  Whatever bytes arrive, parsing an IPv4 datagram, an ARP message or an
  Ethernet frame never throws: no read goes past the end of the buffer.  An ARP message that is
  accepted is a supported one with addresses of six bytes, and so are the addresses of a frame.
\<close>

theorem parsers_total:
  "(\<exists>res dg. IPv4Datagram_parse dg0 b = Inr (res, dg)) \<and>
   (\<exists>res m. ARPMessage_parse m0 b = Inr (res, m) \<and> (res = NoError \<longrightarrow> arp_wf m)) \<and>
   (\<exists>res f. EthernetFrame_parse EthernetFrame_default b = Inr (res, f) \<and> eh_wf (ef_header f))"
proof -
  have "eh_wf (ef_header EthernetFrame_default)"
    by (simp add: eh_wf_def EthernetFrame_default_def EthernetHeader_default_def)
  then show ?thesis
    using IPv4Datagram_parse_total ARPMessage_parse_total EthernetFrame_parse_total by blast
qed

theorem parsers_total_witness:
  "(\<exists>res dg. IPv4Datagram_parse IPv4Datagram_default (Buffer_new [0x45, 0, 0]) = Inr (res, dg)) \<and>
   (\<exists>res m. ARPMessage_parse ARPMessage_default (Buffer_new [0x45, 0, 0]) = Inr (res, m)) \<and>
   (\<exists>res f. EthernetFrame_parse EthernetFrame_default (Buffer_new [0x45, 0, 0]) = Inr (res, f) \<and> eh_wf (ef_header f))"
  using parsers_total [of IPv4Datagram_default "Buffer_new [0x45, 0, 0]" ARPMessage_default] by blast

end
