(* ===== verification/Network_Interface.thy ===== *)
theory Network_Interface
  imports Addresses Parser_Logic
begin

text \<open>
  The network interface, \<open>libsponge/network_interface.hh\<close> and \<open>network_interface.cc\<close>.

  It sends IPv4 datagrams in Ethernet frames and finds the Ethernet address of the next hop by ARP.
  Every method is a definition; the diagnostic output of the constructor is left out.
\<close>

section \<open>The class\<close>

record network_interface =
  ni_ethernet_address :: ethernet_address
  ni_ip_address :: address
  ni_frames_out :: "ethernet_frame list"
  ni_current_time :: size_t
  ni_addr_cache :: "(u32, ethernet_address \<times> size_t) std_map"
  ni_addr_request_time :: "(u32, size_t) std_map"
  ni_waiting_dgrams :: "(u32 \<times> ipv4_datagram) list"

definition NetworkInterface_new :: "ethernet_address \<Rightarrow> address \<Rightarrow> network_interface" where
  "NetworkInterface_new ethernet_address ip_address =
     \<lparr>ni_ethernet_address = ethernet_address, ni_ip_address = ip_address, ni_frames_out = [],
      ni_current_time = 0, ni_addr_cache = [], ni_addr_request_time = [], ni_waiting_dgrams = []\<rparr>"

definition NetworkInterface_make_frame ::
  "network_interface \<Rightarrow> ethernet_address \<Rightarrow> u16 \<Rightarrow> buffer_list \<Rightarrow> ethernet_frame" where
  "NetworkInterface_make_frame ni dst type payload =
     \<lparr>ef_header = EthernetHeader_default\<lparr>eh_src := ni_ethernet_address ni, eh_dst := dst, eh_type := type\<rparr>,
      ef_payload = payload\<rparr>"

text \<open>\<open>_frames_out.emplace(_make_frame(...))\<close>.\<close>

definition ni_push_frame ::
  "network_interface \<Rightarrow> ethernet_address \<Rightarrow> u16 \<Rightarrow> buffer_list \<Rightarrow> network_interface" where
  "ni_push_frame ni dst type payload =
     ni\<lparr>ni_frames_out := ni_frames_out ni @ [NetworkInterface_make_frame ni dst type payload]\<rparr>"

text \<open>The ARP request of \<open>send_datagram\<close>, sent unless the last one is at most five seconds old.\<close>

definition ni_request ::
  "network_interface \<Rightarrow> u32 \<Rightarrow> network_interface result" where
  "ni_request ni next_hop_ip =
     (let it1 = std_find next_hop_ip (ni_addr_request_time ni)
      in if it1 = None \<or> 5000 < sz_sub (ni_current_time ni) (the it1) then
           bindE (Address_ipv4_numeric (ni_ip_address ni)) (\<lambda>ip.
             let msg = ARPMessage_default\<lparr>arp_sender_ethernet_address := ni_ethernet_address ni,
                         arp_sender_ip_address := ip, arp_target_ip_address := next_hop_ip,
                         arp_opcode := OPCODE_REQUEST\<rparr>
             in bindE (ARPMessage_serialize msg) (\<lambda>s.
                let ni = ni_push_frame ni ETHERNET_BROADCAST TYPE_ARP (BufferList_of_string s)
                in Inr (ni\<lparr>ni_addr_request_time :=
                     (if it1 = None then std_insert next_hop_ip (ni_current_time ni) (ni_addr_request_time ni)
                      else std_assign next_hop_ip (ni_current_time ni) (ni_addr_request_time ni))\<rparr>)))
         else Inr ni)"

definition NetworkInterface_send_datagram ::
  "network_interface \<Rightarrow> ipv4_datagram \<Rightarrow> address \<Rightarrow> network_interface result" where
  "NetworkInterface_send_datagram ni dgram next_hop =
     bindE (Address_ipv4_numeric next_hop) (\<lambda>next_hop_ip.
       case std_find next_hop_ip (ni_addr_cache ni) of
         Some (dst, _) \<Rightarrow>
           bindE (IPv4Datagram_serialize dgram) (\<lambda>payload. Inr (ni_push_frame ni dst TYPE_IPv4 payload))
       | None \<Rightarrow>
           bindE (ni_request ni next_hop_ip) (\<lambda>ni.
             Inr (ni\<lparr>ni_waiting_dgrams := ni_waiting_dgrams ni @ [(next_hop_ip, dgram)]\<rparr>)))"

text \<open>\<open>std::map::operator[]\<close> inserts a zero value when the key is missing.\<close>

definition ni_cache_at :: "network_interface \<Rightarrow> u32 \<Rightarrow> ethernet_address \<times> network_interface" where
  "ni_cache_at ni ip =
     (case std_find ip (ni_addr_cache ni) of
        Some (a, _) \<Rightarrow> (a, ni)
      | None \<Rightarrow> (replicate 6 0, ni\<lparr>ni_addr_cache := std_insert ip (replicate 6 0, 0) (ni_addr_cache ni)\<rparr>))"

text \<open>The loop of \<open>_try_send_waiting\<close>; \<open>kept\<close> are the entries already passed.\<close>

fun try_send_loop ::
  "network_interface \<Rightarrow> u32 \<Rightarrow> (u32 \<times> ipv4_datagram) list \<Rightarrow> (u32 \<times> ipv4_datagram) list \<Rightarrow> network_interface result" where
  "try_send_loop ni new_ip kept [] = Inr (ni\<lparr>ni_waiting_dgrams := kept\<rparr>)"
| "try_send_loop ni new_ip kept ((ip, dgram) # rest) =
     (if ip = new_ip then
        let (dst, ni) = ni_cache_at ni new_ip
        in bindE (IPv4Datagram_serialize dgram) (\<lambda>payload.
             try_send_loop (ni_push_frame ni dst TYPE_IPv4 payload) new_ip kept rest)
      else try_send_loop ni new_ip (kept @ [(ip, dgram)]) rest)"

definition NetworkInterface_try_send_waiting :: "network_interface \<Rightarrow> u32 \<Rightarrow> network_interface result" where
  "NetworkInterface_try_send_waiting ni new_ip = try_send_loop ni new_ip [] (ni_waiting_dgrams ni)"

text \<open>The mapping that \<open>recv_frame\<close> learns from the sender fields of an ARP message.\<close>

definition ni_learn :: "network_interface \<Rightarrow> arp_message \<Rightarrow> network_interface" where
  "ni_learn ni msg =
     (let ip = arp_sender_ip_address msg;
          entry = (arp_sender_ethernet_address msg, ni_current_time ni);
          cache = ni_addr_cache ni;
          requests = ni_addr_request_time ni
      in ni\<lparr>ni_addr_cache := (if std_find ip cache \<noteq> None then std_assign ip entry cache else std_insert ip entry cache),
            ni_addr_request_time := (if std_find ip requests \<noteq> None then std_erase ip requests else requests)\<rparr>)"

text \<open>The reply, sent when the message is a request for this interface.\<close>

definition ni_reply :: "network_interface \<Rightarrow> arp_message \<Rightarrow> network_interface result" where
  "ni_reply ni msg =
     (if arp_opcode msg = OPCODE_REQUEST then
        bindE (Address_ipv4_numeric (ni_ip_address ni)) (\<lambda>ip.
          if arp_target_ip_address msg = ip then
            let reply_msg = ARPMessage_default\<lparr>arp_sender_ethernet_address := ni_ethernet_address ni,
                  arp_sender_ip_address := ip, arp_target_ethernet_address := arp_sender_ethernet_address msg,
                  arp_target_ip_address := arp_sender_ip_address msg, arp_opcode := OPCODE_REPLY\<rparr>
            in bindE (ARPMessage_serialize reply_msg) (\<lambda>s.
                 Inr (ni_push_frame ni (arp_sender_ethernet_address msg) TYPE_ARP (BufferList_of_string s)))
          else Inr ni)
      else Inr ni)"

definition NetworkInterface_recv_frame ::
  "network_interface \<Rightarrow> ethernet_frame \<Rightarrow> (ipv4_datagram option \<times> network_interface) result" where
  "NetworkInterface_recv_frame ni frame =
     (let header = ef_header frame
      in if eh_dst header = ni_ethernet_address ni \<or> eh_dst header = ETHERNET_BROADCAST then
           if eh_type header = TYPE_IPv4 then
             bindE (BufferList_to_buffer (ef_payload frame)) (\<lambda>b.
             bindE (IPv4Datagram_parse IPv4Datagram_default b) (\<lambda>(res, dgram).
               Inr (if res = NoError then Some dgram else None, ni)))
           else if eh_type header = TYPE_ARP then
             bindE (BufferList_to_buffer (ef_payload frame)) (\<lambda>b.
             bindE (ARPMessage_parse ARPMessage_default b) (\<lambda>(res, msg).
               if res = NoError then
                 bindE (NetworkInterface_try_send_waiting (ni_learn ni msg) (arp_sender_ip_address msg)) (\<lambda>ni.
                 bindE (ni_reply ni msg) (\<lambda>ni. Inr (None, ni)))
               else Inr (None, ni)))
           else Inr (None, ni)
         else Inr (None, ni))"

text \<open>The loop over the cache keeps the entries that are at most 30 seconds old.\<close>

fun remove_expired_loop ::
  "size_t \<Rightarrow> (u32, ethernet_address \<times> size_t) std_map \<Rightarrow> (u32, ethernet_address \<times> size_t) std_map" where
  "remove_expired_loop now [] = []"
| "remove_expired_loop now (e # cache) =
     (if 30000 < sz_sub now (snd (snd e)) then remove_expired_loop now cache else e # remove_expired_loop now cache)"

definition NetworkInterface_remove_expired_cache :: "network_interface \<Rightarrow> network_interface" where
  "NetworkInterface_remove_expired_cache ni =
     ni\<lparr>ni_addr_cache := remove_expired_loop (ni_current_time ni) (ni_addr_cache ni)\<rparr>"

definition NetworkInterface_tick :: "network_interface \<Rightarrow> size_t \<Rightarrow> network_interface" where
  "NetworkInterface_tick ni ms_since_last_tick =
     NetworkInterface_remove_expired_cache
       (ni\<lparr>ni_current_time := sz_add (ni_current_time ni) ms_since_last_tick\<rparr>)"

section \<open>The invariant\<close>

definition ni_inv :: "u32 \<Rightarrow> network_interface \<Rightarrow> bool" where
  "ni_inv ip ni \<longleftrightarrow>
     length (ni_ethernet_address ni) = 6 \<and> (\<exists>port. ni_ip_address ni = ipv4_address ip port) \<and>
     std_sorted (ni_addr_cache ni) \<and> std_sorted (ni_addr_request_time ni) \<and>
     (\<forall>k a t. std_find k (ni_addr_cache ni) = Some (a, t) \<longrightarrow>
        length a = 6 \<and> t \<le> ni_current_time ni \<and> ni_current_time ni - t \<le> 30000) \<and>
     (\<forall>k t. std_find k (ni_addr_request_time ni) = Some t \<longrightarrow> t \<le> ni_current_time ni) \<and>
     ni_current_time ni < size_mod \<and>
     (\<forall>(k, dg) \<in> set (ni_waiting_dgrams ni). dg_wf dg \<and> std_find k (ni_addr_cache ni) = None) \<and>
     (\<forall>f \<in> set (ni_frames_out ni). eh_wf (ef_header f))"

lemma ni_inv_new:
  "length a = 6 \<Longrightarrow> ni_inv ip (NetworkInterface_new a (ipv4_address ip port))"
  by (auto simp: ni_inv_def NetworkInterface_new_def)

text \<open>What the two serialisers produce for well-formed messages.\<close>

definition dg_ser :: "ipv4_datagram \<Rightarrow> buffer_list" where
  "dg_ser dg = (case IPv4Datagram_serialize dg of Inr pl \<Rightarrow> pl | Inl _ \<Rightarrow> [])"

definition arp_ser :: "arp_message \<Rightarrow> byte list" where
  "arp_ser m = (case ARPMessage_serialize m of Inr s \<Rightarrow> s | Inl _ \<Rightarrow> [])"

lemma dg_ser: "dg_wf dg \<Longrightarrow> IPv4Datagram_serialize dg = Inr (dg_ser dg)"
  using IPv4Datagram_parse_serialize [of dg IPv4Datagram_default] by (auto simp: dg_ser_def)

lemma arp_ser: "arp_wf m \<Longrightarrow> ARPMessage_serialize m = Inr (arp_ser m)"
  using ARPMessage_parse_serialize [of m ARPMessage_default] by (auto simp: arp_ser_def)

lemma push_frame_simps [simp]:
  "ni_frames_out (ni_push_frame ni dst type pl) = ni_frames_out ni @ [NetworkInterface_make_frame ni dst type pl]"
  "ni_ethernet_address (ni_push_frame ni dst type pl) = ni_ethernet_address ni"
  "ni_ip_address (ni_push_frame ni dst type pl) = ni_ip_address ni"
  "ni_current_time (ni_push_frame ni dst type pl) = ni_current_time ni"
  "ni_addr_cache (ni_push_frame ni dst type pl) = ni_addr_cache ni"
  "ni_addr_request_time (ni_push_frame ni dst type pl) = ni_addr_request_time ni"
  "ni_waiting_dgrams (ni_push_frame ni dst type pl) = ni_waiting_dgrams ni"
  by (simp_all add: ni_push_frame_def)

lemma make_frame_wf [simp]:
  "length (ni_ethernet_address ni) = 6 \<Longrightarrow> length dst = 6 \<Longrightarrow> eh_wf (ef_header (NetworkInterface_make_frame ni dst type pl))"
  by (simp add: NetworkInterface_make_frame_def eh_wf_def)

lemma broadcast_length [simp]: "length ETHERNET_BROADCAST = 6"
  by (simp add: ETHERNET_BROADCAST_def)

lemma ni_invD:
  assumes "ni_inv ip ni"
  shows "length (ni_ethernet_address ni) = 6" "\<exists>port. ni_ip_address ni = ipv4_address ip port"
    "std_sorted (ni_addr_cache ni)" "std_sorted (ni_addr_request_time ni)" "ni_current_time ni < size_mod"
    "\<And>k a t. std_find k (ni_addr_cache ni) = Some (a, t) \<Longrightarrow>
       length a = 6 \<and> t \<le> ni_current_time ni \<and> ni_current_time ni - t \<le> 30000"
    "\<And>k t. std_find k (ni_addr_request_time ni) = Some t \<Longrightarrow> t \<le> ni_current_time ni"
    "\<And>k dg. (k, dg) \<in> set (ni_waiting_dgrams ni) \<Longrightarrow> dg_wf dg \<and> std_find k (ni_addr_cache ni) = None"
    "\<And>f. f \<in> set (ni_frames_out ni) \<Longrightarrow> eh_wf (ef_header f)"
  using assms unfolding ni_inv_def by auto

section \<open>Sending\<close>

text \<open>Is a new ARP request due?\<close>

definition ni_due :: "network_interface \<Rightarrow> u32 \<Rightarrow> bool" where
  "ni_due ni k \<longleftrightarrow> (\<forall>t. std_find k (ni_addr_request_time ni) = Some t \<longrightarrow> 5000 < ni_current_time ni - t)"

definition arp_request :: "network_interface \<Rightarrow> u32 \<Rightarrow> u32 \<Rightarrow> arp_message" where
  "arp_request ni ip k =
     ARPMessage_default\<lparr>arp_sender_ethernet_address := ni_ethernet_address ni, arp_sender_ip_address := ip,
       arp_target_ip_address := k, arp_opcode := OPCODE_REQUEST\<rparr>"

lemma arp_request_wf: "length (ni_ethernet_address ni) = 6 \<Longrightarrow> arp_wf (arp_request ni ip k)"
  by (simp add: arp_wf_def arp_request_def ARPMessage_default_def ARPMessage_supported_def OPCODE_REQUEST_def)

abbreviation request_frame :: "network_interface \<Rightarrow> u32 \<Rightarrow> u32 \<Rightarrow> ethernet_frame" where
  "request_frame ni ip k \<equiv>
     NetworkInterface_make_frame ni ETHERNET_BROADCAST TYPE_ARP [Buffer_new (arp_ser (arp_request ni ip k))]"

lemma request_eq:
  assumes "ni_inv ip ni"
  shows "\<exists>requests. ni_request ni k =
      Inr (if ni_due ni k
           then ni\<lparr>ni_frames_out := ni_frames_out ni @ [request_frame ni ip k], ni_addr_request_time := requests\<rparr>
           else ni) \<and> std_sorted requests \<and>
    (\<forall>k'. std_find k' requests = (if k' = k then Some (ni_current_time ni) else std_find k' (ni_addr_request_time ni)))"
proof -
  note inv = ni_invD [OF assms]
  let ?m = "ni_addr_request_time ni" and ?now = "ni_current_time ni"
  let ?r = "if std_find k ?m = None then std_insert k ?now ?m else std_assign k ?now ?m"
  have due: "(std_find k ?m = None \<or> 5000 < sz_sub ?now (the (std_find k ?m))) \<longleftrightarrow> ni_due ni k"
    using inv(5) inv(7) [of k] by (cases "std_find k ?m") (auto simp: ni_due_def sz_sub_small)
  have ser: "ARPMessage_serialize (arp_request ni ip k) = Inr (arp_ser (arp_request ni ip k))"
    using arp_ser arp_request_wf inv(1) by blast
  have "std_sorted ?r" using inv(4) by (simp add: std_insert_sorted std_assign_sorted)
  moreover have "std_find k' ?r = (if k' = k then Some ?now else std_find k' ?m)" for k'
    using alist.find_put [OF inv(4), of k' k ?now] by (simp split: if_splits)
  moreover have "ni_request ni k =
      Inr (if ni_due ni k
           then ni\<lparr>ni_frames_out := ni_frames_out ni @ [request_frame ni ip k], ni_addr_request_time := ?r\<rparr> else ni)"
    using due ser inv(2) unfolding ni_request_def Let_def
    by (auto simp: arp_request_def ni_push_frame_def)
  ultimately show ?thesis by blast
qed

text \<open>What sending a datagram to \<open>k\<close> does.\<close>

definition ni_sends :: "u32 \<Rightarrow> network_interface \<Rightarrow> u32 \<Rightarrow> ipv4_datagram \<Rightarrow> network_interface \<Rightarrow> bool" where
  "ni_sends ip ni k dg ni' \<longleftrightarrow>
    (case std_find k (ni_addr_cache ni) of
       Some (a, t) \<Rightarrow>
         ni_frames_out ni' = ni_frames_out ni @ [NetworkInterface_make_frame ni a TYPE_IPv4 (dg_ser dg)] \<and>
         ni_waiting_dgrams ni' = ni_waiting_dgrams ni \<and> ni_addr_request_time ni' = ni_addr_request_time ni
     | None \<Rightarrow>
         ni_frames_out ni' = ni_frames_out ni @ (if ni_due ni k then [request_frame ni ip k] else []) \<and>
         ni_waiting_dgrams ni' = ni_waiting_dgrams ni @ [(k, dg)] \<and>
         (\<forall>k'. std_find k' (ni_addr_request_time ni') =
            (if k' = k \<and> ni_due ni k then Some (ni_current_time ni) else std_find k' (ni_addr_request_time ni))))"

lemma send_datagram_ok:
  assumes "ni_inv ip ni" "dg_wf dg"
  shows "\<exists>ni'. NetworkInterface_send_datagram ni dg (ipv4_address k port) = Inr ni' \<and> ni_inv ip ni' \<and>
    ni_addr_cache ni' = ni_addr_cache ni \<and> ni_current_time ni' = ni_current_time ni \<and>
    ni_ethernet_address ni' = ni_ethernet_address ni \<and>
    ni_sends ip ni k dg ni'"
proof (cases "std_find k (ni_addr_cache ni)")
  case (Some e)
  obtain a t where e: "e = (a, t)" by (cases e)
  let ?ni = "ni_push_frame ni a TYPE_IPv4 (dg_ser dg)"
  have a: "length a = 6" using ni_invD(6) [OF assms(1)] Some e by blast
  have inv: "ni_inv ip ?ni" using assms(1) a ni_invD(1) [OF assms(1)] unfolding ni_inv_def by auto
  have "NetworkInterface_send_datagram ni dg (ipv4_address k port) = Inr ?ni"
    using Some e dg_ser [OF assms(2)] by (simp add: NetworkInterface_send_datagram_def)
  then show ?thesis using Some e inv by (intro exI [of _ ?ni]) (simp add: ni_sends_def)
next
  case None
  note inv = ni_invD [OF assms(1)]
  obtain requests where r: "ni_request ni k =
      Inr (if ni_due ni k
           then ni\<lparr>ni_frames_out := ni_frames_out ni @ [request_frame ni ip k], ni_addr_request_time := requests\<rparr>
           else ni)" "std_sorted requests"
    "\<And>k'. std_find k' requests = (if k' = k then Some (ni_current_time ni) else std_find k' (ni_addr_request_time ni))"
    using request_eq [OF assms(1), of k] by blast
  let ?ni = "(if ni_due ni k
      then ni\<lparr>ni_frames_out := ni_frames_out ni @ [request_frame ni ip k], ni_addr_request_time := requests\<rparr>
      else ni)\<lparr>ni_waiting_dgrams := ni_waiting_dgrams ni @ [(k, dg)]\<rparr>"
  have send: "NetworkInterface_send_datagram ni dg (ipv4_address k port) = Inr ?ni"
    using None r(1) by (simp add: NetworkInterface_send_datagram_def)
  have "ni_inv ip ?ni"
  proof (cases "ni_due ni k")
    case True
    then show ?thesis using assms None inv(1) r(2,3) unfolding ni_inv_def by auto
  next
    case False
    then show ?thesis using assms None unfolding ni_inv_def by auto
  qed
  then show ?thesis using send None r(3) by (intro exI [of _ ?ni]) (simp add: ni_sends_def)
qed

text \<open>
  Sending a datagram.  In an interface that satisfies its invariant, sending a well-formed
  datagram never fails.  If the Ethernet address of the next hop is known, exactly one frame goes out,
  to that address, with the serialised datagram.  Otherwise the datagram is queued, and an ARP request
  is broadcast exactly when none was sent for this address in the last five seconds; the time of the
  request is remembered.
\<close>

theorem send_datagram_spec:
  assumes "ni_inv ip ni" "dg_wf dg"
  shows "\<exists>ni'. NetworkInterface_send_datagram ni dg (ipv4_address k port) = Inr ni' \<and> ni_inv ip ni' \<and>
    ni_addr_cache ni' = ni_addr_cache ni \<and> ni_current_time ni' = ni_current_time ni \<and>
    ni_ethernet_address ni' = ni_ethernet_address ni \<and>
    (case std_find k (ni_addr_cache ni) of
       Some (a, t) \<Rightarrow>
         ni_frames_out ni' = ni_frames_out ni @ [NetworkInterface_make_frame ni a TYPE_IPv4 (dg_ser dg)] \<and>
         ni_waiting_dgrams ni' = ni_waiting_dgrams ni \<and> ni_addr_request_time ni' = ni_addr_request_time ni
     | None \<Rightarrow>
         ni_frames_out ni' = ni_frames_out ni @ (if ni_due ni k then [request_frame ni ip k] else []) \<and>
         ni_waiting_dgrams ni' = ni_waiting_dgrams ni @ [(k, dg)] \<and>
         (\<forall>k'. std_find k' (ni_addr_request_time ni') =
            (if k' = k \<and> ni_due ni k then Some (ni_current_time ni) else std_find k' (ni_addr_request_time ni))))"
  using send_datagram_ok [OF assms, of k port] unfolding ni_sends_def .

end
