(* ===== verification/Interface_Runs.thy ===== *)
theory Interface_Runs
  imports Network_Interface
begin

text \<open>
  Receiving frames, the passage of time and runs of the network interface, and the ARP exchange
  between two interfaces on one link.
\<close>

section \<open>Learning a mapping\<close>

lemma learn_simps [simp]:
  "ni_ethernet_address (ni_learn ni msg) = ni_ethernet_address ni"
  "ni_ip_address (ni_learn ni msg) = ni_ip_address ni"
  "ni_frames_out (ni_learn ni msg) = ni_frames_out ni"
  "ni_current_time (ni_learn ni msg) = ni_current_time ni"
  "ni_waiting_dgrams (ni_learn ni msg) = ni_waiting_dgrams ni"
  by (simp_all add: ni_learn_def Let_def)

lemma learn_cache:
  assumes "std_sorted (ni_addr_cache ni)"
  shows "std_sorted (ni_addr_cache (ni_learn ni msg))"
    and "std_find k (ni_addr_cache (ni_learn ni msg)) =
      (if k = arp_sender_ip_address msg then Some (arp_sender_ethernet_address msg, ni_current_time ni)
       else std_find k (ni_addr_cache ni))"
  using alist.invar_put [OF assms] alist.find_put [OF assms] by (simp_all add: ni_learn_def Let_def)

lemma learn_requests:
  assumes "std_sorted (ni_addr_request_time ni)"
  shows "std_sorted (ni_addr_request_time (ni_learn ni msg))"
    and "std_find k (ni_addr_request_time (ni_learn ni msg)) =
      (if k = arp_sender_ip_address msg then None else std_find k (ni_addr_request_time ni))"
  using assms by (auto simp: ni_learn_def Let_def std_erase_sorted std_find_erase)

text \<open>The waiting datagrams for the new address go out in the order they were queued.\<close>

lemma try_send_loop_eq:
  assumes "std_find k (ni_addr_cache ni) = Some (a, t)" "\<forall>(k', dg) \<in> set rest. dg_wf dg"
  shows "try_send_loop ni k kept rest =
    Inr (ni\<lparr>ni_frames_out := ni_frames_out ni @
            map (\<lambda>(_, dg). NetworkInterface_make_frame ni a TYPE_IPv4 (dg_ser dg)) (filter (\<lambda>e. fst e = k) rest),
          ni_waiting_dgrams := kept @ filter (\<lambda>e. fst e \<noteq> k) rest\<rparr>)"
  using assms
proof (induction ni k kept rest rule: try_send_loop.induct)
  case (2 ni new_ip kept ip dgram rest)
  show ?case
  proof (cases "ip = new_ip")
    case True
    have at: "ni_cache_at ni new_ip = (a, ni)" using 2(3) by (simp add: ni_cache_at_def)
    have ser: "IPv4Datagram_serialize dgram = Inr (dg_ser dgram)" using 2(4) by (simp add: dg_ser)
    have "try_send_loop (ni_push_frame ni a TYPE_IPv4 (dg_ser dgram)) new_ip kept rest =
      Inr ((ni_push_frame ni a TYPE_IPv4 (dg_ser dgram))\<lparr>ni_frames_out := ni_frames_out (ni_push_frame ni a TYPE_IPv4 (dg_ser dgram)) @
            map (\<lambda>(_, dg). NetworkInterface_make_frame (ni_push_frame ni a TYPE_IPv4 (dg_ser dgram)) a TYPE_IPv4 (dg_ser dg))
              (filter (\<lambda>e. fst e = new_ip) rest),
          ni_waiting_dgrams := kept @ filter (\<lambda>e. fst e \<noteq> new_ip) rest\<rparr>)"
      by (rule 2(1) [OF True at [symmetric] refl]) (use 2(3,4) ser in auto)
    then show ?thesis
      using True at ser by (simp add: ni_push_frame_def NetworkInterface_make_frame_def)
  next
    case False
    then show ?thesis using 2(2) [OF False] 2(3,4) by simp
  qed
qed simp

definition arp_reply :: "network_interface \<Rightarrow> u32 \<Rightarrow> arp_message \<Rightarrow> arp_message" where
  "arp_reply ni ip msg =
     ARPMessage_default\<lparr>arp_sender_ethernet_address := ni_ethernet_address ni, arp_sender_ip_address := ip,
       arp_target_ethernet_address := arp_sender_ethernet_address msg,
       arp_target_ip_address := arp_sender_ip_address msg, arp_opcode := OPCODE_REPLY\<rparr>"

lemma arp_reply_wf: "length (ni_ethernet_address ni) = 6 \<Longrightarrow> arp_wf msg \<Longrightarrow> arp_wf (arp_reply ni ip msg)"
  by (simp add: arp_wf_def arp_reply_def ARPMessage_default_def ARPMessage_supported_def OPCODE_REPLY_def)

definition reply_frames :: "network_interface \<Rightarrow> u32 \<Rightarrow> arp_message \<Rightarrow> ethernet_frame list" where
  "reply_frames ni ip msg =
     (if arp_opcode msg = OPCODE_REQUEST \<and> arp_target_ip_address msg = ip
      then [NetworkInterface_make_frame ni (arp_sender_ethernet_address msg) TYPE_ARP
              [Buffer_new (arp_ser (arp_reply ni ip msg))]]
      else [])"

lemma reply_eq:
  assumes "ni_ip_address ni = ipv4_address ip port" "length (ni_ethernet_address ni) = 6" "arp_wf msg"
  shows "ni_reply ni msg = Inr (ni\<lparr>ni_frames_out := ni_frames_out ni @ reply_frames ni ip msg\<rparr>)"
proof -
  have "ARPMessage_serialize (arp_reply ni ip msg) = Inr (arp_ser (arp_reply ni ip msg))"
    using arp_ser arp_reply_wf assms(2,3) by blast
  then show ?thesis
    using assms(1) by (simp add: ni_reply_def arp_reply_def reply_frames_def ni_push_frame_def Let_def)
qed

text \<open>What an ARP message does to the interface.\<close>

definition ni_learned :: "u32 \<Rightarrow> network_interface \<Rightarrow> arp_message \<Rightarrow> network_interface \<Rightarrow> bool" where
  "ni_learned ip ni msg ni' \<longleftrightarrow>
     (let k = arp_sender_ip_address msg; a = arp_sender_ethernet_address msg
      in ni_current_time ni' = ni_current_time ni \<and>
         ni_ethernet_address ni' = ni_ethernet_address ni \<and>
         (\<forall>k'. std_find k' (ni_addr_cache ni') =
            (if k' = k then Some (a, ni_current_time ni) else std_find k' (ni_addr_cache ni))) \<and>
         (\<forall>k'. std_find k' (ni_addr_request_time ni') =
            (if k' = k then None else std_find k' (ni_addr_request_time ni))) \<and>
         ni_waiting_dgrams ni' = filter (\<lambda>e. fst e \<noteq> k) (ni_waiting_dgrams ni) \<and>
         ni_frames_out ni' = ni_frames_out ni @
           map (\<lambda>(_, dg). NetworkInterface_make_frame ni a TYPE_IPv4 (dg_ser dg))
             (filter (\<lambda>e. fst e = k) (ni_waiting_dgrams ni)) @
           reply_frames ni ip msg)"

lemma learn_ok:
  assumes inv: "ni_inv ip ni" and msg: "arp_wf msg"
  shows "\<exists>ni'. bindE (NetworkInterface_try_send_waiting (ni_learn ni msg) (arp_sender_ip_address msg))
      (\<lambda>ni. ni_reply ni msg) = Inr ni' \<and> ni_inv ip ni' \<and> ni_learned ip ni msg ni'"
proof -
  note i = ni_invD [OF inv]
  note cache = learn_cache [OF i(3), where msg = msg] and req = learn_requests [OF i(4), where msg = msg]
  obtain port where port: "ni_ip_address ni = ipv4_address ip port" using i(2) by blast
  let ?k = "arp_sender_ip_address msg" and ?a = "arp_sender_ethernet_address msg" and ?l = "ni_learn ni msg"
  let ?out = "map (\<lambda>(_, dg). NetworkInterface_make_frame ?l ?a TYPE_IPv4 (dg_ser dg))
      (filter (\<lambda>e. fst e = ?k) (ni_waiting_dgrams ni))"
  let ?n = "?l\<lparr>ni_frames_out := ni_frames_out ni @ ?out, ni_waiting_dgrams := filter (\<lambda>e. fst e \<noteq> ?k) (ni_waiting_dgrams ni)\<rparr>"
  have send: "NetworkInterface_try_send_waiting ?l ?k = Inr ?n"
    using try_send_loop_eq [of ?k ?l ?a "ni_current_time ni" "ni_waiting_dgrams ni" "[]"] cache(2) i(8)
    by (auto simp: NetworkInterface_try_send_waiting_def)
  have frame: "NetworkInterface_make_frame ?l = NetworkInterface_make_frame ni"
    "reply_frames ?n ip msg = reply_frames ni ip msg"
    by (auto simp: NetworkInterface_make_frame_def reply_frames_def arp_reply_def fun_eq_iff)
  let ?ni' = "?n\<lparr>ni_frames_out := ni_frames_out ?n @ reply_frames ni ip msg\<rparr>"
  have reply: "ni_reply ?n msg = Inr ?ni'"
    using reply_eq [of ?n ip port msg] port i(1) msg frame(2) by simp
  have a: "length ?a = 6" using msg by (simp add: arp_wf_def)
  have "ni_learned ip ni msg ?ni'" using cache req frame by (simp add: ni_learned_def Let_def)
  moreover have "ni_inv ip ?ni'"
    unfolding ni_inv_def
  proof (intro conjI)
    show "\<forall>(k, dg) \<in> set (ni_waiting_dgrams ?ni'). dg_wf dg \<and> std_find k (ni_addr_cache ?ni') = None"
      using i(8) cache(2) by auto
    show "\<forall>f \<in> set (ni_frames_out ?ni'). eh_wf (ef_header f)"
      using i(1,9) a frame(1) by (auto simp: reply_frames_def)
    show "\<forall>k a t. std_find k (ni_addr_cache ?ni') = Some (a, t) \<longrightarrow>
        length a = 6 \<and> t \<le> ni_current_time ?ni' \<and> ni_current_time ?ni' - t \<le> 30000"
      using i(6) cache(2) a by (auto split: if_splits)
    show "\<forall>k t. std_find k (ni_addr_request_time ?ni') = Some t \<longrightarrow> t \<le> ni_current_time ?ni'"
      using i(7) req(2) by (auto split: if_splits)
  qed (use i port cache(1) req(1) in auto)
  ultimately show ?thesis using send reply by simp
qed

section \<open>Receiving\<close>

definition ni_accepts :: "network_interface \<Rightarrow> ethernet_frame \<Rightarrow> bool" where
  "ni_accepts ni f \<longleftrightarrow> eh_dst (ef_header f) = ni_ethernet_address ni \<or> eh_dst (ef_header f) = ETHERNET_BROADCAST"

lemma types_neq [simp]: "TYPE_ARP \<noteq> TYPE_IPv4" "TYPE_IPv4 \<noteq> TYPE_ARP"
  by (simp_all add: TYPE_ARP_def TYPE_IPv4_def)

lemma recv_ipv4:
  assumes "ni_accepts ni f" "eh_type (ef_header f) = TYPE_IPv4" "ef_payload f = [b]"
    and "IPv4Datagram_parse IPv4Datagram_default b = Inr (res, dg)"
  shows "NetworkInterface_recv_frame ni f = Inr (if res = NoError then Some dg else None, ni)"
  using assms by (auto simp: NetworkInterface_recv_frame_def ni_accepts_def BufferList_to_buffer_def Let_def)

lemma recv_arp:
  assumes "ni_inv ip ni" "ni_accepts ni f" "eh_type (ef_header f) = TYPE_ARP" "ef_payload f = [b]"
    and "ARPMessage_parse ARPMessage_default b = Inr (NoError, msg)"
  shows "\<exists>ni'. NetworkInterface_recv_frame ni f = Inr (None, ni') \<and> ni_inv ip ni' \<and> ni_learned ip ni msg ni'"
proof -
  have "arp_wf msg" using ARPMessage_parse_total [of ARPMessage_default b] assms(5) by auto
  from learn_ok [OF assms(1) this] obtain ni' where
    l: "bindE (NetworkInterface_try_send_waiting (ni_learn ni msg) (arp_sender_ip_address msg)) (\<lambda>ni. ni_reply ni msg) = Inr ni'"
    "ni_inv ip ni'" "ni_learned ip ni msg ni'" by metis
  then obtain ni1 where "NetworkInterface_try_send_waiting (ni_learn ni msg) (arp_sender_ip_address msg) = Inr ni1"
    "ni_reply ni1 msg = Inr ni'" by blast
  then have "NetworkInterface_recv_frame ni f = Inr (None, ni')"
    using assms(2-5) by (auto simp: NetworkInterface_recv_frame_def ni_accepts_def BufferList_to_buffer_def Let_def)
  then show ?thesis using l(2,3) by blast
qed

text \<open>
  C33. Receiving an ARP message.  When an ARP message addressed to the interface (or broadcast)
  arrives, the mapping of its sender is recorded with the current time, the pending request for it is
  forgotten, all datagrams that waited for this address go out at once and in order to the learned
  Ethernet address while the others keep waiting, and a reply follows exactly when the message is a
  request for the address of the interface.
\<close>

theorem recv_arp_spec:
  assumes "ni_inv ip ni" "ni_accepts ni f" "eh_type (ef_header f) = TYPE_ARP" "ef_payload f = [b]"
    and "ARPMessage_parse ARPMessage_default b = Inr (NoError, msg)"
  shows "\<exists>ni'. NetworkInterface_recv_frame ni f = Inr (None, ni') \<and> ni_inv ip ni' \<and>
    (\<forall>k. std_find k (ni_addr_cache ni') =
       (if k = arp_sender_ip_address msg then Some (arp_sender_ethernet_address msg, ni_current_time ni)
        else std_find k (ni_addr_cache ni))) \<and>
    (\<forall>k. std_find k (ni_addr_request_time ni') =
       (if k = arp_sender_ip_address msg then None else std_find k (ni_addr_request_time ni))) \<and>
    ni_waiting_dgrams ni' = filter (\<lambda>e. fst e \<noteq> arp_sender_ip_address msg) (ni_waiting_dgrams ni) \<and>
    ni_frames_out ni' = ni_frames_out ni @
      map (\<lambda>(_, dg). NetworkInterface_make_frame ni (arp_sender_ethernet_address msg) TYPE_IPv4 (dg_ser dg))
        (filter (\<lambda>e. fst e = arp_sender_ip_address msg) (ni_waiting_dgrams ni)) @
      reply_frames ni ip msg"
  using recv_arp [OF assms] unfolding ni_learned_def Let_def by blast

text \<open>No frame makes the interface fail, except one whose payload is in several buffers.\<close>

lemma recv_ok:
  assumes "ni_inv ip ni" "length (ef_payload f) \<le> 1"
  shows "\<exists>d ni'. NetworkInterface_recv_frame ni f = Inr (d, ni') \<and> ni_inv ip ni'"
proof (cases "ni_accepts ni f \<and> eh_type (ef_header f) \<in> {TYPE_IPv4, TYPE_ARP}")
  case True
  obtain b where b: "BufferList_to_buffer (ef_payload f) = Inr b"
    using assms(2) by (cases "ef_payload f") (auto simp: BufferList_to_buffer_def)
  let ?f = "f\<lparr>ef_payload := [b]\<rparr>"
  have eq: "NetworkInterface_recv_frame ni f = NetworkInterface_recv_frame ni ?f"
    using b by (simp add: NetworkInterface_recv_frame_def Let_def) (simp add: BufferList_to_buffer_def)
  obtain res dg where dg: "IPv4Datagram_parse IPv4Datagram_default b = Inr (res, dg)"
    using IPv4Datagram_parse_total by blast
  obtain res' msg where msg: "ARPMessage_parse ARPMessage_default b = Inr (res', msg)"
    using ARPMessage_parse_total by blast
  have acc: "ni_accepts ni ?f" using True by (simp add: ni_accepts_def)
  show ?thesis
  proof (cases "eh_type (ef_header f) = TYPE_IPv4")
    case True
    then show ?thesis using recv_ipv4 [OF acc _ _ dg] eq assms(1) by simp
  next
    case False
    then have type: "eh_type (ef_header f) = TYPE_ARP" using True by simp
    show ?thesis
    proof (cases "res' = NoError")
      case True
      then show ?thesis using recv_arp [OF assms(1) acc _ _ msg [unfolded True]] type eq by auto
    next
      case False
      then show ?thesis
        using acc type msg assms(1) unfolding eq
        by (auto simp: NetworkInterface_recv_frame_def ni_accepts_def BufferList_to_buffer_def Let_def)
    qed
  qed
next
  case False
  then show ?thesis using assms(1) by (auto simp: NetworkInterface_recv_frame_def ni_accepts_def Let_def)
qed

section \<open>Time\<close>

lemma remove_expired_eq: "remove_expired_loop now m = filter (\<lambda>e. \<not> 30000 < sz_sub now (snd (snd e))) m"
  by (induction m) auto

lemma std_find_filter:
  "std_sorted m \<Longrightarrow> std_find k (filter P m) =
     (case std_find k m of Some v \<Rightarrow> if P (k, v) then Some v else None | None \<Rightarrow> None)"
proof (induction m)
  case (Cons e m)
  obtain k' v' where e: "e = (k', v')" by (cases e)
  have "std_find k m = None" if "k = k'"
    using Cons.prems that e by (force simp: std_sorted_def std_find_def map_of_eq_None_iff)
  then show ?case using Cons e by (auto simp: std_sorted_def std_find_def)
qed simp

lemma std_sorted_filter: "std_sorted m \<Longrightarrow> std_sorted (filter P m)"
  by (simp add: std_sorted_def sorted_wrt_map sorted_wrt_filter)

lemma tick_cache:
  assumes "ni_inv ip ni" "ni_current_time ni + ms < size_mod"
  shows "ni_inv ip (NetworkInterface_tick ni ms)"
    and "ni_current_time (NetworkInterface_tick ni ms) = ni_current_time ni + ms"
    and "std_find k (ni_addr_cache (NetworkInterface_tick ni ms)) =
      (case std_find k (ni_addr_cache ni) of
         Some (a, t) \<Rightarrow> if ni_current_time ni + ms - t \<le> 30000 then Some (a, t) else None | None \<Rightarrow> None)"
proof -
  note i = ni_invD [OF assms(1)]
  let ?ni = "NetworkInterface_tick ni ms"
  have now: "sz_add (ni_current_time ni) ms = ni_current_time ni + ms" using assms(2) by (rule sz_add_small)
  show time: "ni_current_time ?ni = ni_current_time ni + ms"
    by (simp add: NetworkInterface_tick_def NetworkInterface_remove_expired_cache_def now)
  have cache: "std_find k (ni_addr_cache ?ni) =
      (case std_find k (ni_addr_cache ni) of
         Some (a, t) \<Rightarrow> if ni_current_time ni + ms - t \<le> 30000 then Some (a, t) else None | None \<Rightarrow> None)" for k
  proof (cases "std_find k (ni_addr_cache ni)")
    case (Some e)
    obtain a t where e: "e = (a, t)" by (cases e)
    have "sz_sub (ni_current_time ni + ms) t = ni_current_time ni + ms - t"
      using i(6) [of k a t] Some e assms(2) by (intro sz_sub_small) auto
    then show ?thesis
      using Some e i(3)
      by (simp add: NetworkInterface_tick_def NetworkInterface_remove_expired_cache_def now remove_expired_eq std_find_filter not_less)
  qed (simp add: NetworkInterface_tick_def NetworkInterface_remove_expired_cache_def now remove_expired_eq std_find_filter i(3))
  then show "std_find k (ni_addr_cache ?ni) =
      (case std_find k (ni_addr_cache ni) of
         Some (a, t) \<Rightarrow> if ni_current_time ni + ms - t \<le> 30000 then Some (a, t) else None | None \<Rightarrow> None)" .
  have same: "ni_ethernet_address ?ni = ni_ethernet_address ni" "ni_ip_address ?ni = ni_ip_address ni"
    "ni_addr_request_time ?ni = ni_addr_request_time ni" "ni_waiting_dgrams ?ni = ni_waiting_dgrams ni"
    "ni_frames_out ?ni = ni_frames_out ni" "std_sorted (ni_addr_cache ?ni)"
    using i(3) by (simp_all add: NetworkInterface_tick_def NetworkInterface_remove_expired_cache_def remove_expired_eq std_sorted_filter)
  show "ni_inv ip ?ni"
    unfolding ni_inv_def same time
  proof (intro conjI)
    show "\<forall>k a t. std_find k (ni_addr_cache ?ni) = Some (a, t) \<longrightarrow>
        length a = 6 \<and> t \<le> ni_current_time ni + ms \<and> ni_current_time ni + ms - t \<le> 30000"
      using i(6) unfolding cache by (force split: option.splits if_splits)
    show "\<forall>(k, dg) \<in> set (ni_waiting_dgrams ni). dg_wf dg \<and> std_find k (ni_addr_cache ?ni) = None"
      using i(8) unfolding cache by auto
    show "\<forall>k t. std_find k (ni_addr_request_time ni) = Some t \<longrightarrow> t \<le> ni_current_time ni + ms"
      using i(7) by (metis trans_le_add1)
  qed (use i same assms(2) in auto)
qed

end
