(* ===== verification/Arp_Exchange.thy ===== *)
theory Arp_Exchange
  imports Interface_Runs
begin

text \<open>
  Runs of one network interface, and two interfaces on one link: a datagram for an unknown neighbour
  is delivered by a request, a reply and the frame that waited for it.
\<close>

section \<open>Runs\<close>

datatype ni_op = Send_datagram ipv4_datagram u32 u16 | Recv_frame ethernet_frame | Ni_tick size_t

fun NetworkInterface_step :: "network_interface \<Rightarrow> ni_op \<Rightarrow> network_interface result" where
  "NetworkInterface_step ni (Send_datagram dg k port) = NetworkInterface_send_datagram ni dg (ipv4_address k port)"
| "NetworkInterface_step ni (Recv_frame f) = bindE (NetworkInterface_recv_frame ni f) (\<lambda>(_, ni'). Inr ni')"
| "NetworkInterface_step ni (Ni_tick ms) = Inr (NetworkInterface_tick ni ms)"

fun ni_ok :: "network_interface \<Rightarrow> ni_op \<Rightarrow> bool" where
  "ni_ok ni (Send_datagram dg k port) \<longleftrightarrow> dg_wf dg"
| "ni_ok ni (Recv_frame f) \<longleftrightarrow> length (ef_payload f) \<le> 1"
| "ni_ok ni (Ni_tick ms) \<longleftrightarrow> ni_current_time ni + ms < size_mod"

interpretation iface: safe_machine NetworkInterface_step ni_ok "ni_inv ip" for ip
proof unfold_locales
  fix ni l
  assume inv: "ni_inv ip ni" and ok: "ni_ok ni l"
  show "\<exists>ni'. NetworkInterface_step ni l = Inr ni' \<and> ni_inv ip ni'"
  proof (cases l)
    case (Send_datagram dg k port)
    then show ?thesis using send_datagram_ok [OF inv, of dg k port] ok by auto
  next
    case (Recv_frame f)
    then show ?thesis using recv_ok [OF inv, of f] ok by auto
  next
    case (Ni_tick ms)
    then show ?thesis using tick_cache(1) [OF inv] ok by auto
  qed
qed

text \<open>
  C12. The interface is safe.  Whatever well-formed datagrams are sent, whatever frames arrive (their
  payload in one buffer, as \<open>EthernetFrame::parse\<close> makes them) and however time passes: no operation
  fails, a mapping is never used more than 30 seconds after it was learned, a datagram waits only
  while the address of its next hop is unknown, and all frames put out have addresses of six bytes.
\<close>

theorem interface_safe:
  assumes "length a = 6" "run_ok ni_ok NetworkInterface_step (NetworkInterface_new a (ipv4_address ip port)) ops"
  shows "\<exists>ni. runE NetworkInterface_step (NetworkInterface_new a (ipv4_address ip port)) ops = Inr ni \<and>
    (\<forall>k b t. std_find k (ni_addr_cache ni) = Some (b, t) \<longrightarrow>
       length b = 6 \<and> t \<le> ni_current_time ni \<and> ni_current_time ni \<le> t + 30000) \<and>
    (\<forall>(k, dg) \<in> set (ni_waiting_dgrams ni). std_find k (ni_addr_cache ni) = None) \<and>
    (\<forall>f \<in> set (ni_frames_out ni). eh_wf (ef_header f))"
proof -
  obtain ni where run: "runE NetworkInterface_step (NetworkInterface_new a (ipv4_address ip port)) ops = Inr ni"
    and inv: "ni_inv ip ni"
    using iface.run_safe [OF ni_inv_new [OF assms(1)] assms(2)] by blast
  have "length b = 6 \<and> t \<le> ni_current_time ni \<and> ni_current_time ni \<le> t + 30000"
    if "std_find k (ni_addr_cache ni) = Some (b, t)" for k b t
    using ni_invD(6) [OF inv that] by auto
  then show ?thesis using run ni_invD(8,9) [OF inv] by blast
qed

lemma dg_example_wf: "dg_wf dg_example"
  by (simp add: dg_wf_def dg_example_def IPv4Header_default_def ip_wf_def)

theorem interface_safe_witness:
  "\<exists>ni. runE NetworkInterface_step (NetworkInterface_new [2, 0, 0, 0, 0, 1] (ipv4_address 0x0a000001 0))
      [Send_datagram dg_example 0x0a000002 0, Ni_tick 40] = Inr ni \<and>
    list_all (\<lambda>f. eh_wf (ef_header f)) (ni_frames_out ni)"
proof -
  let ?ni = "NetworkInterface_new [2, 0, 0, 0, 0, 1] (ipv4_address 0x0a000001 0)"
  have inv: "ni_inv 0x0a000001 ?ni" by (rule ni_inv_new) simp
  from send_datagram_ok [OF inv dg_example_wf, of "0x0a000002" 0]
  have "run_ok ni_ok NetworkInterface_step ?ni [Send_datagram dg_example 0x0a000002 0, Ni_tick 40]"
    using dg_example_wf by (auto simp: NetworkInterface_new_def)
  from interface_safe [OF _ this] show ?thesis unfolding list_all_iff by force
qed

section \<open>No flood of requests\<close>

text \<open>
  C32. Requests are throttled.  Once an ARP request for an address has been sent at time \<open>t\<close> and as
  long as no answer arrives, any number of further datagrams for this address, spread over the next
  five seconds in any way, causes no further frame: all of them wait, in order.
\<close>

theorem arp_throttled:
  assumes "ni_inv ip ni" "std_find k (ni_addr_cache ni) = None" "std_find k (ni_addr_request_time ni) = Some t"
    and "\<forall>(ms, dg) \<in> set sends. dg_wf dg"
    and "ni_current_time ni + sum_list (map fst sends) \<le> t + 5000"
    and "ni_current_time ni + sum_list (map fst sends) < size_mod"
  shows "\<exists>ni'. runE NetworkInterface_step ni
      (concat (map (\<lambda>(ms, dg). [Ni_tick ms, Send_datagram dg k port]) sends)) = Inr ni' \<and>
    ni_frames_out ni' = ni_frames_out ni \<and>
    ni_waiting_dgrams ni' = ni_waiting_dgrams ni @ map (\<lambda>(ms, dg). (k, dg)) sends"
  using assms
proof (induction sends arbitrary: ni)
  case (Cons e sends)
  obtain ms dg where e: "e = (ms, dg)" by (cases e)
  let ?n1 = "NetworkInterface_tick ni ms"
  have lt: "ni_current_time ni + ms < size_mod" using Cons.prems(6) e by simp
  note tick = tick_cache [OF Cons.prems(1) lt]
  have n1: "std_find k (ni_addr_cache ?n1) = None" "ni_addr_request_time ?n1 = ni_addr_request_time ni"
    "ni_frames_out ?n1 = ni_frames_out ni" "ni_waiting_dgrams ?n1 = ni_waiting_dgrams ni"
    using tick(3) [of k] Cons.prems(2)
    by (simp_all add: NetworkInterface_tick_def NetworkInterface_remove_expired_cache_def)
  have not_due: "\<not> ni_due ?n1 k" using Cons.prems(3,5) e n1(2) tick(2) by (auto simp: ni_due_def)
  obtain n2 where n2: "NetworkInterface_send_datagram ?n1 dg (ipv4_address k port) = Inr n2" "ni_inv ip n2"
    "ni_addr_cache n2 = ni_addr_cache ?n1" "ni_current_time n2 = ni_current_time ?n1" "ni_sends ip ?n1 k dg n2"
    using send_datagram_ok [OF tick(1), of dg k port] Cons.prems(4) e by auto
  have s: "ni_frames_out n2 = ni_frames_out ni" "ni_waiting_dgrams n2 = ni_waiting_dgrams ni @ [(k, dg)]"
    "std_find k (ni_addr_request_time n2) = Some t"
    using n2(5) n1 not_due Cons.prems(3) by (simp_all add: ni_sends_def)
  obtain ni' where "runE NetworkInterface_step n2
      (concat (map (\<lambda>(ms, dg). [Ni_tick ms, Send_datagram dg k port]) sends)) = Inr ni'"
    "ni_frames_out ni' = ni_frames_out n2"
    "ni_waiting_dgrams ni' = ni_waiting_dgrams n2 @ map (\<lambda>(ms, dg). (k, dg)) sends"
    using Cons.IH [OF n2(2) _ s(3)] n2(3,4) n1(1) tick(2) Cons.prems(4-6) e by auto
  then show ?case using e n2(1) s by simp
qed simp

text \<open>An interface that has just sent a request.\<close>

definition ni_asking :: network_interface where
  "ni_asking = (NetworkInterface_new [2, 0, 0, 0, 0, 1] (ipv4_address 0x0a000001 0))
     \<lparr>ni_addr_request_time := [(0x0a000002, 0)], ni_waiting_dgrams := [(0x0a000002, dg_example)]\<rparr>"

lemma ni_asking_inv: "ni_inv 0x0a000001 ni_asking"
  by (auto simp: ni_inv_def ni_asking_def NetworkInterface_new_def dg_example_wf std_sorted_def std_find_def)

theorem arp_throttled_witness:
  "\<exists>ni'. runE NetworkInterface_step ni_asking
      (concat (map (\<lambda>(ms, dg). [Ni_tick ms, Send_datagram dg 0x0a000002 0]) [(1000 :: size_t, dg_example), (4000, dg_example)])) =
      Inr ni' \<and>
    ni_frames_out ni' = ni_frames_out ni_asking \<and>
    ni_waiting_dgrams ni' = ni_waiting_dgrams ni_asking @
      map (\<lambda>(ms, dg). (0x0a000002, dg)) [(1000 :: size_t, dg_example), (4000, dg_example)]"
  by (rule arp_throttled [OF ni_asking_inv])
    (simp_all add: ni_asking_def NetworkInterface_new_def dg_example_wf std_find_def)

section \<open>Two interfaces on a link\<close>

text \<open>The link carries the bytes of a frame; the other side parses them.\<close>

definition link :: "ethernet_frame \<Rightarrow> ethernet_frame result" where
  "link f = bindE (EthernetFrame_parse EthernetFrame_default
       (Buffer_new (BufferList_concatenate (EthernetFrame_serialize f)))) (\<lambda>(res, f').
     if res = NoError then Inr f' else Inl (RuntimeError ''bad frame''))"

fun recv_all :: "network_interface \<Rightarrow> ethernet_frame list \<Rightarrow> (ipv4_datagram list \<times> network_interface) result" where
  "recv_all ni [] = Inr ([], ni)"
| "recv_all ni (f # fs) =
     bindE (link f) (\<lambda>f. bindE (NetworkInterface_recv_frame ni f) (\<lambda>(d, ni).
       bindE (recv_all ni fs) (\<lambda>(ds, ni). Inr ((case d of Some dg \<Rightarrow> [dg] | None \<Rightarrow> []) @ ds, ni))))"

text \<open>All frames that \<open>a\<close> has put out are carried to \<open>b\<close>.\<close>

definition flush ::
  "network_interface \<Rightarrow> network_interface \<Rightarrow> (ipv4_datagram list \<times> network_interface \<times> network_interface) result" where
  "flush a b = bindE (recv_all b (ni_frames_out a)) (\<lambda>(ds, b). Inr (ds, a\<lparr>ni_frames_out := []\<rparr>, b))"

lemma flushI:
  "recv_all b (ni_frames_out a) = Inr (ds, b') \<Longrightarrow> flush a b = Inr (ds, a\<lparr>ni_frames_out := []\<rparr>, b')"
  by (simp add: flush_def)

lemma link_frame: "eh_wf (ef_header f) \<Longrightarrow> \<exists>f'. link f = Inr f' \<and> frame_same f f'"
  using frame.roundtrip [of f EthernetFrame_default] by (auto simp: link_def)

lemma make_frame_simps [simp]:
  "ef_payload (NetworkInterface_make_frame ni dst type pl) = pl"
  "eh_dst (ef_header (NetworkInterface_make_frame ni dst type pl)) = dst"
  "eh_type (ef_header (NetworkInterface_make_frame ni dst type pl)) = type"
  by (simp_all add: NetworkInterface_make_frame_def)

lemma recv_datagrams:
  assumes "\<forall>dg \<in> set dgs. dg_wf dg" "length (ni_ethernet_address nj) = 6" "length (ni_ethernet_address ni) = 6"
    and "recv_all ni fs = Inr (ds', ni')"
  shows "\<exists>ds. list_all2 dgram_same dgs ds \<and>
    recv_all ni (map (\<lambda>dg. NetworkInterface_make_frame nj (ni_ethernet_address ni) TYPE_IPv4 (dg_ser dg)) dgs @ fs) =
    Inr (ds @ ds', ni')"
  using assms(1)
proof (induction dgs)
  case (Cons dg dgs)
  let ?fr = "\<lambda>dg. NetworkInterface_make_frame nj (ni_ethernet_address ni) TYPE_IPv4 (dg_ser dg)"
  obtain ds where ds: "list_all2 dgram_same dgs ds" "recv_all ni (map ?fr dgs @ fs) = Inr (ds @ ds', ni')"
    using Cons.IH Cons.prems by auto
  obtain f where f: "link (?fr dg) = Inr f" "frame_same (?fr dg) f" using link_frame assms(2,3) make_frame_wf by metis
  obtain b where b: "ef_payload f = [b]" "Buffer_str b = BufferList_concatenate (dg_ser dg)"
    using f(2) by (auto simp: frame_same_def)
  obtain dg' where dg': "IPv4Datagram_parse IPv4Datagram_default b = Inr (NoError, dg')" "dgram_same dg dg'"
    using IPv4Datagram_parse_serialize [of dg IPv4Datagram_default] dg_ser [of dg] b(2) Cons.prems by auto
  have "NetworkInterface_recv_frame ni f = Inr (Some dg', ni)"
    using recv_ipv4 [OF _ _ b(1) dg'(1), of ni] f(2) by (simp add: frame_same_def ni_accepts_def)
  then have "recv_all ni (map ?fr (dg # dgs) @ fs) = Inr ((dg' # ds) @ ds', ni')"
    using f(1) ds(2) by simp
  then show ?case using ds(1) dg'(2) by (intro exI [of _ "dg' # ds"]) simp
qed (use assms(4) in simp)

lemma recv_arp_frame:
  assumes "ni_inv ip ni" "length (ni_ethernet_address nj) = 6" "arp_wf msg"
    and "dst = ni_ethernet_address ni \<or> dst = ETHERNET_BROADCAST"
  shows "\<exists>ni'. recv_all ni [NetworkInterface_make_frame nj dst TYPE_ARP [Buffer_new (arp_ser msg)]] = Inr ([], ni') \<and>
    ni_inv ip ni' \<and> ni_learned ip ni msg ni'"
proof -
  let ?f = "NetworkInterface_make_frame nj dst TYPE_ARP [Buffer_new (arp_ser msg)]"
  have "length dst = 6" using assms(4) ni_invD(1) [OF assms(1)] by auto
  then obtain f where f: "link ?f = Inr f" "frame_same ?f f" using link_frame assms(2) make_frame_wf by metis
  obtain b where b: "ef_payload f = [b]" "Buffer_str b = arp_ser msg"
    using f(2) by (auto simp: frame_same_def)
  have parse: "ARPMessage_parse ARPMessage_default b = Inr (NoError, msg)"
    using ARPMessage_parse_serialize [OF assms(3), of ARPMessage_default] arp_ser [OF assms(3)] b(2) by auto
  have acc: "ni_accepts ni f" "eh_type (ef_header f) = TYPE_ARP"
    using f(2) assms(4) by (auto simp: frame_same_def ni_accepts_def)
  from recv_arp [OF assms(1) acc b(1) parse] obtain ni' where
    "NetworkInterface_recv_frame ni f = Inr (None, ni')" "ni_inv ip ni'" "ni_learned ip ni msg ni'" by blast
  then show ?thesis using f(1) by auto
qed

lemma ni_inv_clear: "ni_inv ip ni \<Longrightarrow> ni_inv ip (ni\<lparr>ni_frames_out := []\<rparr>)"
  unfolding ni_inv_def by auto

text \<open>
  C7. The ARP exchange delivers.  Two interfaces on a link have nothing in flight, and \<open>a\<close> does not
  know the Ethernet address of \<open>b\<close>.  A datagram is sent, and the frames are carried to \<open>b\<close>, back to
  \<open>a\<close> and to \<open>b\<close> again.  Then \<open>b\<close> has received the datagram, after those that already waited for it, all
  unchanged and in order; \<open>a\<close> has received whatever \<open>b\<close> had waiting for \<open>a\<close>; and each side has learned
  the Ethernet address of the other.
\<close>

theorem arp_exchange:
  assumes "ni_inv ipa a" "ni_inv ipb b" "ni_frames_out a = []" "ni_frames_out b = []" "dg_wf dg"
    and "std_find ipb (ni_addr_cache a) = None" "ni_due a ipb"
  shows "\<exists>a1 a2 b1 b2 a3 a4 b4 ds da.
    NetworkInterface_send_datagram a dg (ipv4_address ipb port) = Inr a1 \<and>
    flush a1 b = Inr ([], a2, b1) \<and> flush b1 a2 = Inr (da, b2, a3) \<and> flush a3 b2 = Inr (ds, a4, b4) \<and>
    list_all2 dgram_same (map snd (filter (\<lambda>e. fst e = ipa) (ni_waiting_dgrams b))) da \<and>
    list_all2 dgram_same (map snd (filter (\<lambda>e. fst e = ipb) (ni_waiting_dgrams a)) @ [dg]) ds \<and>
    std_find ipb (ni_addr_cache a4) = Some (ni_ethernet_address b, ni_current_time a) \<and>
    std_find ipa (ni_addr_cache b4) = Some (ni_ethernet_address a, ni_current_time b) \<and>
    ni_inv ipa a4 \<and> ni_inv ipb b4"
proof -
  note ia = ni_invD [OF assms(1)] and ib = ni_invD [OF assms(2)]
  obtain a1 where a1: "NetworkInterface_send_datagram a dg (ipv4_address ipb port) = Inr a1" "ni_inv ipa a1"
    "ni_addr_cache a1 = ni_addr_cache a" "ni_current_time a1 = ni_current_time a" "ni_sends ipa a ipb dg a1"
    "ni_ethernet_address a1 = ni_ethernet_address a"
    using send_datagram_ok [OF assms(1,5)] by blast
  have s: "ni_frames_out a1 = [request_frame a ipa ipb]" "ni_waiting_dgrams a1 = ni_waiting_dgrams a @ [(ipb, dg)]"
    using a1(5) assms(3,6,7) by (simp_all add: ni_sends_def)
  let ?req = "arp_request a ipa ipb" and ?a2 = "a1\<lparr>ni_frames_out := []\<rparr>"
  have req: "arp_wf ?req" "arp_sender_ip_address ?req = ipa" "arp_sender_ethernet_address ?req = ni_ethernet_address a"
    "reply_frames b ipb ?req = [NetworkInterface_make_frame b (ni_ethernet_address a) TYPE_ARP
       [Buffer_new (arp_ser (arp_reply b ipb ?req))]]"
    using arp_request_wf [OF ia(1)] by (simp_all add: arp_request_def reply_frames_def)
  obtain b1 where "recv_all b (ni_frames_out a1) = Inr ([], b1)" and
    b1: "ni_inv ipb b1" "ni_learned ipb b ?req b1"
    using recv_arp_frame [OF assms(2) ia(1) req(1), of ETHERNET_BROADCAST] s(1) by metis
  then have flush1: "flush a1 b = Inr ([], ?a2, b1)" by (intro flushI)
  have eth: "ni_ethernet_address b1 = ni_ethernet_address b" "ni_ethernet_address ?a2 = ni_ethernet_address a"
    using b1(2) a1(6) by (simp_all add: ni_learned_def Let_def)
  let ?wb = "map snd (filter (\<lambda>e. fst e = ipa) (ni_waiting_dgrams b))" and ?rep = "arp_reply b ipb ?req"
  have out1: "ni_frames_out b1 =
      map (\<lambda>dg. NetworkInterface_make_frame b (ni_ethernet_address ?a2) TYPE_IPv4 (dg_ser dg)) ?wb @
      [NetworkInterface_make_frame b (ni_ethernet_address a) TYPE_ARP [Buffer_new (arp_ser ?rep)]]"
    using b1(2) req assms(4) eth(2) by (simp add: ni_learned_def Let_def case_prod_beta o_def)
  have rep: "arp_wf ?rep" "arp_sender_ip_address ?rep = ipb" "arp_sender_ethernet_address ?rep = ni_ethernet_address b"
    "reply_frames ?a2 ipa ?rep = []"
    using arp_reply_wf [OF ib(1) req(1)]
    by (simp_all add: arp_reply_def reply_frames_def OPCODE_REQUEST_def OPCODE_REPLY_def)
  have wb: "\<forall>dg \<in> set ?wb. dg_wf dg" using ib(8) by auto
  have ia2: "ni_inv ipa ?a2" using ni_inv_clear a1(2) .
  obtain a3 where a3: "recv_all ?a2 [NetworkInterface_make_frame b (ni_ethernet_address a) TYPE_ARP [Buffer_new (arp_ser ?rep)]] = Inr ([], a3)"
    "ni_inv ipa a3" "ni_learned ipa ?a2 ?rep a3"
    using recv_arp_frame [OF ia2 ib(1) rep(1)] eth(2) by metis
  obtain da where da: "list_all2 dgram_same ?wb da" "recv_all ?a2 (ni_frames_out b1) = Inr (da, a3)"
    using recv_datagrams [OF wb ib(1) _ a3(1)] ia(1) eth(2) out1 by auto
  let ?b2 = "b1\<lparr>ni_frames_out := []\<rparr>"
  have flush2: "flush b1 ?a2 = Inr (da, ?b2, a3)" using da(2) by (rule flushI)
  let ?wa = "map snd (filter (\<lambda>e. fst e = ipb) (ni_waiting_dgrams a)) @ [dg]"
  have wa: "\<forall>dg \<in> set ?wa. dg_wf dg" using ia(8) assms(5) by auto
  have out3: "ni_frames_out a3 =
      map (\<lambda>dg. NetworkInterface_make_frame ?a2 (ni_ethernet_address ?b2) TYPE_IPv4 (dg_ser dg)) ?wa @ []"
    using a3(3) rep s(2) eth(1) by (simp add: ni_learned_def Let_def case_prod_beta o_def)
  obtain ds where ds: "list_all2 dgram_same ?wa ds" "recv_all ?b2 (ni_frames_out a3) = Inr (ds, ?b2)"
    using recv_datagrams [OF wa, of ?a2 ?b2 "[]"] ia(1) ib(1) eth out3 by auto
  let ?a4 = "a3\<lparr>ni_frames_out := []\<rparr>"
  have flush3: "flush a3 ?b2 = Inr (ds, ?a4, ?b2)" using ds(2) by (rule flushI)
  have learned: "std_find ipb (ni_addr_cache ?a4) = Some (ni_ethernet_address b, ni_current_time a)"
    "std_find ipa (ni_addr_cache ?b2) = Some (ni_ethernet_address a, ni_current_time b)"
    using a3(3) b1(2) rep req a1(4) by (simp_all add: ni_learned_def Let_def)
  show ?thesis
    using a1(1) flush1 flush2 flush3 da(1) ds(1) learned ni_inv_clear [OF a3(2)] ni_inv_clear [OF b1(1)] by blast
qed

section \<open>Examples\<close>

definition ni_left :: network_interface where
  "ni_left = NetworkInterface_new [2, 0, 0, 0, 0, 1] (ipv4_address 0x0a000001 0)"

definition ni_right :: network_interface where
  "ni_right = NetworkInterface_new [2, 0, 0, 0, 0, 2] (ipv4_address 0x0a000002 0)"

lemma ni_example_inv: "ni_inv 0x0a000001 ni_left" "ni_inv 0x0a000002 ni_right"
  by (simp_all add: ni_left_def ni_right_def ni_inv_new)

lemma ni_example_simps:
  "ni_frames_out ni_left = []" "ni_frames_out ni_right = []"
  "std_find k (ni_addr_cache ni_left) = None" "ni_due ni_left k"
  "ni_waiting_dgrams ni_left = []" "ni_waiting_dgrams ni_right = []" "ni_current_time ni_right = 0"
  by (simp_all add: ni_left_def ni_right_def NetworkInterface_new_def ni_due_def)

theorem arp_exchange_witness:
  "\<exists>a1 a2 b1 b2 a3 a4 b4 ds da.
    NetworkInterface_send_datagram ni_left dg_example (ipv4_address 0x0a000002 0) = Inr a1 \<and>
    flush a1 ni_right = Inr ([], a2, b1) \<and> flush b1 a2 = Inr (da, b2, a3) \<and> flush a3 b2 = Inr (ds, a4, b4) \<and>
    list_all2 dgram_same (map snd (filter (\<lambda>e. fst e = 0x0a000001) (ni_waiting_dgrams ni_right))) da \<and>
    list_all2 dgram_same (map snd (filter (\<lambda>e. fst e = 0x0a000002) (ni_waiting_dgrams ni_left)) @ [dg_example]) ds \<and>
    std_find 0x0a000002 (ni_addr_cache a4) = Some (ni_ethernet_address ni_right, ni_current_time ni_left) \<and>
    std_find 0x0a000001 (ni_addr_cache b4) = Some (ni_ethernet_address ni_left, ni_current_time ni_right) \<and>
    ni_inv 0x0a000001 a4 \<and> ni_inv 0x0a000002 b4"
  by (rule arp_exchange [OF ni_example_inv ni_example_simps(1,2) dg_example_wf ni_example_simps(3,4)])

theorem send_datagram_spec_witness:
  "\<exists>ni'. NetworkInterface_send_datagram ni_left dg_example (ipv4_address 0x0a000002 0) = Inr ni' \<and>
    ni_frames_out ni' = [request_frame ni_left 0x0a000001 0x0a000002] \<and>
    ni_waiting_dgrams ni' = [(0x0a000002, dg_example)]"
  using send_datagram_spec [OF ni_example_inv(1) dg_example_wf, of "0x0a000002" 0]
  by (auto simp: ni_example_simps)

lemma ni_example_request:
  "arp_wf (arp_request ni_left 0x0a000001 0x0a000002)"
  "ARPMessage_parse ARPMessage_default (Buffer_new (arp_ser (arp_request ni_left 0x0a000001 0x0a000002))) =
    Inr (NoError, arp_request ni_left 0x0a000001 0x0a000002)"
proof -
  show wf: "arp_wf (arp_request ni_left 0x0a000001 0x0a000002)"
    using arp_request_wf ni_invD(1) [OF ni_example_inv(1)] by blast
  show "ARPMessage_parse ARPMessage_default (Buffer_new (arp_ser (arp_request ni_left 0x0a000001 0x0a000002))) =
      Inr (NoError, arp_request ni_left 0x0a000001 0x0a000002)"
    using ARPMessage_parse_serialize [OF wf, of ARPMessage_default] arp_ser [OF wf] by auto
qed

theorem recv_arp_spec_witness:
  "\<exists>ni'. NetworkInterface_recv_frame ni_right (request_frame ni_left 0x0a000001 0x0a000002) = Inr (None, ni') \<and>
    std_find 0x0a000001 (ni_addr_cache ni') = Some (ni_ethernet_address ni_left, 0) \<and>
    ni_frames_out ni' = reply_frames ni_right 0x0a000002 (arp_request ni_left 0x0a000001 0x0a000002)"
  using recv_arp_spec [OF ni_example_inv(2) _ _ _ ni_example_request(2), of "request_frame ni_left 0x0a000001 0x0a000002"]
  by (auto simp: ni_accepts_def arp_request_def ni_example_simps)

end
