(* ===== verification/Router.thy ===== *)
theory Router
  imports Arp_Exchange
begin

text \<open>
  The router, \<open>libsponge/router.hh\<close> and \<open>router.cc\<close>: network interfaces that queue the datagrams they
  receive, a table of rules, and longest-prefix-match forwarding between the interfaces.
\<close>

unbundle bit_operations_syntax

section \<open>The asynchronous interface\<close>

record async_network_interface =
  an_interface :: network_interface
  an_datagrams_out :: "ipv4_datagram list"

definition AsyncNetworkInterface_new :: "network_interface \<Rightarrow> async_network_interface" where
  "AsyncNetworkInterface_new interface = \<lparr>an_interface = interface, an_datagrams_out = []\<rparr>"

definition AsyncNetworkInterface_recv_frame ::
  "async_network_interface \<Rightarrow> ethernet_frame \<Rightarrow> async_network_interface result" where
  "AsyncNetworkInterface_recv_frame a frame =
     bindE (NetworkInterface_recv_frame (an_interface a) frame) (\<lambda>(optional_dgram, ni).
       let a = a\<lparr>an_interface := ni\<rparr>
       in Inr (case optional_dgram of
                 Some dgram \<Rightarrow> a\<lparr>an_datagrams_out := an_datagrams_out a @ [dgram]\<rparr>
               | None \<Rightarrow> a))"

definition AsyncNetworkInterface_send_datagram ::
  "async_network_interface \<Rightarrow> ipv4_datagram \<Rightarrow> address \<Rightarrow> async_network_interface result" where
  "AsyncNetworkInterface_send_datagram a dgram next_hop =
     bindE (NetworkInterface_send_datagram (an_interface a) dgram next_hop) (\<lambda>ni. Inr (a\<lparr>an_interface := ni\<rparr>))"

section \<open>The router\<close>

record route_rule =
  rr_route_prefix :: u32
  rr_prefix_length :: u8
  rr_next_hop :: "address option"
  rr_interface_num :: size_t

record router =
  rt_interfaces :: "async_network_interface list"
  rt_rules :: "route_rule list"

definition Router_new :: router where
  "Router_new = \<lparr>rt_interfaces = [], rt_rules = []\<rparr>"

definition Router_add_interface :: "router \<Rightarrow> async_network_interface \<Rightarrow> size_t \<times> router" where
  "Router_add_interface r interface =
     (let r = r\<lparr>rt_interfaces := rt_interfaces r @ [interface]\<rparr> in (sz_sub (length (rt_interfaces r)) 1, r))"

definition Router_interface :: "router \<Rightarrow> size_t \<Rightarrow> async_network_interface result" where
  "Router_interface r N =
     (if N < length (rt_interfaces r) then Inr (rt_interfaces r ! N) else Inl (OutOfRange ''vector::_M_range_check''))"

text \<open>
  \<open>add_route\<close> without the line it prints to the standard error.  Printing calls \<open>Address::ip\<close> on the next
  hop, which succeeds for the addresses that \<open>getnameinfo\<close> prints, the IPv4 ones among them.
\<close>

definition Router_add_route :: "router \<Rightarrow> u32 \<Rightarrow> u8 \<Rightarrow> address option \<Rightarrow> size_t \<Rightarrow> router" where
  "Router_add_route r route_prefix prefix_length next_hop interface_num =
     r\<lparr>rt_rules := rt_rules r @ [\<lparr>rr_route_prefix = route_prefix, rr_prefix_length = prefix_length,
                                   rr_next_hop = next_hop, rr_interface_num = interface_num\<rparr>]\<rparr>"

text \<open>
  \<open>_match\<close>.  The shift is undefined when the prefix length exceeds 32: the \<open>int\<close> \<open>32 - prefix_length\<close>
  is then negative.
\<close>

definition Router_match :: "u32 \<Rightarrow> u32 \<Rightarrow> u8 \<Rightarrow> bool result" where
  "Router_match ip1 ip2 prefix_length =
     (if 32 < unat prefix_length then Inl (UndefinedBehaviour ''shift by a negative amount'')
      else let mask = (if prefix_length \<noteq> 0 then push_bit (32 - unat prefix_length) 0xffffffff else 0)
           in Inr (ip1 AND mask = ip2 AND mask))"

text \<open>The loop of \<open>route_one_datagram\<close> over the rules.\<close>

fun pick_rule :: "u32 \<Rightarrow> route_rule option \<Rightarrow> route_rule list \<Rightarrow> route_rule option result" where
  "pick_rule dst picked [] = Inr picked"
| "pick_rule dst picked (rule # rules) =
     bindE (Router_match dst (rr_route_prefix rule) (rr_prefix_length rule)) (\<lambda>matches.
       let picked = (if matches then
                       case picked of
                         None \<Rightarrow> Some rule
                       | Some p \<Rightarrow> if rr_prefix_length p < rr_prefix_length rule then Some rule else picked
                     else picked)
       in pick_rule dst picked rules)"

definition Router_route_one_datagram :: "router \<Rightarrow> ipv4_datagram \<Rightarrow> router result" where
  "Router_route_one_datagram r dgram =
     (if ip_ttl (dg_header dgram) \<le> 1 then Inr r
      else bindE (pick_rule (ip_dst (dg_header dgram)) None (rt_rules r)) (\<lambda>picked_rule.
        case picked_rule of
          None \<Rightarrow> Inr r
        | Some rule \<Rightarrow>
            let dgram = dgram\<lparr>dg_header := (dg_header dgram)\<lparr>ip_ttl := ip_ttl (dg_header dgram) - 1\<rparr>\<rparr>;
                n = rr_interface_num rule
            in if n < length (rt_interfaces r) then
                 bindE (case rr_next_hop rule of
                          Some next_hop \<Rightarrow> Inr next_hop
                        | None \<Rightarrow> Address_from_ipv4_numeric (ip_dst (dg_header dgram))) (\<lambda>next_hop.
                 bindE (AsyncNetworkInterface_send_datagram (rt_interfaces r ! n) dgram next_hop) (\<lambda>a.
                   Inr (r\<lparr>rt_interfaces := (rt_interfaces r)[n := a]\<rparr>)))
               else Inl (UndefinedBehaviour ''vector index out of range'')))"

definition Router_pop :: "size_t \<Rightarrow> router \<Rightarrow> router" where
  "Router_pop i r =
     (let a = rt_interfaces r ! i
      in r\<lparr>rt_interfaces := (rt_interfaces r)[i := a\<lparr>an_datagrams_out := tl (an_datagrams_out a)\<rparr>]\<rparr>)"

text \<open>Routing a datagram changes no queue of received datagrams.\<close>

abbreviation queues :: "router \<Rightarrow> ipv4_datagram list list" where
  "queues r \<equiv> map an_datagrams_out (rt_interfaces r)"

lemma async_send_queue:
  "AsyncNetworkInterface_send_datagram a dg hop = Inr a' \<Longrightarrow> an_datagrams_out a' = an_datagrams_out a"
  by (auto simp: AsyncNetworkInterface_send_datagram_def)

lemma update_nth_map: "(map f xs)[n := f (xs ! n)] = map f xs"
  by (metis list_update_id map_update)

lemma route_one_queues: "Router_route_one_datagram r dg = Inr r' \<Longrightarrow> queues r' = queues r \<and> rt_rules r' = rt_rules r"
  by (auto simp: Router_route_one_datagram_def Let_def map_update update_nth_map dest!: async_send_queue
      split: if_splits option.splits)

lemma pop_simps:
  "length (rt_interfaces (Router_pop i r)) = length (rt_interfaces r)" "rt_rules (Router_pop i r) = rt_rules r"
  "queues (Router_pop i r) = (queues r)[i := tl (an_datagrams_out (rt_interfaces r ! i))]"
  by (simp_all add: Router_pop_def Let_def map_update)

text \<open>
  The inner loop of \<open>route\<close> empties the queue of interface \<open>i\<close> from the front; it ends because
  routing a datagram adds nothing to the queues.
\<close>

function (sequential) route_queue :: "size_t \<Rightarrow> router \<Rightarrow> router result" where
  "route_queue i r =
     (if i < length (rt_interfaces r) \<and> an_datagrams_out (rt_interfaces r ! i) \<noteq> [] then
        bindE (Router_route_one_datagram r (hd (an_datagrams_out (rt_interfaces r ! i)))) (\<lambda>r.
          route_queue i (Router_pop i r))
      else Inr r)"
  by pat_completeness auto

lemma pop_queue:
  assumes "Router_route_one_datagram r dg = Inr r1" "i < length (rt_interfaces r)"
  shows "an_datagrams_out (rt_interfaces (Router_pop i r1) ! i) = tl (an_datagrams_out (rt_interfaces r ! i))"
proof -
  have q: "queues r1 = queues r" using route_one_queues [OF assms(1)] by simp
  then have l: "length (rt_interfaces r1) = length (rt_interfaces r)" by (metis length_map)
  have "an_datagrams_out (rt_interfaces (Router_pop i r1) ! i) = tl (queues r1 ! i)"
    using l assms(2) by (simp add: Router_pop_def Let_def)
  then show ?thesis using q assms(2) by simp
qed

termination route_queue
proof (relation "measure (\<lambda>(i, r). length (an_datagrams_out (rt_interfaces r ! i)))")
  fix i r r1
  assume a: "i < length (rt_interfaces r) \<and> an_datagrams_out (rt_interfaces r ! i) \<noteq> []"
    and "Router_route_one_datagram r (hd (an_datagrams_out (rt_interfaces r ! i))) = Inr r1"
  then have "an_datagrams_out (rt_interfaces (Router_pop i r1) ! i) = tl (an_datagrams_out (rt_interfaces r ! i))"
    using pop_queue by blast
  then show "((i, Router_pop i r1), (i, r)) \<in> measure (\<lambda>(i, r). length (an_datagrams_out (rt_interfaces r ! i)))"
    using a by simp
qed simp

declare route_queue.simps [simp del]

fun route_loop :: "size_t list \<Rightarrow> router \<Rightarrow> router result" where
  "route_loop [] r = Inr r"
| "route_loop (i # is) r = bindE (route_queue i r) (\<lambda>r. route_loop is r)"

definition Router_route :: "router \<Rightarrow> router result" where
  "Router_route r = route_loop [0..<length (rt_interfaces r)] r"

section \<open>Longest prefix match\<close>

text \<open>The first \<open>n\<close> bits of two addresses agree.\<close>

definition prefix_eq :: "nat \<Rightarrow> u32 \<Rightarrow> u32 \<Rightarrow> bool" where
  "prefix_eq n a b \<longleftrightarrow> drop_bit (32 - n) a = drop_bit (32 - n) b"

lemma bit_mask_high: "n \<le> 32 \<Longrightarrow> bit (push_bit (32 - n) 0xffffffff :: u32) i \<longleftrightarrow> 32 - n \<le> i \<and> i < 32"
proof -
  have m: "(0xffffffff :: u32) = - 1" by simp
  show ?thesis unfolding m by (auto simp only: bit_push_bit_iff bit_minus_1_iff possible_bit_word) auto
qed

lemma high_bits_eq:
  fixes a b :: u32
  shows "prefix_eq n a b \<longleftrightarrow> (\<forall>i. 32 - n \<le> i \<and> i < 32 \<longrightarrow> bit a i = bit b i)"
proof
  assume "prefix_eq n a b"
  then have eq: "bit (drop_bit (32 - n) a) j = bit (drop_bit (32 - n) b) j" for j by (simp add: prefix_eq_def)
  show "\<forall>i. 32 - n \<le> i \<and> i < 32 \<longrightarrow> bit a i = bit b i"
  proof (intro allI impI)
    fix i assume "32 - n \<le> i \<and> i < 32"
    then show "bit a i = bit b i" using eq [of "i - (32 - n)"] by (simp add: bit_drop_bit_eq)
  qed
next
  assume eq: "\<forall>i. 32 - n \<le> i \<and> i < 32 \<longrightarrow> bit a i = bit b i"
  show "prefix_eq n a b"
    unfolding prefix_eq_def
  proof (rule bit_eqI)
    fix j
    show "bit (drop_bit (32 - n) a) j = bit (drop_bit (32 - n) b) j"
      using eq bit_imp_le_length [of a "32 - n + j"] bit_imp_le_length [of b "32 - n + j"]
      by (cases "32 - n + j < 32") (auto simp: bit_drop_bit_eq)
  qed
qed

lemma Router_match_eq:
  assumes "unat n \<le> 32"
  shows "Router_match a b n = Inr (prefix_eq (unat n) a b)"
proof -
  let ?m = "push_bit (32 - unat n) 0xffffffff :: u32"
  have "(a AND ?m = b AND ?m) \<longleftrightarrow> prefix_eq (unat n) a b"
    using bit_mask_high [OF assms] by (subst bit_eq_iff) (auto simp: high_bits_eq bit_and_iff)
  moreover have "prefix_eq (unat n) a b" if "n = 0"
    using that by (auto simp: high_bits_eq)
  ultimately show ?thesis using assms by (auto simp: Router_match_def Let_def)
qed

text \<open>
  The reference: among the rules that match, the first one of maximal prefix length.
\<close>

definition best_rule :: "route_rule list \<Rightarrow> route_rule option" where
  "best_rule rules = find (\<lambda>r. \<forall>q \<in> set rules. rr_prefix_length q \<le> rr_prefix_length r) rules"

definition longest_prefix_match :: "u32 \<Rightarrow> route_rule list \<Rightarrow> route_rule option" where
  "longest_prefix_match dst rules =
     best_rule (filter (\<lambda>r. prefix_eq (unat (rr_prefix_length r)) dst (rr_route_prefix r)) rules)"

lemma best_rule_skip:
  assumes "rr_prefix_length p < rr_prefix_length x"
  shows "best_rule (p # x # rules) = best_rule (x # rules)"
proof -
  have "(\<forall>q \<in> set (p # x # rules). rr_prefix_length q \<le> rr_prefix_length r) \<longleftrightarrow>
      (\<forall>q \<in> set (x # rules). rr_prefix_length q \<le> rr_prefix_length r)" for r
    using assms by force
  then show ?thesis using assms by (auto simp: best_rule_def)
qed

lemma best_rule_keep:
  assumes "\<not> rr_prefix_length p < rr_prefix_length x"
  shows "best_rule (p # x # rules) = best_rule (p # rules)"
proof -
  let ?max = "\<lambda>rs r. \<forall>q \<in> set rs. rr_prefix_length q \<le> rr_prefix_length r"
  have le: "rr_prefix_length x \<le> rr_prefix_length p" using assms by (simp add: not_less)
  then have eq: "?max (p # x # rules) = ?max (p # rules)" by (force intro: order_trans)
  show ?thesis
  proof (cases "?max rules p")
    case True
    then have "?max (p # rules) p" by simp
    then show ?thesis unfolding best_rule_def eq by simp
  next
    case False
    then have f: "?max (p # rules) p = False" "?max (p # rules) x = False" using le by (force dest: order_trans)+
    show ?thesis unfolding best_rule_def eq find.simps f if_False ..
  qed
qed

lemma pick_rule_best:
  assumes "\<forall>rule \<in> set rules. unat (rr_prefix_length rule) \<le> 32"
  shows "pick_rule dst picked rules =
    Inr (best_rule ((case picked of None \<Rightarrow> [] | Some p \<Rightarrow> [p]) @
      filter (\<lambda>r. prefix_eq (unat (rr_prefix_length r)) dst (rr_route_prefix r)) rules))"
  using assms
proof (induction rules arbitrary: picked)
  case Nil
  show ?case by (cases picked) (simp_all add: best_rule_def)
next
  case (Cons rule rules)
  have m: "Router_match dst (rr_route_prefix rule) (rr_prefix_length rule) =
      Inr (prefix_eq (unat (rr_prefix_length rule)) dst (rr_route_prefix rule))"
    using Cons.prems by (simp add: Router_match_eq)
  show ?case
    using Cons.IH Cons.prems m best_rule_skip best_rule_keep by (cases picked) (auto simp: Let_def)
qed

lemma best_rule_None: "best_rule rules = None \<longleftrightarrow> rules = []"
proof (induction rules)
  case (Cons p rules)
  let ?L = "rr_prefix_length ` set (p # rules)"
  have "Max ?L \<in> ?L" by (rule Max_in) simp_all
  then obtain r where r: "r \<in> set (p # rules)" "rr_prefix_length r = Max ?L" by (metis imageE)
  have "rr_prefix_length q \<le> Max ?L" if "q \<in> set (p # rules)" for q using that by (intro Max_ge) auto
  then have "\<exists>r \<in> set (p # rules). \<forall>q \<in> set (p # rules). rr_prefix_length q \<le> rr_prefix_length r"
    using r by metis
  then show ?case unfolding best_rule_def find_None_iff by blast
qed (simp add: best_rule_def)

lemma best_rule_mem: "best_rule rules = Some rule \<Longrightarrow> rule \<in> set rules"
  by (auto simp: best_rule_def find_Some_iff)

text \<open>
  C8. Rule selection is longest prefix match.  For a table whose prefix lengths are at most 32, the
  rule that the loop over the table selects is the reference's: the first of maximal prefix length
  among the rules whose leading bits agree with the destination; there is none exactly when no rule
  matches.  One rule with a longer prefix makes the selection undefined behaviour if the loop reaches
  it, whatever the other rules are.
\<close>

theorem pick_rule_longest:
  "(list_all (\<lambda>rule. unat (rr_prefix_length rule) \<le> 32) rules \<longrightarrow>
      pick_rule dst None rules = Inr (longest_prefix_match dst rules)) \<and>
   (longest_prefix_match dst rules = None \<longleftrightarrow>
      list_all (\<lambda>rule. \<not> prefix_eq (unat (rr_prefix_length rule)) dst (rr_route_prefix rule)) rules) \<and>
   (\<not> list_all (\<lambda>rule. unat (rr_prefix_length rule) \<le> 32) rules \<longrightarrow> (\<exists>e. pick_rule dst None rules = Inl e))"
proof (intro conjI impI)
  assume "list_all (\<lambda>rule. unat (rr_prefix_length rule) \<le> 32) rules"
  then show "pick_rule dst None rules = Inr (longest_prefix_match dst rules)"
    using pick_rule_best [of rules dst None] by (simp add: longest_prefix_match_def list_all_iff)
next
  show "longest_prefix_match dst rules = None \<longleftrightarrow>
      list_all (\<lambda>rule. \<not> prefix_eq (unat (rr_prefix_length rule)) dst (rr_route_prefix rule)) rules"
    by (simp add: longest_prefix_match_def best_rule_None filter_empty_conv list_all_iff)
next
  assume "\<not> list_all (\<lambda>rule. unat (rr_prefix_length rule) \<le> 32) rules"
  moreover have "\<not> list_all (\<lambda>rule. unat (rr_prefix_length rule) \<le> 32) rules \<Longrightarrow> \<exists>e. pick_rule dst picked rules = Inl e" for picked
  proof (induction rules arbitrary: picked)
    case (Cons rule rules)
    then show ?case
      by (cases "unat (rr_prefix_length rule) \<le> 32") (simp_all add: Router_match_eq Let_def, simp add: Router_match_def)
  qed simp
  ultimately show "\<exists>e. pick_rule dst None rules = Inl e" by blast
qed

text \<open>A table with a default route and two more specific ones.\<close>

definition example_rules :: "route_rule list" where
  "example_rules =
     [\<lparr>rr_route_prefix = 0, rr_prefix_length = 0, rr_next_hop = Some (ipv4_address 0xab434c01 0), rr_interface_num = 0\<rparr>,
      \<lparr>rr_route_prefix = 0x0a000000, rr_prefix_length = 8, rr_next_hop = None, rr_interface_num = 1\<rparr>,
      \<lparr>rr_route_prefix = 0x0a010000, rr_prefix_length = 16, rr_next_hop = None, rr_interface_num = 2\<rparr>]"

theorem pick_rule_longest_witness:
  "pick_rule 0x0a010203 None example_rules = Inr (Some (example_rules ! 2))"
proof -
  have "list_all (\<lambda>rule. unat (rr_prefix_length rule) \<le> 32) example_rules"
    by (simp add: example_rules_def)
  then have "pick_rule 0x0a010203 None example_rules = Inr (longest_prefix_match 0x0a010203 example_rules)"
    using pick_rule_longest [of example_rules "0x0a010203"] by blast
  moreover have "longest_prefix_match 0x0a010203 example_rules = Some (example_rules ! 2)"
    by code_simp
  ultimately show ?thesis by simp
qed

end
