(* ===== verification/Forwarding.thy ===== *)
theory Forwarding
  imports Router
begin

text \<open>
  What the router does to the datagrams that wait in its interfaces: the forwarding decision for one
  datagram, and \<open>route\<close> as the independent sending of every interface's share.
\<close>

section \<open>The decision for one datagram\<close>

text \<open>Interface, datagram and next hop, or nothing when the datagram is dropped.\<close>

definition next_hop_of :: "route_rule \<Rightarrow> ipv4_datagram \<Rightarrow> address" where
  "next_hop_of rule dg = (case rr_next_hop rule of Some h \<Rightarrow> h | None \<Rightarrow> ipv4_address (ip_dst (dg_header dg)) 0)"

definition hop_down :: "ipv4_datagram \<Rightarrow> ipv4_datagram" where
  "hop_down dg = dg\<lparr>dg_header := (dg_header dg)\<lparr>ip_ttl := ip_ttl (dg_header dg) - 1\<rparr>\<rparr>"

definition forward :: "route_rule list \<Rightarrow> ipv4_datagram \<Rightarrow> (size_t \<times> ipv4_datagram \<times> address) option" where
  "forward rules dg =
     (if ip_ttl (dg_header dg) \<le> 1 then None
      else map_option (\<lambda>rule. (rr_interface_num rule, hop_down dg, next_hop_of rule dg))
             (longest_prefix_match (ip_dst (dg_header dg)) rules))"

lemma hop_down_wf [simp]: "dg_wf (hop_down dg) = dg_wf dg"
  by (simp add: dg_wf_def hop_down_def ip_wf_def)

section \<open>Well-formed routers\<close>

definition rule_wf :: "nat \<Rightarrow> route_rule \<Rightarrow> bool" where
  "rule_wf n rule \<longleftrightarrow> unat (rr_prefix_length rule) \<le> 32 \<and> rr_interface_num rule < n \<and>
     (\<forall>h. rr_next_hop rule = Some h \<longrightarrow> (\<exists>ip port. h = ipv4_address ip port))"

definition async_inv :: "u32 \<Rightarrow> async_network_interface \<Rightarrow> bool" where
  "async_inv ip a \<longleftrightarrow> ni_inv ip (an_interface a) \<and> (\<forall>dg \<in> set (an_datagrams_out a). dg_wf dg)"

definition router_inv :: "u32 list \<Rightarrow> router \<Rightarrow> bool" where
  "router_inv ips r \<longleftrightarrow>
     list_all2 async_inv ips (rt_interfaces r) \<and> (\<forall>rule \<in> set (rt_rules r). rule_wf (length ips) rule)"

lemma router_inv_length: "router_inv ips r \<Longrightarrow> length (rt_interfaces r) = length ips"
  by (auto simp: router_inv_def dest: list_all2_lengthD)

lemma router_inv_nth: "router_inv ips r \<Longrightarrow> i < length ips \<Longrightarrow> async_inv (ips ! i) (rt_interfaces r ! i)"
  by (auto simp: router_inv_def intro: list_all2_nthD)

lemma router_inv_update:
  assumes "router_inv ips r" "i < length ips \<Longrightarrow> async_inv (ips ! i) a"
  shows "router_inv ips (r\<lparr>rt_interfaces := (rt_interfaces r)[i := a]\<rparr>)"
proof (cases "i < length ips")
  case True
  then have "list_all2 async_inv (ips[i := ips ! i]) ((rt_interfaces r)[i := a])"
    using assms by (intro list_all2_update_cong) (simp_all add: router_inv_def)
  then show ?thesis using assms(1) by (simp add: router_inv_def)
next
  case False
  then show ?thesis using assms(1) router_inv_length [OF assms(1)] by (simp add: list_update_beyond)
qed

lemma pop_inv:
  assumes "router_inv ips r"
  shows "router_inv ips (Router_pop i r)"
  unfolding Router_pop_def Let_def
proof (rule router_inv_update [OF assms])
  assume "i < length ips"
  from router_inv_nth [OF assms this]
  show "async_inv (ips ! i) ((rt_interfaces r ! i)\<lparr>an_datagrams_out := tl (an_datagrams_out (rt_interfaces r ! i))\<rparr>)"
    by (cases "an_datagrams_out (rt_interfaces r ! i)") (auto simp: async_inv_def)
qed

section \<open>One datagram\<close>

abbreviation nis :: "router \<Rightarrow> network_interface list" where
  "nis r \<equiv> map an_interface (rt_interfaces r)"

lemma forward_in_range:
  assumes "router_inv ips r" "forward (rt_rules r) dg = Some (n, dg', h)"
  shows "n < length ips" "dg' = hop_down dg" "\<exists>ip port. h = ipv4_address ip port"
proof -
  obtain rule where rule: "longest_prefix_match (ip_dst (dg_header dg)) (rt_rules r) = Some rule"
    "n = rr_interface_num rule" "dg' = hop_down dg" "h = next_hop_of rule dg"
    using assms(2) by (auto simp: forward_def split: if_splits)
  then have "rule \<in> set (rt_rules r)"
    using best_rule_mem by (fastforce simp: longest_prefix_match_def)
  then have "rule_wf (length ips) rule" using assms(1) by (auto simp: router_inv_def)
  then show "n < length ips" "dg' = hop_down dg" "\<exists>ip port. h = ipv4_address ip port"
    using rule by (auto simp: rule_wf_def next_hop_of_def split: option.splits)
qed

lemma route_one_spec:
  assumes "router_inv ips r" "dg_wf dg"
  shows "\<exists>r'. Router_route_one_datagram r dg = Inr r' \<and> router_inv ips r' \<and>
    (case forward (rt_rules r) dg of
       None \<Rightarrow> r' = r
     | Some (n, dg', h) \<Rightarrow> \<exists>ni. NetworkInterface_send_datagram (nis r ! n) dg' h = Inr ni \<and> nis r' = (nis r)[n := ni])"
proof -
  have "list_all (\<lambda>rule. unat (rr_prefix_length rule) \<le> 32) (rt_rules r)"
    using assms(1) by (simp add: router_inv_def rule_wf_def list_all_iff)
  then have pick: "pick_rule (ip_dst (dg_header dg)) None (rt_rules r) =
      Inr (longest_prefix_match (ip_dst (dg_header dg)) (rt_rules r))"
    using pick_rule_best [of "rt_rules r" "ip_dst (dg_header dg)" None]
    by (simp add: longest_prefix_match_def list_all_iff)
  show ?thesis
  proof (cases "forward (rt_rules r) dg")
    case None
    then show ?thesis
      using assms(1) pick by (auto simp: forward_def Router_route_one_datagram_def split: if_splits)
  next
    case (Some e)
    obtain n dg' h where e: "forward (rt_rules r) dg = Some (n, dg', h)" using Some by (cases e) auto
    note range = forward_in_range [OF assms(1) e]
    then obtain ip port where h: "h = ipv4_address ip port" by blast
    have n: "n < length (rt_interfaces r)" using range(1) router_inv_length [OF assms(1)] by simp
    have inv: "async_inv (ips ! n) (rt_interfaces r ! n)" using router_inv_nth assms(1) range(1) .
    then obtain ni where ni: "NetworkInterface_send_datagram (nis r ! n) dg' h = Inr ni" "ni_inv (ips ! n) ni"
      using send_datagram_ok [of "ips ! n" "nis r ! n" dg' ip port] assms(2) range(2) h n
      by (auto simp: async_inv_def)
    let ?a = "(rt_interfaces r ! n)\<lparr>an_interface := ni\<rparr>"
    let ?r = "r\<lparr>rt_interfaces := (rt_interfaces r)[n := ?a]\<rparr>"
    obtain rule where rule: "longest_prefix_match (ip_dst (dg_header dg)) (rt_rules r) = Some rule"
      "n = rr_interface_num rule" "h = next_hop_of rule dg" "\<not> ip_ttl (dg_header dg) \<le> 1"
      using e by (auto simp: forward_def split: if_splits)
    have hop: "(case rr_next_hop rule of Some next_hop \<Rightarrow> Inr next_hop
        | None \<Rightarrow> Address_from_ipv4_numeric (ip_dst (dg_header (hop_down dg)))) = Inr h"
      using rule(3) by (simp add: next_hop_of_def hop_down_def split: option.splits)
    have send: "AsyncNetworkInterface_send_datagram (rt_interfaces r ! n) (hop_down dg) h = Inr ?a"
      using ni(1) range(2) n by (simp add: AsyncNetworkInterface_send_datagram_def)
    have "Router_route_one_datagram r dg = Inr ?r"
      using rule(1,2,4) n hop send pick
      by (simp add: Router_route_one_datagram_def Let_def hop_down_def [symmetric])
    moreover have "router_inv ips ?r"
      using ni(2) inv by (intro router_inv_update [OF assms(1)]) (simp add: async_inv_def)
    ultimately show ?thesis using e ni(1) by (auto simp: map_update)
  qed
qed

section \<open>All datagrams\<close>

text \<open>The share of interface \<open>j\<close> in what the datagrams \<open>dgs\<close> cause to be sent.\<close>

definition share :: "route_rule list \<Rightarrow> size_t \<Rightarrow> ipv4_datagram list \<Rightarrow> (ipv4_datagram \<times> address) list" where
  "share rules j dgs =
     concat (map (\<lambda>dg. case forward rules dg of Some (n, dg', h) \<Rightarrow> if n = j then [(dg', h)] else [] | None \<Rightarrow> []) dgs)"

lemma share_simps [simp]:
  "share rules j [] = []" "share rules j (xs @ ys) = share rules j xs @ share rules j ys"
  by (simp_all add: share_def)

definition send_all :: "network_interface \<Rightarrow> (ipv4_datagram \<times> address) list \<Rightarrow> network_interface result" where
  "send_all ni sends = runE (\<lambda>ni (dg, h). NetworkInterface_send_datagram ni dg h) ni sends"

lemma send_all_simps [simp]:
  "send_all ni [] = Inr ni" "send_all ni ((dg, h) # sends) = bindE (NetworkInterface_send_datagram ni dg h) (\<lambda>ni. send_all ni sends)"
  by (simp_all add: send_all_def)

lemma send_all_append:
  "send_all ni xs = Inr ni' \<Longrightarrow> send_all ni' ys = Inr ni'' \<Longrightarrow> send_all ni (xs @ ys) = Inr ni''"
  by (simp add: send_all_def runE_append)

text \<open>\<open>r'\<close> is \<open>r\<close> after the datagrams \<open>dgs\<close> have been routed, queues aside.\<close>

definition routed :: "u32 list \<Rightarrow> router \<Rightarrow> ipv4_datagram list \<Rightarrow> router \<Rightarrow> bool" where
  "routed ips r dgs r' \<longleftrightarrow> router_inv ips r' \<and> rt_rules r' = rt_rules r \<and>
     (\<forall>j < length ips. send_all (nis r ! j) (share (rt_rules r) j dgs) = Inr (nis r' ! j))"

lemma routed_refl: "router_inv ips r \<Longrightarrow> routed ips r [] r"
  by (simp add: routed_def)

lemma routed_trans: "routed ips r xs r' \<Longrightarrow> routed ips r' ys r'' \<Longrightarrow> routed ips r (xs @ ys) r''"
  by (auto simp: routed_def intro: send_all_append)

lemma routed_pop: "routed ips r dgs r' \<Longrightarrow> routed ips r dgs (Router_pop i r')"
proof -
  have "nis (Router_pop i r') = nis r'" by (simp add: Router_pop_def Let_def map_update update_nth_map)
  then show "routed ips r dgs r' \<Longrightarrow> routed ips r dgs (Router_pop i r')"
    by (simp add: routed_def pop_inv pop_simps)
qed

lemma routed_one:
  assumes "router_inv ips r" "dg_wf dg"
  shows "\<exists>r'. Router_route_one_datagram r dg = Inr r' \<and> routed ips r [dg] r'"
proof -
  obtain r' where r': "Router_route_one_datagram r dg = Inr r'" "router_inv ips r'"
    "case forward (rt_rules r) dg of None \<Rightarrow> r' = r
     | Some (n, dg', h) \<Rightarrow> \<exists>ni. NetworkInterface_send_datagram (nis r ! n) dg' h = Inr ni \<and> nis r' = (nis r)[n := ni]"
    using route_one_spec [OF assms] by blast
  have len: "length (nis r) = length ips" using router_inv_length [OF assms(1)] by simp
  have "send_all (nis r ! j) (share (rt_rules r) j [dg]) = Inr (nis r' ! j)" if "j < length ips" for j
    using r'(3) that len by (auto simp: share_def nth_list_update split: option.splits prod.splits)
  then show ?thesis using r'(1,2) route_one_queues [OF r'(1)] by (simp add: routed_def)
qed

lemma route_queue_spec:
  assumes "router_inv ips r" "i < length ips"
  shows "\<exists>r'. route_queue i r = Inr r' \<and> routed ips r (queues r ! i) r' \<and> queues r' = (queues r)[i := []]"
  using assms
proof (induction "length (queues r ! i)" arbitrary: r)
  case 0
  have i: "i < length (rt_interfaces r)" using router_inv_length 0 by simp
  then have "queues r ! i = []" using 0 by simp
  then have "route_queue i r = Inr r" using i by (subst route_queue.simps) simp
  moreover have "(queues r)[i := []] = queues r" using \<open>queues r ! i = []\<close> by (metis list_update_id)
  ultimately show ?case using routed_refl [OF "0.prems"(1)] \<open>queues r ! i = []\<close> by simp
next
  case (Suc k)
  have i: "i < length (rt_interfaces r)" using router_inv_length Suc.prems by simp
  obtain dg q where q: "queues r ! i = dg # q" using Suc.hyps(2) by (cases "queues r ! i") auto
  then have qi: "an_datagrams_out (rt_interfaces r ! i) = dg # q" using i by simp
  have "dg_wf dg" using router_inv_nth [OF Suc.prems] qi by (simp add: async_inv_def)
  then obtain r1 where r1: "Router_route_one_datagram r dg = Inr r1" "routed ips r [dg] r1"
    using routed_one Suc.prems(1) by blast
  let ?r = "Router_pop i r1"
  have r2: "routed ips r [dg] ?r" using r1(2) by (rule routed_pop)
  have q1: "queues r1 = queues r" using route_one_queues [OF r1(1)] by simp
  then have len: "length (rt_interfaces r1) = length (rt_interfaces r)" by (metis length_map)
  have q2: "queues ?r = (queues r)[i := q]"
    using q1 i qi pop_queue [OF r1(1) i] len by (simp add: pop_simps) (metis list.sel(3) nth_map q)
  then have qk: "k = length (queues ?r ! i)" "queues ?r ! i = q" using Suc.hyps(2) q i by simp_all
  have "router_inv ips ?r" using r2 by (simp add: routed_def)
  from Suc.hyps(1) [OF qk(1) this Suc.prems(2)] obtain r' where
    r': "route_queue i ?r = Inr r'" "routed ips ?r q r'" "queues r' = (queues ?r)[i := []]" using qk(2) by auto
  have "route_queue i r = Inr r'"
    using r1(1) r'(1) i qi by (subst route_queue.simps) simp
  moreover have "routed ips r (queues r ! i) r'" using routed_trans [OF r2 r'(2)] q by simp
  ultimately show ?case using r'(3) q2 by simp
qed

lemma route_loop_spec:
  assumes "router_inv ips r" "set is \<subseteq> {..<length ips}" "distinct is"
  shows "\<exists>r'. route_loop is r = Inr r' \<and> routed ips r (concat (map (\<lambda>i. queues r ! i) is)) r' \<and>
    (\<forall>i < length ips. queues r' ! i = (if i \<in> set is then [] else queues r ! i))"
  using assms
proof (induction "is" arbitrary: r)
  case Nil
  then show ?case using routed_refl by simp
next
  case (Cons i "is")
  obtain r1 where r1: "route_queue i r = Inr r1" "routed ips r (queues r ! i) r1" "queues r1 = (queues r)[i := []]"
    using route_queue_spec [OF Cons.prems(1), of i] Cons.prems(2) by auto
  have inv: "router_inv ips r1" using r1(2) by (simp add: routed_def)
  obtain r' where r': "route_loop is r1 = Inr r'" "routed ips r1 (concat (map (\<lambda>i. queues r1 ! i) is)) r'"
    "\<forall>i < length ips. queues r' ! i = (if i \<in> set is then [] else queues r1 ! i)"
    using Cons.IH [OF inv] Cons.prems(2,3) by auto
  have "map (\<lambda>j. queues r1 ! j) is = map (\<lambda>j. queues r ! j) is"
    using Cons.prems(3) unfolding r1(3) by (intro map_cong) (auto, metis nth_list_update_neq)
  then have "routed ips r (concat (map (\<lambda>i. queues r ! i) (i # is))) r'"
    using routed_trans [OF r1(2) r'(2)] by (simp only: list.map concat.simps)
  moreover have "\<forall>j < length ips. queues r' ! j = (if j \<in> set (i # is) then [] else queues r ! j)"
    using r'(3) router_inv_length [OF Cons.prems(1)] unfolding r1(3) by (auto simp: nth_list_update)
  ultimately show ?case using r1(1) r'(1) by auto
qed

lemma route_ok:
  assumes "router_inv ips r"
  shows "\<exists>r'. Router_route r = Inr r' \<and> routed ips r (concat (queues r)) r' \<and>
    (\<forall>j < length ips. an_datagrams_out (rt_interfaces r' ! j) = [])"
proof -
  let ?n = "length ips"
  have len: "length (rt_interfaces r) = ?n" by (rule router_inv_length [OF assms])
  obtain r' where r': "route_loop [0..<?n] r = Inr r'" "routed ips r (concat (map (\<lambda>i. queues r ! i) [0..<?n])) r'"
    "\<forall>i < ?n. queues r' ! i = (if i \<in> set [0..<?n] then [] else queues r ! i)"
    using route_loop_spec [OF assms, of "[0..<?n]"] by (auto simp: atLeast0LessThan)
  have q: "map (\<lambda>i. queues r ! i) [0..<?n] = queues r" using len by (metis length_map map_nth)
  have len': "length (rt_interfaces r') = ?n" using r'(2) router_inv_length by (simp add: routed_def)
  have "an_datagrams_out (rt_interfaces r' ! j) = []" if "j < ?n" for j
    using r'(3) that len' by (auto dest!: spec [of _ j])
  then show ?thesis using r'(1,2) q len by (simp add: Router_route_def)
qed

text \<open>
  C6. \<open>route\<close> forwards everything.  In a well-formed router, with any number of well-formed datagrams
  waiting in its interfaces, \<open>route\<close> terminates without failure and leaves all queues empty.  Its
  effect on the interfaces is that of the specification: every interface \<open>j\<close> has sent, in order, exactly
  the datagrams whose longest matching rule names \<open>j\<close>, each with its time to live lowered by one, to
  the next hop of the rule or to the destination itself; datagrams without a matching rule or with a
  time to live of at most one are dropped.
\<close>

theorem route_forwards:
  assumes "router_inv ips r"
  shows "\<exists>r'. Router_route r = Inr r' \<and> router_inv ips r' \<and> rt_rules r' = rt_rules r \<and>
    (\<forall>j < length ips. an_datagrams_out (rt_interfaces r' ! j) = [] \<and>
      send_all (an_interface (rt_interfaces r ! j)) (share (rt_rules r) j (concat (queues r))) =
        Inr (an_interface (rt_interfaces r' ! j)))"
proof -
  obtain r' where r': "Router_route r = Inr r'" "routed ips r (concat (queues r)) r'"
    "\<forall>j < length ips. an_datagrams_out (rt_interfaces r' ! j) = []"
    using route_ok [OF assms] by blast
  have "length (rt_interfaces r) = length ips" "length (rt_interfaces r') = length ips"
    using router_inv_length assms r'(2) by (simp_all add: routed_def)
  then show ?thesis using r' by (simp add: routed_def)
qed

section \<open>Building a router\<close>

text \<open>Arriving frames: ARP messages leave the queue alone, IPv4 datagrams are appended to it.\<close>

lemma dgram_same_wf: "dgram_same dg dg' \<Longrightarrow> dg_wf dg \<Longrightarrow> dg_wf dg'"
  by (auto simp: dgram_same_def dg_wf_def ip_wf_def)

lemma async_recv_arp:
  assumes "async_inv ip a" "length (ef_payload f) \<le> 1" "eh_type (ef_header f) \<noteq> TYPE_IPv4"
  shows "\<exists>a'. AsyncNetworkInterface_recv_frame a f = Inr a' \<and> an_datagrams_out a' = an_datagrams_out a \<and> async_inv ip a'"
proof -
  obtain d ni where ni: "NetworkInterface_recv_frame (an_interface a) f = Inr (d, ni)" "ni_inv ip ni"
    using recv_ok [of ip "an_interface a" f] assms(1,2) by (auto simp: async_inv_def)
  have "d = None" using ni(1) assms(3) by (auto simp: NetworkInterface_recv_frame_def Let_def split: if_splits prod.splits)
  then show ?thesis using ni assms(1) by (auto simp: AsyncNetworkInterface_recv_frame_def async_inv_def Let_def)
qed

lemma async_recv_ipv4:
  assumes "async_inv ip a" "ni_accepts (an_interface a) f" "eh_type (ef_header f) = TYPE_IPv4"
    and "ef_payload f = [b]" "Buffer_str b = BufferList_concatenate (dg_ser dg)" "dg_wf dg"
  shows "\<exists>dg'. AsyncNetworkInterface_recv_frame a f = Inr (a\<lparr>an_datagrams_out := an_datagrams_out a @ [dg']\<rparr>) \<and>
    dgram_same dg dg' \<and> async_inv ip (a\<lparr>an_datagrams_out := an_datagrams_out a @ [dg']\<rparr>)"
proof -
  obtain dg' where dg': "IPv4Datagram_parse IPv4Datagram_default b = Inr (NoError, dg')" "dgram_same dg dg'"
    using IPv4Datagram_parse_serialize [of dg IPv4Datagram_default] dg_ser assms(5,6) by fastforce
  have "AsyncNetworkInterface_recv_frame a f = Inr (a\<lparr>an_datagrams_out := an_datagrams_out a @ [dg']\<rparr>)"
    using recv_ipv4 [OF assms(2-4) dg'(1)] by (simp add: AsyncNetworkInterface_recv_frame_def)
  then show ?thesis using dg'(2) assms(1) dgram_same_wf [OF dg'(2) assms(6)] by (auto simp: async_inv_def)
qed

text \<open>
  Routers stay well formed.  A new router is well formed.  Adding an interface to a well-formed
  router returns the index under which \<open>interface\<close> finds it, and adding a rule for one of the
  interfaces is safe; both keep the router well formed.  An index out of range is refused with an
  exception.  A frame that is no IPv4 frame leaves the queue of its interface as it is.
\<close>

lemma router_well_formed:
  assumes "router_inv ips r" "Suc (length ips) < size_mod" "async_inv ip a"
    and "rule_wf (length ips) \<lparr>rr_route_prefix = p, rr_prefix_length = l, rr_next_hop = h, rr_interface_num = i\<rparr>"
    and "length ips \<le> k" "length (ef_payload f) \<le> 1" "eh_type (ef_header f) \<noteq> TYPE_IPv4"
  shows "router_inv [] Router_new \<and>
    (\<exists>n r'. Router_add_interface r a = (n, r') \<and> router_inv (ips @ [ip]) r' \<and> n = length ips \<and> Router_interface r' n = Inr a) \<and>
    router_inv ips (Router_add_route r p l h i) \<and>
    (\<exists>m. Router_interface r k = Inl (OutOfRange m)) \<and>
    (\<exists>b b'. Router_interface r i = Inr b \<and> AsyncNetworkInterface_recv_frame b f = Inr b' \<and>
       an_datagrams_out b' = an_datagrams_out b \<and> router_inv ips (r\<lparr>rt_interfaces := (rt_interfaces r)[i := b']\<rparr>))"
proof (intro conjI)
  have len: "length (rt_interfaces r) = length ips" by (rule router_inv_length [OF assms(1)])
  show "router_inv [] Router_new" by (simp add: router_inv_def Router_new_def)
  let ?r = "r\<lparr>rt_interfaces := rt_interfaces r @ [a]\<rparr>"
  have "rule_wf (length (ips @ [ip])) rule" if "rule_wf (length ips) rule" for rule
    using that by (auto simp: rule_wf_def)
  then have "router_inv (ips @ [ip]) ?r"
    using assms(1,3) len by (auto simp: router_inv_def list_all2_append)
  moreover have "sz_sub (Suc (length ips)) 1 = length ips" using assms(2) by (simp add: sz_sub_small)
  ultimately show "\<exists>n r'. Router_add_interface r a = (n, r') \<and> router_inv (ips @ [ip]) r' \<and>
      n = length ips \<and> Router_interface r' n = Inr a"
    using len by (simp add: Router_add_interface_def Router_interface_def Let_def nth_append)
  show "router_inv ips (Router_add_route r p l h i)"
    using assms(1,4) by (simp add: router_inv_def Router_add_route_def)
  show "\<exists>m. Router_interface r k = Inl (OutOfRange m)"
    using assms(5) len by (simp add: Router_interface_def)
  have i: "i < length ips" using assms(4) by (simp add: rule_wf_def)
  then obtain b' where "AsyncNetworkInterface_recv_frame (rt_interfaces r ! i) f = Inr b'"
    "an_datagrams_out b' = an_datagrams_out (rt_interfaces r ! i)" "async_inv (ips ! i) b'"
    using async_recv_arp [OF router_inv_nth [OF assms(1)] assms(6,7)] by blast
  then show "\<exists>b b'. Router_interface r i = Inr b \<and> AsyncNetworkInterface_recv_frame b f = Inr b' \<and>
      an_datagrams_out b' = an_datagrams_out b \<and> router_inv ips (r\<lparr>rt_interfaces := (rt_interfaces r)[i := b']\<rparr>)"
    using i len router_inv_update [OF assms(1)] by (auto simp: Router_interface_def)
qed

section \<open>One hop\<close>

text \<open>The bytes on the wire do not depend on the checksum field or on how the payload is split.\<close>

lemma dg_ser_same:
  assumes "dg_wf x" "dg_wf y" "(dg_header x)\<lparr>ip_cksum := 0\<rparr> = (dg_header y)\<lparr>ip_cksum := 0\<rparr>"
    and "BufferList_concatenate (dg_payload x) = BufferList_concatenate (dg_payload y)"
  shows "BufferList_concatenate (dg_ser x) = BufferList_concatenate (dg_ser y)"
proof -
  have "\<exists>s. dg_ser x = Buffer_new s # dg_payload x \<and> dg_ser y = Buffer_new s # dg_payload y"
    using dg_ser [OF assms(1)] dg_ser [OF assms(2)] assms(3)
    by (auto simp: IPv4Datagram_serialize_def Let_def split: if_splits) metis
  then show ?thesis using assms(4) by auto
qed

lemma hop_same:
  assumes "dgram_same dg dg'" "dg_wf dg"
  shows "forward rules dg' = map_option (\<lambda>(n, _, h). (n, hop_down dg', h)) (forward rules dg)"
    and "BufferList_concatenate (dg_ser (hop_down dg')) = BufferList_concatenate (dg_ser (hop_down dg))"
proof -
  have h: "dg_header dg' = (dg_header dg)\<lparr>ip_cksum := dg_cksum (dg_header dg)\<rparr>"
    using assms(1) by (simp add: dgram_same_def)
  show "forward rules dg' = map_option (\<lambda>(n, _, h). (n, hop_down dg', h)) (forward rules dg)"
    unfolding forward_def next_hop_of_def h by (simp add: option.map_comp comp_def h cong: option.case_cong)
  show "BufferList_concatenate (dg_ser (hop_down dg')) = BufferList_concatenate (dg_ser (hop_down dg))"
  proof (rule dg_ser_same)
    show "dg_wf (hop_down dg')" "dg_wf (hop_down dg)" using assms dgram_same_wf [OF assms] by simp_all
  qed (use assms(1) in \<open>auto simp: hop_down_def dgram_same_def\<close>)
qed

lemma one_hop:
  assumes "router_inv ips r" "\<forall>q \<in> set (queues r). q = []" "i < length ips"
    and "ni_accepts (an_interface (rt_interfaces r ! i)) f" "eh_type (ef_header f) = TYPE_IPv4"
    and "ef_payload f = [b]" "Buffer_str b = BufferList_concatenate (dg_ser dg)" "dg_wf dg"
    and "forward (rt_rules r) dg = Some (j, dg', ipv4_address k port)"
    and "std_find k (ni_addr_cache (an_interface (rt_interfaces r ! j))) = Some (mac, t)"
  shows "\<exists>a r' pl. AsyncNetworkInterface_recv_frame (rt_interfaces r ! i) f = Inr a \<and>
    Router_route (r\<lparr>rt_interfaces := (rt_interfaces r)[i := a]\<rparr>) = Inr r' \<and>
    (\<forall>m < length ips. ni_frames_out (nis r' ! m) = ni_frames_out (nis r ! m) @
       (if m = j then [NetworkInterface_make_frame (nis r ! j) mac TYPE_IPv4 pl] else [])) \<and>
    BufferList_concatenate pl = BufferList_concatenate (dg_ser (hop_down dg))"
proof -
  let ?a = "rt_interfaces r ! i"
  have len: "length (rt_interfaces r) = length ips" by (rule router_inv_length [OF assms(1)])
  obtain d where d: "AsyncNetworkInterface_recv_frame ?a f = Inr (?a\<lparr>an_datagrams_out := an_datagrams_out ?a @ [d]\<rparr>)"
    "dgram_same dg d" "async_inv (ips ! i) (?a\<lparr>an_datagrams_out := an_datagrams_out ?a @ [d]\<rparr>)"
    using async_recv_ipv4 [OF router_inv_nth [OF assms(1,3)] assms(4-8)] by blast
  let ?b = "?a\<lparr>an_datagrams_out := an_datagrams_out ?a @ [d]\<rparr>"
  let ?r = "r\<lparr>rt_interfaces := (rt_interfaces r)[i := ?b]\<rparr>"
  have inv: "router_inv ips ?r" by (rule router_inv_update [OF assms(1) d(3)])
  have ni: "nis ?r = nis r" using update_nth_map [of an_interface "rt_interfaces r" i] by (simp add: map_update)
  have empty: "queues r ! m = []" if "m < length ips" for m using assms(2) that len by simp
  have "concat (queues ?r) = [d]"
  proof -
    have "queues r = replicate (length ips) []" using assms(2) len by (metis length_map replicate_eqI)
    moreover have "queues ?r = (queues r)[i := an_datagrams_out ?a @ [d]]" by (simp add: map_update)
    moreover have "an_datagrams_out ?a = []" using empty [OF assms(3)] assms(3) len by simp
    ultimately have "queues ?r = (replicate (length ips) [])[i := [d]]" by simp
    also have "\<dots> = replicate i [] @ [d] # replicate (length ips - Suc i) []"
      using assms(3) by (simp add: upd_conv_take_nth_drop)
    finally show ?thesis by simp
  qed
  obtain r' where r': "Router_route ?r = Inr r'"
    "\<And>m. m < length ips \<Longrightarrow> send_all (nis r ! m) (share (rt_rules r) m [d]) = Inr (nis r' ! m)"
    using route_ok [OF inv] \<open>concat (queues ?r) = [d]\<close> ni by (auto simp: routed_def)
  have fw: "forward (rt_rules r) d = Some (j, hop_down d, ipv4_address k port)"
    using hop_same(1) [OF d(2) assms(8)] assms(9) by simp
  have "j < length ips" using forward_in_range(1) [OF assms(1,9)] .
  then have "ni_inv (ips ! j) (nis r ! j)" using router_inv_nth [OF assms(1)] len by (simp add: async_inv_def)
  then obtain nj where nj: "NetworkInterface_send_datagram (nis r ! j) (hop_down d) (ipv4_address k port) = Inr nj"
    "ni_frames_out nj = ni_frames_out (nis r ! j) @ [NetworkInterface_make_frame (nis r ! j) mac TYPE_IPv4 (dg_ser (hop_down d))]"
    using send_datagram_ok [of _ "nis r ! j" "hop_down d" k port] assms(10) dgram_same_wf [OF d(2) assms(8)]
      \<open>j < length ips\<close> len by (auto simp: ni_sends_def)
  have "ni_frames_out (nis r' ! m) = ni_frames_out (nis r ! m) @
      (if m = j then [NetworkInterface_make_frame (nis r ! j) mac TYPE_IPv4 (dg_ser (hop_down d))] else [])"
    if "m < length ips" for m
    using r'(2) [OF that] fw nj by (cases "m = j") (auto simp: share_def)
  then show ?thesis using d(1) r'(1) hop_same(2) [OF d(2) assms(8)] by blast
qed

text \<open>
  C9. One hop.  A frame with the bytes of a well-formed datagram reaches an interface of a router
  whose queues are empty, the longest matching rule leads to interface \<open>j\<close>, and \<open>j\<close> knows the Ethernet
  address of the next hop.  After \<open>recv_frame\<close> and \<open>route\<close>, exactly one more frame has been put out by
  \<open>j\<close>: it goes to that Ethernet address and carries the bytes of the datagram with its time to live
  lowered by one.  No other interface has sent anything.
\<close>

theorem router_hop:
  assumes "router_inv ips r" "\<forall>q \<in> set (queues r). q = []" "i < length ips"
    and "ni_accepts (an_interface (rt_interfaces r ! i)) f" "eh_type (ef_header f) = TYPE_IPv4"
    and "ef_payload f = [b]" "Buffer_str b = BufferList_concatenate (dg_ser dg)" "dg_wf dg"
    and "forward (rt_rules r) dg = Some (j, dg', ipv4_address k port)"
    and "std_find k (ni_addr_cache (an_interface (rt_interfaces r ! j))) = Some (mac, t)"
  shows "\<exists>a r' pl. AsyncNetworkInterface_recv_frame (rt_interfaces r ! i) f = Inr a \<and>
    Router_route (r\<lparr>rt_interfaces := (rt_interfaces r)[i := a]\<rparr>) = Inr r' \<and>
    (\<forall>m < length ips. ni_frames_out (nis r' ! m) = ni_frames_out (nis r ! m) @
       (if m = j then [NetworkInterface_make_frame (nis r ! j) mac TYPE_IPv4 pl] else [])) \<and>
    BufferList_concatenate pl = BufferList_concatenate (dg_ser (hop_down dg))"
  using one_hop [OF assms] .

section \<open>Examples\<close>

text \<open>
  A router with two interfaces.  The second one knows its neighbour; everything under 10.0.0.0/8 goes
  there directly.
\<close>

definition router_example :: router where
  "router_example =
     \<lparr>rt_interfaces =
        [AsyncNetworkInterface_new (NetworkInterface_new [2, 0, 0, 0, 0, 1] (ipv4_address 0xab434c2e 0)),
         AsyncNetworkInterface_new ((NetworkInterface_new [2, 0, 0, 0, 0, 2] (ipv4_address 0x0a000001 0))
           \<lparr>ni_addr_cache := [(0x0a000002, ([2, 0, 0, 0, 0, 9], 0))]\<rparr>)],
      rt_rules =
        [\<lparr>rr_route_prefix = 0x0a000000, rr_prefix_length = 8, rr_next_hop = None, rr_interface_num = 1\<rparr>]\<rparr>"

definition frame_example :: "byte list \<Rightarrow> ethernet_frame" where
  "frame_example bytes =
     \<lparr>ef_header = \<lparr>eh_dst = [2, 0, 0, 0, 0, 1], eh_src = [2, 0, 0, 0, 0, 7], eh_type = TYPE_IPv4\<rparr>,
      ef_payload = [Buffer_new bytes]\<rparr>"

lemma router_example_inv: "router_inv [0xab434c2e, 0x0a000001] router_example"
  by (auto simp: router_inv_def router_example_def async_inv_def AsyncNetworkInterface_new_def ni_inv_new rule_wf_def)
    (auto simp: ni_inv_def NetworkInterface_new_def std_sorted_def std_find_def)

lemma router_example_forward:
  "forward (rt_rules router_example) dg_example = Some (1, hop_down dg_example, ipv4_address 0x0a000002 0)"
  by code_simp

text \<open>The router with a datagram in the queue of its first interface.\<close>

definition router_loaded :: router where
  "router_loaded = router_example\<lparr>rt_interfaces := (rt_interfaces router_example)
     [0 := (rt_interfaces router_example ! 0)\<lparr>an_datagrams_out := [dg_example]\<rparr>]\<rparr>"

lemma router_loaded_inv: "router_inv [0xab434c2e, 0x0a000001] router_loaded"
  using router_example_inv dg_example_wf
  by (auto simp: router_inv_def router_loaded_def router_example_def async_inv_def list_all2_Cons1)

theorem route_forwards_witness:
  "\<exists>r'. Router_route router_loaded = Inr r' \<and> router_inv [0xab434c2e, 0x0a000001] r' \<and>
    rt_rules r' = rt_rules router_loaded \<and> an_datagrams_out (rt_interfaces r' ! 0) = [] \<and>
    send_all (an_interface (rt_interfaces router_loaded ! 1)) [(hop_down dg_example, ipv4_address 0x0a000002 0)] =
      Inr (an_interface (rt_interfaces r' ! 1))"
proof -
  have "share (rt_rules router_loaded) 1 (concat (queues router_loaded)) = [(hop_down dg_example, ipv4_address 0x0a000002 0)]"
    using router_example_forward
    by (simp add: router_loaded_def share_def router_example_def AsyncNetworkInterface_new_def)
  then show ?thesis using route_forwards [OF router_loaded_inv] by force
qed

theorem router_hop_witness:
  "\<exists>a r' pl. AsyncNetworkInterface_recv_frame (rt_interfaces router_example ! 0)
      (frame_example (BufferList_concatenate (dg_ser dg_example))) = Inr a \<and>
    Router_route (router_example\<lparr>rt_interfaces := (rt_interfaces router_example)[0 := a]\<rparr>) = Inr r' \<and>
    ni_frames_out (nis r' ! 1) = ni_frames_out (nis router_example ! 1) @
      [NetworkInterface_make_frame (nis router_example ! 1) [2, 0, 0, 0, 0, 9] TYPE_IPv4 pl] \<and>
    BufferList_concatenate pl = BufferList_concatenate (dg_ser (hop_down dg_example))"
proof -
  have "\<exists>a r' pl. AsyncNetworkInterface_recv_frame (rt_interfaces router_example ! 0)
      (frame_example (BufferList_concatenate (dg_ser dg_example))) = Inr a \<and>
    Router_route (router_example\<lparr>rt_interfaces := (rt_interfaces router_example)[0 := a]\<rparr>) = Inr r' \<and>
    (\<forall>m < length [0xab434c2e, 0x0a000001 :: u32]. ni_frames_out (nis r' ! m) = ni_frames_out (nis router_example ! m) @
       (if m = 1 then [NetworkInterface_make_frame (nis router_example ! 1) [2, 0, 0, 0, 0, 9] TYPE_IPv4 pl] else [])) \<and>
    BufferList_concatenate pl = BufferList_concatenate (dg_ser (hop_down dg_example))"
    by (rule router_hop [OF router_example_inv _ _ _ _ _ Buffer_new_simps(1) dg_example_wf router_example_forward])
      (simp_all add: router_example_def frame_example_def AsyncNetworkInterface_new_def NetworkInterface_new_def
        ni_accepts_def std_find_def)
  then show ?thesis by force
qed

end
