(* ===== verification/Malformed_Datagrams.thy ===== *)
theory Malformed_Datagrams
  imports Forwarding
begin

text \<open>
  What happens to a router that receives a datagram its parser should have refused.
\<close>

unbundle bit_operations_syntax

section \<open>Malformed datagrams\<close>

text \<open>
  \<open>IPv4Datagram::parse\<close> drops the result of \<open>IPv4Header::parse\<close>, so a datagram of version 6 with the
  right length is accepted; \<open>serialize\<close> throws on it.
\<close>

lemma IPv4Header_parse_version6:
  assumes p: "np_error p = NoError" "np_str p = ip_bytes h @ rest"
    and h: "ip_ver h = 6" "ip_hlen h = 5" "ip_offset h AND 0x1fff = ip_offset h"
  shows "np_returns (IPv4Header_parse old p) (WrongIPVersion, h) rest"
proof -
  have fb: "drop_bit 4 (IPv4Header_first_byte h) = ip_ver h" "IPv4Header_first_byte h AND 0x0f = ip_hlen h"
    using h by (simp_all add: IPv4Header_first_byte_def)
  have fo: "IPv4Header_fo_val h AND 0x1fff = ip_offset h"
    using fo_bits(3) [of "h\<lparr>ip_ver := 4\<rparr>"] h by (simp add: ip_wf_def IPv4Header_fo_val_def)
  have size: "\<not> length (np_str p) < IPv4Header_LENGTH" "\<not> length (np_str p) < 4 * unat (ip_hlen h)" "(ip_ver h \<noteq> 4) = True"
    using p(2) h by simp_all
  have str: "np_str p = [IPv4Header_first_byte h] @ [ip_tos h] @ be16 (ip_len h) @ be16 (ip_id h) @
     be16 (IPv4Header_fo_val h) @ [ip_ttl h] @ [ip_proto h] @ be16 (ip_cksum h) @
     be32 (ip_src h) @ be32 (ip_dst h) @ rest"
    using p by (simp add: ip_bytes_def)
  show ?thesis
    unfolding IPv4Header_parse_def Let_def Buffer_size_def if_not_P [OF size(1)]
    apply (rule tok_steps, fact, fact str)
    apply (rule tok_steps, assumption, assumption)+
    apply (simp only: fo_bits(1,2) fb fo ipv4_header.simps size if_False if_True simp_thms)
    apply (simp add: np_returns_def)
    done
qed

lemma version6_accepted:
  assumes "Buffer_str b = ip_bytes h @ pl" "ip_ver h = 6" "ip_hlen h = 5" "ip_offset h AND 0x1fff = ip_offset h"
    and "unat (ip_len h) = 20 + length pl"
  shows "\<exists>dg. IPv4Datagram_parse old b = Inr (NoError, dg) \<and> dg_header dg = h \<and>
    IPv4Datagram_serialize (hop_down dg) = Inl (RuntimeError ''wrong IP version'')"
proof -
  obtain p where p: "IPv4Header_parse (dg_header old) (NetParser_new b) = Inr ((WrongIPVersion, h), p)"
    "np_error p = NoError" "np_str p = pl"
    using IPv4Header_parse_version6 [of "NetParser_new b" h pl "dg_header old"] assms(1-4)
    by (auto simp: np_returns_def NetParser_new_def)
  let ?dg = "\<lparr>dg_header = h, dg_payload = BufferList_of_buffer (np_buffer p)\<rparr>"
  have "unat (ip_len h) < 65536" using unsigned_less [of "ip_len h"] by simp
  then have size: "BufferList_size [np_buffer p] = length pl"
    using assms(5) p(3) by (simp add: BufferList_size_eq)
  have "unat (20 :: u16) = 20" by simp
  then have "unat (ip_len h - 20) = length pl"
    using assms(5) by (simp add: unat_sub word_le_nat_alt)
  then have pl: "unat (IPv4Header_payload_length h) = length pl"
    using assms(3) by (simp add: IPv4Header_payload_length_def)
  then have "IPv4Datagram_parse old b = Inr (NoError, ?dg)"
    using p(1,2) size by (simp add: IPv4Datagram_parse_def BufferList_of_buffer_def Let_def)
  moreover have "IPv4Datagram_serialize (hop_down ?dg) = Inl (RuntimeError ''wrong IP version'')"
    using pl size assms(2)
    by (simp add: IPv4Datagram_serialize_def hop_down_def BufferList_of_buffer_def IPv4Header_payload_length_def
        IPv4Header_serialize_def Let_def)
  ultimately show ?thesis by auto
qed

lemma route_queue_empty: "an_datagrams_out (rt_interfaces r ! m) = [] \<Longrightarrow> route_queue m r = Inr r"
  by (subst route_queue.simps) simp

lemma route_loop_empty:
  "\<forall>m \<in> set ms. an_datagrams_out (rt_interfaces r ! m) = [] \<Longrightarrow> route_loop (ms @ is) r = route_loop is r"
  by (induction ms) (simp_all add: route_queue_empty)

text \<open>
  C34. A malformed datagram stops the router.  A frame that carries a datagram of version 6, otherwise
  complete and with a time to live above one, is accepted by the interface it reaches.  If its
  destination has a route through an interface that knows the next hop, \<open>route\<close> then throws.
\<close>

theorem version6_stops_router:
  assumes "router_inv ips r" "\<forall>q \<in> set (queues r). q = []" "i < length ips"
    and "ni_accepts (an_interface (rt_interfaces r ! i)) f" "eh_type (ef_header f) = TYPE_IPv4" "ef_payload f = [b]"
    and "Buffer_str b = ip_bytes h @ pl" "ip_ver h = 6" "ip_hlen h = 5" "ip_offset h AND 0x1fff = ip_offset h"
    and "unat (ip_len h) = 20 + length pl" "1 < ip_ttl h"
    and "longest_prefix_match (ip_dst h) (rt_rules r) = Some rule"
    and "rr_next_hop rule = Some (ipv4_address k port) \<or> rr_next_hop rule = None \<and> k = ip_dst h"
    and "std_find k (ni_addr_cache (nis r ! rr_interface_num rule)) = Some (mac, t)"
  shows "\<exists>a. AsyncNetworkInterface_recv_frame (rt_interfaces r ! i) f = Inr a \<and>
    Router_route (r\<lparr>rt_interfaces := (rt_interfaces r)[i := a]\<rparr>) = Inl (RuntimeError ''wrong IP version'')"
proof -
  let ?a = "rt_interfaces r ! i" and ?n = "rr_interface_num rule"
  have len: "length (rt_interfaces r) = length ips" by (rule router_inv_length [OF assms(1)])
  obtain dg where dg: "IPv4Datagram_parse IPv4Datagram_default b = Inr (NoError, dg)" "dg_header dg = h"
    "IPv4Datagram_serialize (hop_down dg) = Inl (RuntimeError ''wrong IP version'')"
    using version6_accepted [OF assms(7-11)] by blast
  let ?b = "?a\<lparr>an_datagrams_out := an_datagrams_out ?a @ [dg]\<rparr>"
  let ?r = "r\<lparr>rt_interfaces := (rt_interfaces r)[i := ?b]\<rparr>"
  have recv: "AsyncNetworkInterface_recv_frame ?a f = Inr ?b"
    using recv_ipv4 [OF assms(4-6) dg(1)] by (simp add: AsyncNetworkInterface_recv_frame_def)
  have empty: "queues r ! m = []" if "m < length ips" for m using assms(2) that len by simp
  have q: "queues ?r = (queues r)[i := [dg]]" using empty [OF assms(3)] assms(3) len by (simp add: map_update)
  have qi: "an_datagrams_out (rt_interfaces ?r ! i) = [dg]" using q assms(3) len empty by simp
  have rule: "rule \<in> set (rt_rules r)"
    using assms(13) best_rule_mem by (fastforce simp: longest_prefix_match_def)
  then have n: "?n < length ips" using assms(1) by (auto simp: router_inv_def rule_wf_def)
  have ni: "nis ?r = nis r" using update_nth_map [of an_interface "rt_interfaces r" i] by (simp add: map_update)
  have "nis ?r ! ?n = an_interface (rt_interfaces ?r ! ?n)" using n len by simp
  then have cache: "std_find k (ni_addr_cache (an_interface (rt_interfaces ?r ! ?n))) = Some (mac, t)"
    using assms(15) ni by metis
  have send: "AsyncNetworkInterface_send_datagram (rt_interfaces ?r ! ?n) (hop_down dg) (ipv4_address k p) =
      Inl (RuntimeError ''wrong IP version'')" for p
    using cache dg(3) by (simp add: AsyncNetworkInterface_send_datagram_def NetworkInterface_send_datagram_def)
  have "list_all (\<lambda>rule. unat (rr_prefix_length rule) \<le> 32) (rt_rules r)"
    using assms(1) by (simp add: router_inv_def rule_wf_def list_all_iff)
  then have pick: "pick_rule (ip_dst h) None (rt_rules r) = Inr (Some rule)"
    using pick_rule_best [of "rt_rules r" "ip_dst h" None] assms(13) by (simp add: longest_prefix_match_def list_all_iff)
  have "Router_route_one_datagram ?r dg = Inl (RuntimeError ''wrong IP version'')"
    unfolding Router_route_one_datagram_def dg(2)
    using assms(12,14) pick send n len dg(2)
    by (auto simp: Let_def hop_down_def not_le)
  then have "route_queue i ?r = Inl (RuntimeError ''wrong IP version'')"
    using qi assms(3) len by (subst route_queue.simps) simp
  moreover have "[0..<length ips] = [0..<i] @ i # [Suc i..<length ips]"
    using assms(3) upt_conv_Cons [of i "length ips"] upt_add_eq_append [of 0 i "length ips - i"] by simp
  moreover have "\<forall>m \<in> set [0..<i]. an_datagrams_out (rt_interfaces ?r ! m) = []"
    using assms(3) len empty by auto
  ultimately have "Router_route ?r = Inl (RuntimeError ''wrong IP version'')"
    using route_loop_empty [of "[0..<i]" ?r "i # [Suc i..<length ips]"] len by (simp add: Router_route_def)
  then show ?thesis using recv by blast
qed

definition version6_header :: ipv4_header where
  "version6_header = IPv4Header_default\<lparr>ip_ver := 6, ip_len := 20, ip_ttl := 64, ip_dst := 0x0a000002\<rparr>"

theorem version6_stops_router_witness:
  "\<exists>a. AsyncNetworkInterface_recv_frame (rt_interfaces router_example ! 0)
      (frame_example (ip_bytes version6_header @ [])) = Inr a \<and>
    Router_route (router_example\<lparr>rt_interfaces := (rt_interfaces router_example)[0 := a]\<rparr>) =
      Inl (RuntimeError ''wrong IP version'')"
proof (rule version6_stops_router [OF router_example_inv _ _ _ _ _ Buffer_new_simps(1),
      where k = "0x0a000002" and mac = "[2, 0, 0, 0, 0, 9]" and t = 0])
  show "longest_prefix_match (ip_dst version6_header) (rt_rules router_example) = Some (hd (rt_rules router_example))"
    by code_simp
qed (simp_all add: router_example_def frame_example_def AsyncNetworkInterface_new_def NetworkInterface_new_def
    ni_accepts_def std_find_def version6_header_def IPv4Header_default_def)

end
