(* ===== verification/Adapters.thy ===== *)
theory Adapters
  imports Arp_Exchange Tcp_Segment
begin

text \<open>
  The adapters between TCP segments and datagrams: \<open>FdAdapterConfig\<close> of \<open>tcp_helpers/tcp_config.hh\<close>,
  \<open>FdAdapterBase\<close> and \<open>TCPOverUDPSocketAdapter\<close> of \<open>fd_adapter.hh\<close> and \<open>fd_adapter.cc\<close>,
  \<open>TCPOverIPv4Adapter\<close> of \<open>tcp_over_ip.cc\<close>, the TUN and TAP adapters of \<open>tuntap_adapter.hh\<close> and
  \<open>tuntap_adapter.cc\<close>, and \<open>LossyFdAdapter\<close>.

  What a socket or device delivers is an argument of the operation that reads it; what an operation
  writes to it is part of its result.  The two functions of the C library on addresses are arguments.
\<close>

section \<open>Configuration\<close>

record fd_adapter_config =
  fc_source :: address
  fc_destination :: address
  fc_loss_rate_dn :: u16
  fc_loss_rate_up :: u16

definition FdAdapterConfig_new :: "getaddrinfo \<Rightarrow> fd_adapter_config result" where
  "FdAdapterConfig_new gai =
     bindE (Address_of_ip gai ''0'' 0) (\<lambda>source.
     bindE (Address_of_ip gai ''0'' 0) (\<lambda>destination.
       Inr \<lparr>fc_source = source, fc_destination = destination, fc_loss_rate_dn = 0, fc_loss_rate_up = 0\<rparr>))"

record fd_adapter =
  fa_cfg :: fd_adapter_config
  fa_listen :: bool

definition FdAdapterBase_new :: "fd_adapter_config \<Rightarrow> fd_adapter" where
  "FdAdapterBase_new cfg = \<lparr>fa_cfg = cfg, fa_listen = False\<rparr>"

definition FdAdapterBase_set_listening :: "fd_adapter \<Rightarrow> bool \<Rightarrow> fd_adapter" where
  "FdAdapterBase_set_listening a l = a\<lparr>fa_listen := l\<rparr>"

definition FdAdapterBase_set_config :: "fd_adapter \<Rightarrow> fd_adapter_config \<Rightarrow> fd_adapter" where
  "FdAdapterBase_set_config a cfg = a\<lparr>fa_cfg := cfg\<rparr>"

definition FdAdapterBase_tick :: "fd_adapter \<Rightarrow> size_t \<Rightarrow> fd_adapter" where
  "FdAdapterBase_tick a ms = a"

section \<open>TCP over UDP\<close>

definition TCPOverUDPSocketAdapter_read ::
  "fd_adapter \<Rightarrow> address \<times> byte list \<Rightarrow> (tcp_segment option \<times> fd_adapter) result" where
  "TCPOverUDPSocketAdapter_read a datagram =
     (let (source_address, payload) = datagram
      in if \<not> fa_listen a \<and> \<not> Address_eq source_address (fc_destination (fa_cfg a)) then Inr (None, a)
         else bindE (TCPSegment_parse TCPSegment_default (Buffer_new payload) 0) (\<lambda>(res, seg).
           if NoError \<noteq> res then Inr (None, a)
           else if fa_listen a then
             if th_syn (seg_header seg) \<and> \<not> th_rst (seg_header seg)
             then Inr (Some seg, FdAdapterBase_set_listening
                    (a\<lparr>fa_cfg := (fa_cfg a)\<lparr>fc_destination := source_address\<rparr>\<rparr>) False)
             else Inr (None, a)
           else Inr (Some seg, a)))"

definition TCPOverUDPSocketAdapter_write ::
  "getnameinfo \<Rightarrow> fd_adapter \<Rightarrow> tcp_segment \<Rightarrow> ((address \<times> buffer_list) \<times> tcp_segment) result" where
  "TCPOverUDPSocketAdapter_write gni a seg =
     bindE (Address_port gni (fc_source (fa_cfg a))) (\<lambda>sport.
     bindE (Address_port gni (fc_destination (fa_cfg a))) (\<lambda>dport.
       let seg = seg\<lparr>seg_header := (seg_header seg)\<lparr>th_sport := sport, th_dport := dport\<rparr>\<rparr>
       in bindE (TCPSegment_serialize seg 0) (\<lambda>payload. Inr ((fc_destination (fa_cfg a), payload), seg))))"

section \<open>TCP over IPv4\<close>

text \<open>The tests of \<open>unwrap_tcp_in_ip\<close> on the two IP addresses.\<close>

definition address_related :: "fd_adapter \<Rightarrow> address \<Rightarrow> u32 \<Rightarrow> bool result" where
  "address_related a addr ip =
     (if fa_listen a then Inr True else bindE (Address_ipv4_numeric addr) (\<lambda>n. Inr (ip = n)))"

text \<open>A listening adapter adopts the addresses of a SYN.\<close>

definition adapter_adopt ::
  "getaddrinfo \<Rightarrow> getnameinfo \<Rightarrow> fd_adapter \<Rightarrow> ipv4_header \<Rightarrow> tcp_header \<Rightarrow> fd_adapter result" where
  "adapter_adopt gai gni a h th =
     bindE (Address_port gni (fc_source (fa_cfg a))) (\<lambda>port.
     bindE (Address_of_ip gai (dotted (ip_dst h)) port) (\<lambda>source.
     bindE (Address_of_ip gai (dotted (ip_src h)) (th_sport th)) (\<lambda>destination.
       Inr (FdAdapterBase_set_listening
         (a\<lparr>fa_cfg := (fa_cfg a)\<lparr>fc_source := source, fc_destination := destination\<rparr>\<rparr>) False))))"

definition unwrap_tcp_in_ip ::
  "getaddrinfo \<Rightarrow> getnameinfo \<Rightarrow> fd_adapter \<Rightarrow> ipv4_datagram \<Rightarrow> (tcp_segment option \<times> fd_adapter) result" where
  "unwrap_tcp_in_ip gai gni a ip_dgram =
     (let h = dg_header ip_dgram
      in bindE (address_related a (fc_source (fa_cfg a)) (ip_dst h)) (\<lambda>for_us.
         if \<not> for_us then Inr (None, a)
         else bindE (address_related a (fc_destination (fa_cfg a)) (ip_src h)) (\<lambda>from_peer.
         if \<not> from_peer then Inr (None, a)
         else if ip_proto h \<noteq> IPv4Header_PROTO_TCP then Inr (None, a)
         else bindE (BufferList_to_buffer (dg_payload ip_dgram)) (\<lambda>b.
              bindE (TCPSegment_parse TCPSegment_default b (IPv4Header_pseudo_cksum h)) (\<lambda>(res, tcp_seg).
         if NoError \<noteq> res then Inr (None, a)
         else bindE (Address_port gni (fc_source (fa_cfg a))) (\<lambda>port.
         if th_dport (seg_header tcp_seg) \<noteq> port then Inr (None, a)
         else if fa_listen a \<and> \<not> (th_syn (seg_header tcp_seg) \<and> \<not> th_rst (seg_header tcp_seg)) then Inr (None, a)
         else bindE (if fa_listen a then adapter_adopt gai gni a h (seg_header tcp_seg) else Inr a) (\<lambda>a.
              bindE (Address_port gni (fc_destination (fa_cfg a))) (\<lambda>peer.
         if th_sport (seg_header tcp_seg) \<noteq> peer then Inr (None, a)
         else Inr (Some tcp_seg, a)))))))))"

definition wrap_tcp_in_ip ::
  "getnameinfo \<Rightarrow> fd_adapter \<Rightarrow> tcp_segment \<Rightarrow> (ipv4_datagram \<times> tcp_segment) result" where
  "wrap_tcp_in_ip gni a seg =
     bindE (Address_port gni (fc_source (fa_cfg a))) (\<lambda>sport.
     bindE (Address_port gni (fc_destination (fa_cfg a))) (\<lambda>dport.
       let seg = seg\<lparr>seg_header := (seg_header seg)\<lparr>th_sport := sport, th_dport := dport\<rparr>\<rparr>
       in bindE (Address_ipv4_numeric (fc_source (fa_cfg a))) (\<lambda>src.
          bindE (Address_ipv4_numeric (fc_destination (fa_cfg a))) (\<lambda>dst.
            let h = (dg_header IPv4Datagram_default)\<lparr>ip_src := src, ip_dst := dst\<rparr>;
                h = h\<lparr>ip_len := of_nat (unat (ip_hlen h) * 4 + unat (th_doff (seg_header seg)) * 4 +
                                        Buffer_size (seg_payload seg))\<rparr>
            in bindE (TCPSegment_serialize seg (IPv4Header_pseudo_cksum h)) (\<lambda>payload.
                 Inr (\<lparr>dg_header = h, dg_payload = payload\<rparr>, seg))))))"

section \<open>TUN and TAP devices\<close>

definition TunFdAdapter_read ::
  "getaddrinfo \<Rightarrow> getnameinfo \<Rightarrow> fd_adapter \<Rightarrow> byte list \<Rightarrow> (tcp_segment option \<times> fd_adapter) result" where
  "TunFdAdapter_read gai gni a bytes =
     bindE (IPv4Datagram_parse IPv4Datagram_default (Buffer_new bytes)) (\<lambda>(res, ip_dgram).
       if res \<noteq> NoError then Inr (None, a) else unwrap_tcp_in_ip gai gni a ip_dgram)"

definition TunFdAdapter_write :: "getnameinfo \<Rightarrow> fd_adapter \<Rightarrow> tcp_segment \<Rightarrow> (buffer_list \<times> tcp_segment) result" where
  "TunFdAdapter_write gni a seg =
     bindE (wrap_tcp_in_ip gni a seg) (\<lambda>(dg, seg). bindE (IPv4Datagram_serialize dg) (\<lambda>bytes. Inr (bytes, seg)))"

record ethernet_adapter =
  ea_base :: fd_adapter
  ea_interface :: network_interface
  ea_next_hop :: address

text \<open>\<open>send_pending\<close>: the frames written to the TAP device, in order.\<close>

definition EthernetAdapter_send_pending :: "ethernet_adapter \<Rightarrow> buffer_list list \<times> ethernet_adapter" where
  "EthernetAdapter_send_pending e =
     (map EthernetFrame_serialize (ni_frames_out (ea_interface e)),
      e\<lparr>ea_interface := (ea_interface e)\<lparr>ni_frames_out := []\<rparr>\<rparr>)"

definition EthernetAdapter_new ::
  "fd_adapter_config \<Rightarrow> ethernet_address \<Rightarrow> address \<Rightarrow> address \<Rightarrow> buffer_list list \<times> ethernet_adapter" where
  "EthernetAdapter_new cfg eth_address ip_address next_hop =
     ([EthernetFrame_serialize EthernetFrame_default],
      \<lparr>ea_base = FdAdapterBase_new cfg, ea_interface = NetworkInterface_new eth_address ip_address,
       ea_next_hop = next_hop\<rparr>)"

definition EthernetAdapter_read ::
  "getaddrinfo \<Rightarrow> getnameinfo \<Rightarrow> ethernet_adapter \<Rightarrow> byte list \<Rightarrow>
     (tcp_segment option \<times> buffer_list list \<times> ethernet_adapter) result" where
  "EthernetAdapter_read gai gni e bytes =
     bindE (EthernetFrame_parse EthernetFrame_default (Buffer_new bytes)) (\<lambda>(res, frame).
       if res \<noteq> NoError then Inr (None, [], e)
       else bindE (NetworkInterface_recv_frame (ea_interface e) frame) (\<lambda>(ip_dgram, ni).
            let (written, e) = EthernetAdapter_send_pending (e\<lparr>ea_interface := ni\<rparr>)
            in case ip_dgram of
                 Some dg \<Rightarrow> bindE (unwrap_tcp_in_ip gai gni (ea_base e) dg) (\<lambda>(seg, a). Inr (seg, written, e\<lparr>ea_base := a\<rparr>))
               | None \<Rightarrow> Inr (None, written, e)))"

definition EthernetAdapter_tick :: "ethernet_adapter \<Rightarrow> size_t \<Rightarrow> buffer_list list \<times> ethernet_adapter" where
  "EthernetAdapter_tick e ms =
     EthernetAdapter_send_pending (e\<lparr>ea_interface := NetworkInterface_tick (ea_interface e) ms\<rparr>)"

definition EthernetAdapter_write ::
  "getnameinfo \<Rightarrow> ethernet_adapter \<Rightarrow> tcp_segment \<Rightarrow> (buffer_list list \<times> ethernet_adapter) result" where
  "EthernetAdapter_write gni e seg =
     bindE (wrap_tcp_in_ip gni (ea_base e) seg) (\<lambda>(dg, seg).
     bindE (NetworkInterface_send_datagram (ea_interface e) dg (ea_next_hop e)) (\<lambda>ni.
       Inr (EthernetAdapter_send_pending (e\<lparr>ea_interface := ni\<rparr>))))"

section \<open>Loss\<close>

text \<open>
  \<open>LossyFdAdapter\<close> wraps any adapter.  \<open>rand\<close> is the next value of the generator.
\<close>

definition LossyFdAdapter_should_drop :: "fd_adapter_config \<Rightarrow> bool \<Rightarrow> u32 \<Rightarrow> bool" where
  "LossyFdAdapter_should_drop cfg uplink rand =
     (let loss = (if uplink then fc_loss_rate_up cfg else fc_loss_rate_dn cfg)
      in loss \<noteq> 0 \<and> (ucast rand :: u16) < loss)"

definition LossyFdAdapter_read ::
  "('a \<Rightarrow> 'i \<Rightarrow> (tcp_segment option \<times> 'a) result) \<Rightarrow> ('a \<Rightarrow> fd_adapter_config) \<Rightarrow> u32 \<Rightarrow> 'a \<Rightarrow> 'i \<Rightarrow>
     (tcp_segment option \<times> 'a) result" where
  "LossyFdAdapter_read read config rand a input =
     bindE (read a input) (\<lambda>(ret, a).
       if LossyFdAdapter_should_drop (config a) False rand then Inr (None, a) else Inr (ret, a))"

definition LossyFdAdapter_write ::
  "('a \<Rightarrow> tcp_segment \<Rightarrow> ('o \<times> tcp_segment) result) \<Rightarrow> ('a \<Rightarrow> fd_adapter_config) \<Rightarrow> u32 \<Rightarrow> 'a \<Rightarrow> tcp_segment \<Rightarrow>
     ('o option \<times> tcp_segment) result" where
  "LossyFdAdapter_write write config rand a seg =
     (if LossyFdAdapter_should_drop (config a) True rand then Inr (None, seg)
      else bindE (write a seg) (\<lambda>(out, seg). Inr (Some out, seg)))"

end
