(* ===== verification/Adapter_Roundtrip.thy ===== *)
theory Adapter_Roundtrip
  imports Adapters
begin

text \<open>
  Segments survive the way through two adapters: wrapped in an IPv4 datagram, serialised, parsed and
  unwrapped by the peer, whether the peer is connected or still listening.
\<close>

section \<open>Wrapping\<close>

definition segment_fits :: "tcp_segment \<Rightarrow> bool" where
  "segment_fits seg \<longleftrightarrow>
     5 \<le> unat (th_doff (seg_header seg)) \<and> unat (th_doff (seg_header seg)) \<le> 15 \<and>
     20 + 4 * unat (th_doff (seg_header seg)) + length (Buffer_str (seg_payload seg)) \<le> 65535"

definition with_ports :: "tcp_segment \<Rightarrow> u16 \<Rightarrow> u16 \<Rightarrow> tcp_segment" where
  "with_ports seg sport dport = seg\<lparr>seg_header := (seg_header seg)\<lparr>th_sport := sport, th_dport := dport\<rparr>\<rparr>"

definition wrap_header :: "u32 \<Rightarrow> u32 \<Rightarrow> tcp_segment \<Rightarrow> ipv4_header" where
  "wrap_header src dst seg =
     (dg_header IPv4Datagram_default)\<lparr>ip_src := src, ip_dst := dst,
       ip_len := of_nat (20 + 4 * unat (th_doff (seg_header seg)) + length (Buffer_str (seg_payload seg)))\<rparr>"

lemma wrap_header_simps [simp]:
  "ip_src (wrap_header src dst seg) = src" "ip_dst (wrap_header src dst seg) = dst"
  "ip_proto (wrap_header src dst seg) = IPv4Header_PROTO_TCP" "ip_wf (wrap_header src dst seg)"
  "ip_hlen (wrap_header src dst seg) = 5"
  by (simp_all add: wrap_header_def IPv4Datagram_default_def IPv4Header_default_def ip_wf_def)

lemma with_ports_simps [simp]:
  "segment_fits (with_ports seg p q) = segment_fits seg" "seg_payload (with_ports seg p q) = seg_payload seg"
  "seg_header (with_ports seg p q) = (seg_header seg)\<lparr>th_sport := p, th_dport := q\<rparr>"
  by (simp_all add: segment_fits_def with_ports_def)

text \<open>
  An adapter that expects segments from \<open>(src, p)\<close> to \<open>(dst, q)\<close>: it is connected with these addresses,
  or it listens on port \<open>q\<close> and the segment opens a connection.
\<close>

definition expects :: "fd_adapter \<Rightarrow> u32 \<Rightarrow> u16 \<Rightarrow> u32 \<Rightarrow> u16 \<Rightarrow> tcp_header \<Rightarrow> bool" where
  "expects a src p dst q th \<longleftrightarrow>
     (if fa_listen a then (\<exists>any. fc_source (fa_cfg a) = ipv4_address any q) \<and> th_syn th \<and> \<not> th_rst th
      else fc_source (fa_cfg a) = ipv4_address dst q \<and> fc_destination (fa_cfg a) = ipv4_address src p)"

definition connected :: "fd_adapter \<Rightarrow> u32 \<Rightarrow> u16 \<Rightarrow> u32 \<Rightarrow> u16 \<Rightarrow> fd_adapter" where
  "connected a src p dst q =
     a\<lparr>fa_cfg := (fa_cfg a)\<lparr>fc_source := ipv4_address dst q, fc_destination := ipv4_address src p\<rparr>, fa_listen := False\<rparr>"

lemma unat_of_nat_u16: "n \<le> 65535 \<Longrightarrow> unat (of_nat n :: u16) = n"
  by (simp add: unsigned_of_nat take_bit_nat_def)

context c_library
begin

lemma wrap_ok:
  assumes "fc_source (fa_cfg a) = ipv4_address src p" "fc_destination (fa_cfg a) = ipv4_address dst q" "segment_fits seg"
  shows "\<exists>pl. wrap_tcp_in_ip getnameinfo a seg =
      Inr (\<lparr>dg_header = wrap_header src dst (with_ports seg p q), dg_payload = pl\<rparr>, with_ports seg p q) \<and>
    dg_wf \<lparr>dg_header = wrap_header src dst (with_ports seg p q), dg_payload = pl\<rparr> \<and>
    (\<forall>b. Buffer_str b = BufferList_concatenate pl \<longrightarrow>
      (\<exists>seg'. TCPSegment_parse TCPSegment_default b (IPv4Header_pseudo_cksum (wrap_header src dst (with_ports seg p q))) =
         Inr (NoError, seg') \<and> seg_same (IPv4Header_pseudo_cksum (wrap_header src dst (with_ports seg p q))) (with_ports seg p q) seg'))"
proof -
  let ?seg = "with_ports seg p q"
  let ?h = "wrap_header src dst ?seg"
  have wf: "seg_wf ?seg (IPv4Header_pseudo_cksum ?h)"
    using assms(3) pseudo_cksum_bound [of ?h] by (simp add: seg_wf_def segment_fits_def)
  obtain pl where pl: "TCPSegment_serialize ?seg (IPv4Header_pseudo_cksum ?h) = Inr pl"
    "length (BufferList_concatenate pl) = 4 * unat (th_doff (seg_header seg)) + length (Buffer_str (seg_payload seg))"
    "\<forall>b. Buffer_str b = BufferList_concatenate pl \<longrightarrow>
      (\<exists>seg'. TCPSegment_parse TCPSegment_default b (IPv4Header_pseudo_cksum ?h) = Inr (NoError, seg') \<and>
        seg_same (IPv4Header_pseudo_cksum ?h) ?seg seg')"
    using TCPSegment_parse_serialize [OF wf, of TCPSegment_default] by auto
  have len: "unat (ip_len ?h) = 20 + 4 * unat (th_doff (seg_header seg)) + length (Buffer_str (seg_payload seg))"
  proof -
    let ?n = "20 + 4 * unat (th_doff (seg_header seg)) + length (Buffer_str (seg_payload seg))"
    have "?n \<le> 65535" using assms(3) by (simp add: segment_fits_def)
    from unat_of_nat_u16 [OF this] show ?thesis by (simp add: wrap_header_def)
  qed
  have "wrap_tcp_in_ip getnameinfo a seg = Inr (\<lparr>dg_header = ?h, dg_payload = pl\<rparr>, ?seg)"
    using assms(1,2) pl(1)
    by (simp add: wrap_tcp_in_ip_def ipv4_port Let_def with_ports_def wrap_header_def IPv4Datagram_default_def
        IPv4Header_default_def Buffer_size_def mult.commute)
  moreover have "dg_wf \<lparr>dg_header = ?h, dg_payload = pl\<rparr>"
    using len pl(2) by (simp add: dg_wf_def)
  ultimately show ?thesis using pl(3) by blast
qed

lemma unwrap_ok:
  assumes "ip_src (dg_header dg) = src" "ip_dst (dg_header dg) = dst" "ip_proto (dg_header dg) = IPv4Header_PROTO_TCP"
    and "dg_payload dg = [b]"
    and "TCPSegment_parse TCPSegment_default b (IPv4Header_pseudo_cksum (dg_header dg)) = Inr (NoError, seg)"
    and "th_sport (seg_header seg) = p" "th_dport (seg_header seg) = q" "expects a src p dst q (seg_header seg)"
  shows "unwrap_tcp_in_ip getaddrinfo getnameinfo a dg = Inr (Some seg, connected a src p dst q)"
proof (cases "fa_listen a")
  case True
  then obtain any where any: "fc_source (fa_cfg a) = ipv4_address any q" "th_syn (seg_header seg)" "\<not> th_rst (seg_header seg)"
    using assms(8) by (auto simp: expects_def)
  have "adapter_adopt getaddrinfo getnameinfo a (dg_header dg) (seg_header seg) = Inr (connected a src p dst q)"
    using any(1) assms(1,2,6)
    by (simp add: adapter_adopt_def ipv4_port Address_of_ip_dotted connected_def FdAdapterBase_set_listening_def)
  moreover have "fc_destination (fa_cfg (connected a src p dst q)) = ipv4_address src p" by (simp add: connected_def)
  ultimately show ?thesis
    using True any assms(1-7)
    by (simp add: unwrap_tcp_in_ip_def address_related_def BufferList_to_buffer_def ipv4_port Let_def)
next
  case False
  then have a: "fc_source (fa_cfg a) = ipv4_address dst q" "fc_destination (fa_cfg a) = ipv4_address src p"
    using assms(8) by (simp_all add: expects_def)
  have "connected a src p dst q = a" using False a by (simp add: connected_def)
  then show ?thesis
    using False a assms(1-7)
    by (simp add: unwrap_tcp_in_ip_def address_related_def BufferList_to_buffer_def ipv4_port Let_def)
qed

end

lemma tun_roundtrip:
  assumes "c_library gai gni" "segment_fits seg"
    and "fc_source (fa_cfg a) = ipv4_address src p" "fc_destination (fa_cfg a) = ipv4_address dst q"
    and "expects b src p dst q (seg_header seg)"
  shows "\<exists>bytes seg1 dg' seg' b'. TunFdAdapter_write gni a seg = Inr (bytes, seg1) \<and>
    unwrap_tcp_in_ip gai gni b dg' = Inr (Some seg', b') \<and>
    TunFdAdapter_read gai gni b (BufferList_concatenate bytes) = Inr (Some seg', b') \<and>
    (\<exists>ck. seg_header seg' = (seg_header seg)\<lparr>th_sport := p, th_dport := q, th_cksum := ck\<rparr>) \<and>
    Buffer_str (seg_payload seg') = Buffer_str (seg_payload seg) \<and>
    \<not> fa_listen b' \<and> fc_source (fa_cfg b') = ipv4_address dst q \<and> fc_destination (fa_cfg b') = ipv4_address src p"
proof -
  let ?seg = "with_ports seg p q"
  let ?h = "wrap_header src dst ?seg"
  obtain pl where pl: "wrap_tcp_in_ip gni a seg = Inr (\<lparr>dg_header = ?h, dg_payload = pl\<rparr>, ?seg)"
    "dg_wf \<lparr>dg_header = ?h, dg_payload = pl\<rparr>"
    "\<And>b. Buffer_str b = BufferList_concatenate pl \<Longrightarrow>
      \<exists>seg'. TCPSegment_parse TCPSegment_default b (IPv4Header_pseudo_cksum ?h) = Inr (NoError, seg') \<and>
        seg_same (IPv4Header_pseudo_cksum ?h) ?seg seg'"
    using c_library.wrap_ok [OF assms(1,3,4,2)] by blast
  let ?dg = "\<lparr>dg_header = ?h, dg_payload = pl\<rparr>"
  obtain bytes where bytes: "IPv4Datagram_serialize ?dg = Inr bytes"
    "\<And>b. Buffer_str b = BufferList_concatenate bytes \<Longrightarrow>
      \<exists>dg'. IPv4Datagram_parse IPv4Datagram_default b = Inr (NoError, dg') \<and> dgram_same ?dg dg'"
    using IPv4Datagram_parse_serialize [OF pl(2), of IPv4Datagram_default] by blast
  obtain dg' where dg': "IPv4Datagram_parse IPv4Datagram_default (Buffer_new (BufferList_concatenate bytes)) = Inr (NoError, dg')"
    "dgram_same ?dg dg'" using bytes(2) [OF Buffer_new_simps(1)] by blast
  then obtain c where c: "dg_payload dg' = [c]" "Buffer_str c = BufferList_concatenate pl"
    and h: "dg_header dg' = ?h\<lparr>ip_cksum := dg_cksum ?h\<rparr>" by (auto simp: dgram_same_def)
  have ps: "IPv4Header_pseudo_cksum (dg_header dg') = IPv4Header_pseudo_cksum ?h"
    by (simp add: h IPv4Header_pseudo_cksum_def IPv4Header_payload_length_def)
  obtain seg' where seg': "TCPSegment_parse TCPSegment_default c (IPv4Header_pseudo_cksum (dg_header dg')) = Inr (NoError, seg')"
    "seg_same (IPv4Header_pseudo_cksum ?h) ?seg seg'" using pl(3) [OF c(2)] ps by auto
  have hd: "seg_header seg' = (seg_header seg)\<lparr>th_sport := p, th_dport := q, th_cksum := seg_cksum ?seg (IPv4Header_pseudo_cksum ?h)\<rparr>"
    "Buffer_str (seg_payload seg') = Buffer_str (seg_payload seg)"
    using seg'(2) by (simp_all add: seg_same_def)
  have unwrap: "unwrap_tcp_in_ip gai gni b dg' = Inr (Some seg', connected b src p dst q)"
    using assms(5) by (intro c_library.unwrap_ok [OF assms(1) _ _ _ c(1) seg'(1)]) (simp_all add: h hd expects_def)
  then have "TunFdAdapter_read gai gni b (BufferList_concatenate bytes) = Inr (Some seg', connected b src p dst q)"
    using dg'(1) by (simp add: TunFdAdapter_read_def del: BufferList_concatenate_eq)
  moreover have "TunFdAdapter_write gni a seg = Inr (bytes, ?seg)"
    using pl(1) bytes(1) by (simp add: TunFdAdapter_write_def)
  moreover have "\<not> fa_listen (connected b src p dst q)"
    "fc_source (fa_cfg (connected b src p dst q)) = ipv4_address dst q"
    "fc_destination (fa_cfg (connected b src p dst q)) = ipv4_address src p" by (simp_all add: connected_def)
  ultimately show ?thesis using hd unwrap by blast
qed

text \<open>
  C35. Segments cross two adapters unchanged.  The sending adapter of an IPv4 connection from
  \<open>(src, p)\<close> to \<open>(dst, q)\<close> writes a segment; the bytes of the datagram are read by an adapter that
  expects them.  The adapter accepts the segment, which has the same payload and the same header but
  for the ports and the checksum, and is connected to the sender afterwards, also when it was
  listening before.
\<close>

theorem adapter_roundtrip:
  assumes "c_library gai gni" "segment_fits seg"
    and "fc_source (fa_cfg a) = ipv4_address src p" "fc_destination (fa_cfg a) = ipv4_address dst q"
    and "expects b src p dst q (seg_header seg)"
  shows "\<exists>bytes seg1 seg' b'. TunFdAdapter_write gni a seg = Inr (bytes, seg1) \<and>
    TunFdAdapter_read gai gni b (BufferList_concatenate bytes) = Inr (Some seg', b') \<and>
    (\<exists>ck. seg_header seg' = (seg_header seg)\<lparr>th_sport := p, th_dport := q, th_cksum := ck\<rparr>) \<and>
    Buffer_str (seg_payload seg') = Buffer_str (seg_payload seg) \<and>
    \<not> fa_listen b' \<and> fc_source (fa_cfg b') = ipv4_address dst q \<and> fc_destination (fa_cfg b') = ipv4_address src p"
  using tun_roundtrip [OF assms] by blast

text \<open>
  C36. Adapters filter.  A segment that an adapter hands to the connection came in a TCP datagram and
  is addressed to the port of the adapter.  If the adapter was connected, the datagram came from the
  address and port of the peer to the address of the adapter, and the adapter is unchanged.  If it was
  listening, the segment is a SYN and no reset, and the adapter is now connected to its sender.
\<close>

theorem adapter_filters:
  assumes "c_library gai gni" "unwrap_tcp_in_ip gai gni a dg = Inr (Some seg, a')"
    and "fc_source (fa_cfg a) = ipv4_address ip q" "fc_destination (fa_cfg a) = ipv4_address peer p"
  shows "ip_proto (dg_header dg) = IPv4Header_PROTO_TCP \<and> th_dport (seg_header seg) = q \<and> \<not> fa_listen a' \<and>
    (if fa_listen a then th_syn (seg_header seg) \<and> \<not> th_rst (seg_header seg) \<and>
       a' = connected a (ip_src (dg_header dg)) (th_sport (seg_header seg)) (ip_dst (dg_header dg)) q
     else a' = a \<and> ip_src (dg_header dg) = peer \<and> th_sport (seg_header seg) = p \<and> ip_dst (dg_header dg) = ip)"
proof -
  note lib = c_library.ipv4_port [OF assms(1)] c_library.Address_of_ip_dotted [OF assms(1)]
  have adopt: "adapter_adopt gai gni a (dg_header dg) (seg_header seg) =
      Inr (connected a (ip_src (dg_header dg)) (th_sport (seg_header seg)) (ip_dst (dg_header dg)) q)"
    using assms(3) by (simp add: adapter_adopt_def lib connected_def FdAdapterBase_set_listening_def)
  show ?thesis
  proof (cases "fa_listen a")
    case True
    then show ?thesis
      using assms(2,3) adopt
      by (auto simp: unwrap_tcp_in_ip_def address_related_def lib Let_def connected_def split: if_splits)
  next
    case False
    then show ?thesis
      using assms(2-4) by (auto simp: unwrap_tcp_in_ip_def address_related_def lib Let_def split: if_splits)
  qed
qed

section \<open>Examples\<close>

definition client_adapter :: fd_adapter where
  "client_adapter = FdAdapterBase_new \<lparr>fc_source = ipv4_address 0x0a000001 1234, fc_destination = ipv4_address 0x0a000002 80,
     fc_loss_rate_dn = 0, fc_loss_rate_up = 0\<rparr>"

definition server_adapter :: fd_adapter where
  "server_adapter = FdAdapterBase_set_listening (FdAdapterBase_new
     \<lparr>fc_source = ipv4_address 0 80, fc_destination = ipv4_address 0 0, fc_loss_rate_dn = 0, fc_loss_rate_up = 0\<rparr>) True"

definition syn_example :: tcp_segment where
  "syn_example = \<lparr>seg_header = TCPHeader_default\<lparr>th_syn := True, th_doff := 5\<rparr>, seg_payload = Buffer_empty\<rparr>"

lemma adapter_example:
  "segment_fits syn_example"
  "fc_source (fa_cfg client_adapter) = ipv4_address 0x0a000001 1234"
  "fc_destination (fa_cfg client_adapter) = ipv4_address 0x0a000002 80"
  "expects server_adapter 0x0a000001 1234 0x0a000002 80 (seg_header syn_example)"
  by (auto simp: segment_fits_def syn_example_def client_adapter_def server_adapter_def FdAdapterBase_new_def
      FdAdapterBase_set_listening_def expects_def TCPHeader_default_def)

theorem adapter_roundtrip_witness:
  "\<exists>bytes seg1 seg' b'. TunFdAdapter_write numeric_getnameinfo client_adapter syn_example = Inr (bytes, seg1) \<and>
    TunFdAdapter_read numeric_getaddrinfo numeric_getnameinfo server_adapter (BufferList_concatenate bytes) =
      Inr (Some seg', b') \<and>
    (\<exists>ck. seg_header seg' = (seg_header syn_example)\<lparr>th_sport := 1234, th_dport := 80, th_cksum := ck\<rparr>) \<and>
    Buffer_str (seg_payload seg') = Buffer_str (seg_payload syn_example) \<and>
    \<not> fa_listen b' \<and> fc_source (fa_cfg b') = ipv4_address 0x0a000002 80 \<and>
    fc_destination (fa_cfg b') = ipv4_address 0x0a000001 1234"
  by (rule adapter_roundtrip [OF numeric.c_library_axioms adapter_example])

theorem adapter_filters_witness:
  "\<exists>dg seg a'. unwrap_tcp_in_ip numeric_getaddrinfo numeric_getnameinfo server_adapter dg = Inr (Some seg, a') \<and>
    ip_proto (dg_header dg) = IPv4Header_PROTO_TCP \<and> th_dport (seg_header seg) = 80 \<and> \<not> fa_listen a'"
proof -
  obtain dg seg a' where u: "unwrap_tcp_in_ip numeric_getaddrinfo numeric_getnameinfo server_adapter dg = Inr (Some seg, a')"
    using tun_roundtrip [OF numeric.c_library_axioms adapter_example] by blast
  have "fc_source (fa_cfg server_adapter) = ipv4_address 0 80" "fc_destination (fa_cfg server_adapter) = ipv4_address 0 0"
    by (simp_all add: server_adapter_def FdAdapterBase_new_def FdAdapterBase_set_listening_def)
  from adapter_filters [OF numeric.c_library_axioms u this] u show ?thesis by blast
qed

end
