(* ===== verification/File_Descriptor.thy ===== *)
theory File_Descriptor
  imports Buffers Text
begin

text \<open>
  File descriptors, \<open>util/file_descriptor.hh\<close> and \<open>file_descriptor.cc\<close>, with the wrapper for system
  calls of \<open>util/util.cc\<close>.

  All copies of a \<open>FileDescriptor\<close> share one \<open>FDWrapper\<close>; it is the state here.  The answers of the
  kernel are arguments: a return value, the value of \<open>errno\<close>, and the bytes read, or, for the loop of
  \<open>write\<close>, the system call \<open>writev\<close> as a function on the state of the kernel.
\<close>

section \<open>System calls\<close>

text \<open>The conversion of a return value to \<open>int\<close>.\<close>

definition to_int32 :: "int \<Rightarrow> int" where
  "to_int32 v = (v + 2 ^ 31) mod 2 ^ 32 - 2 ^ 31"

lemma to_int32_small [simp]: "- (2 ^ 31) \<le> v \<Longrightarrow> v < 2 ^ 31 \<Longrightarrow> to_int32 v = v"
  by (simp add: to_int32_def)

definition SystemCall :: "string \<Rightarrow> int \<Rightarrow> nat \<Rightarrow> nat \<Rightarrow> int result" where
  "SystemCall attempt return_value errno errno_mask =
     (let return_value = to_int32 return_value
      in if 0 \<le> return_value \<or> errno = errno_mask then Inr return_value else Inl (RuntimeError attempt))"

text \<open>\<open>ssize_t\<close> of a \<open>size_t\<close>.\<close>

definition ssize :: "size_t \<Rightarrow> int" where
  "ssize n = (if n < 2 ^ 63 then int n else int n - 2 ^ 64)"

definition size_of_int :: "int \<Rightarrow> size_t" where
  "size_of_int v = nat (v mod 2 ^ 64)"

lemma size_of_int_nonneg [simp]: "0 \<le> v \<Longrightarrow> v < 2 ^ 64 \<Longrightarrow> size_of_int v = nat v"
  by (simp add: size_of_int_def)

lemma to_int32_range: "- (2 ^ 31) \<le> to_int32 v" "to_int32 v < 2 ^ 31"
  using pos_mod_bound [of "2 ^ 32" "v + 2 ^ 31"] by (simp_all add: to_int32_def)

lemma SystemCall_range: "SystemCall attempt ret errno errno_mask = Inr v \<Longrightarrow> - (2 ^ 31) \<le> v \<and> v < 2 ^ 31"
  using to_int32_range [of ret] by (auto simp: SystemCall_def Let_def split: if_splits)

lemma size_of_int_0: "- (2 ^ 31) \<le> v \<Longrightarrow> v < 2 ^ 31 \<Longrightarrow> size_of_int v = 0 \<Longrightarrow> v = 0"
proof -
  assume v: "- (2 ^ 31) \<le> v" "v < 2 ^ 31" "size_of_int v = 0"
  then have "v mod 2 ^ 64 = 0" by (simp add: size_of_int_def nat_eq_iff)
  then have "(2 ^ 64 :: int) dvd v" by (simp add: dvd_eq_mod_eq_0)
  then show "v = 0" using v(1,2) zdvd_not_zless [of "\<bar>v\<bar>" "2 ^ 64"] by (cases "v = 0") auto
qed

section \<open>The wrapper\<close>

record fd_wrapper =
  fdw_fd :: int
  fdw_eof :: bool
  fdw_closed :: bool
  fdw_read_count :: u32
  fdw_write_count :: u32

definition FDWrapper_new :: "int \<Rightarrow> fd_wrapper result" where
  "FDWrapper_new fd =
     (if fd < 0 then Inl (RuntimeError (''invalid fd number:-'' @ decimal (nat (- fd))))
      else Inr \<lparr>fdw_fd = fd, fdw_eof = False, fdw_closed = False, fdw_read_count = 0, fdw_write_count = 0\<rparr>)"

definition FDWrapper_close :: "int \<times> nat \<Rightarrow> fd_wrapper \<Rightarrow> fd_wrapper result" where
  "FDWrapper_close sys w =
     (let (ret, errno) = sys
      in bindE (SystemCall ''close'' ret errno 0) (\<lambda>_. Inr (w\<lparr>fdw_eof := True, fdw_closed := True\<rparr>)))"

definition FDWrapper_destroy :: "int \<times> nat \<Rightarrow> fd_wrapper \<Rightarrow> fd_wrapper" where
  "FDWrapper_destroy sys w =
     (if fdw_closed w then w else case FDWrapper_close sys w of Inr w' \<Rightarrow> w' | Inl _ \<Rightarrow> w)"

definition FileDescriptor_register_read :: "fd_wrapper \<Rightarrow> fd_wrapper" where
  "FileDescriptor_register_read w = w\<lparr>fdw_read_count := fdw_read_count w + 1\<rparr>"

definition FileDescriptor_register_write :: "fd_wrapper \<Rightarrow> fd_wrapper" where
  "FileDescriptor_register_write w = w\<lparr>fdw_write_count := fdw_write_count w + 1\<rparr>"

text \<open>\<open>read\<close>: the kernel is asked for \<open>size_to_read\<close> bytes and answers with a count, \<open>errno\<close> and the buffer.\<close>

abbreviation (input) BUFFER_SIZE :: size_t where
  "BUFFER_SIZE \<equiv> 1048576"

definition FileDescriptor_read ::
  "(size_t \<Rightarrow> int \<times> nat \<times> byte list) \<Rightarrow> fd_wrapper \<Rightarrow> size_t \<Rightarrow> (byte list \<times> fd_wrapper) result" where
  "FileDescriptor_read sys_read w limit =
     (let size_to_read = min BUFFER_SIZE limit;
          (ret, errno, str) = sys_read size_to_read
      in bindE (SystemCall ''read'' ret errno 0) (\<lambda>bytes_read.
           let w = (if 0 < limit \<and> bytes_read = 0 then w\<lparr>fdw_eof := True\<rparr> else w)
           in if ssize size_to_read < bytes_read then Inl (RuntimeError ''read() read more than requested'')
              else if bytes_read < 0 then Inl (LengthError ''basic_string::resize'')
              else Inr (take (nat bytes_read) str, FileDescriptor_register_read w)))"

section \<open>Writing\<close>

type_synonym 'k writev = "'k \<Rightarrow> (byte list \<times> size_t) list \<Rightarrow> int \<times> nat \<times> 'k"

lemma BufferViewList_size_eq: "BufferViewList_size vs = length (concat vs) mod size_mod"
  using foldl_sz_add [of length 0 vs] by (simp add: BufferViewList_size_def length_concat)

text \<open>The \<open>do\<close> loop of \<open>write\<close>.\<close>

function (sequential) fd_write_loop ::
  "'k writev \<Rightarrow> bool \<Rightarrow> 'k \<Rightarrow> fd_wrapper \<Rightarrow> buffer_view_list \<Rightarrow> size_t \<Rightarrow> (size_t \<times> 'k \<times> fd_wrapper) result" where
  "fd_write_loop writev write_all k w buffer written =
     (case writev k (BufferViewList_as_iovecs buffer) of (ret, errno, k) \<Rightarrow>
      bindE (SystemCall ''writev'' ret errno 0) (\<lambda>bytes_written.
        if bytes_written = 0 \<and> BufferViewList_size buffer \<noteq> 0
        then Inl (RuntimeError ''write returned 0 given non-empty input buffer'')
        else if ssize (BufferViewList_size buffer) < bytes_written
        then Inl (RuntimeError ''write wrote more than length of input buffer'')
        else bindE (BufferViewList_remove_prefix buffer (size_of_int bytes_written)) (\<lambda>buffer.
               if write_all \<and> BufferViewList_size buffer \<noteq> 0
               then fd_write_loop writev write_all k (FileDescriptor_register_write w) buffer (sz_add written (size_of_int bytes_written))
               else Inr (sz_add written (size_of_int bytes_written), k, FileDescriptor_register_write w))))"
  by pat_completeness auto

termination fd_write_loop
proof (relation "measure (\<lambda>(writev, write_all, k, w, buffer, written). length (concat buffer))")
  fix writev :: "'k writev" and write_all k w buffer and written :: size_t and ret errno k' n buffer'
  assume n: "SystemCall ''writev'' ret errno 0 = Inr n" "\<not> (n = 0 \<and> BufferViewList_size buffer \<noteq> 0)"
    and b: "BufferViewList_remove_prefix buffer (size_of_int n) = Inr buffer'" "write_all \<and> BufferViewList_size buffer' \<noteq> 0"
  have c: "concat buffer' = drop (size_of_int n) (concat buffer)" using b(1) by (rule view_list.remove_contents)
  have "concat buffer' \<noteq> []" using b(2) unfolding BufferViewList_size_eq by (metis list.size(3) mod_0)
  moreover have "0 < size_of_int n"
  proof (rule ccontr)
    assume "\<not> 0 < size_of_int n"
    then have "n = 0" "concat buffer' = concat buffer"
      using c size_of_int_0 SystemCall_range [OF n(1)] by simp_all
    then show False using n(2) b(2) by (simp add: BufferViewList_size_eq)
  qed
  ultimately have "length (concat buffer') < length (concat buffer)" using c by simp
  then show "((writev, write_all, k', FileDescriptor_register_write w, buffer', sz_add written (size_of_int n)),
      (writev, write_all, k, w, buffer, written)) \<in> measure (\<lambda>(writev, write_all, k, w, buffer, written). length (concat buffer))"
    by simp
qed simp

declare fd_write_loop.simps [simp del]

definition FileDescriptor_write ::
  "'k writev \<Rightarrow> 'k \<Rightarrow> fd_wrapper \<Rightarrow> buffer_view_list \<Rightarrow> bool \<Rightarrow> (size_t \<times> 'k \<times> fd_wrapper) result" where
  "FileDescriptor_write writev k w buffer write_all = fd_write_loop writev write_all k w buffer 0"

text \<open>\<open>set_blocking\<close>: the new flags.\<close>

unbundle bit_operations_syntax

abbreviation (input) O_NONBLOCK :: u32 where
  "O_NONBLOCK \<equiv> 2048"

definition FileDescriptor_set_blocking :: "int \<times> nat \<Rightarrow> (u32 \<Rightarrow> int \<times> nat) \<Rightarrow> bool \<Rightarrow> u32 result" where
  "FileDescriptor_set_blocking getfl setfl blocking_state =
     (let (ret, errno) = getfl
      in bindE (SystemCall ''fcntl'' ret errno 0) (\<lambda>flags.
           let flags = word_of_int flags :: u32;
               flags = (if blocking_state then flags XOR (flags AND O_NONBLOCK) else flags OR O_NONBLOCK);
               (ret, errno) = setfl flags
           in bindE (SystemCall ''fcntl'' ret errno 0) (\<lambda>_. Inr flags)))"

section \<open>The kernel as a sink of bytes\<close>

text \<open>
  What \<open>writev\<close> promises: it takes a prefix of the bytes it is given, reports the length of it, and
  sets \<open>errno\<close> when it fails.
\<close>

locale byte_sink =
  fixes writev :: "'k writev"
    and accepted :: "'k \<Rightarrow> byte list"
  assumes takes: "writev k iovecs = (n, errno, k') \<Longrightarrow> 0 \<le> n \<Longrightarrow>
      n \<le> int (length (concat (map fst iovecs))) \<and> accepted k' = accepted k @ take (nat n) (concat (map fst iovecs))"
    and fails: "writev k iovecs = (n, errno, k') \<Longrightarrow> n < 0 \<Longrightarrow> - (2 ^ 31) \<le> n \<and> errno \<noteq> 0"
begin

lemma write_loop:
  assumes "length (concat buffer) < 2 ^ 31"
  shows "case fd_write_loop writev write_all k w buffer written of
      Inr (n, k', w') \<Rightarrow> \<exists>m \<le> length (concat buffer). n = sz_add written m \<and>
        accepted k' = accepted k @ take m (concat buffer) \<and> (write_all \<longrightarrow> m = length (concat buffer))
    | Inl e \<Rightarrow> e \<in> {RuntimeError ''writev'', RuntimeError ''write returned 0 given non-empty input buffer''}"
  using assms
proof (induction "length (concat buffer)" arbitrary: k w buffer written rule: less_induct)
  case less
  obtain n errno k1 where sys: "writev k (BufferViewList_as_iovecs buffer) = (n, errno, k1)"
    by (cases "writev k (BufferViewList_as_iovecs buffer)")
  have bytes: "concat (map fst (BufferViewList_as_iovecs buffer)) = concat buffer"
    by (simp add: BufferViewList_as_iovecs_def comp_def)
  have size: "BufferViewList_size buffer = length (concat buffer)" "ssize (length (concat buffer)) = int (length (concat buffer))"
    using less.prems by (simp_all add: BufferViewList_size_eq ssize_def)
  show ?case
  proof (cases "n < 0")
    case True
    then have "SystemCall ''writev'' n errno 0 = Inl (RuntimeError ''writev'')"
      using fails [OF sys] by (simp add: SystemCall_def)
    then show ?thesis using sys by (subst fd_write_loop.simps) simp
  next
    case False
    then have t: "n \<le> int (length (concat buffer))" "accepted k1 = accepted k @ take (nat n) (concat buffer)"
      using takes [OF sys] bytes by simp_all
    have call: "SystemCall ''writev'' n errno 0 = Inr n" using False t(1) less.prems by (simp add: SystemCall_def)
    show ?thesis
    proof (cases "n = 0 \<and> concat buffer \<noteq> []")
      case True
      then show ?thesis using sys call size by (subst fd_write_loop.simps) simp
    next
      case zero: False
      have sz: "size_of_int n = nat n" using False t(1) less.prems by simp
      obtain b1 where b1: "BufferViewList_remove_prefix buffer (nat n) = Inr b1" "concat b1 = drop (nat n) (concat buffer)"
        using view_list.remove_long [of "nat n" buffer] t(1) nat_le_iff by blast
      have size1: "BufferViewList_size b1 = length (concat buffer) - nat n"
        using b1(2) less.prems by (simp add: BufferViewList_size_eq)
      have eq: "fd_write_loop writev write_all k w buffer written =
          (if write_all \<and> length (concat buffer) - nat n \<noteq> 0
           then fd_write_loop writev write_all k1 (FileDescriptor_register_write w) b1 (sz_add written (nat n))
           else Inr (sz_add written (nat n), k1, FileDescriptor_register_write w))"
        using sys call zero size t(1) sz b1(1) size1 by (subst fd_write_loop.simps) (simp add: not_less)
      show ?thesis
      proof (cases "write_all \<and> length (concat buffer) - nat n \<noteq> 0")
        case False
        then show ?thesis using eq t False
          by (auto intro!: exI [of _ "nat n"] simp: nat_le_iff)
      next
        case True
        then have "concat buffer \<noteq> []" by (metis diff_0_eq_0 list.size(3))
        then have "0 < nat n" using zero \<open>\<not> n < 0\<close> by auto
        then have "length (concat b1) < length (concat buffer)" using b1(2) True by (simp add: diff_less_mono2 not_le) linarith
        from less.hyps [OF this] less.prems
        have ih: "case fd_write_loop writev write_all k1 (FileDescriptor_register_write w) b1 (sz_add written (nat n)) of
            Inr (n', k', w') \<Rightarrow> \<exists>m \<le> length (concat b1). n' = sz_add (sz_add written (nat n)) m \<and>
              accepted k' = accepted k1 @ take m (concat b1) \<and> (write_all \<longrightarrow> m = length (concat b1))
          | Inl e \<Rightarrow> e \<in> {RuntimeError ''writev'', RuntimeError ''write returned 0 given non-empty input buffer''}"
          by (simp add: b1(2))
        show ?thesis
        proof (cases "fd_write_loop writev write_all k1 (FileDescriptor_register_write w) b1 (sz_add written (nat n))")
          case (Inl e)
          then show ?thesis using ih eq True by simp
        next
          case (Inr r)
          obtain n' k' w' where r: "r = (n', k', w')" by (cases r)
          then obtain m where m: "m \<le> length (concat b1)" "n' = sz_add (sz_add written (nat n)) m"
            "accepted k' = accepted k1 @ take m (concat b1)" "write_all \<longrightarrow> m = length (concat b1)"
            using ih Inr by auto
          have "accepted k' = accepted k @ take (nat n + m) (concat buffer)"
            using m(3) t(2) b1(2) by (simp add: take_add)
          then show ?thesis
            using eq True Inr r m b1(2) t(1)
            by (auto intro!: exI [of _ "nat n + m"] simp: sz_add_plus)
        qed
      qed
    qed
  qed
qed

end

text \<open>A pipe that accepts at most so many bytes at each call, then refuses with \<open>EAGAIN\<close>.\<close>

definition pipe_writev :: "(byte list \<times> size_t list) writev" where
  "pipe_writev k iovecs =
     (case snd k of
        [] \<Rightarrow> (- 1, 11, k)
      | c # cs \<Rightarrow> let bytes = concat (map fst iovecs); n = min c (length bytes)
                  in (int n, 0, (fst k @ take n bytes, cs)))"

interpretation pipe: byte_sink pipe_writev fst
  by unfold_locales (auto simp: pipe_writev_def Let_def split: list.splits)

text \<open>
  C37. \<open>write\<close> with \<open>write_all\<close> terminates, and either the kernel has received exactly the bytes of the
  buffers, in order, and their number is returned, or a call of \<open>writev\<close> failed or took nothing.  It
  never throws for any other reason.  Without \<open>write_all\<close> the kernel has received a prefix of the
  bytes and its length is returned.
\<close>

theorem write_all_complete:
  assumes "byte_sink writev accepted" "length (concat buffer) < 2 ^ 31"
  shows "case FileDescriptor_write writev k w buffer write_all of
      Inr (n, k', w') \<Rightarrow> n \<le> length (concat buffer) \<and> accepted k' = accepted k @ take n (concat buffer) \<and>
        (if write_all then n = length (concat buffer) else True)
    | Inl e \<Rightarrow> e \<in> {RuntimeError ''writev'', RuntimeError ''write returned 0 given non-empty input buffer''}"
proof (cases "fd_write_loop writev write_all k w buffer 0")
  case (Inl e)
  then show ?thesis
    using byte_sink.write_loop [OF assms, where write_all = write_all and k = k and w = w and written = 0] by (simp add: FileDescriptor_write_def)
next
  case (Inr r)
  obtain n k' w' where r: "r = (n, k', w')" by (cases r)
  then obtain m where m: "m \<le> length (concat buffer)" "n = sz_add 0 m"
    "accepted k' = accepted k @ take m (concat buffer)" "write_all \<longrightarrow> m = length (concat buffer)"
    using byte_sink.write_loop [OF assms, where write_all = write_all and k = k and w = w and written = 0] Inr by auto
  then have "n = m" using assms(2) by simp
  then show ?thesis using m Inr r by (simp add: FileDescriptor_write_def)
qed

definition stdout_fd :: fd_wrapper where
  "stdout_fd = \<lparr>fdw_fd = 1, fdw_eof = False, fdw_closed = False, fdw_read_count = 0, fdw_write_count = 0\<rparr>"

theorem write_all_complete_witness:
  "case FileDescriptor_write pipe_writev ([], [2, 1, 5]) stdout_fd [[1, 2, 3], [4]] True of
      Inr (n, k', w') \<Rightarrow> n \<le> length (concat [[1, 2, 3], [4 :: byte]]) \<and>
        fst k' = fst ([], [2, 1, 5 :: nat]) @ take n (concat [[1, 2, 3], [4]]) \<and>
        (if True then n = length (concat [[1, 2, 3], [4 :: byte]]) else True)
    | Inl e \<Rightarrow> e \<in> {RuntimeError ''writev'', RuntimeError ''write returned 0 given non-empty input buffer''}"
  by (rule write_all_complete [OF pipe.byte_sink_axioms]) simp

end
