(* ===== verification/Event_Loop.thy ===== *)
theory Event_Loop
  imports File_Descriptor "HOL-Library.Sublist"
begin

text \<open>
  The event loop, \<open>util/eventloop.hh\<close> and \<open>eventloop.cc\<close>.

  The callbacks of a rule are functions on the state \<open>'s\<close> of the program that owns the loop; the
  wrapper of the polled descriptor, which the rule shares with that program, is a component of this
  state.  The system call \<open>poll\<close> is a function from the array it is given to its return value,
  \<open>errno\<close> and the field \<open>revents\<close> of each element.
\<close>

section \<open>Rules\<close>

unbundle bit_operations_syntax

datatype direction = In | Out

abbreviation (input) POLLIN :: u16 where "POLLIN \<equiv> 1"
abbreviation (input) POLLOUT :: u16 where "POLLOUT \<equiv> 4"
abbreviation (input) POLLERR :: u16 where "POLLERR \<equiv> 8"
abbreviation (input) POLLHUP :: u16 where "POLLHUP \<equiv> 16"
abbreviation (input) POLLNVAL :: u16 where "POLLNVAL \<equiv> 32"
abbreviation (input) EINTR :: nat where "EINTR \<equiv> 4"

definition direction_events :: "direction \<Rightarrow> u16" where
  "direction_events d = (case d of In \<Rightarrow> POLLIN | Out \<Rightarrow> POLLOUT)"

record 's event_rule =
  er_fd :: "'s \<Rightarrow> fd_wrapper"
  er_direction :: direction
  er_callback :: "'s \<Rightarrow> 's result"
  er_interest :: "'s \<Rightarrow> bool"
  er_cancel :: "'s \<Rightarrow> 's result"

definition Rule_service_count :: "'s event_rule \<Rightarrow> 's \<Rightarrow> u32" where
  "Rule_service_count r s =
     (if er_direction r = In then fdw_read_count (er_fd r s) else fdw_write_count (er_fd r s))"

definition EventLoop_add_rule ::
  "'s event_rule list \<Rightarrow> ('s \<Rightarrow> fd_wrapper) \<Rightarrow> direction \<Rightarrow> ('s \<Rightarrow> 's result) \<Rightarrow> ('s \<Rightarrow> bool) \<Rightarrow> ('s \<Rightarrow> 's result) \<Rightarrow>
     's event_rule list" where
  "EventLoop_add_rule rules fd d callback interest cancel =
     rules @ [\<lparr>er_fd = fd, er_direction = d, er_callback = callback, er_interest = interest, er_cancel = cancel\<rparr>]"

section \<open>Waiting for the next event\<close>

datatype event_result = Success | Timeout | Exit

type_synonym poll = "(int \<times> u16) list \<Rightarrow> int \<times> nat \<times> (nat \<Rightarrow> u16)"

text \<open>
  The first loop: rules on a descriptor at its end or closed are cancelled, the others get an element
  of the array.
\<close>

fun setup_rules :: "'s event_rule list \<Rightarrow> 's \<Rightarrow> ('s event_rule list \<times> (int \<times> u16) list \<times> bool \<times> 's) result" where
  "setup_rules [] s = Inr ([], [], False, s)"
| "setup_rules (r # rules) s =
     (if er_direction r = In \<and> fdw_eof (er_fd r s) then bindE (er_cancel r s) (setup_rules rules)
      else if fdw_closed (er_fd r s) then bindE (er_cancel r s) (setup_rules rules)
      else let interested = er_interest r s;
               this_pollfd = (fdw_fd (er_fd r s), if interested then direction_events (er_direction r) else 0)
           in bindE (setup_rules rules s) (\<lambda>(rules, pollfds, something_to_poll, s).
                Inr (r # rules, this_pollfd # pollfds, interested \<or> something_to_poll, s)))"

text \<open>The second loop, on the remaining rules and the array with the answers of \<open>poll\<close>.\<close>

definition service_rule :: "'s event_rule \<Rightarrow> 's \<Rightarrow> 's result" where
  "service_rule r s =
     (let count_before = Rule_service_count r s
      in bindE (er_callback r s) (\<lambda>s.
           if count_before = Rule_service_count r s \<and> er_interest r s
           then Inl (RuntimeError ''EventLoop: busy wait detected: callback did not read/write fd and is still interested'')
           else Inr s))"

fun handle_rules :: "'s event_rule list \<Rightarrow> (u16 \<times> u16) list \<Rightarrow> 's \<Rightarrow> ('s event_rule list \<times> 's) result" where
  "handle_rules [] pollfds s = Inr ([], s)"
| "handle_rules (r # rules) [] s = Inl (UndefinedBehaviour ''vector index'')"
| "handle_rules (r # rules) ((events, revents) # pollfds) s =
     (let poll_error = (revents AND (POLLERR OR POLLNVAL) \<noteq> 0);
          poll_ready = (revents AND events \<noteq> 0);
          poll_hup = (revents AND POLLHUP \<noteq> 0)
      in if poll_error then Inl (RuntimeError ''EventLoop: error on polled file descriptor'')
         else if poll_hup \<and> events \<noteq> 0 \<and> \<not> poll_ready
         then bindE (er_cancel r s) (handle_rules rules pollfds)
         else bindE (if poll_ready then service_rule r s else Inr s) (\<lambda>s.
              bindE (handle_rules rules pollfds s) (\<lambda>(rules, s). Inr (r # rules, s))))"

text \<open>
  The array after the call of \<open>poll\<close>, with the \<open>revents\<close> that it holds then.  \<open>catch\<close> returns from the
  function for \<open>EINTR\<close> only.
\<close>

definition polled :: "(int \<times> u16) list \<Rightarrow> (nat \<Rightarrow> u16) \<Rightarrow> (u16 \<times> u16) list" where
  "polled pollfds revents = map (\<lambda>(i, fd, events). (events, revents i)) (List.enumerate 0 pollfds)"

definition EventLoop_wait_next_event ::
  "poll \<Rightarrow> 's event_rule list \<Rightarrow> 's \<Rightarrow> (event_result \<times> 's event_rule list \<times> 's) result" where
  "EventLoop_wait_next_event poll rules s =
     bindE (setup_rules rules s) (\<lambda>(rules, pollfds, something_to_poll, s).
       if \<not> something_to_poll then Inr (Exit, rules, s)
       else let (ret, errno, revents) = poll pollfds;
                res = SystemCall ''poll'' ret errno 0
            in if res = Inr 0 then Inr (Timeout, rules, s)
               else if \<not> isl res \<or> errno \<noteq> EINTR
               then bindE (handle_rules rules (polled pollfds revents) s) (\<lambda>(rules, s). Inr (Success, rules, s))
               else Inr (Exit, rules, s))"

section \<open>Invariants of the client\<close>

text \<open>
  A client of the loop has an invariant \<open>I\<close> and, for each rule, a condition that holds when its callback
  runs.  The interest of a rule is asked for before \<open>poll\<close>, and callbacks of other rules may run before
  its own: the condition must follow from the interest and be kept by the other rules.  The errors that
  callbacks may throw are in \<open>E\<close>.
\<close>

type_synonym 's guarded_rule = "'s event_rule \<times> ('s \<Rightarrow> bool)"

definition outcome :: "cpp_error set \<Rightarrow> ('s \<Rightarrow> bool) \<Rightarrow> 's result \<Rightarrow> bool" where
  "outcome E P res \<longleftrightarrow> (case res of Inl e \<Rightarrow> e \<in> E | Inr s \<Rightarrow> P s)"

lemma outcome_simps [simp]:
  "outcome E P (Inl e) \<longleftrightarrow> e \<in> E"
  "outcome E P (Inr s) \<longleftrightarrow> P s"
  by (simp_all add: outcome_def)

lemma outcome_bind:
  "outcome E P res \<Longrightarrow> (\<And>s. res = Inr s \<Longrightarrow> P s \<Longrightarrow> outcome E Q (f s)) \<Longrightarrow> outcome E Q (bindE res f)"
  by (cases res) simp_all

definition rule_safe :: "('s \<Rightarrow> bool) \<Rightarrow> cpp_error set \<Rightarrow> 's guarded_rule \<Rightarrow> bool" where
  "rule_safe I E rg \<longleftrightarrow> (case rg of (r, g) \<Rightarrow> \<forall>s. I s \<longrightarrow>
     (er_interest r s \<longrightarrow> g s) \<and> outcome E I (er_cancel r s) \<and>
     (g s \<longrightarrow> outcome E (\<lambda>s'. I s' \<and> (Rule_service_count r s' \<noteq> Rule_service_count r s \<or> \<not> er_interest r s')) (er_callback r s)))"

definition keeps_guard :: "('s \<Rightarrow> bool) \<Rightarrow> ('s \<Rightarrow> bool) \<Rightarrow> ('s \<Rightarrow> 's result) \<Rightarrow> bool" where
  "keeps_guard I g f \<longleftrightarrow> (\<forall>s. I s \<longrightarrow> g s \<longrightarrow> outcome UNIV g (f s))"

definition rules_safe :: "('s \<Rightarrow> bool) \<Rightarrow> cpp_error set \<Rightarrow> 's guarded_rule list \<Rightarrow> bool" where
  "rules_safe I E gs \<longleftrightarrow> (\<forall>rg \<in> set gs. rule_safe I E rg) \<and>
     sorted_wrt (\<lambda>(r, g) (r', g'). keeps_guard I g (er_cancel r') \<and>
       keeps_guard I g' (er_cancel r) \<and> keeps_guard I g' (er_callback r)) gs"

lemma rules_safe_Cons:
  "rules_safe I E ((r, g) # gs) \<longleftrightarrow> rule_safe I E (r, g) \<and> rules_safe I E gs \<and>
     (\<forall>(r', g') \<in> set gs. keeps_guard I g (er_cancel r') \<and> keeps_guard I g' (er_cancel r) \<and> keeps_guard I g' (er_callback r))"
  by (auto simp: rules_safe_def)

lemma subseq_set: "subseq xs ys \<Longrightarrow> set xs \<subseteq> set ys"
  by (induction rule: list_emb.induct) auto

lemma subseq_sorted_wrt: "subseq xs ys \<Longrightarrow> sorted_wrt P ys \<Longrightarrow> sorted_wrt P xs"
  by (induction rule: list_emb.induct) (use subseq_set in fastforce)+

lemma rules_safe_subseq:
  assumes "subseq gs' gs" "rules_safe I E gs"
  shows "rules_safe I E gs'"
  using assms(2) subseq_set [OF assms(1)] subseq_sorted_wrt [OF assms(1)] unfolding rules_safe_def by blast

lemma setup_rules_keep:
  assumes "\<forall>r \<in> set rules. keeps_guard I g (er_cancel r) \<and> keeps_guard I I (er_cancel r)"
    and "I s" "g s" "setup_rules rules s = Inr (rules', pollfds, b, s')"
  shows "g s'"
  using assms
proof (induction rules arbitrary: s rules' pollfds b)
  case (Cons r rules)
  show ?case
  proof (cases "er_direction r = In \<and> fdw_eof (er_fd r s) \<or> fdw_closed (er_fd r s)")
    case True
    then obtain s1 where s1: "er_cancel r s = Inr s1" "setup_rules rules s1 = Inr (rules', pollfds, b, s')"
      using Cons.prems(4) by (auto split: if_splits)
    then have "I s1" "g s1" using Cons.prems(1-3) by (auto simp: keeps_guard_def)
    then show ?thesis using Cons.IH [OF _ _ _ s1(2)] Cons.prems(1) by simp
  next
    case False
    then obtain rules1 pollfds1 b1 where "setup_rules rules s = Inr (rules1, pollfds1, b1, s')"
      using Cons.prems(4) by (auto simp: Let_def split: if_splits)
    then show ?thesis using Cons.IH [OF _ Cons.prems(2,3)] Cons.prems(1) by simp
  qed
qed simp

definition guards_hold :: "'s \<Rightarrow> 's guarded_rule list \<Rightarrow> u16 list \<Rightarrow> bool" where
  "guards_hold s gs events \<longleftrightarrow> list_all2 (\<lambda>rg e. e \<noteq> 0 \<longrightarrow> snd rg s) gs events"

lemma guards_hold_simps [simp]:
  "guards_hold s [] []"
  "guards_hold s ((r, g) # gs) (e # events) \<longleftrightarrow> (e \<noteq> 0 \<longrightarrow> g s) \<and> guards_hold s gs events"
  by (simp_all add: guards_hold_def)

lemma guards_hold_mono:
  "guards_hold s gs events \<Longrightarrow> (\<And>r g. (r, g) \<in> set gs \<Longrightarrow> g s \<Longrightarrow> g s') \<Longrightarrow> guards_hold s' gs events"
  unfolding guards_hold_def by (erule list.rel_mono_strong) auto

lemma rule_safe_cancel: "rule_safe I E (r, g) \<Longrightarrow> keeps_guard I I (er_cancel r)"
  by (force simp: rule_safe_def keeps_guard_def outcome_def split: sum.splits)

lemma setup_rules_safe:
  assumes "rules_safe I E gs" "I s"
  shows "(\<exists>e \<in> E. setup_rules (map fst gs) s = Inl e) \<or>
    (\<exists>gs' pollfds b s'. setup_rules (map fst gs) s = Inr (map fst gs', pollfds, b, s') \<and>
       I s' \<and> subseq gs' gs \<and> guards_hold s' gs' (map snd pollfds))"
  using assms
proof (induction gs arbitrary: s)
  case (Cons rg gs)
  obtain r g where rg: "rg = (r, g)" by (cases rg)
  have safe: "rule_safe I E (r, g)" "rules_safe I E gs"
    and keep: "\<forall>r \<in> set (map fst gs). keeps_guard I g (er_cancel r) \<and> keeps_guard I I (er_cancel r)"
    using Cons.prems(1) rg by (auto simp: rules_safe_Cons) (auto simp: rules_safe_def intro: rule_safe_cancel)
  show ?case
  proof (cases "er_direction r = In \<and> fdw_eof (er_fd r s) \<or> fdw_closed (er_fd r s)")
    case True
    then have eq: "setup_rules (map fst (rg # gs)) s = bindE (er_cancel r s) (setup_rules (map fst gs))"
      using rg by auto
    have "outcome E I (er_cancel r s)" using safe(1) Cons.prems(2) by (simp add: rule_safe_def)
    then show ?thesis using Cons.IH [OF safe(2)] unfolding eq
      by (cases "er_cancel r s") (simp, metis bindE_simps(2) outcome_simps(2) list_emb_Cons)
  next
    case False
    let ?p = "(fdw_fd (er_fd r s), if er_interest r s then direction_events (er_direction r) else 0)"
    have eq: "setup_rules (map fst (rg # gs)) s = bindE (setup_rules (map fst gs) s)
        (\<lambda>(rules, pollfds, b, s'). Inr (r # rules, ?p # pollfds, er_interest r s \<or> b, s'))"
      using False rg by (auto simp: Let_def)
    consider e where "e \<in> E" "setup_rules (map fst gs) s = Inl e"
      | gs' pollfds b s' where "setup_rules (map fst gs) s = Inr (map fst gs', pollfds, b, s')"
          "I s'" "subseq gs' gs" "guards_hold s' gs' (map snd pollfds)"
      using Cons.IH [OF safe(2) Cons.prems(2)] by blast
    then show ?thesis
    proof cases
      case 1
      then show ?thesis using eq by simp
    next
      case 2
      have "er_interest r s \<Longrightarrow> g s" using safe(1) Cons.prems(2) by (simp add: rule_safe_def)
      then have "guards_hold s' ((r, g) # gs') (map snd (?p # pollfds))"
        using setup_rules_keep [OF keep Cons.prems(2) _ 2(1)] 2(4) by simp
      moreover have "setup_rules (map fst (rg # gs)) s = Inr (map fst ((r, g) # gs'), ?p # pollfds, er_interest r s \<or> b, s')"
        using eq 2(1) by simp
      moreover have "subseq ((r, g) # gs') (rg # gs)" using 2(3) rg by simp
      ultimately show ?thesis using 2(2) by blast
    qed
  qed
qed (auto intro!: exI [of _ False])

lemma service_rule_safe:
  assumes "rule_safe I E (r, g)" "I s" "g s"
  shows "outcome E I (service_rule r s)"
  using assms unfolding service_rule_def rule_safe_def Let_def
  by (intro outcome_bind [where P = "\<lambda>s'. I s' \<and> (Rule_service_count r s' \<noteq> Rule_service_count r s \<or> \<not> er_interest r s')"]) auto

lemma service_rule_guard:
  assumes "keeps_guard I g (er_callback r)" "I s" "g s" "service_rule r s = Inr s'"
  shows "g s'"
  using assms by (auto simp: service_rule_def keeps_guard_def Let_def split: if_splits)

abbreviation poll_error :: cpp_error where
  "poll_error \<equiv> RuntimeError ''EventLoop: error on polled file descriptor''"

lemma handle_rules_safe:
  assumes "rules_safe I E gs" "I s" "guards_hold s gs (map fst pollfds)"
  shows "(\<exists>e \<in> insert poll_error E. handle_rules (map fst gs) pollfds s = Inl e) \<or>
    (\<exists>gs' s'. handle_rules (map fst gs) pollfds s = Inr (map fst gs', s') \<and> I s' \<and> subseq gs' gs)"
  using assms
proof (induction gs arbitrary: s pollfds)
  case (Cons rg gs)
  obtain r g where rg: "rg = (r, g)" by (cases rg)
  obtain events revents pfs where p: "pollfds = (events, revents) # pfs"
    using Cons.prems(3) by (cases pollfds) (auto simp: guards_hold_def)
  have safe: "rule_safe I E (r, g)" "rules_safe I E gs"
    and others: "\<And>r' g'. (r', g') \<in> set gs \<Longrightarrow> keeps_guard I g' (er_cancel r) \<and> keeps_guard I g' (er_callback r)"
    using Cons.prems(1) rg by (auto simp: rules_safe_Cons)
  have g: "events \<noteq> 0 \<Longrightarrow> g s" and rest: "guards_hold s gs (map fst pfs)" using Cons.prems(3) rg p by simp_all
  have ih: "(\<exists>e \<in> insert poll_error E. handle_rules (map fst gs) pfs s1 = Inl e) \<or>
      (\<exists>gs' s'. handle_rules (map fst gs) pfs s1 = Inr (map fst gs', s') \<and> I s' \<and> subseq gs' gs)"
    if "I s1" "\<forall>(r', g') \<in> set gs. g' s \<longrightarrow> g' s1" for s1
  proof -
    have "guards_hold s1 gs (map fst pfs)" using rest by (rule guards_hold_mono) (use that(2) in auto)
    then show ?thesis by (rule Cons.IH [OF safe(2) that(1)])
  qed
  define err where "err = (revents AND (POLLERR OR POLLNVAL) \<noteq> 0)"
  define ready where "ready = (revents AND events \<noteq> 0)"
  define hup where "hup = (revents AND POLLHUP \<noteq> 0 \<and> events \<noteq> 0 \<and> \<not> ready)"
  define res where "res = (if ready then service_rule r s else Inr s)"
  have eq: "handle_rules (map fst (rg # gs)) pollfds s =
      (if err then Inl poll_error
       else if hup then bindE (er_cancel r s) (handle_rules (map fst gs) pfs)
       else bindE res (\<lambda>s. bindE (handle_rules (map fst gs) pfs s) (\<lambda>(rules, s). Inr (r # rules, s))))"
    unfolding err_def ready_def hup_def res_def by (simp only: rg p list.map fst_conv handle_rules.simps Let_def)
  have ready: "ready \<Longrightarrow> g s" using g by (cases "events = 0") (auto simp: ready_def)
  consider "err" | "\<not> err" "hup" | "\<not> err" "\<not> hup" by blast
  then show ?case
  proof cases
    case 1
    then show ?thesis using eq by simp
  next
    case 2
    have c: "outcome E I (er_cancel r s)" using safe(1) Cons.prems(2) by (simp add: rule_safe_def)
    show ?thesis
    proof (cases "er_cancel r s")
      case (Inl e)
      then show ?thesis using eq 2 c by simp
    next
      case (Inr s1)
      have keep: "\<forall>(r', g') \<in> set gs. g' s \<longrightarrow> g' s1"
        using others Inr Cons.prems(2) by (fastforce simp: keeps_guard_def)
      have "I s1" using c Inr by simp
      then show ?thesis using ih [OF _ keep] eq 2 Inr by (auto intro: list_emb_Cons)
    qed
  next
    case 3
    have c: "outcome E I res" using service_rule_safe [OF safe(1) Cons.prems(2)] ready Cons.prems(2) by (simp add: res_def)
    show ?thesis
    proof (cases res)
      case (Inl e)
      then show ?thesis using eq 3 c by simp
    next
      case (Inr s1)
      have keep: "\<forall>(r', g') \<in> set gs. g' s \<longrightarrow> g' s1"
        using others Inr Cons.prems(2) service_rule_guard [where r = r] by (fastforce simp: res_def split: if_splits)
      have "I s1" using c Inr by simp
      then consider e where "e \<in> insert poll_error E" "handle_rules (map fst gs) pfs s1 = Inl e"
        | gs' s' where "handle_rules (map fst gs) pfs s1 = Inr (map fst gs', s')" "I s'" "subseq gs' gs"
        using ih [OF _ keep] by blast
      then show ?thesis
      proof cases
        case 1
        then show ?thesis using eq 3 Inr by simp
      next
        case t: 2
        then have "handle_rules (map fst (rg # gs)) pollfds s = Inr (map fst ((r, g) # gs'), s')"
          using eq 3 Inr by simp
        moreover have "subseq ((r, g) # gs') (rg # gs)" using t(3) rg by simp
        ultimately show ?thesis using t(2) by blast
      qed
    qed
  qed
qed simp

lemma polled_events [simp]: "map fst (polled pollfds revents) = map snd pollfds"
  by (rule nth_equalityI) (simp_all add: polled_def nth_enumerate_eq split: prod.splits)

text \<open>A round of the loop keeps the invariant and never reports a busy wait.\<close>

lemma wait_next_event_safe:
  assumes "rules_safe I E gs" "I s"
  shows "(\<exists>e \<in> insert poll_error E. EventLoop_wait_next_event poll (map fst gs) s = Inl e) \<or>
    (\<exists>res gs' s'. EventLoop_wait_next_event poll (map fst gs) s = Inr (res, map fst gs', s') \<and> I s' \<and> subseq gs' gs)"
proof -
  consider e where "e \<in> E" "setup_rules (map fst gs) s = Inl e"
    | gs1 pollfds b s1 where "setup_rules (map fst gs) s = Inr (map fst gs1, pollfds, b, s1)"
        "I s1" "subseq gs1 gs" "guards_hold s1 gs1 (map snd pollfds)"
    using setup_rules_safe [OF assms] by blast
  then show ?thesis
  proof cases
    case 1
    then show ?thesis by (simp add: EventLoop_wait_next_event_def)
  next
    case 2
    obtain ret errno revents where po: "poll pollfds = (ret, errno, revents)" by (cases "poll pollfds")
    let ?call = "SystemCall ''poll'' ret errno 0"
    let ?h = "handle_rules (map fst gs1) (polled pollfds revents) s1"
    have h: "(\<exists>e \<in> insert poll_error E. ?h = Inl e) \<or> (\<exists>gs' s'. ?h = Inr (map fst gs', s') \<and> I s' \<and> subseq gs' gs1)"
      using 2 assms(1) by (intro handle_rules_safe) (auto intro: rules_safe_subseq)
    have eq: "EventLoop_wait_next_event poll (map fst gs) s =
        (if b \<and> ?call \<noteq> Inr 0 \<and> (\<not> isl ?call \<or> errno \<noteq> EINTR)
         then bindE ?h (\<lambda>(rules, s). Inr (Success, rules, s))
         else Inr (if b \<and> ?call = Inr 0 then Timeout else Exit, map fst gs1, s1))"
      unfolding EventLoop_wait_next_event_def 2(1) bindE_simps prod.case po Let_def by auto
    show ?thesis
    proof (cases "b \<and> ?call \<noteq> Inr 0 \<and> (\<not> isl ?call \<or> errno \<noteq> EINTR)")
      case True
      then have "EventLoop_wait_next_event poll (map fst gs) s = bindE ?h (\<lambda>(rules, s). Inr (Success, rules, s))"
        using eq by simp
      then show ?thesis using h subseq_order.trans [OF _ 2(3)] by fastforce
    next
      case False
      then show ?thesis using eq 2(2,3) by fastforce
    qed
  qed
qed

section \<open>The answers of poll\<close>

lemma setup_rules_length:
  "setup_rules rules s = Inr (rules', pollfds, b, s') \<Longrightarrow> length pollfds = length rules'"
  by (induction rules arbitrary: s rules' pollfds b) (fastforce simp: Let_def split: if_splits)+

lemma handle_rules_quiet:
  "length pollfds = length rules \<Longrightarrow> list_all (\<lambda>(events, revents). revents = 0) pollfds \<Longrightarrow>
   handle_rules rules pollfds s = Inr (rules, s)"
  by (induction rules pollfds rule: list_induct2') (auto simp: Let_def)

lemma polled_quiet:
  "\<forall>i < length pollfds. revents i = 0 \<Longrightarrow> list_all (\<lambda>(events, revents). revents = 0) (polled pollfds revents)"
  by (auto simp: polled_def list_all_iff in_set_enumerate_eq)

text \<open>
  C38. What a round of the loop returns.  Rules whose descriptor is at its end or closed have been
  cancelled and dropped.  If no remaining rule is interested, \<open>poll\<close> is not called and the result is
  \<open>Exit\<close>; a time-out and a signal run no callback and give \<open>Timeout\<close> and \<open>Exit\<close>.  In every other case, a
  failed call of \<open>poll\<close> included, the loop goes through the array.  So if \<open>poll\<close> fails for another reason and
  leaves the \<open>revents\<close> at zero, as they were initialised, no callback runs and the result is \<open>Success\<close>,
  without an exception.
\<close>

theorem wait_next_event_outcomes:
  assumes "setup_rules rules s = Inr (rules', pollfds, something_to_poll, s')"
    and "poll pollfds = (ret, errno, revents)" "- (2 ^ 31) \<le> ret" "ret < 2 ^ 31"
  shows "EventLoop_wait_next_event poll rules s =
    (if \<not> something_to_poll then Inr (Exit, rules', s')
     else if ret = 0 then Inr (Timeout, rules', s')
     else if ret < 0 \<and> errno = EINTR then Inr (Exit, rules', s')
     else if ret < 0 \<and> (\<forall>i < length pollfds. revents i = 0) then Inr (Success, rules', s')
     else bindE (handle_rules rules' (polled pollfds revents) s') (\<lambda>(rules, s). Inr (Success, rules, s)))"
proof -
  have call: "SystemCall ''poll'' ret errno 0 = (if 0 \<le> ret \<or> errno = 0 then Inr ret else Inl (RuntimeError ''poll''))"
    using assms(3,4) by (simp add: SystemCall_def)
  have "\<forall>i < length pollfds. revents i = 0 \<Longrightarrow> handle_rules rules' (polled pollfds revents) s' = Inr (rules', s')"
    using polled_quiet setup_rules_length [OF assms(1)] by (intro handle_rules_quiet) (simp_all add: polled_def)
  then show ?thesis using assms(1,2) call by (auto simp: EventLoop_wait_next_event_def Let_def)
qed

definition stdin_rule :: "fd_wrapper event_rule" where
  "stdin_rule = \<lparr>er_fd = id, er_direction = In, er_callback = (\<lambda>w. Inr (FileDescriptor_register_read w)),
     er_interest = (\<lambda>w. True), er_cancel = Inr\<rparr>"

theorem wait_next_event_outcomes_witness:
  "EventLoop_wait_next_event (\<lambda>pollfds. (- 1, 14, \<lambda>i. 0)) [stdin_rule] stdout_fd = Inr (Success, [stdin_rule], stdout_fd)"
  using wait_next_event_outcomes [where rules = "[stdin_rule]" and s = stdout_fd and rules' = "[stdin_rule]"
      and pollfds = "[(1, 1)]" and something_to_poll = True and s' = stdout_fd and poll = "\<lambda>pollfds. (- 1, 14, \<lambda>i. 0)"
      and ret = "- 1" and errno = 14 and revents = "\<lambda>i. 0"]
  by (simp add: stdin_rule_def stdout_fd_def direction_events_def)

end
