(* ===== verification/Sockets.thy ===== *)
theory Sockets
  imports File_Descriptor Addresses
begin

text \<open>
  Sockets, \<open>util/socket.hh\<close> and \<open>socket.cc\<close>, and TUN and TAP devices, \<open>util/tun.hh\<close> and \<open>tun.cc\<close>.

  The kernel is a state and the system calls on it that transfer data; a call answers with a return
  value, \<open>errno\<close> and what it stores through its pointers.  The answers of the calls that only set up
  a descriptor are arguments.
\<close>

section \<open>The kernel\<close>

type_synonym answer = "int \<times> nat"

record 'k kernel =
  sys_read :: "int \<Rightarrow> size_t \<Rightarrow> 'k \<Rightarrow> (int \<times> nat \<times> byte list) \<times> 'k"
  sys_writev :: "int \<Rightarrow> 'k writev"
  sys_shutdown :: "int \<Rightarrow> int \<Rightarrow> 'k \<Rightarrow> answer \<times> 'k"
  sys_recvfrom :: "int \<Rightarrow> size_t \<Rightarrow> 'k \<Rightarrow> (int \<times> nat \<times> byte list \<times> byte list \<times> size_t) \<times> 'k"
  sys_sendmsg :: "int \<Rightarrow> (byte list \<times> size_t) option \<Rightarrow> (byte list \<times> size_t) list \<Rightarrow> 'k \<Rightarrow> answer \<times> 'k"

text \<open>\<open>read\<close> and \<open>write\<close> of a descriptor on this kernel.\<close>

definition fd_read :: "'k kernel \<Rightarrow> fd_wrapper \<Rightarrow> size_t \<Rightarrow> 'k \<Rightarrow> (byte list \<times> fd_wrapper \<times> 'k) result" where
  "fd_read K w limit k =
     (let (answer, k) = sys_read K (fdw_fd w) (min BUFFER_SIZE limit) k
      in bindE (FileDescriptor_read (\<lambda>n. answer) w limit) (\<lambda>(str, w). Inr (str, w, k)))"

definition fd_write :: "'k kernel \<Rightarrow> fd_wrapper \<Rightarrow> buffer_view_list \<Rightarrow> bool \<Rightarrow> 'k \<Rightarrow> (size_t \<times> 'k \<times> fd_wrapper) result" where
  "fd_write K w buffer write_all k = FileDescriptor_write (sys_writev K (fdw_fd w)) k w buffer write_all"

section \<open>Socket\<close>

abbreviation (input) SOCK_STREAM :: int where "SOCK_STREAM \<equiv> 1"
abbreviation (input) SOCK_DGRAM :: int where "SOCK_DGRAM \<equiv> 2"
abbreviation (input) AF_UNIX :: int where "AF_UNIX \<equiv> 1"
abbreviation (input) SHUT_RD :: int where "SHUT_RD \<equiv> 0"
abbreviation (input) SHUT_WR :: int where "SHUT_WR \<equiv> 1"
abbreviation (input) SHUT_RDWR :: int where "SHUT_RDWR \<equiv> 2"

definition Socket_new :: "(int \<Rightarrow> int \<Rightarrow> answer) \<Rightarrow> int \<Rightarrow> int \<Rightarrow> fd_wrapper result" where
  "Socket_new sys_socket domain type =
     (let (ret, errno) = sys_socket domain type in bindE (SystemCall ''socket'' ret errno 0) FDWrapper_new)"

text \<open>The constructor from a descriptor asks for its domain and its type: answer, value and length.\<close>

definition Socket_of_fd ::
  "answer \<times> int \<times> size_t \<Rightarrow> answer \<times> int \<times> size_t \<Rightarrow> fd_wrapper \<Rightarrow> int \<Rightarrow> int \<Rightarrow> fd_wrapper result" where
  "Socket_of_fd so_domain so_type w domain type =
     (let ((ret, errno), actual_value, len) = so_domain
      in bindE (SystemCall ''getsockopt'' ret errno 0) (\<lambda>_.
         if len \<noteq> 4 \<or> actual_value \<noteq> domain then Inl (RuntimeError ''socket domain mismatch'')
         else let ((ret, errno), actual_value, len) = so_type
              in bindE (SystemCall ''getsockopt'' ret errno 0) (\<lambda>_.
                 if len \<noteq> 4 \<or> actual_value \<noteq> type then Inl (RuntimeError ''socket type mismatch'')
                 else Inr w)))"

definition Socket_get_address :: "string \<Rightarrow> answer \<times> byte list \<times> size_t \<Rightarrow> address result" where
  "Socket_get_address name_of_function answer =
     (let ((ret, errno), addr, size) = answer
      in bindE (SystemCall name_of_function ret errno 0) (\<lambda>_. Address_of_sockaddr addr size))"

definition Socket_local_address :: "answer \<times> byte list \<times> size_t \<Rightarrow> address result" where
  "Socket_local_address getsockname = Socket_get_address ''getsockname'' getsockname"

definition Socket_peer_address :: "answer \<times> byte list \<times> size_t \<Rightarrow> address result" where
  "Socket_peer_address getpeername = Socket_get_address ''getpeername'' getpeername"

definition Socket_bind :: "(byte list \<Rightarrow> size_t \<Rightarrow> answer) \<Rightarrow> address \<Rightarrow> unit result" where
  "Socket_bind sys_bind a =
     (let (ret, errno) = sys_bind (addr_storage a) (addr_size a)
      in bindE (SystemCall ''bind'' ret errno 0) (\<lambda>_. Inr ()))"

definition Socket_connect :: "(byte list \<Rightarrow> size_t \<Rightarrow> answer) \<Rightarrow> address \<Rightarrow> unit result" where
  "Socket_connect sys_connect a =
     (let (ret, errno) = sys_connect (addr_storage a) (addr_size a)
      in bindE (SystemCall ''connect'' ret errno 0) (\<lambda>_. Inr ()))"

definition Socket_shutdown :: "'k kernel \<Rightarrow> fd_wrapper \<Rightarrow> int \<Rightarrow> 'k \<Rightarrow> (fd_wrapper \<times> 'k) result" where
  "Socket_shutdown K w how k =
     (let ((ret, errno), k) = sys_shutdown K (fdw_fd w) how k
      in bindE (SystemCall ''shutdown'' ret errno 0) (\<lambda>_.
         if how = SHUT_RD then Inr (FileDescriptor_register_read w, k)
         else if how = SHUT_WR then Inr (FileDescriptor_register_write w, k)
         else if how = SHUT_RDWR then Inr (FileDescriptor_register_write (FileDescriptor_register_read w), k)
         else Inl (RuntimeError ''Socket::shutdown() called with invalid `how`'')))"

abbreviation (input) SOL_SOCKET :: int where "SOL_SOCKET \<equiv> 1"
abbreviation (input) SO_REUSEADDR :: int where "SO_REUSEADDR \<equiv> 2"

definition Socket_setsockopt :: "(int \<Rightarrow> int \<Rightarrow> int \<Rightarrow> size_t \<Rightarrow> answer) \<Rightarrow> int \<Rightarrow> int \<Rightarrow> int \<Rightarrow> unit result" where
  "Socket_setsockopt sys_setsockopt level option option_value =
     (let (ret, errno) = sys_setsockopt level option option_value 4
      in bindE (SystemCall ''setsockopt'' ret errno 0) (\<lambda>_. Inr ()))"

definition Socket_set_reuseaddr :: "(int \<Rightarrow> int \<Rightarrow> int \<Rightarrow> size_t \<Rightarrow> answer) \<Rightarrow> unit result" where
  "Socket_set_reuseaddr sys_setsockopt = Socket_setsockopt sys_setsockopt SOL_SOCKET SO_REUSEADDR 1"

section \<open>UDPSocket\<close>

definition UDPSocket_recv ::
  "'k kernel \<Rightarrow> fd_wrapper \<Rightarrow> size_t \<Rightarrow> 'k \<Rightarrow> ((address \<times> byte list) \<times> fd_wrapper \<times> 'k) result" where
  "UDPSocket_recv K w mtu k =
     (let ((ret, errno, str, addr, fromlen), k) = sys_recvfrom K (fdw_fd w) mtu k
      in bindE (SystemCall ''recvfrom'' ret errno 0) (\<lambda>recv_len.
         if ssize mtu < recv_len then Inl (RuntimeError ''recvfrom (oversized datagram)'')
         else bindE (Address_of_sockaddr addr fromlen) (\<lambda>source_address.
              if recv_len < 0 then Inl (LengthError ''basic_string::resize'')
              else Inr ((source_address, take (nat recv_len) str), FileDescriptor_register_read w, k))))"

definition sendmsg_helper ::
  "'k kernel \<Rightarrow> int \<Rightarrow> (byte list \<times> size_t) option \<Rightarrow> buffer_view_list \<Rightarrow> 'k \<Rightarrow> 'k result" where
  "sendmsg_helper K fd_num destination payload k =
     (let ((ret, errno), k) = sys_sendmsg K fd_num destination (BufferViewList_as_iovecs payload) k
      in bindE (SystemCall ''sendmsg'' ret errno 0) (\<lambda>bytes_sent.
         if size_of_int bytes_sent \<noteq> BufferViewList_size payload
         then Inl (RuntimeError ''datagram payload too big for sendmsg()'')
         else Inr k))"

definition UDPSocket_sendto :: "'k kernel \<Rightarrow> fd_wrapper \<Rightarrow> address \<Rightarrow> buffer_view_list \<Rightarrow> 'k \<Rightarrow> (fd_wrapper \<times> 'k) result" where
  "UDPSocket_sendto K w destination payload k =
     bindE (sendmsg_helper K (fdw_fd w) (Some (addr_storage destination, addr_size destination)) payload k) (\<lambda>k.
       Inr (FileDescriptor_register_write w, k))"

definition UDPSocket_send :: "'k kernel \<Rightarrow> fd_wrapper \<Rightarrow> buffer_view_list \<Rightarrow> 'k \<Rightarrow> (fd_wrapper \<times> 'k) result" where
  "UDPSocket_send K w payload k =
     bindE (sendmsg_helper K (fdw_fd w) None payload k) (\<lambda>k. Inr (FileDescriptor_register_write w, k))"

section \<open>TCPSocket\<close>

definition TCPSocket_listen :: "(int \<Rightarrow> answer) \<Rightarrow> int \<Rightarrow> unit result" where
  "TCPSocket_listen sys_listen backlog =
     (let (ret, errno) = sys_listen backlog in bindE (SystemCall ''listen'' ret errno 0) (\<lambda>_. Inr ()))"

text \<open>\<open>accept\<close>: the new socket and the listening one.\<close>

definition TCPSocket_accept ::
  "answer \<Rightarrow> answer \<times> int \<times> size_t \<Rightarrow> answer \<times> int \<times> size_t \<Rightarrow> fd_wrapper \<Rightarrow> (fd_wrapper \<times> fd_wrapper) result" where
  "TCPSocket_accept sys_accept so_domain so_type w =
     (let w = FileDescriptor_register_read w; (ret, errno) = sys_accept
      in bindE (SystemCall ''accept'' ret errno 0) (\<lambda>fd.
         bindE (FDWrapper_new fd) (\<lambda>new.
         bindE (Socket_of_fd so_domain so_type new (int AF_INET) SOCK_STREAM) (\<lambda>new. Inr (new, w)))))"

section \<open>TUN and TAP devices\<close>

text \<open>The request to the device: flags, and the name in a field of \<open>IFNAMSIZ\<close> bytes.\<close>

abbreviation (input) IFNAMSIZ :: nat where "IFNAMSIZ \<equiv> 16"
abbreviation (input) IFF_TUN :: u16 where "IFF_TUN \<equiv> 1"
abbreviation (input) IFF_TAP :: u16 where "IFF_TAP \<equiv> 2"
abbreviation (input) IFF_NO_PI :: u16 where "IFF_NO_PI \<equiv> 0x1000"

definition ifreq_name :: "string \<Rightarrow> string" where
  "ifreq_name devname =
     (let name = take (IFNAMSIZ - 1) (takeWhile (\<lambda>c. c \<noteq> char_of (0 :: nat)) devname)
      in name @ replicate (IFNAMSIZ - length name) (char_of (0 :: nat)))"

definition TunTapFD_new :: "answer \<Rightarrow> (u16 \<Rightarrow> string \<Rightarrow> answer) \<Rightarrow> string \<Rightarrow> bool \<Rightarrow> fd_wrapper result" where
  "TunTapFD_new sys_open sys_ioctl devname is_tun =
     (let (ret, errno) = sys_open
      in bindE (SystemCall ''open'' ret errno 0) (\<lambda>fd.
         bindE (FDWrapper_new fd) (\<lambda>w.
           let (ret, errno) = sys_ioctl ((if is_tun then IFF_TUN else IFF_TAP) OR IFF_NO_PI) (ifreq_name devname)
           in bindE (SystemCall ''ioctl'' ret errno 0) (\<lambda>_. Inr w))))"

section \<open>What the operations guarantee\<close>

text \<open>A name always fits its field and is terminated.\<close>

lemma ifreq_name_terminated: "length (ifreq_name devname) = IFNAMSIZ" "last (ifreq_name devname) = char_of (0 :: nat)"
proof -
  let ?name = "take 15 (takeWhile (\<lambda>c. c \<noteq> char_of (0 :: nat)) devname)"
  have "length ?name \<le> 15" by simp
  then show "length (ifreq_name devname) = IFNAMSIZ" "last (ifreq_name devname) = char_of (0 :: nat)"
    by (simp_all add: ifreq_name_def Let_def)
qed

lemma fd_readE:
  assumes "fd_read K w limit k = Inr (data, w', k')"
  obtains ret errno str where "sys_read K (fdw_fd w) (min BUFFER_SIZE limit) k = ((ret, errno, str), k')"
    "SystemCall ''read'' ret errno 0 = Inr (int (nat (to_int32 ret)))" "data = take (nat (to_int32 ret)) str"
    "nat (to_int32 ret) \<le> limit" "fdw_read_count w' = fdw_read_count w + 1" "fdw_fd w' = fdw_fd w"
proof -
  obtain ret errno str k1 where s: "sys_read K (fdw_fd w) (min BUFFER_SIZE limit) k = ((ret, errno, str), k1)"
    by (metis prod.exhaust)
  show ?thesis
  proof (rule that)
  qed (use assms s in \<open>auto simp: fd_read_def FileDescriptor_read_def FileDescriptor_register_read_def SystemCall_def ssize_def Let_def split: if_splits\<close>)
qed

section \<open>Byte channels\<close>

text \<open>
  What a kernel promises of one descriptor: \<open>supplied\<close> are the bytes read from it so far and \<open>received\<close> the
  bytes written to it.  A read takes at most the number of bytes asked for, a write takes a prefix of the
  bytes offered, and failures are reported as the manual says.  \<open>good\<close> are the states of the kernel that
  can occur.
\<close>

locale byte_channel =
  fixes K :: "'k kernel" and fd :: int
    and supplied received :: "'k \<Rightarrow> byte list" and good :: "'k \<Rightarrow> bool"
  assumes thread_read: "good k \<Longrightarrow> sys_read K fd n k = ((ret, errno, str), k') \<Longrightarrow> 0 \<le> ret \<Longrightarrow>
      ret \<le> int n \<and> supplied k' = supplied k @ take (nat ret) str \<and> received k' = received k \<and> good k'"
    and thread_read_fails: "good k \<Longrightarrow> sys_read K fd n k = ((ret, errno, str), k') \<Longrightarrow> ret < 0 \<Longrightarrow> - (2 ^ 31) \<le> ret"
    and thread_write: "good k \<Longrightarrow> sys_writev K fd k iovecs = (ret, errno, k') \<Longrightarrow> 0 \<le> ret \<Longrightarrow>
      ret \<le> int (length (concat (map fst iovecs))) \<and> supplied k' = supplied k \<and>
      received k' = received k @ take (nat ret) (concat (map fst iovecs)) \<and> good k'"
    and thread_write_fails: "good k \<Longrightarrow> sys_writev K fd k iovecs = (ret, errno, k') \<Longrightarrow> ret < 0 \<Longrightarrow>
      - (2 ^ 31) \<le> ret \<and> errno \<noteq> 0"
begin

lemma read_thread:
  assumes "good k" "fdw_fd w = fd" "fd_read K w limit k = Inr (data, w', k')"
  shows "supplied k' = supplied k @ data" "received k' = received k" "good k'" "length data \<le> limit"
    "fdw_fd w' = fd" "fdw_read_count w' = fdw_read_count w + 1"
proof -
  obtain ret errno str where r: "sys_read K fd (min BUFFER_SIZE limit) k = ((ret, errno, str), k')"
    "SystemCall ''read'' ret errno 0 = Inr (int (nat (to_int32 ret)))" "data = take (nat (to_int32 ret)) str"
    "nat (to_int32 ret) \<le> limit" "fdw_read_count w' = fdw_read_count w + 1" "fdw_fd w' = fdw_fd w"
    using assms(2,3) by (elim fd_readE) auto
  have "0 \<le> ret"
  proof (rule ccontr)
    assume neg: "\<not> 0 \<le> ret"
    then have "- (2 ^ 31) \<le> ret" using thread_read_fails [OF assms(1) r(1)] by simp
    then have "to_int32 ret = ret" using neg by simp
    then show False using r(2) neg by (simp add: SystemCall_def split: if_splits)
  qed
  note t = thread_read [OF assms(1) r(1) this]
  then have "ret \<le> 1048576" by (simp add: min_def split: if_splits)
  then have "to_int32 ret = ret" using \<open>0 \<le> ret\<close> by simp
  then show "supplied k' = supplied k @ data" "received k' = received k" "good k'" "length data \<le> limit"
    "fdw_fd w' = fd" "fdw_read_count w' = fdw_read_count w + 1"
    using t r assms(2) by (auto simp: min_def)
qed

lemma write_thread:
  assumes "good k" "fdw_fd w = fd" "length buf \<le> 65536"
    and "fd_write K w (BufferViewList_of_string buf) False k = Inr (n, k', w')"
  shows "n \<le> length buf" "received k' = received k @ take n buf" "supplied k' = supplied k" "good k'"
    "fdw_fd w' = fd" "fdw_write_count w' = fdw_write_count w + 1"
proof -
  obtain ret errno k1 where s: "sys_writev K fd k [(buf, length buf)] = (ret, errno, k1)"
    by (metis prod.exhaust)
  have size: "BufferViewList_size [buf] = length buf" using assms(3) by (simp add: BufferViewList_size_eq)
  have nonneg: "0 \<le> ret"
  proof (rule ccontr)
    assume neg: "\<not> 0 \<le> ret"
    then have "SystemCall ''writev'' ret errno 0 = Inl (RuntimeError ''writev'')"
      using thread_write_fails [OF assms(1) s] by (simp add: SystemCall_def)
    then show False using assms(2,4) s
      by (simp add: fd_write_def FileDescriptor_write_def BufferViewList_of_string_def BufferViewList_as_iovecs_def)
        (subst (asm) fd_write_loop.simps, simp add: BufferViewList_as_iovecs_def)
  qed
  note t = thread_write [OF assms(1) s this]
  have call: "SystemCall ''writev'' ret errno 0 = Inr ret" and sz: "size_of_int ret = nat ret" "nat ret < size_mod"
    using t nonneg assms(3) by (simp_all add: SystemCall_def nat_less_iff)
  have "k' = k1 \<and> n = nat ret \<and> w' = FileDescriptor_register_write w"
    using assms(2,4) s call sz
    by (simp add: fd_write_def FileDescriptor_write_def BufferViewList_of_string_def)
      (subst (asm) fd_write_loop.simps, auto simp: BufferViewList_as_iovecs_def split: if_splits)
  then show "n \<le> length buf" "received k' = received k @ take n buf" "supplied k' = supplied k" "good k'"
    "fdw_fd w' = fd" "fdw_write_count w' = fdw_write_count w + 1"
    using t assms(2) by (simp_all add: FileDescriptor_register_write_def nat_le_iff)
qed

end

end
