(* ===== verification/Sponge_Socket.thy ===== *)
theory Sponge_Socket
  imports Event_Loop Sockets Adapters Connection_States
begin

text \<open>
  The TCP socket of the application, \<open>tcp_helpers/tcp_sponge_socket.hh\<close> and \<open>tcp_sponge_socket.cc\<close>: an
  event loop that moves bytes between a socket pair shared with the owner, a \<open>TCPConnection\<close> and an
  adapter.

  The class is a template over the adapter; here the adapter is a record of its operations on the state
  of the adapter, the wrapper of its descriptor and the kernel, with an instance for UDP, TUN and TAP.
  The debugging output is left out.
\<close>

section \<open>Adapters on a kernel\<close>

record ('a, 'k) adapter_ops =
  ad_read :: "'a \<Rightarrow> fd_wrapper \<Rightarrow> 'k \<Rightarrow> (tcp_segment option \<times> 'a \<times> fd_wrapper \<times> 'k) result"
  ad_write :: "'a \<Rightarrow> tcp_segment \<Rightarrow> fd_wrapper \<Rightarrow> 'k \<Rightarrow> ('a \<times> fd_wrapper \<times> 'k) result"
  ad_tick :: "'a \<Rightarrow> size_t \<Rightarrow> fd_wrapper \<Rightarrow> 'k \<Rightarrow> ('a \<times> fd_wrapper \<times> 'k) result"
  ad_set_config :: "'a \<Rightarrow> fd_adapter_config \<Rightarrow> 'a"
  ad_set_listening :: "'a \<Rightarrow> bool \<Rightarrow> 'a"

definition udp_adapter :: "'k kernel \<Rightarrow> getnameinfo \<Rightarrow> (fd_adapter, 'k) adapter_ops" where
  "udp_adapter K gni =
     \<lparr>ad_read = (\<lambda>a w k. bindE (UDPSocket_recv K w 65536 k) (\<lambda>(datagram, w, k).
        bindE (TCPOverUDPSocketAdapter_read a datagram) (\<lambda>(seg, a). Inr (seg, a, w, k)))),
      ad_write = (\<lambda>a seg w k. bindE (TCPOverUDPSocketAdapter_write gni a seg) (\<lambda>((destination, payload), seg).
        bindE (UDPSocket_sendto K w destination (BufferViewList_new payload) k) (\<lambda>(w, k). Inr (a, w, k)))),
      ad_tick = (\<lambda>a ms w k. Inr (FdAdapterBase_tick a ms, w, k)),
      ad_set_config = FdAdapterBase_set_config, ad_set_listening = FdAdapterBase_set_listening\<rparr>"

definition tun_adapter :: "'k kernel \<Rightarrow> getaddrinfo \<Rightarrow> getnameinfo \<Rightarrow> (fd_adapter, 'k) adapter_ops" where
  "tun_adapter K gai gni =
     \<lparr>ad_read = (\<lambda>a w k. bindE (fd_read K w size_max k) (\<lambda>(bytes, w, k).
        bindE (TunFdAdapter_read gai gni a bytes) (\<lambda>(seg, a). Inr (seg, a, w, k)))),
      ad_write = (\<lambda>a seg w k. bindE (TunFdAdapter_write gni a seg) (\<lambda>(bytes, seg).
        bindE (fd_write K w (BufferViewList_new bytes) True k) (\<lambda>(n, k, w). Inr (a, w, k)))),
      ad_tick = (\<lambda>a ms w k. Inr (FdAdapterBase_tick a ms, w, k)),
      ad_set_config = FdAdapterBase_set_config, ad_set_listening = FdAdapterBase_set_listening\<rparr>"

fun write_frames :: "'k kernel \<Rightarrow> buffer_list list \<Rightarrow> fd_wrapper \<Rightarrow> 'k \<Rightarrow> (fd_wrapper \<times> 'k) result" where
  "write_frames K [] w k = Inr (w, k)"
| "write_frames K (frame # frames) w k =
     bindE (fd_write K w (BufferViewList_new frame) True k) (\<lambda>(n, k, w). write_frames K frames w k)"

definition tap_adapter :: "'k kernel \<Rightarrow> getaddrinfo \<Rightarrow> getnameinfo \<Rightarrow> (ethernet_adapter, 'k) adapter_ops" where
  "tap_adapter K gai gni =
     \<lparr>ad_read = (\<lambda>e w k. bindE (fd_read K w size_max k) (\<lambda>(bytes, w, k).
        bindE (EthernetAdapter_read gai gni e bytes) (\<lambda>(seg, frames, e).
        bindE (write_frames K frames w k) (\<lambda>(w, k). Inr (seg, e, w, k))))),
      ad_write = (\<lambda>e seg w k. bindE (EthernetAdapter_write gni e seg) (\<lambda>(frames, e).
        bindE (write_frames K frames w k) (\<lambda>(w, k). Inr (e, w, k)))),
      ad_tick = (\<lambda>e ms w k. let (frames, e) = EthernetAdapter_tick e ms
        in bindE (write_frames K frames w k) (\<lambda>(w, k). Inr (e, w, k))),
      ad_set_config = (\<lambda>e cfg. e\<lparr>ea_base := FdAdapterBase_set_config (ea_base e) cfg\<rparr>),
      ad_set_listening = (\<lambda>e l. e\<lparr>ea_base := FdAdapterBase_set_listening (ea_base e) l\<rparr>)\<rparr>"

section \<open>The socket\<close>

record ('a, 'k) sponge_socket =
  ss_owner_fd :: fd_wrapper
  ss_thread_fd :: fd_wrapper
  ss_adapter_fd :: fd_wrapper
  ss_adapter :: 'a
  ss_tcp :: "tcp_connection option"
  ss_inbound_shutdown :: bool
  ss_outbound_shutdown :: bool
  ss_fully_acked :: bool
  ss_kernel :: 'k

definition TCPSpongeSocket_new ::
  "answer \<Rightarrow> (u32 \<Rightarrow> answer) \<Rightarrow> fd_wrapper \<Rightarrow> fd_wrapper \<Rightarrow> fd_wrapper \<Rightarrow> 'a \<Rightarrow> 'k \<Rightarrow> ('a, 'k) sponge_socket result" where
  "TCPSpongeSocket_new getfl setfl owner_fd thread_fd adapter_fd datagram_interface k =
     bindE (FileDescriptor_set_blocking getfl setfl False) (\<lambda>_.
       Inr \<lparr>ss_owner_fd = owner_fd, ss_thread_fd = thread_fd, ss_adapter_fd = adapter_fd,
            ss_adapter = datagram_interface, ss_tcp = None, ss_inbound_shutdown = False,
            ss_outbound_shutdown = False, ss_fully_acked = False, ss_kernel = k\<rparr>)"

text \<open>\<open>_tcp->\<close> without a connection is undefined; \<open>_tcp.value()\<close> is only used next to it.\<close>

definition socket_tcp :: "('a, 'k) sponge_socket \<Rightarrow> tcp_connection result" where
  "socket_tcp s = (case ss_tcp s of Some c \<Rightarrow> Inr c | None \<Rightarrow> Inl (UndefinedBehaviour ''empty optional''))"

definition tcp_holds :: "(tcp_connection \<Rightarrow> bool) \<Rightarrow> ('a, 'k) sponge_socket \<Rightarrow> bool" where
  "tcp_holds P s \<longleftrightarrow> (case ss_tcp s of Some c \<Rightarrow> P c | None \<Rightarrow> False)"

section \<open>The four rules\<close>

type_synonym ('a, 'k) socket_rule = "('a, 'k) sponge_socket event_rule"

text \<open>Rule 1: a datagram has arrived.\<close>

definition rule1_callback :: "('a, 'k) adapter_ops \<Rightarrow> ('a, 'k) sponge_socket \<Rightarrow> ('a, 'k) sponge_socket result" where
  "rule1_callback A s =
     bindE (ad_read A (ss_adapter s) (ss_adapter_fd s) (ss_kernel s)) (\<lambda>(seg, a, w, k).
       let s = s\<lparr>ss_adapter := a, ss_adapter_fd := w, ss_kernel := k\<rparr>
       in bindE (socket_tcp s) (\<lambda>c.
          bindE (case seg of Some seg \<Rightarrow> TCPConnection_segment_received c seg | None \<Rightarrow> Inr c) (\<lambda>c.
            let s = s\<lparr>ss_tcp := Some c\<rparr>
            in Inr (if fdw_eof (ss_thread_fd s) \<and> TCPConnection_bytes_in_flight c = 0 \<and> \<not> ss_fully_acked s
                    then s\<lparr>ss_fully_acked := True\<rparr> else s))))"

definition rule1_interest :: "('a, 'k) sponge_socket \<Rightarrow> bool" where
  "rule1_interest = tcp_holds tc_active"

text \<open>Rule 2: the owner has written bytes.\<close>

definition rule2_cancel :: "('a, 'k) sponge_socket \<Rightarrow> ('a, 'k) sponge_socket result" where
  "rule2_cancel s =
     bindE (socket_tcp s) (\<lambda>c.
       Inr (s\<lparr>ss_tcp := Some (TCPConnection_end_input_stream c), ss_outbound_shutdown := True\<rparr>))"

definition rule2_callback :: "'k kernel \<Rightarrow> ('a, 'k) sponge_socket \<Rightarrow> ('a, 'k) sponge_socket result" where
  "rule2_callback K s =
     bindE (socket_tcp s) (\<lambda>c.
     bindE (fd_read K (ss_thread_fd s) (TCPConnection_remaining_outbound_capacity c) (ss_kernel s)) (\<lambda>(data, w, k).
       let (amount_written, c) = TCPConnection_write c data
       in if amount_written \<noteq> length data
          then Inl (RuntimeError ''TCPConnection::write() accepted less than advertised length'')
          else let s = s\<lparr>ss_thread_fd := w, ss_kernel := k, ss_tcp := Some c\<rparr>
               in if fdw_eof w
                  then Inr (s\<lparr>ss_tcp := Some (TCPConnection_end_input_stream c), ss_outbound_shutdown := True\<rparr>)
                  else Inr s))"

definition rule2_interest :: "('a, 'k) sponge_socket \<Rightarrow> bool" where
  "rule2_interest s \<longleftrightarrow>
     tcp_holds (\<lambda>c. tc_active c \<and> \<not> ss_outbound_shutdown s \<and> 0 < TCPConnection_remaining_outbound_capacity c) s"

text \<open>Rule 3: the owner can take reassembled bytes.\<close>

definition TCPConnection_pop_inbound :: "tcp_connection \<Rightarrow> size_t \<Rightarrow> tcp_connection" where
  "TCPConnection_pop_inbound c n =
     (let r = tc_receiver c; q = rcv_reassembler r
      in c\<lparr>tc_receiver := r\<lparr>rcv_reassembler := q\<lparr>sr_output := ByteStream_pop_output (sr_output q) n\<rparr>\<rparr>\<rparr>)"

definition rule3_callback :: "'k kernel \<Rightarrow> ('a, 'k) sponge_socket \<Rightarrow> ('a, 'k) sponge_socket result" where
  "rule3_callback K s =
     bindE (socket_tcp s) (\<lambda>c.
       let inbound = TCPConnection_inbound_stream c;
           amount_to_write = min 65536 (ByteStream_buffer_size inbound);
           buffer = ByteStream_peek_output inbound amount_to_write
       in bindE (fd_write K (ss_thread_fd s) (BufferViewList_of_string buffer) False (ss_kernel s)) (\<lambda>(bytes_written, k, w).
            let c = TCPConnection_pop_inbound c bytes_written;
                inbound = TCPConnection_inbound_stream c;
                s = s\<lparr>ss_tcp := Some c, ss_thread_fd := w, ss_kernel := k\<rparr>
            in if ByteStream_eof inbound \<or> bs_error inbound
               then bindE (Socket_shutdown K w SHUT_WR k) (\<lambda>(w, k).
                      Inr (s\<lparr>ss_thread_fd := w, ss_kernel := k, ss_inbound_shutdown := True\<rparr>))
               else Inr s))"

definition rule3_interest :: "('a, 'k) sponge_socket \<Rightarrow> bool" where
  "rule3_interest s \<longleftrightarrow>
     tcp_holds (\<lambda>c. let inbound = TCPConnection_inbound_stream c
       in \<not> ByteStream_buffer_empty inbound \<or>
          (ByteStream_eof inbound \<or> bs_error inbound) \<and> \<not> ss_inbound_shutdown s) s"

text \<open>Rule 4: the device can take segments.\<close>

fun write_segments ::
  "('a, 'k) adapter_ops \<Rightarrow> tcp_segment list \<Rightarrow> 'a \<Rightarrow> fd_wrapper \<Rightarrow> 'k \<Rightarrow> ('a \<times> fd_wrapper \<times> 'k) result" where
  "write_segments A [] a w k = Inr (a, w, k)"
| "write_segments A (seg # segs) a w k = bindE (ad_write A a seg w k) (\<lambda>(a, w, k). write_segments A segs a w k)"

definition rule4_callback :: "('a, 'k) adapter_ops \<Rightarrow> ('a, 'k) sponge_socket \<Rightarrow> ('a, 'k) sponge_socket result" where
  "rule4_callback A s =
     bindE (socket_tcp s) (\<lambda>c.
     bindE (write_segments A (tc_segments_out c) (ss_adapter s) (ss_adapter_fd s) (ss_kernel s)) (\<lambda>(a, w, k).
       Inr (s\<lparr>ss_adapter := a, ss_adapter_fd := w, ss_kernel := k, ss_tcp := Some (c\<lparr>tc_segments_out := []\<rparr>)\<rparr>)))"

definition rule4_interest :: "('a, 'k) sponge_socket \<Rightarrow> bool" where
  "rule4_interest = tcp_holds (\<lambda>c. tc_segments_out c \<noteq> [])"

definition socket_rules :: "'k kernel \<Rightarrow> ('a, 'k) adapter_ops \<Rightarrow> ('a, 'k) socket_rule list" where
  "socket_rules K A =
     (let rules = EventLoop_add_rule [] ss_adapter_fd In (rule1_callback A) rule1_interest Inr;
          rules = EventLoop_add_rule rules ss_thread_fd In (rule2_callback K) rule2_interest rule2_cancel;
          rules = EventLoop_add_rule rules ss_thread_fd Out (rule3_callback K) rule3_interest Inr
      in EventLoop_add_rule rules ss_adapter_fd Out (rule4_callback A) rule4_interest Inr)"

definition TCPSpongeSocket_initialize_TCP ::
  "'k kernel \<Rightarrow> ('a, 'k) adapter_ops \<Rightarrow> tcp_config \<Rightarrow> u32 \<Rightarrow> ('a, 'k) sponge_socket \<Rightarrow>
     ('a, 'k) socket_rule list \<times> ('a, 'k) sponge_socket" where
  "TCPSpongeSocket_initialize_TCP K A config random s =
     (socket_rules K A, s\<lparr>ss_tcp := Some (TCPConnection_new config random)\<rparr>)"

section \<open>The loop\<close>

text \<open>
  One round sees what the owner and the network did to the kernel since the last one, the answer of
  \<open>poll\<close>, the flag \<open>_abort\<close> and the clock.  A run is over a list of rounds; it is finished when the loop
  is left, and still running when the list ends.
\<close>

record 'k round =
  rd_outside :: "'k \<Rightarrow> 'k"
  rd_poll :: poll
  rd_abort :: bool
  rd_time :: u64

fun TCPSpongeSocket_tcp_loop ::
  "('a, 'k) adapter_ops \<Rightarrow> (('a, 'k) sponge_socket \<Rightarrow> bool) \<Rightarrow> 'k round list \<Rightarrow> u64 \<Rightarrow> ('a, 'k) socket_rule list \<Rightarrow>
     ('a, 'k) sponge_socket \<Rightarrow> (bool \<times> ('a, 'k) socket_rule list \<times> ('a, 'k) sponge_socket) result" where
  "TCPSpongeSocket_tcp_loop A condition [] base_time rules s = Inr (\<not> condition s, rules, s)"
| "TCPSpongeSocket_tcp_loop A condition (rd # rds) base_time rules s =
     (if \<not> condition s then Inr (True, rules, s)
      else bindE (EventLoop_wait_next_event (rd_poll rd) rules (s\<lparr>ss_kernel := rd_outside rd (ss_kernel s)\<rparr>)) (\<lambda>(ret, rules, s).
           if ret = Exit \<or> rd_abort rd then Inr (True, rules, s)
           else bindE (socket_tcp s) (\<lambda>c.
             if tc_active c
             then let ms = sz_sub (rd_time rd) base_time
                  in bindE (TCPConnection_tick c ms) (\<lambda>c.
                     bindE (ad_tick A (ss_adapter s) ms (ss_adapter_fd s) (ss_kernel s)) (\<lambda>(a, w, k).
                       TCPSpongeSocket_tcp_loop A condition rds (rd_time rd) rules
                         (s\<lparr>ss_tcp := Some c, ss_adapter := a, ss_adapter_fd := w, ss_kernel := k\<rparr>)))
             else TCPSpongeSocket_tcp_loop A condition rds base_time rules s)))"

definition in_state :: "state list \<Rightarrow> ('a, 'k) sponge_socket \<Rightarrow> bool" where
  "in_state states = tcp_holds (\<lambda>c. \<exists>st \<in> set states. TCPState_eq (TCPConnection_state c) (TCPState_of_state st))"

definition TCPSpongeSocket_connect ::
  "'k kernel \<Rightarrow> ('a, 'k) adapter_ops \<Rightarrow> tcp_config \<Rightarrow> u32 \<Rightarrow> fd_adapter_config \<Rightarrow> 'k round list \<Rightarrow> u64 \<Rightarrow>
     ('a, 'k) sponge_socket \<Rightarrow> (bool \<times> ('a, 'k) socket_rule list \<times> ('a, 'k) sponge_socket) result" where
  "TCPSpongeSocket_connect K A c_tcp random c_ad rds base_time s =
     (if ss_tcp s \<noteq> None then Inl (RuntimeError ''connect() with TCPConnection already initialized'')
      else let (rules, s) = TCPSpongeSocket_initialize_TCP K A c_tcp random s;
               s = s\<lparr>ss_adapter := ad_set_config A (ss_adapter s) c_ad\<rparr>
           in bindE (socket_tcp s) (\<lambda>c.
              let c = TCPConnection_connect c;
                  expected_state = TCPState_of_state SYN_SENT
              in if \<not> TCPState_eq (TCPConnection_state c) expected_state
                 then Inl (RuntimeError (''After TCPConnection::connect(), state was '' @ TCPState_name (TCPConnection_state c) @
                        '' but expected '' @ TCPState_name expected_state))
                 else TCPSpongeSocket_tcp_loop A (in_state [SYN_SENT]) rds base_time rules (s\<lparr>ss_tcp := Some c\<rparr>)))"

definition TCPSpongeSocket_listen_and_accept ::
  "'k kernel \<Rightarrow> ('a, 'k) adapter_ops \<Rightarrow> tcp_config \<Rightarrow> u32 \<Rightarrow> fd_adapter_config \<Rightarrow> 'k round list \<Rightarrow> u64 \<Rightarrow>
     ('a, 'k) sponge_socket \<Rightarrow> (bool \<times> ('a, 'k) socket_rule list \<times> ('a, 'k) sponge_socket) result" where
  "TCPSpongeSocket_listen_and_accept K A c_tcp random c_ad rds base_time s =
     (if ss_tcp s \<noteq> None then Inl (RuntimeError ''listen_and_accept() with TCPConnection already initialized'')
      else let (rules, s) = TCPSpongeSocket_initialize_TCP K A c_tcp random s;
               s = s\<lparr>ss_adapter := ad_set_listening A (ad_set_config A (ss_adapter s) c_ad) True\<rparr>
           in TCPSpongeSocket_tcp_loop A (in_state [LISTEN, SYN_RCVD, SYN_SENT]) rds base_time rules s)"

text \<open>The thread of the connection; \<open>_tcp.reset()\<close> runs the destructor of the connection.\<close>

definition TCPSpongeSocket_tcp_main ::
  "'k kernel \<Rightarrow> ('a, 'k) adapter_ops \<Rightarrow> 'k round list \<Rightarrow> u64 \<Rightarrow> ('a, 'k) socket_rule list \<Rightarrow>
     ('a, 'k) sponge_socket \<Rightarrow> (bool \<times> ('a, 'k) sponge_socket) result" where
  "TCPSpongeSocket_tcp_main K A rds base_time rules s =
     (if ss_tcp s = None then Inl (RuntimeError ''no TCP'')
      else bindE (TCPSpongeSocket_tcp_loop A (\<lambda>s. True) rds base_time rules s) (\<lambda>(finished, rules, s).
           if \<not> finished then Inr (False, s)
           else bindE (Socket_shutdown K (ss_owner_fd s) SHUT_RDWR (ss_kernel s)) (\<lambda>(w, k).
                  Inr (True, s\<lparr>ss_owner_fd := w, ss_kernel := k, ss_tcp := None\<rparr>))))"

section \<open>The two ready-made sockets\<close>

definition CS144TCPSocket_config ::
  "getaddrinfo \<Rightarrow> u16 \<Rightarrow> address \<Rightarrow> (tcp_config \<times> fd_adapter_config) result" where
  "CS144TCPSocket_config gai random addr =
     bindE (FdAdapterConfig_new gai) (\<lambda>multiplexer_config.
     bindE (Address_of_host gai ''169.254.144.9'' (decimal (unat random))) (\<lambda>source.
       Inr (TCPConfig_default\<lparr>cfg_rt_timeout := 100\<rparr>,
            multiplexer_config\<lparr>fc_source := source, fc_destination := addr\<rparr>)))"

definition LOCAL_TAP_IP_ADDRESS :: string where "LOCAL_TAP_IP_ADDRESS = ''169.254.10.9''"
definition LOCAL_TAP_NEXT_HOP_ADDRESS :: string where "LOCAL_TAP_NEXT_HOP_ADDRESS = ''169.254.10.1''"

definition FullStackSocket_config ::
  "getaddrinfo \<Rightarrow> u16 \<Rightarrow> address \<Rightarrow> (tcp_config \<times> fd_adapter_config) result" where
  "FullStackSocket_config gai random addr =
     bindE (FdAdapterConfig_new gai) (\<lambda>multiplexer_config.
     bindE (Address_of_host gai LOCAL_TAP_IP_ADDRESS (decimal (unat random))) (\<lambda>source.
       Inr (TCPConfig_default\<lparr>cfg_rt_timeout := 100\<rparr>,
            multiplexer_config\<lparr>fc_source := source, fc_destination := addr\<rparr>)))"

text \<open>Six random bytes, with the two low bits of the first set for a private address of one host.\<close>

definition random_private_ethernet_address :: "byte list \<Rightarrow> ethernet_address" where
  "random_private_ethernet_address random =
     (let addr = take 6 random in addr[0 := (addr ! 0 OR 0x02) AND 0xfe])"

definition FullStackSocket_new ::
  "getaddrinfo \<Rightarrow> fd_adapter_config \<Rightarrow> byte list \<Rightarrow> (buffer_list list \<times> ethernet_adapter) result" where
  "FullStackSocket_new gai cfg random =
     bindE (Address_of_host gai LOCAL_TAP_IP_ADDRESS ''0'') (\<lambda>ip.
     bindE (Address_of_host gai LOCAL_TAP_NEXT_HOP_ADDRESS ''0'') (\<lambda>next_hop.
       Inr (EthernetAdapter_new cfg (random_private_ethernet_address random) ip next_hop)))"

end
