(* ===== verification/Sender_Frame.thy ===== *)
theory Sender_Frame
  imports Tcp_Connection
begin

text \<open>
  What the operations of a connection leave alone.  The application's side of the outgoing stream, the
  bytes written so far, the end of input and the capacity, is only changed by \<open>write\<close> and
  \<open>end_input_stream\<close>.
\<close>

definition writer_side :: "byte_stream \<Rightarrow> size_t \<times> bool \<times> size_t" where
  "writer_side b = (bs_bytes_written b, bs_input_ended b, bs_capacity b)"

lemma read_writer [simp]: "writer_side (snd (ByteStream_read b n)) = writer_side b"
  by (simp add: writer_side_def ByteStream_read_def ByteStream_pop_output_def Let_def)

lemma error_writer [simp]: "writer_side (ByteStream_set_error b) = writer_side b"
  by (simp add: writer_side_def ByteStream_set_error_def)

lemma fill_segment_writer [simp]: "writer_side (snd_stream (snd (fill_segment s n))) = writer_side (snd_stream s)"
proof -
  let ?n = "if snd_syn_sent s then n else sz_sub n 1"
  have "snd_stream (snd (fill_segment s n)) = snd (ByteStream_read (snd_stream s) (min ?n MAX_PAYLOAD_SIZE))"
    by (auto simp: fill_segment_def Let_def split: prod.split)
  then show ?thesis by simp
qed

lemma fill_enqueue_stream [simp]: "snd_stream (fill_enqueue s seg) = snd_stream s"
  by (simp add: fill_enqueue_def Let_def)

lemma fill_loop_writer [simp]: "writer_side (snd_stream (fill_loop s n)) = writer_side (snd_stream s)"
proof (induction s n rule: fill_loop.induct)
  case (1 s n)
  show ?case
  proof (cases "n = 0")
    case True
    then show ?thesis by (simp add: fill_loop.simps)
  next
    case False
    obtain seg s1 where f: "fill_segment s n = (seg, s1)" by (cases "fill_segment s n")
    have "writer_side (snd_stream s1) = writer_side (snd_stream s)" using fill_segment_writer [of s n] f by simp
    moreover have "TCPSegment_length_in_sequence_space seg \<noteq> 0 \<Longrightarrow>
        writer_side (snd_stream (fill_loop (fill_enqueue s1 seg) (sz_sub n (TCPSegment_length_in_sequence_space seg)))) =
        writer_side (snd_stream (fill_enqueue s1 seg))"
      using 1 [OF False f [symmetric] refl refl] by simp
    ultimately show ?thesis using False f by (subst fill_loop.simps) (simp add: Let_def)
  qed
qed

lemma fill_window_writer [simp]: "writer_side (snd_stream (TCPSender_fill_window s)) = writer_side (snd_stream s)"
  by (simp add: TCPSender_fill_window_def Let_def)

lemma ack_loop_stream [simp]: "snd_stream (ack_loop s n segs) = snd_stream s"
  by (induction s n segs rule: ack_loop.induct) (simp_all add: Let_def)

lemma ack_received_writer [simp]: "writer_side (snd_stream (TCPSender_ack_received s ackno win)) = writer_side (snd_stream s)"
  by (simp add: TCPSender_ack_received_def Let_def)

lemma send_empty_stream [simp]: "snd_stream (TCPSender_send_empty_segment s syn fin rst) = snd_stream s"
  by (simp add: TCPSender_send_empty_segment_def Let_def)

lemma sender_tick_stream: "TCPSender_tick s ms = Inr s' \<Longrightarrow> snd_stream s' = snd_stream s"
  by (auto simp: TCPSender_tick_def Let_def split: if_splits list.splits)

lemma clear_sendbuf_stream [simp]: "snd_stream (tc_sender (TCPConnection_clear_sendbuf c)) = snd_stream (tc_sender c)"
  by (simp add: clear_sendbuf_eq)

lemma shutdown_writer [simp]:
  "writer_side (snd_stream (tc_sender (TCPConnection_shutdown c clean))) = writer_side (snd_stream (tc_sender c))"
  by (simp add: TCPConnection_shutdown_def Let_def)

lemma rst_stream [simp]: "snd_stream (tc_sender (TCPConnection_send_rst_segment c)) = snd_stream (tc_sender c)"
  by (simp add: TCPConnection_send_rst_segment_def)

lemma reply_writer [simp]:
  "writer_side (snd_stream (tc_sender (TCPConnection_reply c seg))) = writer_side (snd_stream (tc_sender c))"
  by (simp add: TCPConnection_reply_def Let_def split: option.split)

text \<open>A segment, the clock and \<open>connect\<close>.\<close>

lemma segment_received_writer:
  "TCPConnection_segment_received c seg = Inr c' \<Longrightarrow>
   writer_side (snd_stream (tc_sender c')) = writer_side (snd_stream (tc_sender c))"
  by (auto simp: TCPConnection_segment_received_def Let_def split: if_splits)

lemma tick_writer:
  "TCPConnection_tick c ms = Inr c' \<Longrightarrow>
   writer_side (snd_stream (tc_sender c')) = writer_side (snd_stream (tc_sender c))"
  by (auto simp: TCPConnection_tick_def Let_def split: if_splits dest: sender_tick_stream)

lemma connect_writer:
  "writer_side (snd_stream (tc_sender (TCPConnection_connect c))) = writer_side (snd_stream (tc_sender c))"
  by (simp add: TCPConnection_connect_def)

text \<open>The application's own operations.\<close>

lemma end_input_writer:
  "writer_side (snd_stream (tc_sender (TCPConnection_end_input_stream c))) =
     (bs_bytes_written (snd_stream (tc_sender c)), True, bs_capacity (snd_stream (tc_sender c)))"
  by (simp add: TCPConnection_end_input_stream_def ByteStream_end_input_def Let_def) (simp add: writer_side_def)

lemma write_writer:
  assumes "bs_wf (snd_stream (tc_sender c))" "\<not> bs_input_ended (snd_stream (tc_sender c))"
    and "length d \<le> TCPConnection_remaining_outbound_capacity c"
    and "bs_bytes_written (snd_stream (tc_sender c)) + length d < size_mod"
  shows "fst (TCPConnection_write c d) = length d"
    and "writer_side (snd_stream (tc_sender (snd (TCPConnection_write c d)))) =
      (bs_bytes_written (snd_stream (tc_sender c)) + length d, False, bs_capacity (snd_stream (tc_sender c)))"
proof -
  let ?b = "snd_stream (tc_sender c)"
  have w: "ByteStream_write ?b d =
      (length d, ?b\<lparr>bs_buf := bs_buf ?b @ d, bs_bytes_written := bs_bytes_written ?b + length d\<rparr>)"
    using assms by (simp add: ByteStream_write_def TCPConnection_remaining_outbound_capacity_def Let_def sz_add_small min_def)
  then show "fst (TCPConnection_write c d) = length d"
    by (simp add: TCPConnection_write_def Let_def)
  show "writer_side (snd_stream (tc_sender (snd (TCPConnection_write c d)))) =
      (bs_bytes_written ?b + length d, False, bs_capacity ?b)"
    using w assms(2) by (simp add: TCPConnection_write_def Let_def) (simp add: writer_side_def)
qed

end
