(* ===== verification/Connection_Streams.thy ===== *)
theory Connection_Streams
  imports Sponge_Socket Sender_Frame Handshake
begin

text \<open>
  A connection between the bytes its owner has written and the bytes its owner has read.  The invariant
  \<open>streams\<close> does not fix the stream of the owner in advance: it speaks of every continuation of what was
  written so far.  It is used for the socket, whose owner is another thread, and for programs that drive
  connections themselves.
\<close>

section \<open>The invariant\<close>

text \<open>Segments of a peer that sends \<open>N'\<close> bytes of \<open>S'\<close>.\<close>

definition from_stream :: "(nat \<Rightarrow> byte) \<Rightarrow> nat \<Rightarrow> wrapping_int32 \<Rightarrow> tcp_segment \<Rightarrow> bool" where
  "from_stream S' N' isn' seg \<longleftrightarrow> seg_empty seg \<or> (\<exists>a. seg_carries S' N' isn' a seg)"

text \<open>
  The invariant: for every stream \<open>S\<close> that starts with the bytes supplied by the owner, and every stream
  that agrees with that of the peer, the connection is in a state of its own invariant in which the
  application has read exactly what the owner received.
\<close>

definition streams :: "(nat \<Rightarrow> byte) \<Rightarrow> nat \<Rightarrow> wrapping_int32 \<Rightarrow> wrapping_int32 \<Rightarrow> tcp_connection \<Rightarrow> byte list \<Rightarrow> byte list \<Rightarrow> bool" where
  "streams S' N' isn' isn c up down \<longleftrightarrow>
     bs_bytes_written (snd_stream (tc_sender c)) = length up \<and>
     (\<exists>h. \<forall>S N T. piece S 0 up \<longrightarrow> length up \<le> N \<longrightarrow> N + 2 \<le> seq_limit \<longrightarrow>
        (bs_input_ended (snd_stream (tc_sender c)) \<longrightarrow> length up = N) \<longrightarrow> agree N' S' T \<longrightarrow>
        conn_inv S N isn T isn' (c, h, down))"

lemma streams_written: "streams S' N' isn' isn c up down \<Longrightarrow> bs_bytes_written (snd_stream (tc_sender c)) = length up"
  by (simp add: streams_def)

lemma streams_inv:
  assumes "streams S' N' isn' isn c up down" "length up + 2 \<le> seq_limit"
  shows "\<exists>h. \<forall>T. agree N' S' T \<longrightarrow> conn_inv ((!) up) (length up) isn T isn' (c, h, down)"
  using assms piece_nth [of up] unfolding streams_def by blast

lemma agree_refl [simp]: "agree N S S"
  by (simp add: agree_def)

lemma piece_append_iff: "piece S k (x @ y) \<longleftrightarrow> piece S k x \<and> piece S (k + length x) y"
proof
  assume xy: "piece S k (x @ y)"
  have "x ! j = S (k + j)" if "j < length x" for j
    using xy that by (auto simp: piece_iff_nth nth_append dest: spec [of _ j])
  moreover have "y ! j = S (k + length x + j)" if "j < length y" for j
    using xy that by (auto simp: piece_iff_nth nth_append add.assoc dest: spec [of _ "length x + j"])
  ultimately show "piece S k x \<and> piece S (k + length x) y" by (simp add: piece_iff_nth)
qed (simp add: piece_Append)

text \<open>How the invariant is kept: by an operation on the connection that keeps its own invariant.\<close>

lemma streamsI:
  assumes "streams S' N' isn' isn c up down"
    and "bs_bytes_written (snd_stream (tc_sender c')) = length (up @ d)"
    and "bs_input_ended (snd_stream (tc_sender c)) \<Longrightarrow> d = [] \<and> bs_input_ended (snd_stream (tc_sender c'))"
    and "\<And>S N T h. piece S 0 (up @ d) \<Longrightarrow> length (up @ d) \<le> N \<Longrightarrow> N + 2 \<le> seq_limit \<Longrightarrow>
        (bs_input_ended (snd_stream (tc_sender c')) \<longrightarrow> length (up @ d) = N) \<Longrightarrow> agree N' S' T \<Longrightarrow>
        (\<forall>T. agree N' S' T \<longrightarrow> conn_inv S N isn T isn' (c, h, down)) \<Longrightarrow> conn_inv S N isn T isn' (c', f h, down')"
  shows "streams S' N' isn' isn c' (up @ d) down'"
proof -
  obtain h where h: "\<forall>S N T. piece S 0 up \<longrightarrow> length up \<le> N \<longrightarrow> N + 2 \<le> seq_limit \<longrightarrow>
      (bs_input_ended (snd_stream (tc_sender c)) \<longrightarrow> length up = N) \<longrightarrow> agree N' S' T \<longrightarrow> conn_inv S N isn T isn' (c, h, down)"
    using assms(1) unfolding streams_def by blast
  have "conn_inv S N isn T isn' (c', f h, down')"
    if *: "piece S 0 (up @ d)" "length (up @ d) \<le> N" "N + 2 \<le> seq_limit"
      "bs_input_ended (snd_stream (tc_sender c')) \<longrightarrow> length (up @ d) = N" "agree N' S' T" for S N T
  proof (rule assms(4) [OF *])
    have "piece S 0 up" using *(1) by (simp add: piece_append_iff)
    moreover have "length up \<le> N" using *(2) by simp
    moreover have "bs_input_ended (snd_stream (tc_sender c)) \<longrightarrow> length up = N" using assms(3) *(4) by auto
    ultimately show "\<forall>T. agree N' S' T \<longrightarrow> conn_inv S N isn T isn' (c, h, down)" using h *(3) by blast
  qed
  then show ?thesis unfolding streams_def using assms(2) by blast
qed

section \<open>The operations keep the invariant\<close>

lemma received_segment:
  assumes short: "N' < 2147483647"
    and "streams S' N' isn' isn c up down" "length up + 2 \<le> seq_limit" "from_stream S' N' isn' seg"
  shows "\<exists>c'. TCPConnection_segment_received c seg = Inr c' \<and> streams S' N' isn' isn c' up down"
proof -
  have step: "\<exists>c'. TCPConnection_segment_received c seg = Inr c' \<and> conn_inv S N isn T isn' (c', h, down)"
    if "\<forall>T. agree N' S' T \<longrightarrow> conn_inv S N isn T isn' (c, h, down)" "agree N' S' T" for S N T h
  proof (cases "seg_empty seg")
    case True
    then show ?thesis using conn_segment_ok [of S N isn T isn' c h down N' 0 seg] that by simp
  next
    case False
    then obtain a where a: "seg_carries S' N' isn' a seg" using assms(4) by (auto simp: from_stream_def)
    then have T: "seg_carries T N' isn' a seg" and "a - 1 \<le> N'"
      using piece_agree [OF that(2), of "a - 1" "seg_data seg"] by (simp_all add: seg_carries_def)
    moreover have "sr_wait_index (rcv_reassembler (tc_receiver c)) \<le> N'"
      using position_le [of N' S' S N isn isn' "(c, h, down)"] that(1) by simp
    ultimately have "seq_close (a - 1) (sr_wait_index (rcv_reassembler (tc_receiver c)))"
      using short by (simp add: seq_close_def)
    then show ?thesis using conn_segment_ok [of S N isn T isn' c h down N' a seg] that T short by simp
  qed
  obtain h where "\<forall>T. agree N' S' T \<longrightarrow> conn_inv ((!) up) (length up) isn T isn' (c, h, down)"
    using streams_inv [OF assms(2,3)] by blast
  then obtain c' where c': "TCPConnection_segment_received c seg = Inr c'" using step [OF _ agree_refl] by blast
  have w: "writer_side (snd_stream (tc_sender c')) = writer_side (snd_stream (tc_sender c))"
    by (rule segment_received_writer [OF c'])
  have "streams S' N' isn' isn c' (up @ []) down"
  proof (rule streamsI [OF assms(2), where f = id])
    show "bs_bytes_written (snd_stream (tc_sender c')) = length (up @ [])"
      using w streams_written [OF assms(2)] by (simp add: writer_side_def)
    show "bs_input_ended (snd_stream (tc_sender c)) \<Longrightarrow> [] = [] \<and> bs_input_ended (snd_stream (tc_sender c'))"
      using w by (simp add: writer_side_def)
  qed (use step c' in fastforce)
  then show ?thesis using c' by simp
qed

lemma ticked:
  assumes "streams S' N' isn' isn c up down" "length up + 2 \<le> seq_limit"
  shows "\<exists>c'. TCPConnection_tick c ms = Inr c' \<and> streams S' N' isn' isn c' up down"
proof -
  obtain h where "conn_inv ((!) up) (length up) isn S' isn' (c, h, down)"
    using streams_inv [OF assms] agree_refl by blast
  then obtain c' where c': "TCPConnection_tick c ms = Inr c'" using conn_inv_tick by blast
  have w: "writer_side (snd_stream (tc_sender c')) = writer_side (snd_stream (tc_sender c))"
    by (rule tick_writer [OF c'])
  have "streams S' N' isn' isn c' (up @ []) down"
  proof (rule streamsI [OF assms(1), where f = id])
    show "bs_bytes_written (snd_stream (tc_sender c')) = length (up @ [])"
      using w streams_written [OF assms(1)] by (simp add: writer_side_def)
    show "bs_input_ended (snd_stream (tc_sender c)) \<Longrightarrow> [] = [] \<and> bs_input_ended (snd_stream (tc_sender c'))"
      using w by (simp add: writer_side_def)
    show "conn_inv S N isn T isn' (c', id h, down)"
      if "agree N' S' T" "\<forall>T. agree N' S' T \<longrightarrow> conn_inv S N isn T isn' (c, h, down)" for S N T h
      using conn_inv_tick [of S N isn T isn' c h down ms] that c' by auto
  qed
  then show ?thesis using c' by simp
qed

lemma input_ended:
  assumes "streams S' N' isn' isn c up down"
  shows "streams S' N' isn' isn (TCPConnection_end_input_stream c) up down"
proof -
  have w: "writer_side (snd_stream (tc_sender (TCPConnection_end_input_stream c))) =
      (length up, True, bs_capacity (snd_stream (tc_sender c)))"
    using end_input_writer [of c] streams_written [OF assms] by simp
  have "streams S' N' isn' isn (TCPConnection_end_input_stream c) (up @ []) down"
  proof (rule streamsI [OF assms, where f = id])
    show "conn_inv S N isn T isn' (TCPConnection_end_input_stream c, id h, down)"
      if "bs_input_ended (snd_stream (tc_sender (TCPConnection_end_input_stream c))) \<longrightarrow> length (up @ []) = N"
        "agree N' S' T" "\<forall>T. agree N' S' T \<longrightarrow> conn_inv S N isn T isn' (c, h, down)" for S N T h
      using conn_inv_end_input [of S N isn T isn' c h down] that w streams_written [OF assms] by (simp add: writer_side_def)
  qed (use w in \<open>simp_all add: writer_side_def\<close>)
  then show ?thesis by simp
qed

lemma data_written:
  assumes "streams S' N' isn' isn c up down" "length (up @ d) + 2 \<le> seq_limit"
    and "\<not> bs_input_ended (snd_stream (tc_sender c))" "length d \<le> TCPConnection_remaining_outbound_capacity c"
  shows "fst (TCPConnection_write c d) = length d"
    and "streams S' N' isn' isn (snd (TCPConnection_write c d)) (up @ d) down"
    and "\<not> bs_input_ended (snd_stream (tc_sender (snd (TCPConnection_write c d))))"
proof -
  let ?b = "snd_stream (tc_sender c)"
  obtain h where "conn_inv ((!) up) (length up) isn S' isn' (c, h, down)"
    using streams_inv [OF assms(1)] assms(2) agree_refl by fastforce
  then have wf: "bs_wf ?b" by (auto simp: conn_inv_def conn_mid_def snd_run_inv_def snd_inv_def snd_core_def Let_def)
  have written: "bs_bytes_written ?b = length up" by (rule streams_written [OF assms(1)])
  have w: "fst (TCPConnection_write c d) = length d"
    "writer_side (snd_stream (tc_sender (snd (TCPConnection_write c d)))) = (length up + length d, False, bs_capacity ?b)"
    using write_writer [OF wf assms(3,4)] written assms(2) by simp_all
  show "fst (TCPConnection_write c d) = length d" by (rule w(1))
  show "\<not> bs_input_ended (snd_stream (tc_sender (snd (TCPConnection_write c d))))" using w(2) by (simp add: writer_side_def)
  show "streams S' N' isn' isn (snd (TCPConnection_write c d)) (up @ d) down"
  proof (rule streamsI [OF assms(1), where f = id])
    show "conn_inv S N isn T isn' (snd (TCPConnection_write c d), id h, down)"
      if "piece S 0 (up @ d)" "length (up @ d) \<le> N" "agree N' S' T"
        "\<forall>T. agree N' S' T \<longrightarrow> conn_inv S N isn T isn' (c, h, down)" for S N T h
      using conn_inv_write [of S N isn T isn' c h down d] that written by (simp add: piece_append_iff)
  qed (use w(2) assms(3) in \<open>simp_all add: writer_side_def\<close>)
qed

lemma inbound_popped:
  assumes "streams S' N' isn' isn c up down" "length up + 2 \<le> seq_limit"
  shows "streams S' N' isn' isn (TCPConnection_pop_inbound c n) up
    (down @ take n (bs_buf (TCPConnection_inbound_stream c)))"
proof -
  let ?q = "rcv_reassembler (tc_receiver c)" and ?c = "TCPConnection_pop_inbound c n"
  obtain h where "conn_inv ((!) up) (length up) isn S' isn' (c, h, down)"
    using streams_inv [OF assms] agree_refl by blast
  then have "bs_bytes_read (sr_output ?q) < size_mod"
    by (auto simp: conn_inv_def conn_mid_def rcv_inv_def run_inv_def sr_inv_def sr_mid_def bs_wf_def Let_def)
  then have take: "StreamReassembler_take ?q n = (take n (bs_buf (sr_output ?q)), ?q\<lparr>sr_output := ByteStream_pop_output (sr_output ?q) n\<rparr>)"
    by (auto simp: StreamReassembler_take_def ByteStream_read_def ByteStream_peek_output_def ByteStream_pop_output_def Let_def min_def)
  have "streams S' N' isn' isn ?c (up @ []) (down @ take n (bs_buf (sr_output ?q)))"
  proof (rule streamsI [OF assms(1), where f = id])
    show "conn_inv S N isn T isn' (?c, id h, down @ take n (bs_buf (sr_output ?q)))"
      if "agree N' S' T" "\<forall>T. agree N' S' T \<longrightarrow> conn_inv S N isn T isn' (c, h, down)" for S N T h
      using conn.step_safe [of S N isn T isn' "(c, h, down)" N' "Read_inbound n"] that take
      by (auto simp: TCPConnection_pop_inbound_def Let_def)
  qed (use streams_written [OF assms(1)] in \<open>simp_all add: TCPConnection_pop_inbound_def Let_def\<close>)
  then show ?thesis by (simp add: TCPConnection_inbound_stream_def TCPReceiver_stream_out_def)
qed

lemma segments_taken:
  assumes "streams S' N' isn' isn c up down"
  shows "streams S' N' isn' isn (c\<lparr>tc_segments_out := []\<rparr>) up down"
proof -
  have "streams S' N' isn' isn (c\<lparr>tc_segments_out := []\<rparr>) (up @ []) down"
  proof (rule streamsI [OF assms, where f = "\<lambda>h. h @ tc_segments_out c"])
    show "conn_inv S N isn T isn' (c\<lparr>tc_segments_out := []\<rparr>, h @ tc_segments_out c, down)"
      if "agree N' S' T" "\<forall>T. agree N' S' T \<longrightarrow> conn_inv S N isn T isn' (c, h, down)" for S N T h
      using conn.step_safe [of S N isn T isn' "(c, h, down)" N' Take_segments] that by auto
  qed (use streams_written [OF assms] in simp_all)
  then show ?thesis by simp
qed

lemma streams_new:
  assumes "cfg_send_capacity cfg < seq_limit" "cfg_recv_capacity cfg < seq_limit"
  shows "streams S' N' isn' (conn_isn (TCPConnection_new cfg rnd)) (TCPConnection_new cfg rnd) [] []"
proof -
  let ?c = "TCPConnection_new cfg rnd"
  have "conn_inv S N (conn_isn ?c) T isn' (?c, [], [])" if "N + 2 \<le> seq_limit" for S N T
    using snd_inv_new [OF assms(1) that, of S "cfg_rt_timeout cfg" "cfg_fixed_isn cfg" rnd] rcv_inv_new [OF assms(2), of T isn']
    by (simp add: conn_inv_def conn_mid_def TCPConnection_new_def snd_run_inv_def) (simp add: TCPSender_new_def)
  moreover have "bs_bytes_written (snd_stream (tc_sender ?c)) = 0"
    by (simp add: TCPConnection_new_def TCPSender_new_def ByteStream_new_def)
  ultimately show ?thesis unfolding streams_def by simp blast
qed

lemma streams_connect:
  assumes "streams S' N' isn' isn c up down"
  shows "streams S' N' isn' isn (TCPConnection_connect c) up down"
proof -
  have w: "writer_side (snd_stream (tc_sender (TCPConnection_connect c))) = writer_side (snd_stream (tc_sender c))"
    by (rule connect_writer)
  have "streams S' N' isn' isn (TCPConnection_connect c) (up @ []) down"
    by (rule streamsI [OF assms, where f = id])
      (use w streams_written [OF assms] conn_inv_connect in \<open>auto simp: writer_side_def\<close>)
  then show ?thesis by simp
qed

end
