(* ===== verification/Socket_Runs.thy ===== *)
theory Socket_Runs
  imports Connection_Streams
begin

text \<open>
  Runs of a socket.  The kernel and the adapter are described by the locale \<open>socket_env\<close>; the invariant
  joins the bytes that crossed the socket pair with the invariant of the connection.
\<close>

section \<open>The kernel\<close>

text \<open>
  \<open>supplied\<close> are the bytes read from the owner so far and \<open>received\<close> the bytes written to the owner, both
  through the descriptor \<open>fd\<close>; \<open>dev\<close> is the descriptor of the adapter.  \<open>good\<close> are the states of the
  kernel that can occur.
\<close>

definition kept :: "('k \<Rightarrow> byte list) \<Rightarrow> ('k \<Rightarrow> byte list) \<Rightarrow> ('k \<Rightarrow> bool) \<Rightarrow> 'k \<Rightarrow> 'k \<Rightarrow> bool" where
  "kept supplied received good k k' \<longleftrightarrow> supplied k' = supplied k \<and> received k' = received k \<and> good k'"

lemma kept_refl: "good k \<Longrightarrow> kept supplied received good k k"
  by (simp add: kept_def)

lemma kept_trans:
  "kept supplied received good k k1 \<Longrightarrow> kept supplied received good k1 k2 \<Longrightarrow> kept supplied received good k k2"
  by (simp add: kept_def)

locale socket_kernel = byte_channel K fd supplied received good
  for K :: "'k kernel" and fd dev :: int and supplied received :: "'k \<Rightarrow> byte list" and good :: "'k \<Rightarrow> bool" +
  assumes distinct: "fd \<noteq> dev"
    and shut: "good k \<Longrightarrow> sys_shutdown K any how k = (answer, k') \<Longrightarrow> kept supplied received good k k'"
    and owner: "good k \<Longrightarrow> length (supplied k) + 2 \<le> seq_limit"
begin

lemma shutdown_kept:
  assumes "good k" "Socket_shutdown K w how k = Inr (w', k')"
  shows "kept supplied received good k k'" "fdw_fd w' = fdw_fd w" "how = SHUT_WR \<Longrightarrow> fdw_write_count w' = fdw_write_count w + 1"
proof -
  obtain ret errno k1 where s: "sys_shutdown K (fdw_fd w) how k = ((ret, errno), k1)" by (metis prod.exhaust)
  have "k' = k1 \<and> fdw_fd w' = fdw_fd w \<and> (how = SHUT_WR \<longrightarrow> w' = FileDescriptor_register_write w)"
    using assms(2) s
    by (cases "SystemCall ''shutdown'' ret errno 0")
      (auto simp: Socket_shutdown_def FileDescriptor_register_write_def FileDescriptor_register_read_def split: if_splits)
  then show "kept supplied received good k k'" "fdw_fd w' = fdw_fd w" "how = SHUT_WR \<Longrightarrow> fdw_write_count w' = fdw_write_count w + 1"
    using shut [OF assms(1) s] by (simp_all add: FileDescriptor_register_write_def)
qed

end

section \<open>The environment of a socket\<close>

text \<open>The errors of the system calls, of the adapter, and of \<open>poll\<close>.\<close>

definition environment_errors :: "'k kernel \<Rightarrow> ('a, 'k) adapter_ops \<Rightarrow> cpp_error set" where
  "environment_errors K A = {e.
     (\<exists>a w k. ad_read A a w k = Inl e) \<or> (\<exists>a seg w k. ad_write A a seg w k = Inl e) \<or>
     (\<exists>a ms w k. ad_tick A a ms w k = Inl e) \<or> (\<exists>w n k. fd_read K w n k = Inl e) \<or>
     (\<exists>w b k. fd_write K w b False k = Inl e) \<or> (\<exists>w how k. Socket_shutdown K w how k = Inl e)}"

definition socket_guards :: "'k kernel \<Rightarrow> ('a, 'k) adapter_ops \<Rightarrow> ('a, 'k) sponge_socket guarded_rule list" where
  "socket_guards K A =
     zip (socket_rules K A) [\<lambda>s. True, \<lambda>s. \<not> ss_outbound_shutdown s, \<lambda>s. True, \<lambda>s. True]"

lemma socket_guards_rules [simp]: "map fst (socket_guards K A) = socket_rules K A"
  by (simp add: socket_guards_def socket_rules_def EventLoop_add_rule_def)

locale socket_env = socket_kernel K fd dev supplied received good
  for K :: "'k kernel" and fd dev supplied received good +
  fixes A :: "('a, 'k) adapter_ops" and S' :: "nat \<Rightarrow> byte" and N' :: nat and isn' :: wrapping_int32
  assumes adapter_read: "good k \<Longrightarrow> fdw_fd w = dev \<Longrightarrow> ad_read A a w k = Inr (seg, a', w', k') \<Longrightarrow>
      kept supplied received good k k' \<and> fdw_fd w' = dev \<and> fdw_read_count w' \<noteq> fdw_read_count w \<and>
      (case seg of Some sg \<Rightarrow> from_stream S' N' isn' sg | None \<Rightarrow> True)"
    and adapter_write: "good k \<Longrightarrow> fdw_fd w = dev \<Longrightarrow> ad_write A a sg w k = Inr (a', w', k') \<Longrightarrow>
      kept supplied received good k k' \<and> fdw_fd w' = dev"
    and adapter_tick: "good k \<Longrightarrow> fdw_fd w = dev \<Longrightarrow> ad_tick A a ms w k = Inr (a', w', k') \<Longrightarrow>
      kept supplied received good k k' \<and> fdw_fd w' = dev"
    and short: "N' < 2147483647"
begin

definition socket_inv :: "wrapping_int32 \<Rightarrow> ('a, 'k) sponge_socket \<Rightarrow> bool" where
  "socket_inv isn s \<longleftrightarrow> good (ss_kernel s) \<and> fdw_fd (ss_thread_fd s) = fd \<and> fdw_fd (ss_adapter_fd s) = dev \<and>
     (\<exists>c. ss_tcp s = Some c \<and> (bs_input_ended (snd_stream (tc_sender c)) \<longrightarrow> ss_outbound_shutdown s) \<and>
        streams S' N' isn' isn c (supplied (ss_kernel s)) (received (ss_kernel s)))"

section \<open>The rules keep the invariant\<close>

lemma socket_invE:
  assumes "socket_inv isn s"
  obtains c where "ss_tcp s = Some c" "good (ss_kernel s)" "fdw_fd (ss_thread_fd s) = fd" "fdw_fd (ss_adapter_fd s) = dev"
    "bs_input_ended (snd_stream (tc_sender c)) \<longrightarrow> ss_outbound_shutdown s"
    "streams S' N' isn' isn c (supplied (ss_kernel s)) (received (ss_kernel s))"
    "length (supplied (ss_kernel s)) + 2 \<le> seq_limit"
  using assms owner unfolding socket_inv_def by blast

abbreviation served :: "wrapping_int32 \<Rightarrow> u32 \<Rightarrow> (('a, 'k) sponge_socket \<Rightarrow> u32) \<Rightarrow> (('a, 'k) sponge_socket \<Rightarrow> bool) \<Rightarrow>
    ('a, 'k) sponge_socket result \<Rightarrow> bool" where
  "served isn n count interest \<equiv>
     outcome (environment_errors K A) (\<lambda>s'. socket_inv isn s' \<and> (count s' \<noteq> n \<or> \<not> interest s'))"

lemma rule1_safe:
  assumes "socket_inv isn s"
  shows "served isn (fdw_read_count (ss_adapter_fd s)) (\<lambda>s. fdw_read_count (ss_adapter_fd s)) i (rule1_callback A s)"
proof -
  obtain c where c: "ss_tcp s = Some c" "good (ss_kernel s)" "fdw_fd (ss_thread_fd s) = fd" "fdw_fd (ss_adapter_fd s) = dev"
    "bs_input_ended (snd_stream (tc_sender c)) \<longrightarrow> ss_outbound_shutdown s"
    "streams S' N' isn' isn c (supplied (ss_kernel s)) (received (ss_kernel s))"
    "length (supplied (ss_kernel s)) + 2 \<le> seq_limit"
    using assms by (blast elim: socket_invE)
  show ?thesis
  proof (cases "ad_read A (ss_adapter s) (ss_adapter_fd s) (ss_kernel s)")
    case (Inl e)
    then show ?thesis by (auto simp: rule1_callback_def environment_errors_def)
  next
    case (Inr t)
    obtain seg a w k where t: "t = (seg, a, w, k)" by (cases t)
    note r = adapter_read [OF c(2,4) Inr [unfolded t]]
    obtain c' where c': "(case seg of Some seg \<Rightarrow> TCPConnection_segment_received c seg | None \<Rightarrow> Inr c) = Inr c'"
      "streams S' N' isn' isn c' (supplied (ss_kernel s)) (received (ss_kernel s))"
      "bs_input_ended (snd_stream (tc_sender c')) = bs_input_ended (snd_stream (tc_sender c))"
    proof (cases seg)
      case None
      then show ?thesis using that [of c] c(6) by simp
    next
      case (Some sg)
      then obtain c' where "TCPConnection_segment_received c sg = Inr c'"
        "streams S' N' isn' isn c' (supplied (ss_kernel s)) (received (ss_kernel s))"
        using received_segment [OF short c(6,7), of sg] r by auto
      then show ?thesis using that [of c'] Some segment_received_writer [of c sg c'] by (simp add: writer_side_def)
    qed
    then show ?thesis using Inr t c r
      by (auto simp: rule1_callback_def socket_tcp_def socket_inv_def kept_def Let_def)
  qed
qed

lemma rule2_cancel_safe:
  assumes "socket_inv isn s"
  shows "outcome E (socket_inv isn) (rule2_cancel s)"
  using assms input_ended
  by (elim socket_invE) (auto simp: rule2_cancel_def socket_tcp_def socket_inv_def)

lemma rule2_safe:
  assumes "socket_inv isn s" "\<not> ss_outbound_shutdown s"
  shows "served isn (fdw_read_count (ss_thread_fd s)) (\<lambda>s. fdw_read_count (ss_thread_fd s)) i (rule2_callback K s)"
proof -
  obtain c where c: "ss_tcp s = Some c" "good (ss_kernel s)" "fdw_fd (ss_thread_fd s) = fd" "fdw_fd (ss_adapter_fd s) = dev"
    "bs_input_ended (snd_stream (tc_sender c)) \<longrightarrow> ss_outbound_shutdown s"
    "streams S' N' isn' isn c (supplied (ss_kernel s)) (received (ss_kernel s))"
    using assms(1) by (blast elim: socket_invE)
  let ?room = "TCPConnection_remaining_outbound_capacity c"
  show ?thesis
  proof (cases "fd_read K (ss_thread_fd s) ?room (ss_kernel s)")
    case (Inl e)
    then show ?thesis using c(1) by (auto simp: rule2_callback_def socket_tcp_def environment_errors_def)
  next
    case (Inr t)
    obtain data w k where t: "t = (data, w, k)" by (cases t)
    note r = read_thread [OF c(2,3) Inr [unfolded t]]
    obtain n c' where wr: "TCPConnection_write c data = (n, c')" by fastforce
    have "\<not> bs_input_ended (snd_stream (tc_sender c))" using assms(2) c(5) by blast
    note d = data_written [OF c(6) _ this r(4)]
    have "length (supplied (ss_kernel s) @ data) + 2 \<le> seq_limit" using owner [OF r(3)] r(1) by simp
    then have n: "n = length data" "streams S' N' isn' isn c' (supplied k) (received k)"
      "\<not> bs_input_ended (snd_stream (tc_sender c'))"
      using d wr r(1,2) by simp_all
    have "rule2_callback K s = Inr (if fdw_eof w
        then s\<lparr>ss_thread_fd := w, ss_kernel := k, ss_tcp := Some (TCPConnection_end_input_stream c'), ss_outbound_shutdown := True\<rparr>
        else s\<lparr>ss_thread_fd := w, ss_kernel := k, ss_tcp := Some c'\<rparr>)"
      using Inr t c(1) wr n(1) by (simp add: rule2_callback_def socket_tcp_def Let_def)
    then show ?thesis using n r c(4) input_ended [OF n(2)] by (auto simp: socket_inv_def)
  qed
qed

lemma rule3_safe:
  assumes "socket_inv isn s"
  shows "served isn (fdw_write_count (ss_thread_fd s)) (\<lambda>s. fdw_write_count (ss_thread_fd s)) i (rule3_callback K s)"
proof -
  obtain c where c: "ss_tcp s = Some c" "good (ss_kernel s)" "fdw_fd (ss_thread_fd s) = fd" "fdw_fd (ss_adapter_fd s) = dev"
    "bs_input_ended (snd_stream (tc_sender c)) \<longrightarrow> ss_outbound_shutdown s"
    "streams S' N' isn' isn c (supplied (ss_kernel s)) (received (ss_kernel s))"
    "length (supplied (ss_kernel s)) + 2 \<le> seq_limit"
    using assms by (blast elim: socket_invE)
  let ?in = "TCPConnection_inbound_stream c"
  define buf where "buf = take 65536 (bs_buf ?in)"
  have peek: "ByteStream_peek_output ?in (min 65536 (ByteStream_buffer_size ?in)) = buf"
    by (simp add: ByteStream_peek_output_def ByteStream_buffer_size_def buf_def min_def)
  show ?thesis
  proof (cases "fd_write K (ss_thread_fd s) (BufferViewList_of_string buf) False (ss_kernel s)")
    case (Inl e)
    then show ?thesis using c(1) peek by (auto simp: rule3_callback_def socket_tcp_def environment_errors_def Let_def)
  next
    case (Inr t)
    obtain n k w where t: "t = (n, k, w)" by (cases t)
    have "length buf \<le> 65536" by (simp add: buf_def)
    note wr = write_thread [OF c(2,3) this Inr [unfolded t]]
    define c' where "c' = TCPConnection_pop_inbound c n"
    define s' where "s' = s\<lparr>ss_tcp := Some c', ss_thread_fd := w, ss_kernel := k\<rparr>"
    have "take n buf = take n (bs_buf ?in)" using wr(1) by (simp add: buf_def)
    then have st: "streams S' N' isn' isn c' (supplied k) (received k)"
      using inbound_popped [OF c(6,7), of n] wr(2,3) by (simp add: c'_def)
    have same: "snd_stream (tc_sender c') = snd_stream (tc_sender c)"
      by (simp add: c'_def TCPConnection_pop_inbound_def Let_def)
    have inv: "socket_inv isn s'" using st same wr c(4,5) by (simp add: socket_inv_def s'_def)
    have eq: "rule3_callback K s =
        (if ByteStream_eof (TCPConnection_inbound_stream c') \<or> bs_error (TCPConnection_inbound_stream c')
         then bindE (Socket_shutdown K w SHUT_WR k) (\<lambda>(w, k).
                Inr (s'\<lparr>ss_thread_fd := w, ss_kernel := k, ss_inbound_shutdown := True\<rparr>))
         else Inr s')"
      using Inr t c(1) peek by (simp add: rule3_callback_def socket_tcp_def Let_def s'_def c'_def)
    show ?thesis
    proof (cases "ByteStream_eof (TCPConnection_inbound_stream c') \<or> bs_error (TCPConnection_inbound_stream c')")
      case False
      then show ?thesis using eq inv wr(6) by (simp add: s'_def)
    next
      case True
      show ?thesis
      proof (cases "Socket_shutdown K w SHUT_WR k")
        case (Inl e)
        then show ?thesis using eq True by (auto simp: environment_errors_def)
      next
        case (Inr t)
        obtain w2 k2 where t: "t = (w2, k2)" by (cases t)
        note sh = shutdown_kept [OF wr(4) Inr [unfolded t]]
        have "fdw_write_count w2 = fdw_write_count (ss_thread_fd s) + 2" using sh(3) wr(6) by simp
        then have "fdw_write_count w2 \<noteq> fdw_write_count (ss_thread_fd s)" by simp
        then show ?thesis using eq True Inr t sh(1,2) inv wr(5) by (simp add: socket_inv_def s'_def kept_def)
      qed
    qed
  qed
qed

lemma write_segments_kept:
  assumes "good k" "fdw_fd w = dev" "write_segments A segs a w k = Inr (a', w', k')"
  shows "kept supplied received good k k' \<and> fdw_fd w' = dev"
  using assms
proof (induction segs arbitrary: a w k)
  case (Cons seg segs)
  then obtain a1 w1 k1 where s: "ad_write A a seg w k = Inr (a1, w1, k1)" "write_segments A segs a1 w1 k1 = Inr (a', w', k')"
    by auto
  note t = adapter_write [OF Cons.prems(1,2) s(1)]
  then have "good k1" by (simp add: kept_def)
  from Cons.IH [OF this _ s(2)] t show ?case using kept_trans by metis
qed (simp add: kept_refl)

lemma write_segments_error:
  "write_segments A segs a w k = Inl e \<Longrightarrow> e \<in> environment_errors K A"
proof (induction segs arbitrary: a w k)
  case (Cons seg segs)
  then show ?case by (cases "ad_write A a seg w k") (auto simp: environment_errors_def)
qed simp

lemma rule4_safe:
  assumes "socket_inv isn s"
  shows "served isn n count rule4_interest (rule4_callback A s)"
proof -
  obtain c where c: "ss_tcp s = Some c" "good (ss_kernel s)" "fdw_fd (ss_thread_fd s) = fd" "fdw_fd (ss_adapter_fd s) = dev"
    "bs_input_ended (snd_stream (tc_sender c)) \<longrightarrow> ss_outbound_shutdown s"
    "streams S' N' isn' isn c (supplied (ss_kernel s)) (received (ss_kernel s))"
    using assms by (blast elim: socket_invE)
  show ?thesis
  proof (cases "write_segments A (tc_segments_out c) (ss_adapter s) (ss_adapter_fd s) (ss_kernel s)")
    case (Inl e)
    then show ?thesis using c(1) write_segments_error by (simp add: rule4_callback_def socket_tcp_def)
  next
    case (Inr t)
    obtain a w k where t: "t = (a, w, k)" by (cases t)
    show ?thesis using Inr t c segments_taken [OF c(6)] write_segments_kept [OF c(2,4) Inr [unfolded t]]
      by (simp add: rule4_callback_def socket_tcp_def socket_inv_def kept_def rule4_interest_def tcp_holds_def)
  qed
qed

lemma socket_rules_safe: "rules_safe (socket_inv isn) (environment_errors K A) (socket_guards K A)"
proof -
  have keep: "keeps_guard (socket_inv isn) (\<lambda>s. \<not> ss_outbound_shutdown s) (rule1_callback A)"
    unfolding keeps_guard_def
  proof (intro allI impI)
    fix s :: "('a, 'k) sponge_socket" assume "\<not> ss_outbound_shutdown s"
    then show "outcome UNIV (\<lambda>s. \<not> ss_outbound_shutdown s) (rule1_callback A s)"
      by (cases "rule1_callback A s") (auto simp: rule1_callback_def Let_def split: if_splits)
  qed
  have [simp]: "keeps_guard I (\<lambda>s. True) f" "keeps_guard I g Inr" for I g f
    by (simp_all add: keeps_guard_def outcome_def split: sum.split)
  have [simp]: "rule2_interest s \<Longrightarrow> \<not> ss_outbound_shutdown s" for s :: "('a, 'k) sponge_socket"
    by (auto simp: rule2_interest_def tcp_holds_def split: option.splits)
  show ?thesis
    unfolding rules_safe_def
  proof
    show "\<forall>rg \<in> set (socket_guards K A). rule_safe (socket_inv isn) (environment_errors K A) rg"
      using rule1_safe rule2_safe rule2_cancel_safe rule3_safe rule4_safe
      by (simp add: socket_guards_def socket_rules_def EventLoop_add_rule_def rule_safe_def Rule_service_count_def)
  qed (use keep in \<open>simp add: socket_guards_def socket_rules_def EventLoop_add_rule_def\<close>)
qed

section \<open>The loop keeps the invariant\<close>

abbreviation outside_kept :: "'k round \<Rightarrow> bool" where
  "outside_kept rd \<equiv> \<forall>k. good k \<longrightarrow> kept supplied received good k (rd_outside rd k)"

lemma socket_inv_outside:
  "socket_inv isn s \<Longrightarrow> outside_kept rd \<Longrightarrow> socket_inv isn (s\<lparr>ss_kernel := rd_outside rd (ss_kernel s)\<rparr>)"
  by (auto simp: socket_inv_def kept_def)

lemma tcp_loop_safe:
  assumes "socket_inv isn s" "\<forall>rd \<in> set rds. outside_kept rd" "subseq gs (socket_guards K A)"
  shows "(\<exists>e \<in> insert poll_error (environment_errors K A).
      TCPSpongeSocket_tcp_loop A condition rds base_time (map fst gs) s = Inl e) \<or>
    (\<exists>finished gs' s'. TCPSpongeSocket_tcp_loop A condition rds base_time (map fst gs) s = Inr (finished, map fst gs', s') \<and>
       socket_inv isn s' \<and> subseq gs' (socket_guards K A))"
  using assms
proof (induction rds arbitrary: base_time gs s)
  case Nil
  then show ?case by auto
next
  case (Cons rd rds)
  let ?s = "s\<lparr>ss_kernel := rd_outside rd (ss_kernel s)\<rparr>"
  have inv: "socket_inv isn ?s" using Cons.prems socket_inv_outside [of isn s rd] by simp
  have rest: "\<forall>rd \<in> set rds. outside_kept rd" using Cons.prems(2) by simp
  have safe: "rules_safe (socket_inv isn) (environment_errors K A) gs"
    using rules_safe_subseq [OF Cons.prems(3) socket_rules_safe] .
  show ?case
  proof (cases "condition s")
    case False
    then show ?thesis using Cons.prems by auto
  next
    case True
    consider e where "e \<in> insert poll_error (environment_errors K A)"
        "EventLoop_wait_next_event (rd_poll rd) (map fst gs) ?s = Inl e"
      | res gs1 s1 where "EventLoop_wait_next_event (rd_poll rd) (map fst gs) ?s = Inr (res, map fst gs1, s1)"
          "socket_inv isn s1" "subseq gs1 gs"
      using wait_next_event_safe [OF safe inv, of "rd_poll rd"] by blast
    then show ?thesis
    proof cases
      case 1
      then show ?thesis using True by auto
    next
      case w: 2
      have sub: "subseq gs1 (socket_guards K A)" using w(3) Cons.prems(3) by (rule subseq_order.trans)
      show ?thesis
      proof (cases "res = Exit \<or> rd_abort rd")
        case exit: True
        then have "TCPSpongeSocket_tcp_loop A condition (rd # rds) base_time (map fst gs) s = Inr (True, map fst gs1, s1)"
          using True w(1) by auto
        then show ?thesis using w(2) sub by blast
      next
        case go: False
        obtain c where c: "ss_tcp s1 = Some c" "good (ss_kernel s1)" "fdw_fd (ss_thread_fd s1) = fd" "fdw_fd (ss_adapter_fd s1) = dev"
          "bs_input_ended (snd_stream (tc_sender c)) \<longrightarrow> ss_outbound_shutdown s1"
          "streams S' N' isn' isn c (supplied (ss_kernel s1)) (received (ss_kernel s1))"
          "length (supplied (ss_kernel s1)) + 2 \<le> seq_limit"
          using w(2) by (blast elim: socket_invE)
        let ?ms = "sz_sub (rd_time rd) base_time"
        have eq: "TCPSpongeSocket_tcp_loop A condition (rd # rds) base_time (map fst gs) s =
            (if tc_active c
             then bindE (TCPConnection_tick c ?ms) (\<lambda>c.
                  bindE (ad_tick A (ss_adapter s1) ?ms (ss_adapter_fd s1) (ss_kernel s1)) (\<lambda>(a, w, k).
                    TCPSpongeSocket_tcp_loop A condition rds (rd_time rd) (map fst gs1)
                      (s1\<lparr>ss_tcp := Some c, ss_adapter := a, ss_adapter_fd := w, ss_kernel := k\<rparr>)))
             else TCPSpongeSocket_tcp_loop A condition rds base_time (map fst gs1) s1)"
          using True w(1) go c(1) by (simp add: socket_tcp_def Let_def)
        show ?thesis
        proof (cases "tc_active c")
          case False
          then show ?thesis using eq Cons.IH [OF w(2) rest sub] by simp
        next
          case active: True
          obtain c' where c': "TCPConnection_tick c ?ms = Inr c'"
            "streams S' N' isn' isn c' (supplied (ss_kernel s1)) (received (ss_kernel s1))"
            using ticked [OF c(6,7)] by blast
          show ?thesis
          proof (cases "ad_tick A (ss_adapter s1) ?ms (ss_adapter_fd s1) (ss_kernel s1)")
            case (Inl e)
            then have "e \<in> environment_errors K A" by (auto simp: environment_errors_def)
            then show ?thesis using eq active c'(1) Inl by simp
          next
            case (Inr t)
            obtain a w k where t: "t = (a, w, k)" by (cases t)
            note ti = adapter_tick [OF c(2,4) Inr [unfolded t]]
            let ?s2 = "s1\<lparr>ss_tcp := Some c', ss_adapter := a, ss_adapter_fd := w, ss_kernel := k\<rparr>"
            have "socket_inv isn ?s2"
              using c' ti c(3,5) tick_writer [OF c'(1)] by (simp add: socket_inv_def kept_def writer_side_def)
            then show ?thesis using eq active c'(1) Inr t Cons.IH [OF _ rest sub, of ?s2] by simp
          qed
        qed
      qed
    qed
  qed
qed

section \<open>The life of a socket\<close>

text \<open>A new socket that connects, or listens, and then runs the thread of its connection.\<close>

definition fresh :: "('a, 'k) sponge_socket \<Rightarrow> bool" where
  "fresh s \<longleftrightarrow> ss_tcp s = None \<and> fdw_fd (ss_thread_fd s) = fd \<and> fdw_fd (ss_adapter_fd s) = dev \<and>
     good (ss_kernel s) \<and> supplied (ss_kernel s) = [] \<and> received (ss_kernel s) = []"

lemma fresh_inv:
  assumes "fresh s" "cfg_send_capacity cfg < seq_limit" "cfg_recv_capacity cfg < seq_limit"
    and "c = TCPConnection_new cfg rnd \<or> c = TCPConnection_connect (TCPConnection_new cfg rnd)"
  shows "socket_inv (conn_isn (TCPConnection_new cfg rnd)) (s\<lparr>ss_tcp := Some c, ss_adapter := a\<rparr>)"
    and "socket_inv (conn_isn (TCPConnection_new cfg rnd)) (s\<lparr>ss_adapter := a, ss_tcp := Some c\<rparr>)"
proof -
  have "\<not> bs_input_ended (snd_stream (tc_sender (TCPConnection_new cfg rnd)))"
    by (simp add: TCPConnection_new_def TCPSender_new_def ByteStream_new_def)
  then have "\<not> bs_input_ended (snd_stream (tc_sender c))"
    using assms(4) connect_writer [of "TCPConnection_new cfg rnd"] by (auto simp: writer_side_def)
  moreover have "streams S' N' isn' (conn_isn (TCPConnection_new cfg rnd)) c [] []"
    using assms(4) streams_new [OF assms(2,3)] streams_connect by blast
  ultimately show "socket_inv (conn_isn (TCPConnection_new cfg rnd)) (s\<lparr>ss_tcp := Some c, ss_adapter := a\<rparr>)"
    "socket_inv (conn_isn (TCPConnection_new cfg rnd)) (s\<lparr>ss_adapter := a, ss_tcp := Some c\<rparr>)"
    using assms(1) by (simp_all add: socket_inv_def fresh_def)
qed

lemma start_safe:
  assumes "fresh s" "cfg_send_capacity cfg < seq_limit" "cfg_recv_capacity cfg < seq_limit"
    and "\<forall>rd \<in> set rds. outside_kept rd"
    and "start = TCPSpongeSocket_connect \<or> start = TCPSpongeSocket_listen_and_accept"
  shows "(\<exists>e \<in> insert poll_error (environment_errors K A). start K A cfg rnd c_ad rds t s = Inl e) \<or>
    (\<exists>finished gs s'. start K A cfg rnd c_ad rds t s = Inr (finished, map fst gs, s') \<and>
       socket_inv (conn_isn (TCPConnection_new cfg rnd)) s' \<and> subseq gs (socket_guards K A))"
proof -
  let ?c = "TCPConnection_new cfg rnd"
  have syn: "TCPState_eq (TCPConnection_state (TCPConnection_connect ?c)) (TCPState_of_state SYN_SENT)"
    using connect_new [OF refl, of cfg rnd] handshake_states(1) [OF refl, where cfg = cfg and rnd = rnd] by (simp add: TCPState_eq_iff)
  from assms(5) show ?thesis
  proof
    assume start: "start = TCPSpongeSocket_connect"
    let ?s = "s\<lparr>ss_adapter := ad_set_config A (ss_adapter s) c_ad, ss_tcp := Some (TCPConnection_connect ?c)\<rparr>"
    have eq: "start K A cfg rnd c_ad rds t s =
        TCPSpongeSocket_tcp_loop A (in_state [SYN_SENT]) rds t (map fst (socket_guards K A)) ?s"
      using assms(1) start syn
      by (simp add: TCPSpongeSocket_connect_def TCPSpongeSocket_initialize_TCP_def fresh_def socket_tcp_def Let_def)
    have "socket_inv (conn_isn ?c) ?s" using assms(1-3) by (intro fresh_inv) simp_all
    then show ?thesis unfolding eq using assms(4) by (intro tcp_loop_safe) simp_all
  next
    assume start: "start = TCPSpongeSocket_listen_and_accept"
    let ?s = "s\<lparr>ss_tcp := Some ?c, ss_adapter := ad_set_listening A (ad_set_config A (ss_adapter s) c_ad) True\<rparr>"
    have eq: "start K A cfg rnd c_ad rds t s =
        TCPSpongeSocket_tcp_loop A (in_state [LISTEN, SYN_RCVD, SYN_SENT]) rds t (map fst (socket_guards K A)) ?s"
      using assms(1) start
      by (simp add: TCPSpongeSocket_listen_and_accept_def TCPSpongeSocket_initialize_TCP_def fresh_def Let_def)
    have "socket_inv (conn_isn ?c) ?s" using assms(1-3) by (intro fresh_inv) simp_all
    then show ?thesis unfolding eq using assms(4) by (intro tcp_loop_safe) simp_all
  qed
qed

text \<open>What holds of a socket at any time: of its connection, if it still has one, and of the socket pair.\<close>

definition session_inv :: "wrapping_int32 \<Rightarrow> ('a, 'k) sponge_socket \<Rightarrow> bool" where
  "session_inv isn s \<longleftrightarrow> good (ss_kernel s) \<and>
     (\<exists>c. streams S' N' isn' isn c (supplied (ss_kernel s)) (received (ss_kernel s)) \<and> (ss_tcp s = Some c \<or> ss_tcp s = None))"

lemma socket_session_inv: "socket_inv isn s \<Longrightarrow> session_inv isn s"
  unfolding socket_inv_def session_inv_def by blast

lemma tcp_main_safe:
  assumes "socket_inv isn s" "\<forall>rd \<in> set rds. outside_kept rd" "subseq gs (socket_guards K A)"
  shows "(\<exists>e \<in> insert poll_error (environment_errors K A). TCPSpongeSocket_tcp_main K A rds t (map fst gs) s = Inl e) \<or>
    (\<exists>finished s'. TCPSpongeSocket_tcp_main K A rds t (map fst gs) s = Inr (finished, s') \<and> session_inv isn s')"
proof -
  obtain c where tcp: "ss_tcp s = Some c" using assms(1) by (auto simp: socket_inv_def)
  consider e where "e \<in> insert poll_error (environment_errors K A)"
      "TCPSpongeSocket_tcp_loop A (\<lambda>s. True) rds t (map fst gs) s = Inl e"
    | finished gs' s' where "TCPSpongeSocket_tcp_loop A (\<lambda>s. True) rds t (map fst gs) s = Inr (finished, map fst gs', s')"
        "socket_inv isn s'" "subseq gs' (socket_guards K A)"
    using tcp_loop_safe [OF assms, of "\<lambda>s. True" t] by blast
  then show ?thesis
  proof cases
    case 1
    then have "TCPSpongeSocket_tcp_main K A rds t (map fst gs) s = Inl e"
      using tcp by (simp add: TCPSpongeSocket_tcp_main_def)
    then show ?thesis using 1(1) by (intro disjI1 bexI)
  next
    case 2
    show ?thesis
    proof (cases finished)
      case False
      then have "TCPSpongeSocket_tcp_main K A rds t (map fst gs) s = Inr (False, s')"
        using tcp 2(1) by (simp add: TCPSpongeSocket_tcp_main_def)
      then show ?thesis using socket_session_inv [OF 2(2)] by (intro disjI2 exI conjI)
    next
      case True
      show ?thesis
      proof (cases "Socket_shutdown K (ss_owner_fd s') SHUT_RDWR (ss_kernel s')")
        case (Inl e)
        then have "e \<in> environment_errors K A" by (auto simp: environment_errors_def)
        moreover have "TCPSpongeSocket_tcp_main K A rds t (map fst gs) s = Inl e"
          using tcp 2(1) True Inl by (simp add: TCPSpongeSocket_tcp_main_def)
        ultimately show ?thesis by (intro disjI1 bexI insertI2)
      next
        case (Inr r)
        obtain w k where r: "r = (w, k)" by (cases r)
        have "good (ss_kernel s')" using 2(2) by (simp add: socket_inv_def)
        then have k: "kept supplied received good (ss_kernel s') k" using Inr [unfolded r] by (rule shutdown_kept(1))
        obtain c where "streams S' N' isn' isn c (supplied (ss_kernel s')) (received (ss_kernel s'))"
          using 2(2) by (blast elim: socket_invE)
        then have "session_inv isn (s'\<lparr>ss_owner_fd := w, ss_kernel := k, ss_tcp := None\<rparr>)"
          using k by (auto simp: session_inv_def kept_def)
        moreover have "TCPSpongeSocket_tcp_main K A rds t (map fst gs) s =
            Inr (True, s'\<lparr>ss_owner_fd := w, ss_kernel := k, ss_tcp := None\<rparr>)"
          using tcp 2(1) True Inr r by (simp add: TCPSpongeSocket_tcp_main_def)
        ultimately show ?thesis by (intro disjI2 exI conjI)
      qed
    qed
  qed
qed

end

end
