(* ===== verification/Socket_Sessions.thy ===== *)
theory Socket_Sessions
  imports Socket_Runs
begin

text \<open>
  Sessions of a socket over its adapters: the environment of \<open>Socket_Runs\<close> is provided by the UDP, TUN
  and TAP adapters on any kernel that keeps the descriptors apart and whose device delivers segments of
  the peer, and by a concrete kernel of byte channels.
\<close>

section \<open>Writing does not count as reading\<close>

lemma fd_write_loopE:
  assumes "fd_write_loop writev write_all k w buffer written = Inr (n, k', w')"
  obtains ret errno k1 v b1 where "writev k (BufferViewList_as_iovecs buffer) = (ret, errno, k1)"
    "SystemCall ''writev'' ret errno 0 = Inr v" "\<not> (v = 0 \<and> BufferViewList_size buffer \<noteq> 0)"
    "\<not> ssize (BufferViewList_size buffer) < v" "BufferViewList_remove_prefix buffer (size_of_int v) = Inr b1"
    "(if write_all \<and> BufferViewList_size b1 \<noteq> 0
      then fd_write_loop writev write_all k1 (FileDescriptor_register_write w) b1 (sz_add written (size_of_int v))
      else Inr (sz_add written (size_of_int v), k1, FileDescriptor_register_write w)) = Inr (n, k', w')"
proof -
  obtain ret errno k1 where s: "writev k (BufferViewList_as_iovecs buffer) = (ret, errno, k1)"
    by (metis prod.exhaust)
  show ?thesis
    using assms [unfolded fd_write_loop.simps [of writev write_all k w buffer written] s prod.case] that [OF s]
    by (auto split: if_split_asm)
qed

lemma write_loop_read_count:
  "fd_write_loop writev write_all k w buffer written = Inr (n, k', w') \<Longrightarrow> fdw_read_count w' = fdw_read_count w"
proof (induction writev write_all k w buffer written rule: fd_write_loop.induct)
  case (1 writev write_all k w buffer written)
  from 1(2) show ?case
  proof (rule fd_write_loopE)
    fix ret errno k1 v b1
    assume s: "writev k (BufferViewList_as_iovecs buffer) = (ret, errno, k1)"
      and v: "SystemCall ''writev'' ret errno 0 = Inr v" "\<not> (v = 0 \<and> BufferViewList_size buffer \<noteq> 0)"
        "\<not> ssize (BufferViewList_size buffer) < v" "BufferViewList_remove_prefix buffer (size_of_int v) = Inr b1"
      and eq: "(if write_all \<and> BufferViewList_size b1 \<noteq> 0
        then fd_write_loop writev write_all k1 (FileDescriptor_register_write w) b1 (sz_add written (size_of_int v))
        else Inr (sz_add written (size_of_int v), k1, FileDescriptor_register_write w)) = Inr (n, k', w')"
    show ?thesis
      using 1(1) [OF s [symmetric] refl v] eq by (auto simp: FileDescriptor_register_write_def split: if_splits)
  qed
qed

lemma frames_read_count: "write_frames K frames w k = Inr (w', k') \<Longrightarrow> fdw_read_count w' = fdw_read_count w"
  by (induction frames arbitrary: w k) (fastforce simp: fd_write_def FileDescriptor_write_def dest: write_loop_read_count)+

section \<open>Devices\<close>

locale device_kernel = socket_kernel +
  assumes dev_read: "good k \<Longrightarrow> sys_read K dev BUFFER_SIZE k = (got, k') \<Longrightarrow> kept supplied received good k k'"
    and dev_write: "good k \<Longrightarrow> sys_writev K dev k iovecs = (ret, errno, k') \<Longrightarrow> kept supplied received good k k'"
    and dev_recv: "good k \<Longrightarrow> sys_recvfrom K dev n k = (datagram, k') \<Longrightarrow> kept supplied received good k k'"
    and dev_send: "good k \<Longrightarrow> sys_sendmsg K dev to iovecs k = (answer, k') \<Longrightarrow> kept supplied received good k k'"
begin

lemma write_loop_kept:
  assumes "good k" "fd_write_loop (sys_writev K dev) write_all k w buffer written = Inr (n, k', w')"
  shows "kept supplied received good k k' \<and> fdw_fd w' = fdw_fd w"
  using assms
proof (induction "sys_writev K dev" write_all k w buffer written rule: fd_write_loop.induct)
  case (1 write_all k w buffer written)
  from 1(3) show ?case
  proof (rule fd_write_loopE)
    fix ret errno k1 v b1
    assume s: "sys_writev K dev k (BufferViewList_as_iovecs buffer) = (ret, errno, k1)"
      and v: "SystemCall ''writev'' ret errno 0 = Inr v" "\<not> (v = 0 \<and> BufferViewList_size buffer \<noteq> 0)"
        "\<not> ssize (BufferViewList_size buffer) < v" "BufferViewList_remove_prefix buffer (size_of_int v) = Inr b1"
      and eq: "(if write_all \<and> BufferViewList_size b1 \<noteq> 0
        then fd_write_loop (sys_writev K dev) write_all k1 (FileDescriptor_register_write w) b1 (sz_add written (size_of_int v))
        else Inr (sz_add written (size_of_int v), k1, FileDescriptor_register_write w)) = Inr (n, k', w')"
    have k1: "kept supplied received good k k1" using dev_write [OF 1(2) s] .
    show ?thesis
    proof (cases "write_all \<and> BufferViewList_size b1 \<noteq> 0")
      case True
      have "good k1" using k1 by (simp add: kept_def)
      then have "kept supplied received good k1 k' \<and> fdw_fd w' = fdw_fd (FileDescriptor_register_write w)"
        using 1(1) [OF s [symmetric] refl v True] eq True by simp
      then show ?thesis using kept_trans [OF k1] by (simp add: FileDescriptor_register_write_def)
    next
      case False
      then show ?thesis using eq k1 by (auto simp: FileDescriptor_register_write_def)
    qed
  qed
qed

lemma device_write:
  assumes "good k" "fdw_fd w = dev" "fd_write K w buffer write_all k = Inr (n, k', w')"
  shows "kept supplied received good k k' \<and> fdw_fd w' = dev"
  using write_loop_kept assms by (simp add: fd_write_def FileDescriptor_write_def)

lemma device_read:
  assumes "good k" "fdw_fd w = dev" "fd_read K w size_max k = Inr (data, w', k')"
  shows "kept supplied received good k k'" "fdw_fd w' = dev" "fdw_read_count w' \<noteq> fdw_read_count w"
proof -
  obtain ret errno str where "sys_read K dev BUFFER_SIZE k = ((ret, errno, str), k')"
    and w: "fdw_read_count w' = fdw_read_count w + 1" "fdw_fd w' = fdw_fd w"
    using assms(2,3) by (elim fd_readE) simp
  then show "kept supplied received good k k'" using dev_read [OF assms(1)] by blast
  show "fdw_fd w' = dev" "fdw_read_count w' \<noteq> fdw_read_count w" using w assms(2) by simp_all
qed

lemma frames_kept:
  assumes "good k" "fdw_fd w = dev" "write_frames K frames w k = Inr (w', k')"
  shows "kept supplied received good k k' \<and> fdw_fd w' = dev"
  using assms
proof (induction frames arbitrary: w k)
  case (Cons frame frames)
  then obtain n k1 w1 where f: "fd_write K w (BufferViewList_new frame) True k = Inr (n, k1, w1)"
    "write_frames K frames w1 k1 = Inr (w', k')" by auto
  note d = device_write [OF Cons.prems(1,2) f(1)]
  then have "good k1" by (simp add: kept_def)
  from Cons.IH [OF this _ f(2)] d show ?case using kept_trans by metis
qed (simp add: kept_refl)

end

text \<open>Each adapter on a device whose datagrams belong to the stream of the peer.\<close>

locale tun_socket = device_kernel +
  fixes gai :: getaddrinfo and gni :: getnameinfo and S' :: "nat \<Rightarrow> byte" and N' :: nat and isn' :: wrapping_int32
  assumes incoming: "good k \<Longrightarrow> sys_read K dev BUFFER_SIZE k = ((ret, errno, str), k') \<Longrightarrow> 0 \<le> to_int32 ret \<Longrightarrow>
      TunFdAdapter_read gai gni a (take (nat (to_int32 ret)) str) = Inr (Some seg, a') \<Longrightarrow> from_stream S' N' isn' seg"
    and short_stream: "N' < 2147483647"

sublocale tun_socket \<subseteq> socket_env K fd dev supplied received good "tun_adapter K gai gni" S' N' isn'
proof
  fix k w a seg a' w' k'
  assume k: "good k" "fdw_fd w = dev" "ad_read (tun_adapter K gai gni) a w k = Inr (seg, a', w', k')"
  then obtain data where r: "fd_read K w size_max k = Inr (data, w', k')" "TunFdAdapter_read gai gni a data = Inr (seg, a')"
    by (auto simp: tun_adapter_def)
  obtain ret errno str where s: "sys_read K dev BUFFER_SIZE k = ((ret, errno, str), k')" "data = take (nat (to_int32 ret)) str"
    "0 \<le> to_int32 ret"
    using r(1) k(2) by (elim fd_readE) (auto simp: SystemCall_def split: if_splits)
  show "kept supplied received good k k' \<and> fdw_fd w' = dev \<and> fdw_read_count w' \<noteq> fdw_read_count w \<and>
      (case seg of Some sg \<Rightarrow> from_stream S' N' isn' sg | None \<Rightarrow> True)"
    using device_read [OF k(1,2) r(1)] incoming [OF k(1) s(1,3)] r(2) s(2) by (auto split: option.split)
next
  fix k w a sg a' w' k'
  assume "good k" "fdw_fd w = dev" "ad_write (tun_adapter K gai gni) a sg w k = Inr (a', w', k')"
  then show "kept supplied received good k k' \<and> fdw_fd w' = dev"
    by (auto simp: tun_adapter_def dest: device_write)
next
  fix k w a ms a' w' k'
  assume "good k" "fdw_fd w = dev" "ad_tick (tun_adapter K gai gni) a ms w k = Inr (a', w', k')"
  then show "kept supplied received good k k' \<and> fdw_fd w' = dev" by (auto simp: tun_adapter_def kept_refl)
qed (rule short_stream)

locale udp_socket = device_kernel +
  fixes gni :: getnameinfo and S' :: "nat \<Rightarrow> byte" and N' :: nat and isn' :: wrapping_int32
  assumes incoming: "good k \<Longrightarrow> sys_recvfrom K dev 65536 k = ((ret, errno, str, addr, len), k') \<Longrightarrow> 0 \<le> to_int32 ret \<Longrightarrow>
      TCPOverUDPSocketAdapter_read a (source, take (nat (to_int32 ret)) str) = Inr (Some seg, a') \<Longrightarrow> from_stream S' N' isn' seg"
    and short_stream: "N' < 2147483647"

sublocale udp_socket \<subseteq> socket_env K fd dev supplied received good "udp_adapter K gni" S' N' isn'
proof
  fix k w a seg a' w' k'
  assume k: "good k" "fdw_fd w = dev" "ad_read (udp_adapter K gni) a w k = Inr (seg, a', w', k')"
  then obtain source data where r: "UDPSocket_recv K w 65536 k = Inr ((source, data), w', k')"
    "TCPOverUDPSocketAdapter_read a (source, data) = Inr (seg, a')"
    by (auto simp: udp_adapter_def)
  obtain ret errno str addr len k1 where s: "sys_recvfrom K dev 65536 k = ((ret, errno, str, addr, len), k1)"
    by (metis prod.exhaust)
  have u: "k' = k1" "w' = FileDescriptor_register_read w" "data = take (nat (to_int32 ret)) str" "0 \<le> to_int32 ret"
    using r(1) s k(2) by (auto simp: UDPSocket_recv_def SystemCall_def Let_def split: if_splits)
  show "kept supplied received good k k' \<and> fdw_fd w' = dev \<and> fdw_read_count w' \<noteq> fdw_read_count w \<and>
      (case seg of Some sg \<Rightarrow> from_stream S' N' isn' sg | None \<Rightarrow> True)"
    using dev_recv [OF k(1) s] incoming [OF k(1) s u(4)] r(2) u k(2)
    by (auto simp: FileDescriptor_register_read_def split: option.split)
next
  fix k w a sg a' w' k'
  assume k: "good k" "fdw_fd w = dev" "ad_write (udp_adapter K gni) a sg w k = Inr (a', w', k')"
  then obtain destination payload where r: "UDPSocket_sendto K w destination payload k = Inr (w', k')"
    by (auto simp: udp_adapter_def)
  obtain ret errno k1 where s: "sys_sendmsg K dev (Some (addr_storage destination, addr_size destination))
      (BufferViewList_as_iovecs payload) k = ((ret, errno), k1)"
    by (metis prod.exhaust)
  show "kept supplied received good k k' \<and> fdw_fd w' = dev"
    using dev_send [OF k(1) s] r s k(2)
    by (auto simp: UDPSocket_sendto_def sendmsg_helper_def FileDescriptor_register_write_def Let_def split: if_splits)
next
  fix k w a ms a' w' k'
  assume "good k" "fdw_fd w = dev" "ad_tick (udp_adapter K gni) a ms w k = Inr (a', w', k')"
  then show "kept supplied received good k k' \<and> fdw_fd w' = dev" by (auto simp: udp_adapter_def kept_refl)
qed (rule short_stream)

locale tap_socket = device_kernel +
  fixes gai :: getaddrinfo and gni :: getnameinfo and S' :: "nat \<Rightarrow> byte" and N' :: nat and isn' :: wrapping_int32
  assumes incoming: "good k \<Longrightarrow> sys_read K dev BUFFER_SIZE k = ((ret, errno, str), k') \<Longrightarrow> 0 \<le> to_int32 ret \<Longrightarrow>
      EthernetAdapter_read gai gni e (take (nat (to_int32 ret)) str) = Inr (Some seg, frames, e') \<Longrightarrow> from_stream S' N' isn' seg"
    and short_stream: "N' < 2147483647"

sublocale tap_socket \<subseteq> socket_env K fd dev supplied received good "tap_adapter K gai gni" S' N' isn'
proof
  fix k w a seg a' w' k'
  assume k: "good k" "fdw_fd w = dev" "ad_read (tap_adapter K gai gni) a w k = Inr (seg, a', w', k')"
  then obtain data w1 k1 frames where r: "fd_read K w size_max k = Inr (data, w1, k1)"
    "EthernetAdapter_read gai gni a data = Inr (seg, frames, a')" "write_frames K frames w1 k1 = Inr (w', k')"
    by (auto simp: tap_adapter_def)
  obtain ret errno str where s: "sys_read K dev BUFFER_SIZE k = ((ret, errno, str), k1)" "data = take (nat (to_int32 ret)) str"
    "0 \<le> to_int32 ret"
    using r(1) k(2) by (elim fd_readE) (auto simp: SystemCall_def split: if_splits)
  note d = device_read [OF k(1,2) r(1)]
  have "good k1" using d(1) by (simp add: kept_def)
  note f = frames_kept [OF this d(2) r(3)]
  have "fdw_read_count w' = fdw_read_count w1" using r(3) by (rule frames_read_count)
  then show "kept supplied received good k k' \<and> fdw_fd w' = dev \<and> fdw_read_count w' \<noteq> fdw_read_count w \<and>
      (case seg of Some sg \<Rightarrow> from_stream S' N' isn' sg | None \<Rightarrow> True)"
    using d f kept_trans [OF d(1)] incoming [OF k(1) s(1,3)] r(2) s(2) by (auto split: option.split)
next
  fix k w a sg a' w' k'
  assume "good k" "fdw_fd w = dev" "ad_write (tap_adapter K gai gni) a sg w k = Inr (a', w', k')"
  then show "kept supplied received good k k' \<and> fdw_fd w' = dev"
    by (auto simp: tap_adapter_def dest: frames_kept)
next
  fix k w a ms a' w' k'
  assume "good k" "fdw_fd w = dev" "ad_tick (tap_adapter K gai gni) a ms w k = Inr (a', w', k')"
  then show "kept supplied received good k k' \<and> fdw_fd w' = dev"
    by (auto simp: tap_adapter_def Let_def split: prod.splits dest: frames_kept)
qed (rule short_stream)

section \<open>A kernel of channels\<close>

text \<open>
  Each descriptor has the chunks that wait to be read, the bytes read and the bytes written so far.  An
  empty chunk is the end of the stream, and nothing to read an error.
\<close>

record channel =
  ch_in :: "byte list list"
  ch_taken :: "byte list"
  ch_out :: "byte list"

definition channel_kernel :: "byte list \<Rightarrow> (int \<Rightarrow> channel) kernel" where
  "channel_kernel source =
     \<lparr>sys_read = (\<lambda>fd n k. case ch_in (k fd) of
        [] \<Rightarrow> ((- 1, 11, []), k)
      | d # ds \<Rightarrow> ((int (length (take n d)), 0, take n d),
           k(fd := (k fd)\<lparr>ch_in := (if length d \<le> n then ds else drop n d # ds), ch_taken := ch_taken (k fd) @ take n d\<rparr>))),
      sys_writev = (\<lambda>fd k iovecs. let b = concat (map fst iovecs)
        in (int (length b), 0, k(fd := (k fd)\<lparr>ch_out := ch_out (k fd) @ b\<rparr>))),
      sys_shutdown = (\<lambda>fd how k. ((0, 0), k)),
      sys_recvfrom = (\<lambda>fd n k. case ch_in (k fd) of
        [] \<Rightarrow> ((- 1, 11, [], [], 0), k)
      | d # ds \<Rightarrow> ((int (length d), 0, take n d, source, length source), k(fd := (k fd)\<lparr>ch_in := ds\<rparr>))),
      sys_sendmsg = (\<lambda>fd to iovecs k. let b = concat (map fst iovecs)
        in ((int (length b), 0), k(fd := (k fd)\<lparr>ch_out := ch_out (k fd) @ b\<rparr>)))\<rparr>"

definition channels_good :: "int \<Rightarrow> int \<Rightarrow> (byte list \<Rightarrow> bool) \<Rightarrow> (int \<Rightarrow> channel) \<Rightarrow> bool" where
  "channels_good fd dev admits k \<longleftrightarrow>
     length (ch_taken (k fd)) + length (concat (ch_in (k fd))) + 2 \<le> seq_limit \<and>
     list_all (\<lambda>d. length d \<le> 65536 \<and> admits d) (ch_in (k dev))"

definition tun_admits :: "getaddrinfo \<Rightarrow> getnameinfo \<Rightarrow> (nat \<Rightarrow> byte) \<Rightarrow> nat \<Rightarrow> wrapping_int32 \<Rightarrow> byte list \<Rightarrow> bool" where
  "tun_admits gai gni S' N' isn' d \<longleftrightarrow>
     (\<forall>a seg a'. TunFdAdapter_read gai gni a d = Inr (Some seg, a') \<longrightarrow> from_stream S' N' isn' seg)"

definition udp_admits :: "(nat \<Rightarrow> byte) \<Rightarrow> nat \<Rightarrow> wrapping_int32 \<Rightarrow> byte list \<Rightarrow> bool" where
  "udp_admits S' N' isn' d \<longleftrightarrow>
     (\<forall>a source seg a'. TCPOverUDPSocketAdapter_read a (source, d) = Inr (Some seg, a') \<longrightarrow> from_stream S' N' isn' seg)"

definition tap_admits :: "getaddrinfo \<Rightarrow> getnameinfo \<Rightarrow> (nat \<Rightarrow> byte) \<Rightarrow> nat \<Rightarrow> wrapping_int32 \<Rightarrow> byte list \<Rightarrow> bool" where
  "tap_admits gai gni S' N' isn' d \<longleftrightarrow>
     (\<forall>e seg frames e'. EthernetAdapter_read gai gni e d = Inr (Some seg, frames, e') \<longrightarrow> from_stream S' N' isn' seg)"

lemma admitsD:
  "tun_admits gai gni S' N' isn' d \<Longrightarrow> TunFdAdapter_read gai gni a d = Inr (Some seg, a') \<Longrightarrow> from_stream S' N' isn' seg"
  "udp_admits S' N' isn' d \<Longrightarrow> TCPOverUDPSocketAdapter_read a (src, d) = Inr (Some seg, a') \<Longrightarrow> from_stream S' N' isn' seg"
  "tap_admits gai gni S' N' isn' d \<Longrightarrow> EthernetAdapter_read gai gni e d = Inr (Some seg, frames, e') \<Longrightarrow> from_stream S' N' isn' seg"
  unfolding tun_admits_def udp_admits_def tap_admits_def by metis+

interpretation channels: device_kernel "channel_kernel source" 5 7 "\<lambda>k. ch_taken (k 5)" "\<lambda>k. ch_out (k 5)" "channels_good 5 7 admits"
  for source admits
proof
  fix k :: "int \<Rightarrow> channel" and n ret errno str k'
  assume k: "channels_good 5 7 admits k" "sys_read (channel_kernel source) 5 n k = ((ret, errno, str), k')"
  show "0 \<le> ret \<Longrightarrow> ret \<le> int n \<and> ch_taken (k' 5) = ch_taken (k 5) @ take (nat ret) str \<and> ch_out (k' 5) = ch_out (k 5) \<and>
      channels_good 5 7 admits k'"
    using k by (cases "ch_in (k 5)") (auto simp: channel_kernel_def channels_good_def split: if_splits)
  show "ret < 0 \<Longrightarrow> - (2 ^ 31) \<le> ret"
    using k by (cases "ch_in (k 5)") (auto simp: channel_kernel_def)
next
  fix k :: "int \<Rightarrow> channel" and got k'
  assume k: "channels_good 5 7 admits k" "sys_read (channel_kernel source) 7 BUFFER_SIZE k = (got, k')"
  obtain a b where "got = (a, b)" by (cases got)
  with k show "kept (\<lambda>k. ch_taken (k 5)) (\<lambda>k. ch_out (k 5)) (channels_good 5 7 admits) k k'"
    by (cases "ch_in (k 7)") (auto simp: channel_kernel_def channels_good_def kept_def split: if_splits)
qed (auto simp: channel_kernel_def channels_good_def kept_def Let_def split: list.splits)

interpretation tun: tun_socket "channel_kernel source" 5 7 "\<lambda>k. ch_taken (k 5)" "\<lambda>k. ch_out (k 5)"
    "channels_good 5 7 (tun_admits gai gni S' 1000000 isn')" gai gni S' 1000000 isn'
  for source gai gni S' isn'
proof unfold_locales
  fix k :: "int \<Rightarrow> channel" and ret errno str k' a seg a'
  assume "channels_good 5 7 (tun_admits gai gni S' 1000000 isn') k"
    "sys_read (channel_kernel source) 7 BUFFER_SIZE k = ((ret, errno, str), k')" "0 \<le> to_int32 ret"
    "TunFdAdapter_read gai gni a (take (nat (to_int32 ret)) str) = Inr (Some seg, a')"
  then show "from_stream S' 1000000 isn' seg"
    by (cases "ch_in (k 7)") (auto simp: channel_kernel_def channels_good_def dest: admitsD)
qed simp

interpretation udp: udp_socket "channel_kernel source" 5 7 "\<lambda>k. ch_taken (k 5)" "\<lambda>k. ch_out (k 5)"
    "channels_good 5 7 (udp_admits S' 1000000 isn')" gni S' 1000000 isn'
  for source gni S' isn'
proof unfold_locales
  fix k :: "int \<Rightarrow> channel" and ret errno str addr len k' a source' seg a'
  assume "channels_good 5 7 (udp_admits S' 1000000 isn') k"
    "sys_recvfrom (channel_kernel source) 7 65536 k = ((ret, errno, str, addr, len), k')" "0 \<le> to_int32 ret"
    "TCPOverUDPSocketAdapter_read a (source', take (nat (to_int32 ret)) str) = Inr (Some seg, a')"
  then show "from_stream S' 1000000 isn' seg"
    by (cases "ch_in (k 7)") (auto simp: channel_kernel_def channels_good_def dest: admitsD)
qed simp

interpretation tap: tap_socket "channel_kernel source" 5 7 "\<lambda>k. ch_taken (k 5)" "\<lambda>k. ch_out (k 5)"
    "channels_good 5 7 (tap_admits gai gni S' 1000000 isn')" gai gni S' 1000000 isn'
  for source gai gni S' isn'
proof unfold_locales
  fix k :: "int \<Rightarrow> channel" and ret errno str k' e seg frames e'
  assume "channels_good 5 7 (tap_admits gai gni S' 1000000 isn') k"
    "sys_read (channel_kernel source) 7 BUFFER_SIZE k = ((ret, errno, str), k')" "0 \<le> to_int32 ret"
    "EthernetAdapter_read gai gni e (take (nat (to_int32 ret)) str) = Inr (Some seg, frames, e')"
  then show "from_stream S' 1000000 isn' seg"
    by (cases "ch_in (k 7)") (auto simp: channel_kernel_def channels_good_def dest: admitsD)
qed simp

section \<open>What the owner receives\<close>

lemma received_stream:
  assumes "streams S' N' isn' isn c up down" "length up + 2 \<le> seq_limit"
  shows "\<exists>n \<le> N'. down = map S' [0..<n]"
proof -
  obtain h where h: "\<forall>T. agree N' S' T \<longrightarrow> conn_inv ((!) up) (length up) isn T isn' (c, h, down)"
    using streams_inv [OF assms] by blast
  have "conn_position (c, h, down) \<le> N'" using position_le [of N' S'] h by blast
  moreover have "down = map S' [0..<bs_bytes_read (sr_output (rcv_reassembler (tc_receiver c)))]"
    "bs_bytes_read (sr_output (rcv_reassembler (tc_receiver c))) \<le> sr_wait_index (rcv_reassembler (tc_receiver c))"
    using h by (auto simp: conn_inv_def conn_mid_def rcv_inv_def run_inv_def sr_inv_def sr_mid_def Let_def dest!: spec [of _ S'])
  ultimately show ?thesis by (intro exI [of _ "bs_bytes_read (sr_output (rcv_reassembler (tc_receiver c)))"]) simp
qed

lemma outgoing_sent:
  assumes "streams S' N' isn' isn c up down" "length up + 2 \<le> seq_limit"
  shows "list_all (seg_sent ((!) up) (length up) isn) (tc_segments_out c)"
  using streams_inv [OF assms] by (auto simp: conn_inv_def conn_mid_def list_all_iff dest!: spec [of _ S'])

text \<open>
  C2. What a socket delivers.  A new socket connects, or listens, with its adapter and then runs the
  thread of its connection, for any number of rounds in which the kernel answers as it likes: short
  reads and writes, any readiness, any interleaving with the owner and the network.  If the adapter only
  hands over segments of the peer's stream, the owner has received a prefix of that stream, and every
  segment queued for the adapter carries the bytes that the owner has supplied.  The loop fails only
  with an error of a system call or of the adapter: it never reports a busy wait, nor bytes that the
  connection does not accept, nor an unexpected state after \<open>connect\<close>.
\<close>

theorem socket_delivers:
  fixes K :: "'k kernel" and A :: "('a, 'k) adapter_ops"
  assumes env: "socket_env K fd dev supplied received good A S' N' isn'"
    and s: "ss_tcp s = None" "fdw_fd (ss_thread_fd s) = fd" "fdw_fd (ss_adapter_fd s) = dev"
      "good (ss_kernel s)" "supplied (ss_kernel s) = []" "received (ss_kernel s) = []"
    and cfg: "cfg_send_capacity cfg < seq_limit" "cfg_recv_capacity cfg < seq_limit"
    and rds: "\<And>rd k. rd \<in> set (rds @ rds') \<Longrightarrow> good k \<Longrightarrow> kept supplied received good k (rd_outside rd k)"
    and start: "start = TCPSpongeSocket_connect \<or> start = TCPSpongeSocket_listen_and_accept"
  shows "case bindE (start K A cfg rnd c_ad rds t s) (\<lambda>(finished, rules, s).
        if finished then TCPSpongeSocket_tcp_main K A rds' t' rules s else Inr (False, s)) of
      Inl e \<Rightarrow> e \<in> insert poll_error (environment_errors K A)
    | Inr (finished, s') \<Rightarrow>
        (\<exists>n \<le> N'. received (ss_kernel s') = map S' [0..<n]) \<and>
        (case ss_tcp s' of None \<Rightarrow> True
         | Some c \<Rightarrow> list_all (seg_sent ((!) (supplied (ss_kernel s'))) (length (supplied (ss_kernel s')))
             (conn_isn (TCPConnection_new cfg rnd))) (tc_segments_out c))"
proof -
  let ?isn = "conn_isn (TCPConnection_new cfg rnd)"
  have fresh: "socket_env.fresh fd dev supplied received good s"
    using s by (simp add: socket_env.fresh_def [OF env])
  have quiet: "\<forall>rd \<in> set rds. \<forall>k. good k \<longrightarrow> kept supplied received good k (rd_outside rd k)"
    "\<forall>rd \<in> set rds'. \<forall>k. good k \<longrightarrow> kept supplied received good k (rd_outside rd k)"
    using rds by simp_all
  have final: "(\<exists>n \<le> N'. received (ss_kernel s') = map S' [0..<n]) \<and>
      (case ss_tcp s' of None \<Rightarrow> True
       | Some c \<Rightarrow> list_all (seg_sent ((!) (supplied (ss_kernel s'))) (length (supplied (ss_kernel s'))) ?isn) (tc_segments_out c))"
    if inv: "socket_env.session_inv supplied received good S' N' isn' ?isn s'" for s' :: "('a, 'k) sponge_socket"
  proof -
    obtain c where c: "good (ss_kernel s')" "ss_tcp s' = Some c \<or> ss_tcp s' = None"
      "streams S' N' isn' ?isn c (supplied (ss_kernel s')) (received (ss_kernel s'))"
      using inv unfolding socket_env.session_inv_def [OF env] by blast
    have "length (supplied (ss_kernel s')) + 2 \<le> seq_limit"
      using socket_kernel.owner [OF socket_env.axioms(1) [OF env] c(1)] .
    then show ?thesis using received_stream [OF c(3)] outgoing_sent [OF c(3)] c(2) by auto
  qed
  consider e where "e \<in> insert poll_error (environment_errors K A)" "start K A cfg rnd c_ad rds t s = Inl e"
    | finished gs s1 where "start K A cfg rnd c_ad rds t s = Inr (finished, map fst gs, s1)"
        "socket_env.socket_inv fd dev supplied received good S' N' isn' ?isn s1" "subseq gs (socket_guards K A)"
    using socket_env.start_safe [OF env fresh cfg quiet(1) start, of rnd c_ad t] by blast
  then show ?thesis
  proof cases
    case 1
    then show ?thesis by simp
  next
    case 2
    consider e where "e \<in> insert poll_error (environment_errors K A)" "TCPSpongeSocket_tcp_main K A rds' t' (map fst gs) s1 = Inl e"
      | finished' s2 where "TCPSpongeSocket_tcp_main K A rds' t' (map fst gs) s1 = Inr (finished', s2)"
          "socket_env.session_inv supplied received good S' N' isn' ?isn s2"
      using socket_env.tcp_main_safe [OF env 2(2) quiet(2) 2(3), of t'] by blast
    then show ?thesis
      using 2(1) final socket_env.socket_session_inv [OF env 2(2)] by cases auto
  qed
qed

text \<open>A socket over a TUN device whose owner has written two bytes and closed its side.\<close>

definition idle_fd :: "int \<Rightarrow> fd_wrapper" where
  "idle_fd n = \<lparr>fdw_fd = n, fdw_eof = False, fdw_closed = False, fdw_read_count = 0, fdw_write_count = 0\<rparr>"

definition adapter_example :: fd_adapter_config where
  "adapter_example = \<lparr>fc_source = ipv4_address 0x0a000001 9, fc_destination = ipv4_address 0x0a000002 80,
     fc_loss_rate_dn = 0, fc_loss_rate_up = 0\<rparr>"

definition session_example :: "(fd_adapter, int \<Rightarrow> channel) sponge_socket" where
  "session_example = \<lparr>ss_owner_fd = idle_fd 4, ss_thread_fd = idle_fd 5, ss_adapter_fd = idle_fd 7,
     ss_adapter = FdAdapterBase_new adapter_example, ss_tcp = None, ss_inbound_shutdown = False,
     ss_outbound_shutdown = False, ss_fully_acked = False,
     ss_kernel = (\<lambda>_. \<lparr>ch_in = [], ch_taken = [], ch_out = []\<rparr>)(5 := \<lparr>ch_in = [[104, 105], []], ch_taken = [], ch_out = []\<rparr>)\<rparr>"

definition round_example :: "(int \<Rightarrow> channel) round" where
  "round_example = \<lparr>rd_outside = id, rd_poll = (\<lambda>pollfds. (2, 0, (\<lambda>i. 0)(1 := 1, 3 := 4))), rd_abort = False, rd_time = 10\<rparr>"

abbreviation example_tun :: "(fd_adapter, int \<Rightarrow> channel) adapter_ops" where
  "example_tun \<equiv> tun_adapter (channel_kernel []) numeric_getaddrinfo numeric_getnameinfo"

theorem socket_delivers_witness:
  "case bindE (TCPSpongeSocket_connect (channel_kernel []) example_tun TCPConfig_default 7 adapter_example
        [round_example, round_example] 0 session_example) (\<lambda>(finished, rules, s).
        if finished then TCPSpongeSocket_tcp_main (channel_kernel []) example_tun [round_example] 20 rules s else Inr (False, s)) of
      Inl e \<Rightarrow> e \<in> insert poll_error (environment_errors (channel_kernel []) example_tun)
    | Inr (finished, s') \<Rightarrow>
        (\<exists>n \<le> 1000000. ch_out (ss_kernel s' 5) = map of_nat [0..<n]) \<and>
        (case ss_tcp s' of None \<Rightarrow> True
         | Some c \<Rightarrow> list_all (seg_sent ((!) (ch_taken (ss_kernel s' 5))) (length (ch_taken (ss_kernel s' 5)))
             (conn_isn (TCPConnection_new TCPConfig_default 7))) (tc_segments_out c))"
proof -
  have "kept (\<lambda>k. ch_taken (k 5)) (\<lambda>k. ch_out (k 5)) good k (rd_outside rd k)"
    if "rd \<in> set ([round_example, round_example] @ [round_example])" "good k" for rd good k
    using that by (auto simp: round_example_def kept_def)
  note quiet = this
  show ?thesis
    by (rule socket_delivers [OF tun.socket_env_axioms [where S' = of_nat and isn' = "WrappingInt32 5"] _ _ _ _ _ _ _ _ quiet])
      (simp_all add: session_example_def idle_fd_def channels_good_def TCPConfig_default_def)
qed

section \<open>A reset with undelivered bytes\<close>

text \<open>
  C39. A reset while bytes for the owner are still buffered.  When the owner takes only a part of the
  bytes, rule 3 nevertheless shuts down the socket pair for writing, because the inbound stream has an
  error.  The rule stays interested in the rest, and the next time it runs it writes to a socket that is
  shut down: if the kernel refuses that, as it does with \<open>EPIPE\<close>, the exception ends the thread.
\<close>

theorem reset_writes_after_shutdown:
  assumes s: "ss_tcp s = Some c" "bs_error (TCPConnection_inbound_stream c)"
    and buf: "length (bs_buf (TCPConnection_inbound_stream c)) \<le> 65536"
    and part: "sys_writev K (fdw_fd (ss_thread_fd s)) (ss_kernel s) [(bs_buf (TCPConnection_inbound_stream c),
        length (bs_buf (TCPConnection_inbound_stream c)))] = (int n, 0, k1)"
      "0 < n" "n < length (bs_buf (TCPConnection_inbound_stream c))"
    and shut: "sys_shutdown K (fdw_fd (ss_thread_fd s)) SHUT_WR k1 = ((0, 0), k2)"
    and epipe: "\<And>iovecs. sys_writev K (fdw_fd (ss_thread_fd s)) k2 iovecs = (- 1, 32, k2)"
  shows "\<exists>s'. rule3_callback K s = Inr s' \<and> ss_inbound_shutdown s' \<and> rule3_interest s' \<and>
    rule3_callback K s' = Inl (RuntimeError ''writev'')"
proof -
  let ?b = "TCPConnection_inbound_stream c" and ?w = "ss_thread_fd s"
  let ?c = "TCPConnection_pop_inbound c n"
  let ?w1 = "FileDescriptor_register_write (FileDescriptor_register_write ?w)"
  let ?s = "s\<lparr>ss_tcp := Some ?c, ss_thread_fd := ?w1, ss_kernel := k2, ss_inbound_shutdown := True\<rparr>"
  have in': "TCPConnection_inbound_stream ?c = ByteStream_pop_output ?b n"
    by (simp add: TCPConnection_pop_inbound_def TCPConnection_inbound_stream_def TCPReceiver_stream_out_def Let_def)
  have rest: "bs_buf (ByteStream_pop_output ?b n) \<noteq> []" "bs_error (ByteStream_pop_output ?b n)"
    using part(2,3) s(2) by (simp_all add: ByteStream_pop_output_def Let_def)
  have size: "BufferViewList_size [bs_buf ?b] = length (bs_buf ?b)" using buf by (simp add: BufferViewList_size_eq)
  have peek: "ByteStream_peek_output st (min 65536 (ByteStream_buffer_size st)) = take 65536 (bs_buf st)" for st
    by (simp add: ByteStream_peek_output_def ByteStream_buffer_size_def min_def)
  have "fd_write K ?w (BufferViewList_of_string (bs_buf ?b)) False (ss_kernel s) = Inr (n, k1, FileDescriptor_register_write ?w)"
    using part size buf
    by (simp add: fd_write_def FileDescriptor_write_def BufferViewList_of_string_def fd_write_loop.simps
        BufferViewList_as_iovecs_def SystemCall_def ssize_def)
  then have "rule3_callback K s = Inr ?s"
    using s buf shut rest(2)
    by (simp add: rule3_callback_def socket_tcp_def Let_def peek in' Socket_shutdown_def SystemCall_def
        FileDescriptor_register_write_def)
  moreover have "rule3_interest ?s"
    using rest(1) by (simp add: rule3_interest_def tcp_holds_def in' ByteStream_buffer_empty_def Let_def)
  moreover have "rule3_callback K ?s = Inl (RuntimeError ''writev'')"
    using epipe
    by (simp add: rule3_callback_def socket_tcp_def Let_def peek in' fd_write_def FileDescriptor_write_def
        FileDescriptor_register_write_def BufferViewList_of_string_def)
      (subst fd_write_loop.simps, simp add: SystemCall_def)
  ultimately show ?thesis by (intro exI [of _ ?s]) simp
qed

text \<open>An owner that has room for one of two bytes; the state of the kernel is whether the pair is shut down.\<close>

definition full_kernel :: "bool kernel" where
  "full_kernel =
     \<lparr>sys_read = (\<lambda>fd n k. ((0, 0, []), k)), sys_writev = (\<lambda>fd k iovecs. if k then (- 1, 32, k) else (1, 0, k)),
      sys_shutdown = (\<lambda>fd how k. ((0, 0), True)), sys_recvfrom = (\<lambda>fd n k. ((0, 0, [], [], 0), k)),
      sys_sendmsg = (\<lambda>fd to iovecs k. ((0, 0), k))\<rparr>"

definition reset_connection :: tcp_connection where
  "reset_connection =
     (let c = TCPConnection_new TCPConfig_default 0; r = tc_receiver c; q = rcv_reassembler r;
          out = (sr_output q)\<lparr>bs_buf := [1, 2], bs_bytes_written := 2\<rparr>
      in TCPConnection_shutdown (c\<lparr>tc_receiver := r\<lparr>rcv_reassembler := q\<lparr>sr_output := out\<rparr>\<rparr>\<rparr>) False)"

definition reset_example :: "(fd_adapter, bool) sponge_socket" where
  "reset_example = \<lparr>ss_owner_fd = idle_fd 4, ss_thread_fd = idle_fd 5, ss_adapter_fd = idle_fd 7,
     ss_adapter = FdAdapterBase_new adapter_example, ss_tcp = Some reset_connection, ss_inbound_shutdown = False,
     ss_outbound_shutdown = False, ss_fully_acked = False, ss_kernel = False\<rparr>"

theorem reset_writes_after_shutdown_witness:
  "\<exists>s'. rule3_callback full_kernel reset_example = Inr s' \<and> ss_inbound_shutdown s' \<and> rule3_interest s' \<and>
    rule3_callback full_kernel s' = Inl (RuntimeError ''writev'')"
proof -
  have "TCPConnection_inbound_stream reset_connection =
      \<lparr>bs_buf = [1, 2], bs_capacity = 64000, bs_bytes_written = 2, bs_bytes_read = 0, bs_input_ended = False, bs_error = True\<rparr>"
    by (simp add: reset_connection_def TCPConnection_shutdown_def TCPConnection_new_def TCPReceiver_new_def
        StreamReassembler_new_def ByteStream_new_def ByteStream_set_error_def TCPConnection_inbound_stream_def
        TCPReceiver_stream_out_def TCPConfig_default_def Let_def)
  then show ?thesis
    by (intro reset_writes_after_shutdown [where c = reset_connection and n = 1 and ?k1.0 = False and ?k2.0 = True])
      (simp_all add: reset_example_def full_kernel_def)
qed

end
