(* ===== verification/Stream_Copy.thy ===== *)
theory Stream_Copy
  imports Socket_Sessions
begin

text \<open>
  Copying between standard input and output and a socket, \<open>apps/bidirectional_stream_copy.cc\<close>: the
  main loop of the command-line programs.  Two byte streams of bounded capacity decouple the two ends; four
  rules of an event loop move the bytes.
\<close>

section \<open>The program\<close>

abbreviation (input) max_copy_length :: size_t where "max_copy_length \<equiv> 65536"
abbreviation (input) copy_buffer_size :: size_t where "copy_buffer_size \<equiv> 1048576"

record 'k copy_state =
  cp_socket :: fd_wrapper
  cp_input :: fd_wrapper
  cp_output :: fd_wrapper
  cp_outbound :: byte_stream
  cp_inbound :: byte_stream
  cp_outbound_shutdown :: bool
  cp_inbound_shutdown :: bool
  cp_kernel :: 'k

type_synonym 'k close = "int \<Rightarrow> 'k \<Rightarrow> answer \<times> 'k"

definition fd_close :: "'k close \<Rightarrow> fd_wrapper \<Rightarrow> 'k \<Rightarrow> (fd_wrapper \<times> 'k) result" where
  "fd_close sys_close w k =
     (let (answer, k) = sys_close (fdw_fd w) k in bindE (FDWrapper_close answer w) (\<lambda>w. Inr (w, k)))"

text \<open>Rule 1: from standard input into the outbound stream.\<close>

definition copy_end_outbound :: "'k copy_state \<Rightarrow> 'k copy_state result" where
  "copy_end_outbound s = Inr (s\<lparr>cp_outbound := ByteStream_end_input (cp_outbound s)\<rparr>)"

definition copy1_callback :: "'k kernel \<Rightarrow> 'k copy_state \<Rightarrow> 'k copy_state result" where
  "copy1_callback K s =
     bindE (fd_read K (cp_input s) (ByteStream_remaining_capacity (cp_outbound s)) (cp_kernel s)) (\<lambda>(data, w, k).
       let s = s\<lparr>cp_input := w, cp_kernel := k, cp_outbound := snd (ByteStream_write (cp_outbound s) data)\<rparr>
       in if fdw_eof w then Inr (s\<lparr>cp_outbound := ByteStream_end_input (cp_outbound s)\<rparr>) else Inr s)"

definition copy1_interest :: "'k copy_state \<Rightarrow> bool" where
  "copy1_interest s \<longleftrightarrow>
     \<not> bs_error (cp_outbound s) \<and> 0 < ByteStream_remaining_capacity (cp_outbound s) \<and> \<not> bs_error (cp_inbound s)"

text \<open>Rule 2: from the outbound stream into the socket.\<close>

definition copy2_callback :: "'k kernel \<Rightarrow> 'k copy_state \<Rightarrow> 'k copy_state result" where
  "copy2_callback K s =
     (let bytes_to_write = min max_copy_length (ByteStream_buffer_size (cp_outbound s));
          buffer = ByteStream_peek_output (cp_outbound s) bytes_to_write
      in bindE (fd_write K (cp_socket s) (BufferViewList_of_string buffer) False (cp_kernel s)) (\<lambda>(bytes_written, k, w).
           let s = s\<lparr>cp_socket := w, cp_kernel := k, cp_outbound := ByteStream_pop_output (cp_outbound s) bytes_written\<rparr>
           in if ByteStream_eof (cp_outbound s)
              then bindE (Socket_shutdown K w SHUT_WR k) (\<lambda>(w, k).
                     Inr (s\<lparr>cp_socket := w, cp_kernel := k, cp_outbound_shutdown := True\<rparr>))
              else Inr s))"

definition copy2_interest :: "'k copy_state \<Rightarrow> bool" where
  "copy2_interest s \<longleftrightarrow>
     \<not> ByteStream_buffer_empty (cp_outbound s) \<or> ByteStream_eof (cp_outbound s) \<and> \<not> cp_outbound_shutdown s"

text \<open>Rule 3: from the socket into the inbound stream.\<close>

definition copy_end_inbound :: "'k copy_state \<Rightarrow> 'k copy_state result" where
  "copy_end_inbound s = Inr (s\<lparr>cp_inbound := ByteStream_end_input (cp_inbound s)\<rparr>)"

definition copy3_callback :: "'k kernel \<Rightarrow> 'k copy_state \<Rightarrow> 'k copy_state result" where
  "copy3_callback K s =
     bindE (fd_read K (cp_socket s) (ByteStream_remaining_capacity (cp_inbound s)) (cp_kernel s)) (\<lambda>(data, w, k).
       let s = s\<lparr>cp_socket := w, cp_kernel := k, cp_inbound := snd (ByteStream_write (cp_inbound s) data)\<rparr>
       in if fdw_eof w then Inr (s\<lparr>cp_inbound := ByteStream_end_input (cp_inbound s)\<rparr>) else Inr s)"

definition copy3_interest :: "'k copy_state \<Rightarrow> bool" where
  "copy3_interest s \<longleftrightarrow>
     \<not> bs_error (cp_inbound s) \<and> 0 < ByteStream_remaining_capacity (cp_inbound s) \<and> \<not> bs_error (cp_outbound s)"

text \<open>Rule 4: from the inbound stream into standard output.\<close>

definition copy4_callback :: "'k kernel \<Rightarrow> 'k close \<Rightarrow> 'k copy_state \<Rightarrow> 'k copy_state result" where
  "copy4_callback K sys_close s =
     (let bytes_to_write = min max_copy_length (ByteStream_buffer_size (cp_inbound s));
          buffer = ByteStream_peek_output (cp_inbound s) bytes_to_write
      in bindE (fd_write K (cp_output s) (BufferViewList_of_string buffer) False (cp_kernel s)) (\<lambda>(bytes_written, k, w).
           let s = s\<lparr>cp_output := w, cp_kernel := k, cp_inbound := ByteStream_pop_output (cp_inbound s) bytes_written\<rparr>
           in if ByteStream_eof (cp_inbound s)
              then bindE (fd_close sys_close w k) (\<lambda>(w, k).
                     Inr (s\<lparr>cp_output := w, cp_kernel := k, cp_inbound_shutdown := True\<rparr>))
              else Inr s))"

definition copy4_interest :: "'k copy_state \<Rightarrow> bool" where
  "copy4_interest s \<longleftrightarrow>
     \<not> ByteStream_buffer_empty (cp_inbound s) \<or> ByteStream_eof (cp_inbound s) \<and> \<not> cp_inbound_shutdown s"

definition copy_rules :: "'k kernel \<Rightarrow> 'k close \<Rightarrow> 'k copy_state event_rule list" where
  "copy_rules K sys_close =
     (let rules = EventLoop_add_rule [] cp_input In (copy1_callback K) copy1_interest copy_end_outbound;
          rules = EventLoop_add_rule rules cp_socket Out (copy2_callback K) copy2_interest copy_end_outbound;
          rules = EventLoop_add_rule rules cp_socket In (copy3_callback K) copy3_interest copy_end_inbound
      in EventLoop_add_rule rules cp_output Out (copy4_callback K sys_close) copy4_interest copy_end_inbound)"

text \<open>
  The loop, over a list of rounds: what happened to the kernel since the last one, and the answer of
  \<open>poll\<close>.  It is finished when the result of a round is \<open>Exit\<close>.
\<close>

fun copy_loop ::
  "(('k \<Rightarrow> 'k) \<times> poll) list \<Rightarrow> 'k copy_state event_rule list \<Rightarrow> 'k copy_state \<Rightarrow> (bool \<times> 'k copy_state) result" where
  "copy_loop [] rules s = Inr (False, s)"
| "copy_loop ((outside, poll) # rds) rules s =
     bindE (EventLoop_wait_next_event poll rules (s\<lparr>cp_kernel := outside (cp_kernel s)\<rparr>)) (\<lambda>(res, rules, s).
       if res = Exit then Inr (True, s) else copy_loop rds rules s)"

type_synonym blocking_answers = "answer \<times> (u32 \<Rightarrow> answer)"

definition bidirectional_stream_copy ::
  "'k kernel \<Rightarrow> 'k close \<Rightarrow> blocking_answers \<Rightarrow> blocking_answers \<Rightarrow> blocking_answers \<Rightarrow> (('k \<Rightarrow> 'k) \<times> poll) list \<Rightarrow>
     fd_wrapper \<Rightarrow> 'k \<Rightarrow> (bool \<times> 'k copy_state) result" where
  "bidirectional_stream_copy K sys_close fl_socket fl_input fl_output rds socket k =
     bindE (FDWrapper_new 0) (\<lambda>input.
     bindE (FDWrapper_new 1) (\<lambda>output.
     bindE (FileDescriptor_set_blocking (fst fl_socket) (snd fl_socket) False) (\<lambda>_.
     bindE (FileDescriptor_set_blocking (fst fl_input) (snd fl_input) False) (\<lambda>_.
     bindE (FileDescriptor_set_blocking (fst fl_output) (snd fl_output) False) (\<lambda>_.
       copy_loop rds (copy_rules K sys_close)
         \<lparr>cp_socket = socket, cp_input = input, cp_output = output,
          cp_outbound = ByteStream_new copy_buffer_size, cp_inbound = ByteStream_new copy_buffer_size,
          cp_outbound_shutdown = False, cp_inbound_shutdown = False, cp_kernel = k\<rparr>)))))"

section \<open>The kernel\<close>

text \<open>
  \<open>taken fd\<close> are the bytes read from a descriptor and \<open>given fd\<close> the bytes written to it.  A call on one
  descriptor leaves the bytes of the others alone, and \<open>shutdown\<close> and \<open>close\<close> move no bytes.
\<close>

definition same_bytes :: "(int \<Rightarrow> 'k \<Rightarrow> byte list) \<Rightarrow> (int \<Rightarrow> 'k \<Rightarrow> byte list) \<Rightarrow> int set \<Rightarrow> 'k \<Rightarrow> 'k \<Rightarrow> bool" where
  "same_bytes taken given fds k k' \<longleftrightarrow> (\<forall>fd \<in> fds. taken fd k' = taken fd k \<and> given fd k' = given fd k)"

lemma fd_writeE:
  assumes "fd_write K w (BufferViewList_of_string buf) False k = Inr (n, k', w')"
  obtains iovecs ret errno where "sys_writev K (fdw_fd w) k iovecs = (ret, errno, k')"
proof -
  obtain ret errno k1 where s: "sys_writev K (fdw_fd w) k [(buf, length buf)] = (ret, errno, k1)"
    by (metis prod.exhaust)
  have "k' = k1" using assms s
    by (simp add: fd_write_def FileDescriptor_write_def BufferViewList_of_string_def)
      (subst (asm) fd_write_loop.simps, auto simp: BufferViewList_as_iovecs_def split: if_splits)
  then show ?thesis using s that by blast
qed

section \<open>Lanes\<close>

text \<open>
  One direction: \<open>t\<close> was taken from the source, \<open>g\<close> was given to the destination, and the stream holds what
  comes next.  Bytes read after the input of the stream was ended are dropped.
\<close>

definition lane :: "byte_stream \<Rightarrow> byte list \<Rightarrow> byte list \<Rightarrow> bool" where
  "lane b t g \<longleftrightarrow> bs_wf b \<and> bs_capacity b = copy_buffer_size \<and> prefix (g @ bs_buf b) t \<and>
     (\<not> bs_input_ended b \<longrightarrow> g @ bs_buf b = t)"

lemma lane_new: "lane (ByteStream_new copy_buffer_size) [] []"
  by (simp add: lane_def) (simp add: ByteStream_new_def)

lemma lane_end: "lane b t g \<Longrightarrow> lane (ByteStream_end_input b) t g"
  by (simp add: lane_def)

lemma lane_write:
  assumes "lane b t g" "length d \<le> ByteStream_remaining_capacity b"
  shows "lane (snd (ByteStream_write b d)) (t @ d) g"
  using assms
  by (auto simp: lane_def bs.wr_wf bs.wr_contents bs.wr_count remaining_capacity_wf prefix_def)

lemma lane_pop: "lane b t g \<Longrightarrow> lane (ByteStream_pop_output b n) t (g @ take n (bs_buf b))"
  by (simp add: lane_def bs_wf_pop)

lemma laneD:
  "lane b t g \<Longrightarrow> prefix g t \<and> (\<not> bs_input_ended b \<longrightarrow> t = g @ bs_buf b) \<and> length (bs_buf b) \<le> copy_buffer_size"
  by (auto simp: lane_def bs_wf_def dest: append_prefixD)

text \<open>The errors of the system calls.\<close>

definition copy_errors :: "'k kernel \<Rightarrow> 'k close \<Rightarrow> cpp_error set" where
  "copy_errors K sys_close = {e. (\<exists>w n k. fd_read K w n k = Inl e) \<or> (\<exists>w b k. fd_write K w b False k = Inl e) \<or>
     (\<exists>w how k. Socket_shutdown K w how k = Inl e) \<or> (\<exists>w k. fd_close sys_close w k = Inl e)}"

locale copy_kernel =
  fixes K :: "'k kernel" and sys_close :: "'k close" and sock :: int
    and taken given :: "int \<Rightarrow> 'k \<Rightarrow> byte list" and good :: "'k \<Rightarrow> bool"
  assumes socket_fd: "sock \<noteq> 0" "sock \<noteq> 1"
    and channel: "fd \<in> {0, 1, sock} \<Longrightarrow> byte_channel K fd (taken fd) (given fd) good"
    and read_frame: "good k \<Longrightarrow> sys_read K fd n k = (answer, k') \<Longrightarrow> same_bytes taken given (- {fd}) k k'"
    and write_frame: "good k \<Longrightarrow> sys_writev K fd k iovecs = (ret, errno, k') \<Longrightarrow> same_bytes taken given (- {fd}) k k'"
    and shutdown_frame: "good k \<Longrightarrow> sys_shutdown K fd how k = (answer', k') \<Longrightarrow> same_bytes taken given UNIV k k' \<and> good k'"
    and close_frame: "good k \<Longrightarrow> sys_close fd k = (answer', k') \<Longrightarrow> same_bytes taken given UNIV k k' \<and> good k'"
begin

definition copy_inv :: "'k copy_state \<Rightarrow> bool" where
  "copy_inv s \<longleftrightarrow> good (cp_kernel s) \<and>
     fdw_fd (cp_socket s) = sock \<and> fdw_fd (cp_input s) = 0 \<and> fdw_fd (cp_output s) = 1 \<and>
     lane (cp_outbound s) (taken 0 (cp_kernel s)) (given sock (cp_kernel s)) \<and>
     lane (cp_inbound s) (taken sock (cp_kernel s)) (given 1 (cp_kernel s))"

lemma read_copy:
  assumes "good k" "fdw_fd w = fd" "fd \<in> {0, 1, sock}" "fd_read K w n k = Inr (data, w', k')"
  shows "good k'" "fdw_fd w' = fd" "length data \<le> n" "fdw_read_count w' \<noteq> fdw_read_count w"
    "taken fd k' = taken fd k @ data" "given fd k' = given fd k" "same_bytes taken given (- {fd}) k k'"
proof -
  note r = byte_channel.read_thread [OF channel [OF assms(3)] assms(1,2,4)]
  show "good k'" "fdw_fd w' = fd" "length data \<le> n" "fdw_read_count w' \<noteq> fdw_read_count w"
    "taken fd k' = taken fd k @ data" "given fd k' = given fd k"
    using r by simp_all
  show "same_bytes taken given (- {fd}) k k'"
    using assms(4) read_frame [OF assms(1)] assms(2) by (elim fd_readE) blast
qed

lemma write_copy:
  assumes "good k" "fdw_fd w = fd" "fd \<in> {0, 1, sock}" "length buf \<le> 65536"
    and "fd_write K w (BufferViewList_of_string buf) False k = Inr (n, k', w')"
  shows "good k'" "fdw_fd w' = fd" "n \<le> length buf" "fdw_write_count w' = fdw_write_count w + 1"
    "taken fd k' = taken fd k" "given fd k' = given fd k @ take n buf" "same_bytes taken given (- {fd}) k k'"
proof -
  note r = byte_channel.write_thread [OF channel [OF assms(3)] assms(1,2,4,5)]
  show "good k'" "fdw_fd w' = fd" "n \<le> length buf" "fdw_write_count w' = fdw_write_count w + 1"
    "taken fd k' = taken fd k" "given fd k' = given fd k @ take n buf"
    using r by simp_all
  show "same_bytes taken given (- {fd}) k k'"
    using assms(5) write_frame [OF assms(1)] assms(2) by (elim fd_writeE) blast
qed

lemma shutdown_copy:
  assumes "good k" "Socket_shutdown K w SHUT_WR k = Inr (w', k')"
  shows "good k'" "same_bytes taken given UNIV k k'" "fdw_fd w' = fdw_fd w" "fdw_write_count w' = fdw_write_count w + 1"
proof -
  obtain ret errno k1 where s: "sys_shutdown K (fdw_fd w) SHUT_WR k = ((ret, errno), k1)" by (metis prod.exhaust)
  have "k' = k1 \<and> w' = FileDescriptor_register_write w" using assms(2) s
    by (cases "SystemCall ''shutdown'' ret errno 0") (auto simp: Socket_shutdown_def)
  then show "good k'" "same_bytes taken given UNIV k k'" "fdw_fd w' = fdw_fd w" "fdw_write_count w' = fdw_write_count w + 1"
    using shutdown_frame [OF assms(1) s] by (simp_all add: FileDescriptor_register_write_def)
qed

lemma close_copy:
  assumes "good k" "fd_close sys_close w k = Inr (w', k')"
  shows "good k'" "same_bytes taken given UNIV k k'" "fdw_fd w' = fdw_fd w" "fdw_write_count w' = fdw_write_count w"
proof -
  obtain answer k1 where s: "sys_close (fdw_fd w) k = (answer, k1)" by (metis prod.exhaust)
  have "k' = k1 \<and> fdw_fd w' = fdw_fd w \<and> fdw_write_count w' = fdw_write_count w" using assms(2) s
    by (auto simp: fd_close_def FDWrapper_close_def split: prod.splits)
  then show "good k'" "same_bytes taken given UNIV k k'" "fdw_fd w' = fdw_fd w" "fdw_write_count w' = fdw_write_count w"
    using close_frame [OF assms(1) s] by simp_all
qed

section \<open>The rules keep the invariant\<close>

lemma copy_read_safe:
  assumes "copy_inv s"
  shows "outcome (copy_errors K sys_close) (\<lambda>s'. copy_inv s' \<and> fdw_read_count (cp_input s') \<noteq> fdw_read_count (cp_input s)) (copy1_callback K s)"
    and "outcome (copy_errors K sys_close) (\<lambda>s'. copy_inv s' \<and> fdw_read_count (cp_socket s') \<noteq> fdw_read_count (cp_socket s)) (copy3_callback K s)"
proof -
  let ?k = "cp_kernel s"
  have inv: "good ?k" "fdw_fd (cp_socket s) = sock" "fdw_fd (cp_input s) = 0" "fdw_fd (cp_output s) = 1"
    "lane (cp_outbound s) (taken 0 ?k) (given sock ?k)" "lane (cp_inbound s) (taken sock ?k) (given 1 ?k)"
    using assms by (simp_all add: copy_inv_def)
  show "outcome (copy_errors K sys_close) (\<lambda>s'. copy_inv s' \<and> fdw_read_count (cp_input s') \<noteq> fdw_read_count (cp_input s)) (copy1_callback K s)"
  proof (cases "fd_read K (cp_input s) (ByteStream_remaining_capacity (cp_outbound s)) ?k")
    case (Inl e)
    then show ?thesis by (auto simp: copy1_callback_def copy_errors_def)
  next
    case (Inr t)
    obtain data w k where t: "t = (data, w, k)" by (cases t)
    note r = read_copy [OF inv(1,3) _ Inr [unfolded t], simplified]
    have "taken 0 k = taken 0 ?k @ data" "given sock k = given sock ?k" "taken sock k = taken sock ?k" "given 1 k = given 1 ?k"
      using r(5,6,7) socket_fd by (auto simp: same_bytes_def)
    then show ?thesis using Inr t r(1-4) inv lane_write [OF inv(5) r(3)] lane_end
      by (simp add: copy1_callback_def copy_inv_def Let_def)
  qed
  show "outcome (copy_errors K sys_close) (\<lambda>s'. copy_inv s' \<and> fdw_read_count (cp_socket s') \<noteq> fdw_read_count (cp_socket s)) (copy3_callback K s)"
  proof (cases "fd_read K (cp_socket s) (ByteStream_remaining_capacity (cp_inbound s)) ?k")
    case (Inl e)
    then show ?thesis by (auto simp: copy3_callback_def copy_errors_def)
  next
    case (Inr t)
    obtain data w k where t: "t = (data, w, k)" by (cases t)
    note r = read_copy [OF inv(1,2) _ Inr [unfolded t], simplified]
    have "taken sock k = taken sock ?k @ data" "given sock k = given sock ?k" "taken 0 k = taken 0 ?k" "given 1 k = given 1 ?k"
      using r(5,6,7) socket_fd by (auto simp: same_bytes_def)
    then show ?thesis using Inr t r(1-4) inv lane_write [OF inv(6) r(3)] lane_end
      by (simp add: copy3_callback_def copy_inv_def Let_def)
  qed
qed

lemma peek_at_most:
  "ByteStream_peek_output b (min max_copy_length (ByteStream_buffer_size b)) = take max_copy_length (bs_buf b)"
  by (simp add: ByteStream_peek_output_def ByteStream_buffer_size_def min_def)

lemma copy2_safe:
  assumes "copy_inv s"
  shows "outcome (copy_errors K sys_close) (\<lambda>s'. copy_inv s' \<and> fdw_write_count (cp_socket s') \<noteq> fdw_write_count (cp_socket s)) (copy2_callback K s)"
proof -
  let ?k = "cp_kernel s" and ?buf = "take max_copy_length (bs_buf (cp_outbound s))"
  have inv: "good ?k" "fdw_fd (cp_socket s) = sock" "fdw_fd (cp_input s) = 0" "fdw_fd (cp_output s) = 1"
    "lane (cp_outbound s) (taken 0 ?k) (given sock ?k)" "lane (cp_inbound s) (taken sock ?k) (given 1 ?k)"
    using assms by (simp_all add: copy_inv_def)
  show ?thesis
  proof (cases "fd_write K (cp_socket s) (BufferViewList_of_string ?buf) False ?k")
    case (Inl e)
    then show ?thesis by (auto simp: copy2_callback_def copy_errors_def peek_at_most)
  next
    case (Inr t)
    obtain n k w where t: "t = (n, k, w)" by (cases t)
    note r = write_copy [OF inv(1,2) _ _ Inr [unfolded t], simplified]
    define s1 where "s1 = s\<lparr>cp_socket := w, cp_kernel := k, cp_outbound := ByteStream_pop_output (cp_outbound s) n\<rparr>"
    have "taken sock k = taken sock ?k" "given sock k = given sock ?k @ take n (bs_buf (cp_outbound s))"
      "taken 0 k = taken 0 ?k" "given 1 k = given 1 ?k"
      using r(3,5,6,7) socket_fd by (auto simp: same_bytes_def min_def)
    then have s1: "copy_inv s1" using r(1,2) inv lane_pop [OF inv(5), of n] by (simp add: s1_def copy_inv_def)
    have eq: "copy2_callback K s = (if ByteStream_eof (cp_outbound s1)
        then bindE (Socket_shutdown K w SHUT_WR k) (\<lambda>(w, k). Inr (s1\<lparr>cp_socket := w, cp_kernel := k, cp_outbound_shutdown := True\<rparr>))
        else Inr s1)"
      using Inr t by (simp add: copy2_callback_def peek_at_most s1_def Let_def)
    show ?thesis
    proof (cases "ByteStream_eof (cp_outbound s1)")
      case False
      then show ?thesis using eq s1 r(4) by (simp add: s1_def)
    next
      case True
      show ?thesis
      proof (cases "Socket_shutdown K w SHUT_WR k")
        case (Inl e)
        then show ?thesis using eq True by (auto simp: copy_errors_def)
      next
        case (Inr t)
        obtain w2 k2 where t: "t = (w2, k2)" by (cases t)
        note sh = shutdown_copy [OF r(1) Inr [unfolded t]]
        have "fdw_write_count w2 = fdw_write_count (cp_socket s) + 2" using sh(4) r(4) by simp
        then have "fdw_write_count w2 \<noteq> fdw_write_count (cp_socket s)" by simp
        then show ?thesis using eq True Inr t sh(1-3) s1 r(2)
          by (simp add: copy_inv_def s1_def same_bytes_def)
      qed
    qed
  qed
qed

lemma copy4_safe:
  assumes "copy_inv s"
  shows "outcome (copy_errors K sys_close) (\<lambda>s'. copy_inv s' \<and> fdw_write_count (cp_output s') \<noteq> fdw_write_count (cp_output s)) (copy4_callback K sys_close s)"
proof -
  let ?k = "cp_kernel s" and ?buf = "take max_copy_length (bs_buf (cp_inbound s))"
  have inv: "good ?k" "fdw_fd (cp_socket s) = sock" "fdw_fd (cp_input s) = 0" "fdw_fd (cp_output s) = 1"
    "lane (cp_outbound s) (taken 0 ?k) (given sock ?k)" "lane (cp_inbound s) (taken sock ?k) (given 1 ?k)"
    using assms by (simp_all add: copy_inv_def)
  show ?thesis
  proof (cases "fd_write K (cp_output s) (BufferViewList_of_string ?buf) False ?k")
    case (Inl e)
    then show ?thesis by (auto simp: copy4_callback_def copy_errors_def peek_at_most)
  next
    case (Inr t)
    obtain n k w where t: "t = (n, k, w)" by (cases t)
    note r = write_copy [OF inv(1,4) _ _ Inr [unfolded t], simplified]
    define s1 where "s1 = s\<lparr>cp_output := w, cp_kernel := k, cp_inbound := ByteStream_pop_output (cp_inbound s) n\<rparr>"
    have "taken sock k = taken sock ?k" "given sock k = given sock ?k"
      "taken 0 k = taken 0 ?k" "given 1 k = given 1 ?k @ take n (bs_buf (cp_inbound s))"
      using r(3,5,6,7) socket_fd by (auto simp: same_bytes_def min_def)
    then have s1: "copy_inv s1" using r(1,2) inv lane_pop [OF inv(6), of n] by (simp add: s1_def copy_inv_def)
    have eq: "copy4_callback K sys_close s = (if ByteStream_eof (cp_inbound s1)
        then bindE (fd_close sys_close w k) (\<lambda>(w, k). Inr (s1\<lparr>cp_output := w, cp_kernel := k, cp_inbound_shutdown := True\<rparr>))
        else Inr s1)"
      using Inr t by (simp add: copy4_callback_def peek_at_most s1_def Let_def)
    show ?thesis
    proof (cases "ByteStream_eof (cp_inbound s1)")
      case False
      then show ?thesis using eq s1 r(4) by (simp add: s1_def)
    next
      case True
      show ?thesis
      proof (cases "fd_close sys_close w k")
        case (Inl e)
        then show ?thesis using eq True by (auto simp: copy_errors_def)
      next
        case (Inr t)
        obtain w2 k2 where t: "t = (w2, k2)" by (cases t)
        note sh = close_copy [OF r(1) Inr [unfolded t]]
        then show ?thesis using eq True Inr t s1 r(2,4)
          by (simp add: copy_inv_def s1_def same_bytes_def)
      qed
    qed
  qed
qed

lemma copy_end_safe:
  "copy_inv s \<Longrightarrow> outcome E copy_inv (copy_end_outbound s)"
  "copy_inv s \<Longrightarrow> outcome E copy_inv (copy_end_inbound s)"
  by (simp_all add: copy_end_outbound_def copy_end_inbound_def copy_inv_def lane_end)

lemma outcome_served:
  "outcome E (\<lambda>s'. I s' \<and> count s' \<noteq> n) res \<Longrightarrow> outcome E (\<lambda>s'. I s' \<and> (count s' \<noteq> n \<or> \<not> i s')) res"
  by (auto simp: outcome_def split: sum.splits)

definition copy_guards :: "'k copy_state guarded_rule list" where
  "copy_guards = map (\<lambda>r. (r, \<lambda>s. True)) (copy_rules K sys_close)"

lemma copy_rules_safe: "rules_safe copy_inv (copy_errors K sys_close) copy_guards"
proof -
  have [simp]: "keeps_guard I (\<lambda>s. True) f" for I and f :: "'k copy_state \<Rightarrow> 'k copy_state result"
    by (simp add: keeps_guard_def outcome_def split: sum.split)
  show ?thesis
    unfolding rules_safe_def
  proof
    show "\<forall>rg \<in> set copy_guards. rule_safe copy_inv (copy_errors K sys_close) rg"
      using copy_read_safe [THEN outcome_served] copy2_safe [THEN outcome_served] copy4_safe [THEN outcome_served] copy_end_safe
      by (simp add: copy_guards_def copy_rules_def EventLoop_add_rule_def rule_safe_def Rule_service_count_def)
  qed (simp add: copy_guards_def copy_rules_def EventLoop_add_rule_def)
qed

lemma copy_loop_safe:
  assumes "copy_inv s" "\<forall>(outside, poll) \<in> set rds. \<forall>k. good k \<longrightarrow> same_bytes taken given UNIV k (outside k) \<and> good (outside k)"
    and "subseq gs copy_guards"
  shows "(\<exists>e \<in> insert poll_error (copy_errors K sys_close). copy_loop rds (map fst gs) s = Inl e) \<or>
    (\<exists>finished s'. copy_loop rds (map fst gs) s = Inr (finished, s') \<and> copy_inv s')"
  using assms
proof (induction rds arbitrary: gs s)
  case (Cons rd rds)
  obtain outside poll where rd: "rd = (outside, poll)" by (cases rd)
  let ?s = "s\<lparr>cp_kernel := outside (cp_kernel s)\<rparr>"
  have inv: "copy_inv ?s" using Cons.prems(1,2) rd by (auto simp: copy_inv_def same_bytes_def)
  have safe: "rules_safe copy_inv (copy_errors K sys_close) gs" using rules_safe_subseq [OF Cons.prems(3) copy_rules_safe] .
  consider e where "e \<in> insert poll_error (copy_errors K sys_close)" "EventLoop_wait_next_event poll (map fst gs) ?s = Inl e"
    | res gs1 s1 where "EventLoop_wait_next_event poll (map fst gs) ?s = Inr (res, map fst gs1, s1)" "copy_inv s1" "subseq gs1 gs"
    using wait_next_event_safe [OF safe inv, of poll] by blast
  then show ?case
  proof cases
    case 1
    then show ?thesis using rd by auto
  next
    case 2
    have "subseq gs1 copy_guards" using 2(3) Cons.prems(3) by (rule subseq_order.trans)
    then show ?thesis using Cons.IH [OF 2(2), of gs1] Cons.prems(2) 2 rd by (cases "res = Exit") auto
  qed
qed auto

end

section \<open>The copy is faithful\<close>

lemma take_min: "take (min (length xs) n) xs = take n xs"
  by (simp add: min_def)

interpretation copying: copy_kernel "channel_kernel source" "\<lambda>fd k. ((0, 0), k)" 5 "\<lambda>fd k. ch_taken (k fd)"
    "\<lambda>fd k. ch_out (k fd)" "\<lambda>k. True"
  for source
proof (rule copy_kernel.intro)
  fix fd :: int assume "fd \<in> {0, 1, 5}"
  show "byte_channel (channel_kernel source) fd (\<lambda>k. ch_taken (k fd)) (\<lambda>k. ch_out (k fd)) (\<lambda>k. True)"
    by unfold_locales (auto simp: channel_kernel_def take_min Let_def split: list.splits)
qed (auto simp: channel_kernel_def same_bytes_def Let_def split: list.splits)

lemma set_blocking_error: "FileDescriptor_set_blocking getfl setfl b = Inl e \<Longrightarrow> e = RuntimeError ''fcntl''"
  by (auto simp: FileDescriptor_set_blocking_def SystemCall_def Let_def split: prod.splits if_splits)

text \<open>
  C13. Copying between standard input, standard output and a socket.  Whatever the answers of \<open>poll\<close>, and
  however the kernel splits reads and writes, the loop only fails with the error of a system call, and never
  reports a busy wait.  At every point the socket has received a prefix of the bytes taken from standard
  input, and standard output a prefix of the bytes taken from the socket; until the input of a direction
  is ended no byte is missing: what was taken and not yet given on is in the buffer, which holds at
  most a mebibyte.
\<close>

theorem stream_copy_safe:
  assumes kernel: "copy_kernel K sys_close sock taken given good"
    and start: "good k" "fdw_fd socket = sock" "\<forall>fd \<in> {0, 1, sock}. taken fd k = [] \<and> given fd k = []"
    and outside: "\<forall>(outside, poll) \<in> set rds. \<forall>k. good k \<longrightarrow> same_bytes taken given UNIV k (outside k) \<and> good (outside k)"
  shows "case bidirectional_stream_copy K sys_close fl_socket fl_input fl_output rds socket k of
      Inl e \<Rightarrow> e \<in> {poll_error, RuntimeError ''fcntl''} \<union> copy_errors K sys_close
    | Inr (finished, s) \<Rightarrow>
        let k = cp_kernel s; out_buf = bs_buf (cp_outbound s); in_buf = bs_buf (cp_inbound s)
        in prefix (given sock k) (taken 0 k) \<and> prefix (given 1 k) (taken sock k) \<and>
           (\<not> bs_input_ended (cp_outbound s) \<longrightarrow> taken 0 k = given sock k @ out_buf) \<and>
           (\<not> bs_input_ended (cp_inbound s) \<longrightarrow> taken sock k = given 1 k @ in_buf) \<and>
           length out_buf \<le> copy_buffer_size \<and> length in_buf \<le> copy_buffer_size"
proof -
  let ?w = "\<lambda>fd. \<lparr>fdw_fd = fd, fdw_eof = False, fdw_closed = False, fdw_read_count = 0, fdw_write_count = 0\<rparr>"
  let ?s = "\<lparr>cp_socket = socket, cp_input = ?w 0, cp_output = ?w 1,
    cp_outbound = ByteStream_new copy_buffer_size, cp_inbound = ByteStream_new copy_buffer_size,
    cp_outbound_shutdown = False, cp_inbound_shutdown = False, cp_kernel = k\<rparr>"
  have inv: "copy_kernel.copy_inv sock taken given good ?s"
    using start lane_new by (simp add: copy_kernel.copy_inv_def [OF kernel])
  have guards: "map fst (copy_kernel.copy_guards K sys_close) = copy_rules K sys_close"
    by (simp add: copy_kernel.copy_guards_def [OF kernel] comp_def)
  have loop: "(\<exists>e \<in> insert poll_error (copy_errors K sys_close). copy_loop rds (copy_rules K sys_close) ?s = Inl e) \<or>
      (\<exists>finished s'. copy_loop rds (copy_rules K sys_close) ?s = Inr (finished, s') \<and> copy_kernel.copy_inv sock taken given good s')"
    using copy_kernel.copy_loop_safe [OF kernel inv outside subseq_order.refl] unfolding guards .
  let ?b = "\<lambda>fl. FileDescriptor_set_blocking (fst fl) (snd fl) False"
  show ?thesis
  proof (cases "isl (?b fl_socket) \<or> isl (?b fl_input) \<or> isl (?b fl_output)")
    case True
    then show ?thesis
      by (cases "?b fl_socket"; cases "?b fl_input"; cases "?b fl_output")
        (auto simp: bidirectional_stream_copy_def FDWrapper_new_def dest: set_blocking_error)
  next
    case False
    then have "bidirectional_stream_copy K sys_close fl_socket fl_input fl_output rds socket k =
        copy_loop rds (copy_rules K sys_close) ?s"
      by (cases "?b fl_socket"; cases "?b fl_input"; cases "?b fl_output")
        (simp_all add: bidirectional_stream_copy_def FDWrapper_new_def)
    with loop show ?thesis
      using laneD by (auto simp: copy_kernel.copy_inv_def [OF kernel] Let_def)
  qed
qed

definition pipes_example :: "int \<Rightarrow> channel" where
  "pipes_example = (\<lambda>fd. \<lparr>ch_in = (if fd = 0 then [[1, 2, 3], []] else if fd = 5 then [[9], []] else []), ch_taken = [], ch_out = []\<rparr>)"

definition socket_example :: fd_wrapper where
  "socket_example = \<lparr>fdw_fd = 5, fdw_eof = False, fdw_closed = False, fdw_read_count = 0, fdw_write_count = 0\<rparr>"

definition ready_poll :: poll where
  "ready_poll = (\<lambda>pollfds. (int (length pollfds), 0, \<lambda>i. POLLIN OR POLLOUT))"

theorem stream_copy_safe_witness:
  "case bidirectional_stream_copy (channel_kernel []) (\<lambda>fd k. ((0, 0), k)) ((0, 0), \<lambda>fl. (0, 0)) ((0, 0), \<lambda>fl. (0, 0))
        ((0, 0), \<lambda>fl. (0, 0)) [(id, ready_poll), (id, ready_poll), (id, ready_poll)] socket_example pipes_example of
      Inl e \<Rightarrow> e \<in> {poll_error, RuntimeError ''fcntl''} \<union> copy_errors (channel_kernel []) (\<lambda>fd k. ((0, 0), k))
    | Inr (finished, s) \<Rightarrow>
        prefix (ch_out (cp_kernel s 5)) (ch_taken (cp_kernel s 0)) \<and> prefix (ch_out (cp_kernel s 1)) (ch_taken (cp_kernel s 5))"
proof -
  note safe = stream_copy_safe [OF copying.copy_kernel_axioms [of "[]"] TrueI, of socket_example pipes_example
      "[(id, ready_poll), (id, ready_poll), (id, ready_poll)]" "((0, 0), \<lambda>fl. (0, 0))" "((0, 0), \<lambda>fl. (0, 0))" "((0, 0), \<lambda>fl. (0, 0))"]
  show ?thesis
    using safe by (simp add: socket_example_def pipes_example_def same_bytes_def Let_def split: sum.splits prod.splits)
qed

end
