(* ===== verification/Tcp_Benchmark.thy ===== *)
theory Tcp_Benchmark
  imports Connection_Streams "HOL-Library.Sublist"
begin

text \<open>
  The throughput benchmark, \<open>apps/tcp_benchmark.cc\<close>: two connections in one process that exchange their
  segments directly, in order or, from the writer to the reader, in reverse order.  The string to send and
  the random sequence numbers are arguments; the measurement of the time is left out.
\<close>

section \<open>The program\<close>

fun deliver_segments :: "tcp_connection \<Rightarrow> tcp_segment list \<Rightarrow> tcp_connection result" where
  "deliver_segments y [] = Inr y"
| "deliver_segments y (seg # segs) = bindE (TCPConnection_segment_received y seg) (\<lambda>y. deliver_segments y segs)"

text \<open>\<open>move_segments\<close>: the two connections and the vector, which is cleared at the end.\<close>

definition move_segments ::
  "tcp_connection \<Rightarrow> tcp_connection \<Rightarrow> tcp_segment list \<Rightarrow> bool \<Rightarrow> (tcp_connection \<times> tcp_connection \<times> tcp_segment list) result" where
  "move_segments x y segments reorder =
     (let segments = segments @ tc_segments_out x;
          x = x\<lparr>tc_segments_out := []\<rparr>
      in bindE (deliver_segments y (if reorder then rev segments else segments)) (\<lambda>y. Inr (x, y, [])))"

record benchmark =
  bm_x :: tcp_connection
  bm_y :: tcp_connection
  bm_to_send :: buffer
  bm_x_closed :: bool
  bm_received :: "byte list"

function benchmark_write :: "tcp_connection \<Rightarrow> buffer \<Rightarrow> (tcp_connection \<times> buffer) result" where
  "benchmark_write x bytes_to_send =
     (if Buffer_size bytes_to_send \<noteq> 0 \<and> TCPConnection_remaining_outbound_capacity x \<noteq> 0
      then let want = min (TCPConnection_remaining_outbound_capacity x) (Buffer_size bytes_to_send);
               (written, x') = TCPConnection_write x (take want (Buffer_str bytes_to_send))
           in if want \<noteq> written
              then Inl (RuntimeError (''want = '' @ decimal want @ '', written = '' @ decimal written))
              else bindE (Buffer_remove_prefix bytes_to_send written) (\<lambda>bytes_to_send. benchmark_write x' bytes_to_send)
      else Inr (x, bytes_to_send))"
  by pat_completeness auto

termination benchmark_write
  by (relation "measure (\<lambda>(x, bytes). Buffer_size bytes)")
    (auto simp: Buffer_size_def dest!: Buffer_remove_prefix_InrD)

declare benchmark_write.simps [simp del]

definition TCPConnection_read_inbound :: "tcp_connection \<Rightarrow> size_t \<Rightarrow> byte list \<times> tcp_connection" where
  "TCPConnection_read_inbound c n =
     (let (d, q) = StreamReassembler_take (rcv_reassembler (tc_receiver c)) n
      in (d, c\<lparr>tc_receiver := (tc_receiver c)\<lparr>rcv_reassembler := q\<rparr>\<rparr>))"

text \<open>The body of \<open>loop\<close>.\<close>

definition benchmark_loop :: "bool \<Rightarrow> benchmark \<Rightarrow> benchmark result" where
  "benchmark_loop reorder b =
     bindE (benchmark_write (bm_x b) (bm_to_send b)) (\<lambda>(x, bytes_to_send).
       let (x, x_closed) = (if Buffer_size bytes_to_send = 0 \<and> \<not> bm_x_closed b
                            then (TCPConnection_end_input_stream x, True) else (x, bm_x_closed b))
       in bindE (move_segments x (bm_y b) [] reorder) (\<lambda>(x, y, segments).
          bindE (move_segments y x segments False) (\<lambda>(y, x, segments).
            let available_output = ByteStream_buffer_size (TCPConnection_inbound_stream y);
                (received, y) = (if 0 < available_output
                                 then let (d, y) = TCPConnection_read_inbound y available_output in (bm_received b @ d, y)
                                 else (bm_received b, y))
            in bindE (TCPConnection_tick x 1000) (\<lambda>x.
               bindE (TCPConnection_tick y 1000) (\<lambda>y.
                 Inr \<lparr>bm_x = x, bm_y = y, bm_to_send = bytes_to_send, bm_x_closed = x_closed, bm_received = received\<rparr>)))))"

definition benchmark_start :: "u32 \<Rightarrow> u32 \<Rightarrow> byte list \<Rightarrow> benchmark" where
  "benchmark_start random_x random_y string_to_send =
     \<lparr>bm_x = TCPConnection_connect (TCPConnection_new TCPConfig_default random_x),
      bm_y = TCPConnection_end_input_stream (TCPConnection_new TCPConfig_default random_y),
      bm_to_send = Buffer_new string_to_send, bm_x_closed = False, bm_received = []\<rparr>"

text \<open>A \<open>while\<close> loop around it, with a bound on the number of rounds; \<open>None\<close> if the bound is reached.\<close>

fun benchmark_until :: "(benchmark \<Rightarrow> bool) \<Rightarrow> bool \<Rightarrow> nat \<Rightarrow> benchmark \<Rightarrow> benchmark option result" where
  "benchmark_until done reorder fuel b =
     (if done b then Inr (Some b)
      else case fuel of 0 \<Rightarrow> Inr None
           | Suc n \<Rightarrow> bindE (benchmark_loop reorder b) (benchmark_until done reorder n))"

declare benchmark_until.simps [simp del]

definition benchmark_main :: "bool \<Rightarrow> nat \<Rightarrow> u32 \<Rightarrow> u32 \<Rightarrow> byte list \<Rightarrow> benchmark option result" where
  "benchmark_main reorder fuel random_x random_y string_to_send =
     bindE (benchmark_until (\<lambda>b. ByteStream_eof (TCPConnection_inbound_stream (bm_y b))) reorder fuel
        (benchmark_start random_x random_y string_to_send)) (\<lambda>r.
       case r of None \<Rightarrow> Inr None
       | Some b \<Rightarrow> if bm_received b \<noteq> string_to_send
                   then Inl (RuntimeError ''strings sent vs. received don't match'')
                   else benchmark_until (\<lambda>b. \<not> (tc_active (bm_x b) \<or> tc_active (bm_y b))) reorder fuel b)"

section \<open>The invariant\<close>

lemma segments_from_stream:
  assumes "streams S' N' isn' isn c up down" "piece S 0 up" "length up \<le> N" "N + 2 \<le> seq_limit"
    and "bs_input_ended (snd_stream (tc_sender c)) \<Longrightarrow> length up = N"
  shows "\<forall>seg \<in> set (tc_segments_out c). from_stream S N isn seg"
proof -
  obtain h where "conn_inv S N isn S' isn' (c, h, down)"
    using assms agree_refl unfolding streams_def by blast
  then show ?thesis by (auto simp: conn_inv_def conn_mid_def seg_sent_def from_stream_def)
qed

lemma deliver_streams:
  assumes "N' < 2147483647" "streams S' N' isn' isn c up down" "length up + 2 \<le> seq_limit"
    and "\<forall>seg \<in> set segs. from_stream S' N' isn' seg"
  shows "\<exists>c'. deliver_segments c segs = Inr c' \<and> streams S' N' isn' isn c' up down \<and>
    writer_side (snd_stream (tc_sender c')) = writer_side (snd_stream (tc_sender c))"
  using assms(2,4)
proof (induction segs arbitrary: c)
  case (Cons seg segs)
  obtain c1 where c1: "TCPConnection_segment_received c seg = Inr c1" "streams S' N' isn' isn c1 up down"
    using received_segment [OF assms(1) Cons.prems(1) assms(3), of seg] Cons.prems(2) by auto
  then show ?case using Cons.IH [OF c1(2)] Cons.prems(2) segment_received_writer [OF c1(1)] by simp
qed simp

lemma taken_writer [simp]: "snd_stream (tc_sender (c\<lparr>tc_segments_out := segs\<rparr>)) = snd_stream (tc_sender c)"
  by simp

lemma inbound_read:
  assumes "streams S' N' isn' isn c up down" "length up + 2 \<le> seq_limit" "TCPConnection_read_inbound c n = (d, c')"
  shows "streams S' N' isn' isn c' up (down @ d)" "snd_stream (tc_sender c') = snd_stream (tc_sender c)"
proof -
  have c': "c' = TCPConnection_pop_inbound c n" if "n \<noteq> 0"
    using assms(3) that
    by (simp add: TCPConnection_read_inbound_def TCPConnection_pop_inbound_def StreamReassembler_take_def
        ByteStream_read_def ByteStream_peek_output_def ByteStream_pop_output_def Let_def)
  have d: "d = take n (bs_buf (TCPConnection_inbound_stream c))"
    using assms(3) by (auto simp: TCPConnection_read_inbound_def StreamReassembler_take_def read_eq
        TCPConnection_inbound_stream_def TCPReceiver_stream_out_def)
  have "c' = c" if "n = 0"
    using assms(3) that by (simp add: TCPConnection_read_inbound_def StreamReassembler_take_def ByteStream_read_def)
  then show "streams S' N' isn' isn c' up (down @ d)" "snd_stream (tc_sender c') = snd_stream (tc_sender c)"
    using inbound_popped [OF assms(1,2), of n] c' d assms(1)
    by (cases "n = 0"; simp add: TCPConnection_pop_inbound_def Let_def)+
qed

text \<open>
  The writer has taken \<open>up\<close> from the string and the rest is still to be sent; the reader is the peer of a
  connection that carries the string.
\<close>

definition bench_inv :: "byte list \<Rightarrow> wrapping_int32 \<Rightarrow> wrapping_int32 \<Rightarrow> benchmark \<Rightarrow> bool" where
  "bench_inv str isn isn' b \<longleftrightarrow>
     (\<exists>up. str = up @ Buffer_str (bm_to_send b) \<and> streams (\<lambda>_. 0) 0 isn' isn (bm_x b) up []) \<and>
     streams ((!) str) (length str) isn isn' (bm_y b) [] (bm_received b) \<and>
     bs_input_ended (snd_stream (tc_sender (bm_x b))) = bm_x_closed b \<and>
     (bm_x_closed b \<longrightarrow> Buffer_str (bm_to_send b) = [])"

lemma benchmark_write_safe:
  assumes "str = up @ Buffer_str bytes" "length str < 2147483647" "streams S' N' isn' isn x up []"
    and "bs_input_ended (snd_stream (tc_sender x)) \<longrightarrow> Buffer_str bytes = []"
  shows "\<exists>x' bytes' up'. benchmark_write x bytes = Inr (x', bytes') \<and> str = up' @ Buffer_str bytes' \<and>
    streams S' N' isn' isn x' up' [] \<and> bs_input_ended (snd_stream (tc_sender x')) = bs_input_ended (snd_stream (tc_sender x)) \<and>
    (Buffer_str bytes = [] \<longrightarrow> Buffer_str bytes' = [])"
  using assms
proof (induction x bytes arbitrary: up rule: benchmark_write.induct)
  case (1 x bytes)
  let ?room = "TCPConnection_remaining_outbound_capacity x"
  show ?case
  proof (cases "Buffer_size bytes \<noteq> 0 \<and> ?room \<noteq> 0")
    case False
    then have "benchmark_write x bytes = Inr (x, bytes)" by (auto simp: benchmark_write.simps [of x bytes])
    then show ?thesis using 1(2-) by blast
  next
    case True
    let ?want = "min ?room (Buffer_size bytes)"
    let ?d = "take ?want (Buffer_str bytes)"
    have open_x: "\<not> bs_input_ended (snd_stream (tc_sender x))" using True 1(5) by (auto simp: Buffer_size_def)
    have len: "length ?d = ?want" by (simp add: Buffer_size_def min_def)
    have "length (up @ ?d) + 2 \<le> seq_limit" using 1(2,3) by simp
    note d = data_written [OF 1(4) this open_x]
    obtain x1 where x1: "TCPConnection_write x ?d = (?want, x1)" "streams S' N' isn' isn x1 (up @ ?d) []"
      "\<not> bs_input_ended (snd_stream (tc_sender x1))"
      using d len by (cases "TCPConnection_write x ?d") auto
    obtain bytes1 where b1: "Buffer_remove_prefix bytes ?want = Inr bytes1" "Buffer_str bytes1 = drop ?want (Buffer_str bytes)"
      using Buffer_remove_prefix_ok [of ?want bytes] by (auto simp: Buffer_size_def)
    have eq: "benchmark_write x bytes = benchmark_write x1 bytes1"
      using True x1(1) b1(1) by (simp add: benchmark_write.simps [of x bytes])
    have "str = (up @ ?d) @ Buffer_str bytes1" using 1(2) b1(2) by simp
    from 1(1) [OF True refl x1(1) [symmetric] refl _ b1(1) this 1(3) x1(2)] x1(3) open_x True show ?thesis
      unfolding eq by (auto simp: Buffer_size_def)
  qed
qed

lemma move_segments_safe:
  assumes "N' < 2147483647" "streams S' N' isn' isn y up down" "length up + 2 \<le> seq_limit"
    and "\<forall>seg \<in> set (tc_segments_out x). from_stream S' N' isn' seg"
  shows "\<exists>y'. move_segments x y [] reorder = Inr (x\<lparr>tc_segments_out := []\<rparr>, y', []) \<and> streams S' N' isn' isn y' up down \<and>
    bs_input_ended (snd_stream (tc_sender y')) = bs_input_ended (snd_stream (tc_sender y))"
proof -
  let ?segs = "if reorder then rev (tc_segments_out x) else tc_segments_out x"
  have "\<forall>seg \<in> set ?segs. from_stream S' N' isn' seg" using assms(4) by auto
  then show ?thesis using deliver_streams [OF assms(1-3), of ?segs] by (auto simp: move_segments_def writer_side_def)
qed

lemma benchmark_loop_safe:
  assumes "bench_inv str isn isn' b" "length str < 2147483647"
  shows "\<exists>b'. benchmark_loop reorder b = Inr b' \<and> bench_inv str isn isn' b'"
proof -
  let ?S = "\<lambda>_. 0 :: byte" and ?T = "(!) str" and ?N = "length str"
  obtain up where up: "str = up @ Buffer_str (bm_to_send b)" "streams ?S 0 isn' isn (bm_x b) up []"
    and y: "streams ?T ?N isn isn' (bm_y b) [] (bm_received b)"
    and closed: "bs_input_ended (snd_stream (tc_sender (bm_x b))) = bm_x_closed b" "bm_x_closed b \<longrightarrow> Buffer_str (bm_to_send b) = []"
    using assms(1) by (auto simp: bench_inv_def)
  obtain x1 bytes up1 where x1: "benchmark_write (bm_x b) (bm_to_send b) = Inr (x1, bytes)" "str = up1 @ Buffer_str bytes"
    "streams ?S 0 isn' isn x1 up1 []" "bs_input_ended (snd_stream (tc_sender x1)) = bm_x_closed b"
    "bm_x_closed b \<longrightarrow> Buffer_str bytes = []"
    using benchmark_write_safe [OF up(1) assms(2) up(2)] closed by blast
  define cl where "cl = (bm_x_closed b \<or> Buffer_size bytes = 0)"
  define x2 where "x2 = (if Buffer_size bytes = 0 \<and> \<not> bm_x_closed b then TCPConnection_end_input_stream x1 else x1)"
  have x2: "streams ?S 0 isn' isn x2 up1 []" "bs_input_ended (snd_stream (tc_sender x2)) = cl" "cl \<longrightarrow> Buffer_str bytes = []"
  proof -
    show "streams ?S 0 isn' isn x2 up1 []" using x1(3) input_ended [OF x1(3)] by (simp add: x2_def)
    have "bs_input_ended (snd_stream (tc_sender (TCPConnection_end_input_stream x1)))"
      using end_input_writer [of x1] by (simp add: writer_side_def)
    then show "bs_input_ended (snd_stream (tc_sender x2)) = cl" using x1(4) by (cases "bm_x_closed b") (simp_all add: x2_def cl_def)
    show "cl \<longrightarrow> Buffer_str bytes = []" using x1(5) by (simp add: cl_def Buffer_size_def)
  qed
  have len: "length up1 \<le> ?N" "?N + 2 \<le> seq_limit" "length up1 + 2 \<le> seq_limit" "length ([] :: byte list) + 2 \<le> seq_limit"
    using x1(2) assms(2) by simp_all
  have "piece ?T 0 (up1 @ Buffer_str bytes)" unfolding x1(2) [symmetric] by (rule piece_nth)
  then have "piece ?T 0 up1" by (simp add: piece_append_iff)
  then have out_x: "\<forall>seg \<in> set (tc_segments_out x2). from_stream ?T ?N isn seg"
  proof (rule segments_from_stream [OF x2(1)])
    show "bs_input_ended (snd_stream (tc_sender x2)) \<Longrightarrow> length up1 = ?N" using x2(2,3) x1(2) by simp
  qed (use len in simp_all)
  obtain y1 where y1: "move_segments x2 (bm_y b) [] reorder = Inr (x2\<lparr>tc_segments_out := []\<rparr>, y1, [])"
    "streams ?T ?N isn isn' y1 [] (bm_received b)"
    using move_segments_safe [OF assms(2) y len(4) out_x] by blast
  have out_y: "\<forall>seg \<in> set (tc_segments_out y1). from_stream ?S 0 isn' seg"
    by (rule segments_from_stream [OF y1(2)]) (simp_all add: piece_def)
  obtain x3 where x3: "move_segments y1 (x2\<lparr>tc_segments_out := []\<rparr>) [] False = Inr (y1\<lparr>tc_segments_out := []\<rparr>, x3, [])"
    "streams ?S 0 isn' isn x3 up1 []" "bs_input_ended (snd_stream (tc_sender x3)) = cl"
    using move_segments_safe [OF _ segments_taken [OF x2(1)] len(3) out_y] x2(2) by auto
  let ?y = "y1\<lparr>tc_segments_out := []\<rparr>" and ?n = "ByteStream_buffer_size (TCPConnection_inbound_stream (y1\<lparr>tc_segments_out := []\<rparr>))"
  obtain received y2 where y2: "(if 0 < ?n then let (d, y) = TCPConnection_read_inbound ?y ?n in (bm_received b @ d, y)
      else (bm_received b, ?y)) = (received, y2)" by fastforce
  have sy: "streams ?T ?N isn isn' ?y [] (bm_received b)" by (rule segments_taken [OF y1(2)])
  have "streams ?T ?N isn isn' y2 [] received"
  proof (cases "0 < ?n")
    case True
    obtain d y where dy: "TCPConnection_read_inbound ?y ?n = (d, y)" by fastforce
    then show ?thesis using True y2 inbound_read(1) [OF sy len(4) dy] by simp
  next
    case False
    then show ?thesis using y2 sy by simp
  qed
  then obtain y3 where y3: "TCPConnection_tick y2 1000 = Inr y3" "streams ?T ?N isn isn' y3 [] received"
    using ticked len(4) by blast
  obtain x4 where x4: "TCPConnection_tick x3 1000 = Inr x4" "streams ?S 0 isn' isn x4 up1 []"
    using ticked [OF x3(2) len(3)] by blast
  have "benchmark_loop reorder b = Inr \<lparr>bm_x = x4, bm_y = y3, bm_to_send = bytes, bm_x_closed = cl, bm_received = received\<rparr>"
  proof -
    have "(if Buffer_size bytes = 0 \<and> \<not> bm_x_closed b then (TCPConnection_end_input_stream x1, True) else (x1, bm_x_closed b)) = (x2, cl)"
      by (auto simp: x2_def cl_def)
    then show ?thesis
      using x1(1) y1(1) x3(1) y2 y3(1) x4(1) by (simp add: benchmark_loop_def Let_def)
  qed
  then show ?thesis
    using x1(2) x2(3) x3(3) x4(2) y3(2) tick_writer [OF x4(1)] by (auto simp: bench_inv_def writer_side_def)
qed

lemma bench_inv_start:
  "bench_inv str (conn_isn (TCPConnection_new TCPConfig_default random_x)) (conn_isn (TCPConnection_new TCPConfig_default random_y))
     (benchmark_start random_x random_y str)"
proof -
  have cfg: "cfg_send_capacity TCPConfig_default < seq_limit" "cfg_recv_capacity TCPConfig_default < seq_limit"
    by (simp_all add: TCPConfig_default_def)
  let ?x = "TCPConnection_new TCPConfig_default random_x" and ?y = "TCPConnection_new TCPConfig_default random_y"
  have x: "streams (\<lambda>_. 0) 0 (conn_isn ?y) (conn_isn ?x) (TCPConnection_connect ?x) [] []"
    by (rule streams_connect [OF streams_new [OF cfg]])
  have y: "streams ((!) str) (length str) (conn_isn ?x) (conn_isn ?y) (TCPConnection_end_input_stream ?y) [] []"
    by (rule input_ended [OF streams_new [OF cfg]])
  have "\<not> bs_input_ended (snd_stream (tc_sender ?x))" by (simp add: TCPConnection_new_def TCPSender_new_def ByteStream_new_def)
  then have "\<not> bs_input_ended (snd_stream (tc_sender (TCPConnection_connect ?x)))"
    using connect_writer [of ?x] by (simp add: writer_side_def)
  then show ?thesis using x y by (simp add: bench_inv_def benchmark_start_def)
qed

lemma bench_received:
  assumes "bench_inv str isn isn' b"
  shows "prefix (bm_received b @ bs_buf (TCPConnection_inbound_stream (bm_y b))) str"
proof -
  have "streams ((!) str) (length str) isn isn' (bm_y b) [] (bm_received b)" using assms by (simp add: bench_inv_def)
  then obtain h where h: "\<forall>T. agree (length str) ((!) str) T \<longrightarrow>
      conn_inv ((!) ([] :: byte list)) 0 isn' T isn (bm_y b, h, bm_received b)"
    using streams_inv [where up = "[]"] by fastforce
  obtain k where "conn_received (bm_y b, h, bm_received b) = take k (map ((!) str) [0..<length str])"
    using received_prefix [of "length str" "(!) str" "(!) []" 0 isn' isn] h by blast
  then show ?thesis by (simp add: map_nth take_is_prefix)
qed

lemma benchmark_loop_received: "benchmark_loop reorder b = Inr b' \<Longrightarrow> prefix (bm_received b) (bm_received b')"
  by (auto simp: benchmark_loop_def Let_def split: if_splits prod.splits)

text \<open>A given number of rounds, and what a \<open>while\<close> loop makes of them.\<close>

primrec benchmark_rounds :: "bool \<Rightarrow> nat \<Rightarrow> benchmark \<Rightarrow> benchmark result" where
  "benchmark_rounds reorder 0 b = Inr b"
| "benchmark_rounds reorder (Suc n) b = bindE (benchmark_loop reorder b) (benchmark_rounds reorder n)"

lemma benchmark_rounds_add:
  "benchmark_rounds reorder m b = Inr b1 \<Longrightarrow> benchmark_rounds reorder (m + n) b = benchmark_rounds reorder n b1"
  by (induction m arbitrary: b) (auto simp: bindE_eq_Inr_iff)

lemma benchmark_rounds_safe:
  assumes "bench_inv str isn isn' b" "length str < 2147483647"
  shows "\<exists>b'. benchmark_rounds reorder n b = Inr b' \<and> bench_inv str isn isn' b'"
  using assms(1)
proof (induction n arbitrary: b)
  case (Suc n)
  obtain b1 where b1: "benchmark_loop reorder b = Inr b1" "bench_inv str isn isn' b1"
    using benchmark_loop_safe [OF Suc.prems assms(2)] by blast
  then show ?case using Suc.IH [OF b1(2)] by simp
qed simp

lemma benchmark_until_safe:
  assumes "bench_inv str isn isn' b" "length str < 2147483647"
  shows "\<exists>n b'. n \<le> fuel \<and> benchmark_rounds reorder n b = Inr b' \<and> bench_inv str isn isn' b' \<and>
    prefix (bm_received b) (bm_received b') \<and>
    (if done b' then benchmark_until done reorder fuel b = Inr (Some b')
     else n = fuel \<and> benchmark_until done reorder fuel b = Inr None)"
  using assms(1)
proof (induction fuel arbitrary: b)
  case 0
  then show ?case by (intro exI [of _ 0] exI [of _ b]) (simp add: benchmark_until.simps)
next
  case (Suc fuel)
  obtain b1 where b1: "benchmark_loop reorder b = Inr b1" "bench_inv str isn isn' b1"
    using benchmark_loop_safe [OF Suc.prems assms(2)] by blast
  show ?case
  proof (cases "done b")
    case True
    then show ?thesis using Suc.prems by (intro exI [of _ 0] exI [of _ b]) (simp add: benchmark_until.simps)
  next
    case False
    then have eq: "benchmark_until done reorder (Suc fuel) b = benchmark_until done reorder fuel b1"
      using b1(1) by (simp add: benchmark_until.simps [of _ _ "Suc fuel"])
    from Suc.IH [OF b1(2)] obtain n b' where n: "n \<le> fuel" "benchmark_rounds reorder n b1 = Inr b'" "bench_inv str isn isn' b'"
      "prefix (bm_received b1) (bm_received b')"
      "if done b' then benchmark_until done reorder fuel b1 = Inr (Some b')
       else n = fuel \<and> benchmark_until done reorder fuel b1 = Inr None" by blast
    show ?thesis
      using n b1(1) prefix_order.trans [OF benchmark_loop_received [OF b1(1)] n(4)]
      unfolding eq by (intro exI [of _ "Suc n"] exI [of _ b']) simp
  qed
qed

section \<open>The benchmark\<close>

text \<open>
  C17. The benchmark, in order and with reordering, for every string shorter than half of the sequence
  space and all initial sequence numbers.  Any number of rounds of the loop runs without an exception, and
  after it what the reader has read and can read is a prefix of the string.  As for the whole program:
  the only exception is the one about the strings, and it means that the reader's stream ended after a proper
  prefix; a normal end means that exactly the string was received and both connections are inactive; and no
  result means that \<open>fuel\<close> rounds were too few, the condition of one of the two loops still holding after
  \<open>fuel\<close> rounds of it.  That the loops end is not claimed.
\<close>

theorem benchmark_safe:
  assumes "length str < 2147483647"
  shows "(\<exists>b. benchmark_rounds reorder n (benchmark_start random_x random_y str) = Inr b \<and>
      prefix (bm_received b @ bs_buf (TCPConnection_inbound_stream (bm_y b))) str) \<and>
    (case benchmark_main reorder fuel random_x random_y str of
       Inl e \<Rightarrow> e = RuntimeError ''strings sent vs. received don't match'' \<and>
         (\<exists>n b. benchmark_rounds reorder n (benchmark_start random_x random_y str) = Inr b \<and>
           ByteStream_eof (TCPConnection_inbound_stream (bm_y b)) \<and> strict_prefix (bm_received b) str)
     | Inr None \<Rightarrow>
         (\<exists>n b. benchmark_rounds reorder (n + fuel) (benchmark_start random_x random_y str) = Inr b \<and>
           (\<not> ByteStream_eof (TCPConnection_inbound_stream (bm_y b)) \<or> tc_active (bm_x b) \<or> tc_active (bm_y b)))
     | Inr (Some b) \<Rightarrow> bm_received b = str \<and> \<not> tc_active (bm_x b) \<and> \<not> tc_active (bm_y b))"
    (is "_ \<and> ?main")
proof
  let ?b = "benchmark_start random_x random_y str"
  let ?isn = "conn_isn (TCPConnection_new TCPConfig_default random_x)"
    and ?isn' = "conn_isn (TCPConnection_new TCPConfig_default random_y)"
  let ?eof = "\<lambda>b. ByteStream_eof (TCPConnection_inbound_stream (bm_y b))"
    and ?idle = "\<lambda>b. \<not> (tc_active (bm_x b) \<or> tc_active (bm_y b))"
  note start = bench_inv_start [of str random_x random_y]
  show "\<exists>b. benchmark_rounds reorder n ?b = Inr b \<and> prefix (bm_received b @ bs_buf (TCPConnection_inbound_stream (bm_y b))) str"
    using benchmark_rounds_safe [OF start assms] bench_received by blast
  obtain m b where m: "m \<le> fuel" "benchmark_rounds reorder m ?b = Inr b" "bench_inv str ?isn ?isn' b"
    "if ?eof b then benchmark_until ?eof reorder fuel ?b = Inr (Some b)
     else m = fuel \<and> benchmark_until ?eof reorder fuel ?b = Inr None"
    using benchmark_until_safe [OF start assms, of fuel reorder ?eof] by blast
  have part: "prefix (bm_received b) str" using bench_received [OF m(3)] by (rule append_prefixD)
  consider (short) "\<not> ?eof b" | (differ) "?eof b" "bm_received b \<noteq> str" | (same) "?eof b" "bm_received b = str" by blast
  then show ?main
  proof cases
    case short
    then have "benchmark_main reorder fuel random_x random_y str = Inr None" "m = 0 + fuel"
      using m(4) by (simp_all add: benchmark_main_def)
    then show ?thesis using m(2) short by (simp, intro exI [of _ 0] exI [of _ b]) simp
  next
    case differ
    then have "benchmark_main reorder fuel random_x random_y str = Inl (RuntimeError ''strings sent vs. received don't match'')"
      using m(4) by (simp add: benchmark_main_def)
    then show ?thesis using m(2) differ part by (auto simp: strict_prefix_def)
  next
    case same
    obtain k b' where k: "benchmark_rounds reorder k b = Inr b'" "bench_inv str ?isn ?isn' b'"
      "prefix (bm_received b) (bm_received b')"
      "if ?idle b' then benchmark_until ?idle reorder fuel b = Inr (Some b')
       else k = fuel \<and> benchmark_until ?idle reorder fuel b = Inr None"
      using benchmark_until_safe [OF m(3) assms, of fuel reorder ?idle] by blast
    have main: "benchmark_main reorder fuel random_x random_y str = benchmark_until ?idle reorder fuel b"
      using same m(4) by (simp add: benchmark_main_def)
    have all: "bm_received b' = str"
      using same(2) k(3) append_prefixD [OF bench_received [OF k(2)]] prefix_order.antisym by blast
    have rounds: "benchmark_rounds reorder (m + k) ?b = Inr b'" using benchmark_rounds_add [OF m(2)] k(1) by simp
    show ?thesis
    proof (cases "?idle b'")
      case True
      then show ?thesis using main k(4) all by simp
    next
      case False
      then show ?thesis using main k(4) rounds by auto
    qed
  qed
qed

theorem benchmark_safe_witness:
  "(\<exists>b. benchmark_rounds True 1000 (benchmark_start 7 9 [1, 2, 3]) = Inr b \<and>
      prefix (bm_received b @ bs_buf (TCPConnection_inbound_stream (bm_y b))) [1, 2, 3]) \<and>
    (case benchmark_main True 1000 7 9 [1, 2, 3] of
       Inl e \<Rightarrow> e = RuntimeError ''strings sent vs. received don't match'' \<and>
         (\<exists>n b. benchmark_rounds True n (benchmark_start 7 9 [1, 2, 3]) = Inr b \<and>
           ByteStream_eof (TCPConnection_inbound_stream (bm_y b)) \<and> strict_prefix (bm_received b) [1, 2, 3])
     | Inr None \<Rightarrow>
         (\<exists>n b. benchmark_rounds True (n + 1000) (benchmark_start 7 9 [1, 2, 3]) = Inr b \<and>
           (\<not> ByteStream_eof (TCPConnection_inbound_stream (bm_y b)) \<or> tc_active (bm_x b) \<or> tc_active (bm_y b)))
     | Inr (Some b) \<Rightarrow> bm_received b = [1, 2, 3] \<and> \<not> tc_active (bm_x b) \<and> \<not> tc_active (bm_y b))"
  by (rule benchmark_safe) simp

end
