(* ===== verification/Printing.thy ===== *)
theory Printing
  imports Text Tcp_Segment Ethernet_Arp
begin

text \<open>
  Text for people: the \<open>to_string\<close> and \<open>summary\<close> methods of the headers, in \<open>tcp_helpers/\<close>, and
  \<open>hexdump\<close> of \<open>util/util.cc\<close>.  A \<open>stringstream\<close> is the string it has collected; its number base and its
  width are part of the function that prints the next number.
\<close>

unbundle bit_operations_syntax

section \<open>Hexadecimal numbers\<close>

definition hex_digit :: "nat \<Rightarrow> char" where
  "hex_digit d = char_of (if d < 10 then 48 + d else 87 + d)"

fun hex :: "nat \<Rightarrow> string" where
  "hex n = (if n < 16 then [hex_digit n] else hex (n div 16) @ [hex_digit (n mod 16)])"

declare hex.simps [simp del]

text \<open>\<open>setw(w)\<close> with \<open>setfill('0')\<close>.\<close>

definition setw :: "nat \<Rightarrow> string \<Rightarrow> string" where
  "setw w s = replicate (w - length s) CHR ''0'' @ s"

definition newline :: string where
  "newline = [CHR 0x0A]"

definition boolalpha :: "bool \<Rightarrow> string" where
  "boolalpha b = (if b then ''true'' else ''false'')"

abbreviation (input) hexw :: "'a::len word \<Rightarrow> string" where
  "hexw w \<equiv> hex (unat w)"

abbreviation (input) decw :: "'a::len word \<Rightarrow> string" where
  "decw w \<equiv> decimal (unat w)"

section \<open>Ethernet and ARP\<close>

fun EthernetAddress_to_string :: "ethernet_address \<Rightarrow> string" where
  "EthernetAddress_to_string [] = []"
| "EthernetAddress_to_string [b] = setw 2 (hexw b)"
| "EthernetAddress_to_string (b # bs) = setw 2 (hexw b) @ '':'' @ EthernetAddress_to_string bs"

definition EthernetHeader_to_string :: "ethernet_header \<Rightarrow> string" where
  "EthernetHeader_to_string h =
     ''dst='' @ EthernetAddress_to_string (eh_dst h) @ '', src='' @ EthernetAddress_to_string (eh_src h) @ '', type='' @
     (if eh_type h = TYPE_IPv4 then ''IPv4''
      else if eh_type h = TYPE_ARP then ''ARP''
      else ''[unknown type '' @ hexw (eh_type h) @ ''!]'')"

definition ARPMessage_to_string :: "arp_message \<Rightarrow> string" where
  "ARPMessage_to_string m =
     (let opcode_str = ''(unknown type)'';
          opcode_str = (if arp_opcode m = OPCODE_REQUEST then ''REQUEST'' else opcode_str);
          opcode_str = (if arp_opcode m = OPCODE_REPLY then ''REPLY'' else opcode_str)
      in ''opcode='' @ opcode_str @ '', sender='' @ EthernetAddress_to_string (arp_sender_ethernet_address m) @ ''/'' @
         dotted (arp_sender_ip_address m) @ '', target='' @ EthernetAddress_to_string (arp_target_ethernet_address m) @ ''/'' @
         dotted (arp_target_ip_address m))"

section \<open>IPv4 and TCP\<close>

definition IPv4Header_to_string :: "ipv4_header \<Rightarrow> string" where
  "IPv4Header_to_string h =
     ''IP version: '' @ hexw (ip_ver h) @ newline @
     ''IP hdr len: '' @ hexw (ip_hlen h) @ newline @
     ''IP tos: '' @ hexw (ip_tos h) @ newline @
     ''IP dgram len: '' @ hexw (ip_len h) @ newline @
     ''IP id: '' @ hexw (ip_id h) @ newline @
     ''Flags: df: '' @ boolalpha (ip_df h) @ '' mf: '' @ boolalpha (ip_mf h) @ newline @
     ''Offset: '' @ hexw (ip_offset h) @ newline @
     ''TTL: '' @ hexw (ip_ttl h) @ newline @
     ''Protocol: '' @ hexw (ip_proto h) @ newline @
     ''Checksum: '' @ hexw (ip_cksum h) @ newline @
     ''Src addr: '' @ hexw (ip_src h) @ newline @
     ''Dst addr: '' @ hexw (ip_dst h) @ newline"

definition IPv4Header_summary :: "ipv4_header \<Rightarrow> string" where
  "IPv4Header_summary h =
     ''IPv'' @ hexw (ip_ver h) @ '', '' @
     ''len='' @ hexw (ip_len h) @ '', '' @
     ''protocol='' @ hexw (ip_proto h) @ '', '' @ (if 10 \<le> ip_ttl h then [] else ''ttl='' @ decw (ip_ttl h) @ '', '') @
     ''src='' @ dotted (ip_src h) @ '', '' @
     ''dst='' @ dotted (ip_dst h)"

definition TCPHeader_to_string :: "tcp_header \<Rightarrow> string" where
  "TCPHeader_to_string h =
     ''TCP source port: '' @ hexw (th_sport h) @ newline @
     ''TCP dest port: '' @ hexw (th_dport h) @ newline @
     ''TCP seqno: '' @ hexw (raw_value (th_seqno h)) @ newline @
     ''TCP ackno: '' @ hexw (raw_value (th_ackno h)) @ newline @
     ''TCP doff: '' @ hexw (th_doff h) @ newline @
     ''Flags: urg: '' @ boolalpha (th_urg h) @ '' ack: '' @ boolalpha (th_ack h) @ '' psh: '' @ boolalpha (th_psh h) @
     '' rst: '' @ boolalpha (th_rst h) @ '' syn: '' @ boolalpha (th_syn h) @ '' fin: '' @ boolalpha (th_fin h) @ newline @
     ''TCP winsize: '' @ hexw (th_win h) @ newline @
     ''TCP cksum: '' @ hexw (th_cksum h) @ newline @
     ''TCP uptr: '' @ hexw (th_uptr h) @ newline"

definition TCPHeader_summary :: "tcp_header \<Rightarrow> string" where
  "TCPHeader_summary h =
     ''Header(flags='' @ (if th_syn h then ''S'' else []) @ (if th_ack h then ''A'' else []) @
     (if th_rst h then ''R'' else []) @ (if th_fin h then ''F'' else []) @
     '',seqno='' @ decw (raw_value (th_seqno h)) @ '',ack='' @ decw (raw_value (th_ackno h)) @
     '',win='' @ decw (th_win h) @ '')''"

section \<open>Dumping bytes\<close>

text \<open>
  A \<open>stringstream\<close> that was given a string writes from the start of it: its state is the string and the
  position of the next character.
\<close>

type_synonym char_stream = "string \<times> nat"

definition stream_str :: "string \<Rightarrow> char_stream" where
  "stream_str s = (s, 0)"

definition stream_put :: "char_stream \<Rightarrow> char \<Rightarrow> char_stream" where
  "stream_put st c = (case st of (s, pos) \<Rightarrow> (take pos s @ [c] @ drop (pos + 1) s, pos + 1))"

definition isprint :: "byte \<Rightarrow> bool" where
  "isprint b \<longleftrightarrow> 32 \<le> b \<and> b \<le> 126"

text \<open>The loop of \<open>hexdump\<close>: what was printed, the number of bytes, and the characters of the line.\<close>

fun hexdump_loop :: "string \<Rightarrow> byte list \<Rightarrow> string \<times> nat \<times> char_stream \<Rightarrow> string \<times> nat \<times> char_stream" where
  "hexdump_loop indent_string [] st = st"
| "hexdump_loop indent_string (b # bs) (out, printed, pchars) =
     (let (out, pchars) =
            (if printed mod 16 = 0 then
               let (out, pchars) = (if printed \<noteq> 0 then (out @ ''    '' @ fst pchars @ newline, stream_str '' '') else (out, pchars))
               in (out @ indent_string @ setw 8 (hex printed) @ '':    '', pchars)
             else if printed mod 2 = 0 then (out @ '' '', pchars)
             else (out, pchars));
          out = out @ setw 2 (hexw b);
          pchars = stream_put pchars (if isprint b then char_of (unat b) else CHR ''.'')
      in hexdump_loop indent_string bs (out, printed + 1, pchars))"

definition hexdump :: "byte list \<Rightarrow> nat \<Rightarrow> string" where
  "hexdump data indent =
     (let indent_string = replicate indent CHR '' '';
          (out, printed, pchars) = hexdump_loop indent_string data ([], 0, stream_str '' '');
          print_rem = (16 - printed mod 16) mod 16
      in out @ replicate (2 * print_rem + print_rem div 2 + 4) CHR '' '' @ fst pchars @ newline @ newline)"

section \<open>What the text says\<close>

definition hex_value :: "string \<Rightarrow> nat" where
  "hex_value s = foldl (\<lambda>a c. 16 * a + (if of_char c < (58 :: nat) then of_char c - 48 else of_char c - 87)) 0 s"

lemma of_hex_digit: "d < 16 \<Longrightarrow> (of_char (hex_digit d) :: nat) = (if d < 10 then 48 + d else 87 + d)"
  by (simp add: hex_digit_def of_char_of)

lemma hex_value_hex [simp]: "hex_value (hex n) = n"
  by (induction n rule: hex.induct) (subst hex.simps, simp add: hex_value_def of_hex_digit)

lemma hex_value_setw [simp]: "hex_value (setw w s) = hex_value s"
proof -
  have "foldl (\<lambda>a c. 16 * a + (if of_char c < (58 :: nat) then of_char c - 48 else of_char c - 87)) 0 (replicate n CHR ''0'') = (0 :: nat)" for n
    by (induction n) simp_all
  then show ?thesis by (simp add: setw_def hex_value_def)
qed

lemma length_hex: "n < 256 \<Longrightarrow> length (hex n) \<le> 2"
  by (subst hex.simps) (auto simp: hex.simps [of "n div 16"] div_less_iff_less_mult)

lemma colon_notin_hex: "CHR '':'' \<notin> set (setw w (hex n))"
proof -
  have "CHR '':'' \<noteq> hex_digit d" if "d < 16" for d
    using that of_hex_digit [of d] by (auto dest: arg_cong [of _ _ "of_char :: char \<Rightarrow> nat"] split: if_splits)
  then have "CHR '':'' \<notin> set (hex n)"
    by (induction n rule: hex.induct) (subst hex.simps, auto)
  then show ?thesis by (simp add: setw_def)
qed

text \<open>The text of an Ethernet address determines it, and always has seventeen characters.\<close>

lemma EthernetAddress_parse:
  "a \<noteq> [] \<Longrightarrow> map hex_value (split_on CHR '':'' (EthernetAddress_to_string a)) = map unat a"
  by (induction a rule: EthernetAddress_to_string.induct)
    (simp_all add: split_on_append [OF colon_notin_hex] split_on_word [OF colon_notin_hex])

lemma EthernetAddress_to_string_inject:
  assumes "EthernetAddress_to_string a = EthernetAddress_to_string b" "length a = 6" "length b = 6"
  shows "a = b"
proof -
  have "map unat a = map unat b"
    using assms EthernetAddress_parse [of a] EthernetAddress_parse [of b] by (metis list.size(3) zero_neq_numeral)
  moreover have "inj (unat :: byte \<Rightarrow> nat)" by (rule injI) (rule unsigned_word_eqI)
  ultimately show ?thesis using inj_map_eq_map by blast
qed

lemma EthernetAddress_to_string_length:
  "a \<noteq> [] \<Longrightarrow> length (EthernetAddress_to_string a) = 3 * length a - 1"
proof -
  have two: "length (setw 2 (hexw b)) = 2" for b :: byte
    using length_hex [of "unat b"] unsigned_less [of b, where ?'a = nat] by (simp add: setw_def)
  show "a \<noteq> [] \<Longrightarrow> length (EthernetAddress_to_string a) = 3 * length a - 1"
    by (induction a rule: EthernetAddress_to_string.induct) (simp_all add: two)
qed

text \<open>
  The blank that the stream of characters starts with is overwritten by the first character: the
  column of characters is only preceded by a blank when it is empty.
\<close>

definition put_all :: "string \<Rightarrow> char_stream" where
  "put_all cs = foldl stream_put (stream_str '' '') cs"

lemma stream_blank_overwritten: "cs \<noteq> [] \<Longrightarrow> put_all cs = (cs, length cs)"
proof (induction cs rule: rev_induct)
  case (snoc c cs)
  then show ?case by (cases "cs = []") (simp_all add: put_all_def stream_put_def stream_str_def)
qed simp

end
