(* ===== verification/Network_Simulator.thy ===== *)
theory Network_Simulator
  imports Forwarding Printing "HOL-Library.Multiset"
begin

text \<open>
  The network simulator, \<open>apps/network_simulator.cc\<close>: hosts with one network interface each, joined by
  links to the interfaces of a router.  The resolver \<open>gai\<close> and all random numbers are arguments; the
  progress messages are left out, and the order in which an \<open>unordered_map\<close> is visited is that of the list
  that stands for it.
\<close>

unbundle bit_operations_syntax

section \<open>Helpers\<close>

definition random_host_ethernet_address :: "byte list \<Rightarrow> ethernet_address" where
  "random_host_ethernet_address random =
     (let addr = take 6 random; addr = addr[0 := addr ! 0 OR 0x02] in addr[0 := addr ! 0 AND 0xfe])"

definition random_router_ethernet_address :: "byte list \<Rightarrow> ethernet_address" where
  "random_router_ethernet_address random =
     (let addr = take 6 random; addr = addr[0 := 0x02]; addr = addr[1 := 0] in addr[2 := 0])"

definition simulator_ip :: "getaddrinfo \<Rightarrow> string \<Rightarrow> u32 result" where
  "simulator_ip gai str = bindE (Address_of_ip gai str 0) Address_ipv4_numeric"

text \<open>Bytes as the characters of a \<open>std::string\<close>.\<close>

definition chars_of_bytes :: "byte list \<Rightarrow> string" where
  "chars_of_bytes = map (\<lambda>b. char_of (unat b))"

definition bytes_of_chars :: "string \<Rightarrow> byte list" where
  "bytes_of_chars = map of_char"

definition payload_text :: "ipv4_datagram \<Rightarrow> string" where
  "payload_text dgram = '' payload=\"'' @ chars_of_bytes (BufferList_concatenate (dg_payload dgram)) @ ''\"''"

text \<open>\<open>summary\<close> of a frame.\<close>

definition frame_summary :: "ethernet_frame \<Rightarrow> string result" where
  "frame_summary frame =
     (let ret = EthernetHeader_to_string (ef_header frame)
      in if eh_type (ef_header frame) = TYPE_IPv4
         then bindE (BufferList_to_buffer (ef_payload frame)) (\<lambda>b.
              bindE (IPv4Datagram_parse IPv4Datagram_default b) (\<lambda>(res, dgram).
                Inr (if res = NoError then ret @ '' '' @ IPv4Header_summary (dg_header dgram) @ payload_text dgram
                     else ret @ '' (bad IPv4)'')))
         else if eh_type (ef_header frame) = TYPE_ARP
         then bindE (BufferList_to_buffer (ef_payload frame)) (\<lambda>b.
              bindE (ARPMessage_parse ARPMessage_default b) (\<lambda>(res, arp).
                Inr (if res = NoError then ret @ '' '' @ ARPMessage_to_string arp else ret @ '' (bad ARP)'')))
         else Inr ret)"

section \<open>Hosts\<close>

record host =
  ho_name :: string
  ho_my_address :: address
  ho_interface :: async_network_interface
  ho_next_hop :: address
  ho_expecting :: "ipv4_datagram list"

definition Host_new :: "byte list \<Rightarrow> string \<Rightarrow> address \<Rightarrow> address \<Rightarrow> host" where
  "Host_new random name my_address next_hop =
     \<lparr>ho_name = name, ho_my_address = my_address,
      ho_interface = AsyncNetworkInterface_new (NetworkInterface_new (random_host_ethernet_address random) my_address),
      ho_next_hop = next_hop, ho_expecting = []\<rparr>"

fun expecting_loop :: "ipv4_datagram list \<Rightarrow> ipv4_datagram \<Rightarrow> bool result" where
  "expecting_loop [] expected = Inr False"
| "expecting_loop (x # xs) expected =
     bindE (IPv4Datagram_bytes x) (\<lambda>x_bytes. bindE (IPv4Datagram_bytes expected) (\<lambda>expected_bytes.
       if x_bytes = expected_bytes then Inr True else expecting_loop xs expected))"

definition Host_expecting :: "host \<Rightarrow> ipv4_datagram \<Rightarrow> bool result" where
  "Host_expecting h expected = expecting_loop (ho_expecting h) expected"

fun remove_expectation_loop :: "ipv4_datagram list \<Rightarrow> ipv4_datagram \<Rightarrow> ipv4_datagram list result" where
  "remove_expectation_loop [] expected = Inr []"
| "remove_expectation_loop (x # xs) expected =
     bindE (IPv4Datagram_bytes x) (\<lambda>x_bytes. bindE (IPv4Datagram_bytes expected) (\<lambda>expected_bytes.
       if x_bytes = expected_bytes then Inr xs
       else bindE (remove_expectation_loop xs expected) (\<lambda>xs. Inr (x # xs))))"

definition Host_remove_expectation :: "host \<Rightarrow> ipv4_datagram \<Rightarrow> host result" where
  "Host_remove_expectation h expected =
     bindE (remove_expectation_loop (ho_expecting h) expected) (\<lambda>xs. Inr (h\<lparr>ho_expecting := xs\<rparr>))"

definition Host_send_to :: "u32 \<Rightarrow> host \<Rightarrow> address \<Rightarrow> u8 \<Rightarrow> (ipv4_datagram \<times> host) result" where
  "Host_send_to random h destination ttl =
     bindE (Address_ipv4_numeric (ho_my_address h)) (\<lambda>src.
     bindE (Address_ipv4_numeric destination) (\<lambda>dst.
       let payload = BufferList_of_string (bytes_of_chars (''random payload: {'' @ decimal (unat random) @ ''}''));
           header = IPv4Header_default\<lparr>ip_src := src, ip_dst := dst\<rparr>;
           header = header\<lparr>ip_len := of_nat (sz_add (unat (ip_hlen header) * 4) (BufferList_size payload)), ip_ttl := ttl\<rparr>;
           dgram = \<lparr>dg_header = header, dg_payload = payload\<rparr>
       in bindE (AsyncNetworkInterface_send_datagram (ho_interface h) dgram (ho_next_hop h)) (\<lambda>a.
            Inr (dgram, h\<lparr>ho_interface := a\<rparr>))))"

definition Host_expect :: "host \<Rightarrow> ipv4_datagram \<Rightarrow> host" where
  "Host_expect h expected = h\<lparr>ho_expecting := ho_expecting h @ [expected]\<rparr>"

text \<open>\<open>check\<close>: the loop over the received datagrams, and the test at the end.\<close>

fun check_loop :: "ipv4_datagram list \<Rightarrow> host \<Rightarrow> host result" where
  "check_loop [] h = Inr (h\<lparr>ho_interface := (ho_interface h)\<lparr>an_datagrams_out := []\<rparr>\<rparr>)"
| "check_loop (dgram_received # rest) h =
     bindE (Host_expecting h dgram_received) (\<lambda>expected.
       if \<not> expected
       then Inl (RuntimeError (''Host '' @ ho_name h @ '' received unexpected Internet datagram: '' @
              IPv4Header_summary (dg_header dgram_received) @ payload_text dgram_received))
       else bindE (Host_remove_expectation h dgram_received) (check_loop rest))"

definition Host_check :: "host \<Rightarrow> host result" where
  "Host_check h =
     bindE (check_loop (an_datagrams_out (ho_interface h)) h) (\<lambda>h.
       if ho_expecting h \<noteq> []
       then let expected = hd (ho_expecting h)
            in Inl (RuntimeError (''Host '' @ ho_name h @ '' did NOT receive an expected Internet datagram: '' @
                 IPv4Header_summary (dg_header expected) @ payload_text expected))
       else Inr h)"

section \<open>Links\<close>

abbreviation frames_out :: "async_network_interface \<Rightarrow> ethernet_frame list" where
  "frames_out a \<equiv> ni_frames_out (an_interface a)"

fun Network_deliver :: "ethernet_frame list \<Rightarrow> async_network_interface \<Rightarrow> async_network_interface result" where
  "Network_deliver [] dst = Inr dst"
| "Network_deliver (frame # to_send) dst =
     (let frame = frame\<lparr>ef_payload := BufferList_of_string (BufferList_concatenate (ef_payload frame))\<rparr>
      in bindE (AsyncNetworkInterface_recv_frame dst frame) (Network_deliver to_send))"

text \<open>\<open>clear\<close> pops a frame of the interface for every frame of the copy.\<close>

definition clear_frames :: "ethernet_frame list \<Rightarrow> async_network_interface \<Rightarrow> async_network_interface" where
  "clear_frames sent a = a\<lparr>an_interface := (an_interface a)\<lparr>ni_frames_out := drop (length sent) (frames_out a)\<rparr>\<rparr>"

definition exchange_frames ::
  "async_network_interface \<Rightarrow> async_network_interface \<Rightarrow> (async_network_interface \<times> async_network_interface) result" where
  "exchange_frames x y =
     (let x_frames = frames_out x; y_frames = frames_out y
      in bindE (Network_deliver x_frames y) (\<lambda>y.
         bindE (Network_deliver y_frames x) (\<lambda>x.
           Inr (clear_frames x_frames x, clear_frames y_frames y))))"

definition exchange_frames3 ::
  "async_network_interface \<Rightarrow> async_network_interface \<Rightarrow> async_network_interface \<Rightarrow>
     (async_network_interface \<times> async_network_interface \<times> async_network_interface) result" where
  "exchange_frames3 x y z =
     (let x_frames = frames_out x; y_frames = frames_out y; z_frames = frames_out z
      in bindE (Network_deliver x_frames y) (\<lambda>y.
         bindE (Network_deliver x_frames z) (\<lambda>z.
         bindE (Network_deliver y_frames x) (\<lambda>x.
         bindE (Network_deliver y_frames z) (\<lambda>z.
         bindE (Network_deliver z_frames x) (\<lambda>x.
         bindE (Network_deliver z_frames y) (\<lambda>y.
           Inr (clear_frames x_frames x, clear_frames y_frames y, clear_frames z_frames z))))))))"

section \<open>The network\<close>

record network =
  nw_router :: router
  nw_default_id :: size_t
  nw_eth0_id :: size_t
  nw_eth1_id :: size_t
  nw_eth2_id :: size_t
  nw_uun3_id :: size_t
  nw_hs4_id :: size_t
  nw_mit5_id :: size_t
  nw_hosts :: "(string \<times> host) list"

definition Network_host :: "network \<Rightarrow> string \<Rightarrow> host result" where
  "Network_host nw name =
     (case map_of (nw_hosts nw) name of
        None \<Rightarrow> Inl (RuntimeError (''unknown host: '' @ name))
      | Some h \<Rightarrow> if ho_name h \<noteq> name then Inl (RuntimeError (''invalid host: '' @ name)) else Inr h)"

text \<open>Writing through the references that \<open>host\<close> and \<open>interface\<close> return.\<close>

definition put_host :: "string \<Rightarrow> host \<Rightarrow> network \<Rightarrow> network" where
  "put_host name h nw = nw\<lparr>nw_hosts := map (\<lambda>(n, g). (n, if n = name then h else g)) (nw_hosts nw)\<rparr>"

definition put_interface :: "size_t \<Rightarrow> async_network_interface \<Rightarrow> network \<Rightarrow> network" where
  "put_interface N a nw = nw\<lparr>nw_router := (nw_router nw)\<lparr>rt_interfaces := (rt_interfaces (nw_router nw))[N := a]\<rparr>\<rparr>"

definition nw_link :: "size_t \<Rightarrow> string \<Rightarrow> network \<Rightarrow> network result" where
  "nw_link N name nw =
     bindE (Router_interface (nw_router nw) N) (\<lambda>x.
     bindE (Network_host nw name) (\<lambda>h.
     bindE (exchange_frames x (ho_interface h)) (\<lambda>(x, y).
       Inr (put_host name (h\<lparr>ho_interface := y\<rparr>) (put_interface N x nw)))))"

definition nw_link3 :: "size_t \<Rightarrow> string \<Rightarrow> string \<Rightarrow> network \<Rightarrow> network result" where
  "nw_link3 N name1 name2 nw =
     bindE (Router_interface (nw_router nw) N) (\<lambda>x.
     bindE (Network_host nw name1) (\<lambda>h1.
     bindE (Network_host nw name2) (\<lambda>h2.
     bindE (exchange_frames3 x (ho_interface h1) (ho_interface h2)) (\<lambda>(x, y, z).
       Inr (put_host name2 (h2\<lparr>ho_interface := z\<rparr>) (put_host name1 (h1\<lparr>ho_interface := y\<rparr>) (put_interface N x nw)))))))"

definition Network_simulate_physical_connections :: "network \<Rightarrow> network result" where
  "Network_simulate_physical_connections nw =
     bindE (nw_link (nw_default_id nw) ''default_router'' nw) (\<lambda>nw.
     bindE (nw_link (nw_eth0_id nw) ''applesauce'' nw) (\<lambda>nw.
     bindE (nw_link (nw_eth2_id nw) ''cherrypie'' nw) (\<lambda>nw.
     bindE (nw_link (nw_hs4_id nw) ''hs_router'' nw) (\<lambda>nw.
       nw_link3 (nw_uun3_id nw) ''dm42'' ''dm43'' nw))))"

text \<open>\<open>simulate\<close>: the rounds, and the checks.\<close>

fun simulate_rounds :: "nat \<Rightarrow> network \<Rightarrow> network result" where
  "simulate_rounds 0 nw = Inr nw"
| "simulate_rounds (Suc n) nw =
     bindE (Router_route (nw_router nw)) (\<lambda>r.
     bindE (Network_simulate_physical_connections (nw\<lparr>nw_router := r\<rparr>)) (simulate_rounds n))"

fun check_hosts :: "(string \<times> host) list \<Rightarrow> (string \<times> host) list result" where
  "check_hosts [] = Inr []"
| "check_hosts ((name, h) # hs) =
     bindE (Host_check h) (\<lambda>h. bindE (check_hosts hs) (\<lambda>hs. Inr ((name, h) # hs)))"

definition Network_simulate :: "network \<Rightarrow> network result" where
  "Network_simulate nw =
     bindE (simulate_rounds 256 nw) (\<lambda>nw. bindE (check_hosts (nw_hosts nw)) (\<lambda>hs. Inr (nw\<lparr>nw_hosts := hs\<rparr>)))"

text \<open>
  The constructor; the Ethernet address of interface \<open>i\<close> is made from the random bytes \<open>mac i\<close>, and those of
  the hosts follow.
\<close>

definition add_interface :: "getaddrinfo \<Rightarrow> byte list \<Rightarrow> string \<Rightarrow> router \<Rightarrow> (size_t \<times> router) result" where
  "add_interface gai random ip r =
     bindE (Address_of_ip gai ip 0) (\<lambda>a.
       Inr (Router_add_interface r (AsyncNetworkInterface_new (NetworkInterface_new (random_router_ethernet_address random) a))))"

definition insert_host ::
  "getaddrinfo \<Rightarrow> byte list \<Rightarrow> string \<Rightarrow> string \<Rightarrow> string \<Rightarrow> (string \<times> host) list \<Rightarrow> (string \<times> host) list result" where
  "insert_host gai random name my_address next_hop hosts =
     bindE (Address_of_ip gai my_address 0) (\<lambda>my_address.
     bindE (Address_of_ip gai next_hop 0) (\<lambda>next_hop.
       Inr (if map_of hosts name = None then hosts @ [(name, Host_new random name my_address next_hop)] else hosts)))"

definition add_route :: "getaddrinfo \<Rightarrow> string \<Rightarrow> u8 \<Rightarrow> address option \<Rightarrow> size_t \<Rightarrow> network \<Rightarrow> network result" where
  "add_route gai prefix prefix_length next_hop interface_num nw =
     bindE (simulator_ip gai prefix) (\<lambda>ip.
       Inr (nw\<lparr>nw_router := Router_add_route (nw_router nw) ip prefix_length next_hop interface_num\<rparr>))"

definition Network_new :: "getaddrinfo \<Rightarrow> (nat \<Rightarrow> byte list) \<Rightarrow> network result" where
  "Network_new gai mac =
     bindE (add_interface gai (mac 0) ''171.67.76.46'' Router_new) (\<lambda>(default_id, r).
     bindE (add_interface gai (mac 1) ''10.0.0.1'' r) (\<lambda>(eth0_id, r).
     bindE (add_interface gai (mac 2) ''172.16.0.1'' r) (\<lambda>(eth1_id, r).
     bindE (add_interface gai (mac 3) ''192.168.0.1'' r) (\<lambda>(eth2_id, r).
     bindE (add_interface gai (mac 4) ''198.178.229.1'' r) (\<lambda>(uun3_id, r).
     bindE (add_interface gai (mac 5) ''143.195.0.2'' r) (\<lambda>(hs4_id, r).
     bindE (add_interface gai (mac 6) ''128.30.76.255'' r) (\<lambda>(mit5_id, r).
     bindE (insert_host gai (mac 7) ''applesauce'' ''10.0.0.2'' ''10.0.0.1'' []) (\<lambda>hosts.
     bindE (insert_host gai (mac 8) ''default_router'' ''171.67.76.1'' ''0'' hosts) (\<lambda>hosts.
     bindE (insert_host gai (mac 9) ''cherrypie'' ''192.168.0.2'' ''192.168.0.1'' hosts) (\<lambda>hosts.
     bindE (insert_host gai (mac 10) ''hs_router'' ''143.195.0.1'' ''0'' hosts) (\<lambda>hosts.
     bindE (insert_host gai (mac 11) ''dm42'' ''198.178.229.42'' ''198.178.229.1'' hosts) (\<lambda>hosts.
     bindE (insert_host gai (mac 12) ''dm43'' ''198.178.229.43'' ''198.178.229.1'' hosts) (\<lambda>hosts.
       let nw = \<lparr>nw_router = r, nw_default_id = default_id, nw_eth0_id = eth0_id, nw_eth1_id = eth1_id,
                 nw_eth2_id = eth2_id, nw_uun3_id = uun3_id, nw_hs4_id = hs4_id, nw_mit5_id = mit5_id, nw_hosts = hosts\<rparr>
       in bindE (Network_host nw ''default_router'') (\<lambda>default_router.
          bindE (Network_host nw ''hs_router'') (\<lambda>hs_router.
          bindE (add_route gai ''0.0.0.0'' 0 (Some (ho_my_address default_router)) default_id nw) (\<lambda>nw.
          bindE (add_route gai ''10.0.0.0'' 8 None eth0_id nw) (\<lambda>nw.
          bindE (add_route gai ''172.16.0.0'' 16 None eth1_id nw) (\<lambda>nw.
          bindE (add_route gai ''192.168.0.0'' 24 None eth2_id nw) (\<lambda>nw.
          bindE (add_route gai ''198.178.229.0'' 24 None uun3_id nw) (\<lambda>nw.
          bindE (add_route gai ''143.195.0.0'' 17 (Some (ho_my_address hs_router)) hs4_id nw) (\<lambda>nw.
          bindE (add_route gai ''143.195.128.0'' 18 (Some (ho_my_address hs_router)) hs4_id nw) (\<lambda>nw.
          bindE (add_route gai ''143.195.192.0'' 19 (Some (ho_my_address hs_router)) hs4_id nw) (\<lambda>nw.
          bindE (Address_of_ip gai ''128.30.0.1'' 0) (\<lambda>mit_hop.
            add_route gai ''128.30.76.255'' 16 (Some mit_hop) mit5_id nw))))))))))))))))))))))))"

section \<open>The scenarios\<close>

text \<open>A host sends a datagram to an address.\<close>

definition scenario_send :: "u32 \<Rightarrow> string \<Rightarrow> address \<Rightarrow> u8 \<Rightarrow> network \<Rightarrow> (ipv4_datagram \<times> network) result" where
  "scenario_send random name destination ttl nw =
     bindE (Network_host nw name) (\<lambda>h.
     bindE (Host_send_to random h destination ttl) (\<lambda>(dgram, h). Inr (dgram, put_host name h nw)))"

text \<open>The block that is repeated: send, lower the time to live, expect, simulate.\<close>

definition scenario :: "u32 \<Rightarrow> string \<Rightarrow> address \<Rightarrow> string \<Rightarrow> network \<Rightarrow> network result" where
  "scenario random sender destination receiver nw =
     bindE (scenario_send random sender destination 64 nw) (\<lambda>(dgram_sent, nw).
       let dgram_sent = dgram_sent\<lparr>dg_header := (dg_header dgram_sent)\<lparr>ip_ttl := ip_ttl (dg_header dgram_sent) - 1\<rparr>\<rparr>
       in bindE (Network_host nw receiver) (\<lambda>h.
            Network_simulate (put_host receiver (Host_expect h dgram_sent) nw)))"

definition scenario_to_host :: "u32 \<Rightarrow> string \<Rightarrow> string \<Rightarrow> network \<Rightarrow> network result" where
  "scenario_to_host random sender receiver nw =
     bindE (Network_host nw receiver) (\<lambda>h. scenario random sender (ho_my_address h) receiver nw)"

definition scenario_to_ip :: "getaddrinfo \<Rightarrow> u32 \<Rightarrow> string \<Rightarrow> string \<Rightarrow> string \<Rightarrow> network \<Rightarrow> network result" where
  "scenario_to_ip gai random sender ip receiver nw =
     bindE (Address_of_ip gai ip 0) (\<lambda>destination. scenario random sender destination receiver nw)"

definition scenario_expires :: "getaddrinfo \<Rightarrow> u32 \<Rightarrow> u8 \<Rightarrow> network \<Rightarrow> network result" where
  "scenario_expires gai random ttl nw =
     bindE (Address_of_ip gai ''1.2.3.4'' 0) (\<lambda>destination.
     bindE (scenario_send random ''applesauce'' destination ttl nw) (\<lambda>(dgram_sent, nw). Network_simulate nw))"

definition network_simulator :: "getaddrinfo \<Rightarrow> (nat \<Rightarrow> byte list) \<Rightarrow> (nat \<Rightarrow> u32) \<Rightarrow> network result" where
  "network_simulator gai mac rd =
     bindE (Network_new gai mac) (\<lambda>nw.
     bindE (scenario_to_host (rd 0) ''applesauce'' ''cherrypie'' nw) (\<lambda>nw.
     bindE (scenario_to_host (rd 1) ''cherrypie'' ''applesauce'' nw) (\<lambda>nw.
     bindE (scenario_to_ip gai (rd 2) ''applesauce'' ''1.2.3.4'' ''default_router'' nw) (\<lambda>nw.
     bindE (scenario_to_ip gai (rd 3) ''applesauce'' ''143.195.131.17'' ''hs_router'' nw) (\<lambda>nw.
     bindE (scenario_to_ip gai (rd 4) ''cherrypie'' ''143.195.193.52'' ''hs_router'' nw) (\<lambda>nw.
     bindE (scenario_to_ip gai (rd 5) ''cherrypie'' ''143.195.223.255'' ''hs_router'' nw) (\<lambda>nw.
     bindE (scenario_to_ip gai (rd 6) ''cherrypie'' ''143.195.224.0'' ''default_router'' nw) (\<lambda>nw.
     bindE (scenario_to_host (rd 7) ''dm42'' ''dm43'' nw) (\<lambda>nw.
     bindE (scenario_expires gai (rd 8) 1 nw) (scenario_expires gai (rd 9) 0))))))))))"

end
