(* ===== verification/Simulation.thy ===== *)
theory Simulation
  imports Network_Simulator
begin

text \<open>
  Runs of the simulated network: a network that is well formed stays well formed, no operation of a round
  fails, and the verdict of \<open>simulate\<close> is that every host has received exactly the datagrams it expects.
\<close>

section \<open>Checking a host\<close>

text \<open>The bytes of a datagram; \<open>expecting\<close> compares datagrams by them.\<close>

definition wire :: "ipv4_datagram \<Rightarrow> byte list" where
  "wire dg = BufferList_concatenate (dg_ser dg)"

lemma bytes_wire: "dg_wf dg \<Longrightarrow> IPv4Datagram_bytes dg = Inr (wire dg)"
  using dg_ser by (simp add: IPv4Datagram_bytes_def wire_def)

lemma expecting_loop_eq:
  "dg_wf e \<Longrightarrow> \<forall>x \<in> set xs. dg_wf x \<Longrightarrow> expecting_loop xs e = Inr (wire e \<in> wire ` set xs)"
  by (induction xs) (auto simp: bytes_wire)

lemma remove_expectation_loop_eq:
  assumes "dg_wf e" "\<forall>x \<in> set xs. dg_wf x" "wire e \<in> wire ` set xs"
  shows "\<exists>ys. remove_expectation_loop xs e = Inr ys \<and> set ys \<subseteq> set xs \<and>
    mset (map wire xs) = add_mset (wire e) (mset (map wire ys))"
  using assms
proof (induction xs)
  case (Cons x xs)
  show ?case
  proof (cases "wire x = wire e")
    case True
    then show ?thesis using Cons.prems by (auto simp: bytes_wire)
  next
    case False
    then obtain ys where "remove_expectation_loop xs e = Inr ys" "set ys \<subseteq> set xs"
      "mset (map wire xs) = add_mset (wire e) (mset (map wire ys))"
      using Cons.IH Cons.prems by auto
    then show ?thesis using False Cons.prems by (auto simp: bytes_wire)
  qed
qed simp

text \<open>The loop accepts the received datagrams exactly when they are among the expected ones.\<close>

lemma check_loop_eq:
  assumes "\<forall>x \<in> set received. dg_wf x" "\<forall>x \<in> set (ho_expecting h). dg_wf x"
  shows "case check_loop received h of
      Inl e \<Rightarrow> \<not> mset (map wire received) \<subseteq># mset (map wire (ho_expecting h))
    | Inr h' \<Rightarrow> mset (map wire (ho_expecting h)) = mset (map wire received) + mset (map wire (ho_expecting h')) \<and>
        h' = h\<lparr>ho_expecting := ho_expecting h', ho_interface := (ho_interface h)\<lparr>an_datagrams_out := []\<rparr>\<rparr>"
  using assms
proof (induction received arbitrary: h)
  case (Cons d received)
  have d: "dg_wf d" using Cons.prems by simp
  have exp: "Host_expecting h d = Inr (wire d \<in> wire ` set (ho_expecting h))"
    using expecting_loop_eq [OF d Cons.prems(2)] by (simp add: Host_expecting_def)
  show ?case
  proof (cases "wire d \<in> wire ` set (ho_expecting h)")
    case False
    then have "wire d \<notin># mset (map wire (ho_expecting h))" by simp
    then have "\<not> mset (map wire (d # received)) \<subseteq># mset (map wire (ho_expecting h))"
      by (auto dest: mset_subset_eqD)
    then show ?thesis using False exp by simp
  next
    case True
    obtain ys where ys: "remove_expectation_loop (ho_expecting h) d = Inr ys" "set ys \<subseteq> set (ho_expecting h)"
      "mset (map wire (ho_expecting h)) = add_mset (wire d) (mset (map wire ys))"
      using remove_expectation_loop_eq [OF d Cons.prems(2) True] by blast
    let ?h = "h\<lparr>ho_expecting := ys\<rparr>"
    have eq: "check_loop (d # received) h = check_loop received ?h"
      using exp True ys(1) by (simp add: Host_remove_expectation_def)
    have "\<forall>x \<in> set (ho_expecting ?h). dg_wf x" using Cons.prems(2) ys(2) by auto
    then show ?thesis using Cons.IH [of ?h] Cons.prems(1) ys(3) unfolding eq by (auto split: sum.splits)
  qed
qed (simp add: host.defs)

lemma Host_check_eq:
  assumes "\<forall>x \<in> set (an_datagrams_out (ho_interface h)). dg_wf x" "\<forall>x \<in> set (ho_expecting h). dg_wf x"
  shows "(\<exists>h'. Host_check h = Inr h') \<longleftrightarrow>
      mset (map wire (an_datagrams_out (ho_interface h))) = mset (map wire (ho_expecting h))"
    and "Host_check h = Inr h' \<Longrightarrow> h' = h\<lparr>ho_expecting := [], ho_interface := (ho_interface h)\<lparr>an_datagrams_out := []\<rparr>\<rparr>"
proof -
  let ?r = "an_datagrams_out (ho_interface h)"
  note c = check_loop_eq [OF assms]
  show "(\<exists>h'. Host_check h = Inr h') \<longleftrightarrow> mset (map wire ?r) = mset (map wire (ho_expecting h))"
    using c by (cases "check_loop ?r h") (auto simp: Host_check_def Let_def)
  show "Host_check h = Inr h' \<Longrightarrow> h' = h\<lparr>ho_expecting := [], ho_interface := (ho_interface h)\<lparr>an_datagrams_out := []\<rparr>\<rparr>"
    using c by (cases "check_loop ?r h") (auto simp: Host_check_def Let_def split: if_splits)
qed

section \<open>Links\<close>

text \<open>A frame that carries a datagram carries all of it.\<close>

definition frame_ok :: "ethernet_frame \<Rightarrow> bool" where
  "frame_ok f \<longleftrightarrow> (eh_type (ef_header f) = TYPE_IPv4 \<longrightarrow>
     (\<exists>dg. dg_wf dg \<and> BufferList_concatenate (ef_payload f) = wire dg))"

definition node_ok :: "u32 \<Rightarrow> async_network_interface \<Rightarrow> bool" where
  "node_ok ip a \<longleftrightarrow> async_inv ip a \<and> (\<forall>f \<in> set (frames_out a). frame_ok f)"

lemma frame_ok_made [simp]:
  "dg_wf dg \<Longrightarrow> frame_ok (NetworkInterface_make_frame ni a TYPE_IPv4 (dg_ser dg))"
  "frame_ok (NetworkInterface_make_frame ni a TYPE_ARP pl)"
  by (auto simp: frame_ok_def NetworkInterface_make_frame_def wire_def EthernetHeader_default_def)

lemma node_recv_buffer:
  assumes "node_ok ip a" "frame_ok f" "ef_payload f = [b]"
  shows "\<exists>a' new. AsyncNetworkInterface_recv_frame a f = Inr a' \<and> node_ok ip a' \<and> frames_out a' = frames_out a @ new"
proof -
  let ?ni = "an_interface a"
  have inv: "async_inv ip a" "ni_inv ip ?ni" and out: "\<forall>f \<in> set (frames_out a). frame_ok f"
    using assms(1) by (simp_all add: node_ok_def async_inv_def)
  show ?thesis
  proof (cases "ni_accepts ?ni f \<and> eh_type (ef_header f) \<in> {TYPE_IPv4, TYPE_ARP}")
    case False
    then have "NetworkInterface_recv_frame ?ni f = Inr (None, ?ni)"
      by (auto simp: NetworkInterface_recv_frame_def ni_accepts_def Let_def)
    then show ?thesis using assms(1) by (simp add: AsyncNetworkInterface_recv_frame_def)
  next
    case acc: True
    show ?thesis
    proof (cases "eh_type (ef_header f) = TYPE_IPv4")
      case True
      then obtain dg where dg: "dg_wf dg" "BufferList_concatenate (ef_payload f) = wire dg"
        using assms(2) by (auto simp: frame_ok_def)
      have str: "Buffer_str b = wire dg" using dg(2) assms(3) by simp
      obtain dg' where r: "AsyncNetworkInterface_recv_frame a f = Inr (a\<lparr>an_datagrams_out := an_datagrams_out a @ [dg']\<rparr>)"
        "async_inv ip (a\<lparr>an_datagrams_out := an_datagrams_out a @ [dg']\<rparr>)"
        using async_recv_ipv4 [OF inv(1) _ True assms(3), of dg] acc dg(1) str by (auto simp: wire_def simp del: BufferList_concatenate_eq)
      then show ?thesis using out by (auto simp: node_ok_def)
    next
      case False
      then have type: "eh_type (ef_header f) = TYPE_ARP" using acc by simp
      obtain res msg where msg: "ARPMessage_parse ARPMessage_default b = Inr (res, msg)"
        using ARPMessage_parse_total by blast
      show ?thesis
      proof (cases "res = NoError")
        case True
        then obtain ni' where ni': "NetworkInterface_recv_frame ?ni f = Inr (None, ni')" "ni_inv ip ni'" "ni_learned ip ?ni msg ni'"
          using recv_arp [OF inv(2) _ _ _ msg [unfolded True], of f] acc type assms(3) by auto
        have "frame_ok g" if "g \<in> set (reply_frames ?ni ip msg)" for g
          using that by (auto simp: reply_frames_def split: if_splits)
        moreover have "dg_wf dg" if "(k, dg) \<in> set (ni_waiting_dgrams ?ni)" for k dg
          using ni_invD(8) [OF inv(2) that] by simp
        ultimately have "\<forall>g \<in> set (ni_frames_out ni'). frame_ok g" "\<exists>new. ni_frames_out ni' = frames_out a @ new"
          using ni'(3) out by (auto simp: ni_learned_def Let_def)
        then show ?thesis using ni' inv(1) by (auto simp: AsyncNetworkInterface_recv_frame_def node_ok_def async_inv_def)
      next
        case False
        then have "NetworkInterface_recv_frame ?ni f = Inr (None, ?ni)"
          using acc type msg assms(3) by (auto simp: NetworkInterface_recv_frame_def ni_accepts_def BufferList_to_buffer_def Let_def)
        then show ?thesis using assms(1) by (simp add: AsyncNetworkInterface_recv_frame_def)
      qed
    qed
  qed
qed

lemma node_recv:
  assumes "node_ok ip a" "frame_ok f"
  shows "\<exists>a' new. AsyncNetworkInterface_recv_frame a
      (f\<lparr>ef_payload := BufferList_of_string (BufferList_concatenate (ef_payload f))\<rparr>) = Inr a' \<and>
    node_ok ip a' \<and> frames_out a' = frames_out a @ new"
  using node_recv_buffer [OF assms(1), of "f\<lparr>ef_payload := [Buffer_new (BufferList_concatenate (ef_payload f))]\<rparr>"] assms(2)
  by (simp add: frame_ok_def)

lemma node_deliver:
  assumes "node_ok ip a" "\<forall>f \<in> set fs. frame_ok f"
  shows "\<exists>a' new. Network_deliver fs a = Inr a' \<and> node_ok ip a' \<and> frames_out a' = frames_out a @ new"
  using assms
proof (induction fs arbitrary: a)
  case (Cons f fs)
  obtain a1 new where a1: "AsyncNetworkInterface_recv_frame a
      (f\<lparr>ef_payload := BufferList_of_string (BufferList_concatenate (ef_payload f))\<rparr>) = Inr a1"
    "node_ok ip a1" "frames_out a1 = frames_out a @ new"
    using node_recv [OF Cons.prems(1), of f] Cons.prems(2) by auto
  then show ?case using Cons.IH [OF a1(2)] Cons.prems(2) by (auto simp: Let_def simp del: BufferList_concatenate_eq)
qed simp

lemma node_clear: "node_ok ip a \<Longrightarrow> node_ok ip (clear_frames sent a)"
  using set_drop_subset [of "length sent" "frames_out a"]
  by (auto simp: node_ok_def async_inv_def clear_frames_def ni_inv_def)

lemma exchange_ok:
  assumes "node_ok ip x" "node_ok ip' y"
  shows "\<exists>x' y'. exchange_frames x y = Inr (x', y') \<and> node_ok ip x' \<and> node_ok ip' y'"
proof -
  have "\<forall>f \<in> set (frames_out x). frame_ok f" "\<forall>f \<in> set (frames_out y). frame_ok f"
    using assms by (simp_all add: node_ok_def)
  then show ?thesis
    using node_deliver [OF assms(1), of "frames_out y"] node_deliver [OF assms(2), of "frames_out x"]
    by (auto simp: exchange_frames_def Let_def intro!: node_clear)
qed

lemma exchange3_ok:
  assumes "node_ok ip x" "node_ok ip' y" "node_ok ip'' z"
  shows "\<exists>x' y' z'. exchange_frames3 x y z = Inr (x', y', z') \<and> node_ok ip x' \<and> node_ok ip' y' \<and> node_ok ip'' z'"
proof -
  have fs: "\<forall>f \<in> set (frames_out x). frame_ok f" "\<forall>f \<in> set (frames_out y). frame_ok f" "\<forall>f \<in> set (frames_out z). frame_ok f"
    using assms by (simp_all add: node_ok_def)
  obtain y1 z1 x1 where 1: "Network_deliver (frames_out x) y = Inr y1" "node_ok ip' y1"
    "Network_deliver (frames_out x) z = Inr z1" "node_ok ip'' z1" "Network_deliver (frames_out y) x = Inr x1" "node_ok ip x1"
    using node_deliver assms fs by metis
  obtain z2 x2 y2 where 2: "Network_deliver (frames_out y) z1 = Inr z2" "node_ok ip'' z2"
    "Network_deliver (frames_out z) x1 = Inr x2" "node_ok ip x2" "Network_deliver (frames_out z) y1 = Inr y2" "node_ok ip' y2"
    using node_deliver 1(2,4,6) fs by metis
  then show ?thesis using 1 by (auto simp: exchange_frames3_def Let_def intro!: node_clear)
qed

section \<open>Routing\<close>

lemma send_all_frames:
  assumes "send_all ni sends = Inr ni'" "ni_inv ip ni" "\<forall>(dg, h) \<in> set sends. dg_wf dg \<and> (\<exists>k port. h = ipv4_address k port)"
    and "\<forall>f \<in> set (ni_frames_out ni). frame_ok f"
  shows "\<forall>f \<in> set (ni_frames_out ni'). frame_ok f"
  using assms
proof (induction sends arbitrary: ni)
  case (Cons e sends)
  obtain dg k port where e: "e = (dg, ipv4_address k port)" "dg_wf dg" using Cons.prems(3) by auto
  obtain n1 where n1: "NetworkInterface_send_datagram ni dg (ipv4_address k port) = Inr n1" "ni_inv ip n1" "ni_sends ip ni k dg n1"
    using send_datagram_ok [OF Cons.prems(2) e(2)] by blast
  have "\<forall>f \<in> set (ni_frames_out n1). frame_ok f"
    using n1(3) Cons.prems(4) e(2) by (auto simp: ni_sends_def split: option.splits prod.splits if_splits)
  then show ?case using Cons.IH [OF _ n1(2)] Cons.prems(1,3) e(1) n1(1) by simp
qed simp

definition router_ok :: "u32 list \<Rightarrow> router \<Rightarrow> bool" where
  "router_ok ips r \<longleftrightarrow> router_inv ips r \<and> (\<forall>a \<in> set (rt_interfaces r). \<forall>f \<in> set (frames_out a). frame_ok f)"

lemma router_node: "router_ok ips r \<Longrightarrow> i < length ips \<Longrightarrow> node_ok (ips ! i) (rt_interfaces r ! i)"
  using router_inv_nth router_inv_length by (auto simp: router_ok_def node_ok_def)

lemma router_put:
  assumes "router_ok ips r" "i < length ips" "node_ok (ips ! i) a"
  shows "router_ok ips (r\<lparr>rt_interfaces := (rt_interfaces r)[i := a]\<rparr>)"
  using assms router_inv_update [of ips r i a] set_update_subset_insert [of "rt_interfaces r" i a]
  by (auto simp: router_ok_def node_ok_def)

lemma share_ok:
  assumes "router_inv ips r" "\<forall>dg \<in> set dgs. dg_wf dg" "(dg, h) \<in> set (share (rt_rules r) j dgs)"
  shows "dg_wf dg \<and> (\<exists>k port. h = ipv4_address k port)"
proof -
  obtain d where d: "d \<in> set dgs" "forward (rt_rules r) d = Some (j, dg, h)"
    using assms(3) by (auto simp: share_def split: option.splits if_splits)
  have "dg = hop_down d" using d(2) by (auto simp: forward_def split: if_splits)
  then show ?thesis using assms(2) d(1) forward_in_range [OF assms(1) d(2)] by auto
qed

lemma route_keeps:
  assumes "router_ok ips r"
  shows "\<exists>r'. Router_route r = Inr r' \<and> router_ok ips r'"
proof -
  have inv: "router_inv ips r" using assms by (simp add: router_ok_def)
  have len: "length (rt_interfaces r) = length ips" by (rule router_inv_length [OF inv])
  have wf: "\<forall>dg \<in> set (concat (queues r)). dg_wf dg"
  proof
    fix dg assume "dg \<in> set (concat (queues r))"
    then obtain j where "j < length ips" "dg \<in> set (an_datagrams_out (rt_interfaces r ! j))"
      using len by (auto simp: in_set_conv_nth [of _ "rt_interfaces r"])
    then show "dg_wf dg" using router_inv_nth [OF inv] by (auto simp: async_inv_def)
  qed
  obtain r' where r': "Router_route r = Inr r'" "routed ips r (concat (queues r)) r'"
    using route_ok [OF inv] by blast
  have len': "length (rt_interfaces r') = length ips" using r'(2) router_inv_length by (simp add: routed_def)
  have "\<forall>f \<in> set (frames_out (rt_interfaces r' ! j)). frame_ok f" if j: "j < length ips" for j
  proof (rule send_all_frames)
    show "send_all (nis r ! j) (share (rt_rules r) j (concat (queues r))) = Inr (an_interface (rt_interfaces r' ! j))"
      using r'(2) j len' by (simp add: routed_def)
    show "ni_inv (ips ! j) (nis r ! j)" using router_inv_nth [OF inv j] j len by (simp add: async_inv_def)
    show "\<forall>(dg, h) \<in> set (share (rt_rules r) j (concat (queues r))). dg_wf dg \<and> (\<exists>k port. h = ipv4_address k port)"
      using share_ok [OF inv wf] by blast
    show "\<forall>f \<in> set (ni_frames_out (nis r ! j)). frame_ok f" using router_node [OF assms j] j len by (simp add: node_ok_def)
  qed
  then show ?thesis using r' len' by (auto simp: router_ok_def routed_def in_set_conv_nth [of _ "rt_interfaces r'"])
qed

section \<open>The network\<close>

definition host_ok :: "string \<times> host \<Rightarrow> bool" where
  "host_ok nh \<longleftrightarrow> (case nh of (name, h) \<Rightarrow> ho_name h = name \<and> (\<exists>ip. node_ok ip (ho_interface h)) \<and>
     (\<forall>dg \<in> set (ho_expecting h). dg_wf dg) \<and>
     (\<exists>ip port. ho_my_address h = ipv4_address ip port) \<and> (\<exists>ip port. ho_next_hop h = ipv4_address ip port))"

definition host_names :: "string list" where
  "host_names = [''applesauce'', ''default_router'', ''cherrypie'', ''hs_router'', ''dm42'', ''dm43'']"

definition nw_ids :: "network \<Rightarrow> size_t list" where
  "nw_ids nw = [nw_default_id nw, nw_eth0_id nw, nw_eth1_id nw, nw_eth2_id nw, nw_uun3_id nw, nw_hs4_id nw, nw_mit5_id nw]"

definition nw_ok :: "u32 list \<Rightarrow> network \<Rightarrow> bool" where
  "nw_ok ips nw \<longleftrightarrow> router_ok ips (nw_router nw) \<and> (\<forall>i \<in> set (nw_ids nw). i < length ips) \<and>
     (\<forall>nh \<in> set (nw_hosts nw). host_ok nh) \<and> distinct (map fst (nw_hosts nw)) \<and>
     set host_names \<subseteq> fst ` set (nw_hosts nw)"

text \<open>What the hosts expect, which a round does not change.\<close>

definition expectations :: "network \<Rightarrow> (string \<times> ipv4_datagram list) list" where
  "expectations nw = map (\<lambda>(name, h). (name, ho_expecting h)) (nw_hosts nw)"

lemma nw_host:
  assumes "nw_ok ips nw" "name \<in> set host_names"
  shows "\<exists>h. Network_host nw name = Inr h \<and> (name, h) \<in> set (nw_hosts nw) \<and> host_ok (name, h)"
proof -
  have "name \<in> fst ` set (nw_hosts nw)" using assms by (auto simp: nw_ok_def)
  then obtain h where h: "map_of (nw_hosts nw) name = Some h"
    by (auto simp: image_iff dest: weak_map_of_SomeI)
  then have m: "(name, h) \<in> set (nw_hosts nw)" by (rule map_of_SomeD)
  then have "host_ok (name, h)" using assms(1) by (auto simp: nw_ok_def)
  then show ?thesis using h m by (auto simp: Network_host_def host_ok_def)
qed

lemma put_host_ok:
  assumes "nw_ok ips nw" "host_ok (name, h)"
  shows "nw_ok ips (put_host name h nw)"
  using assms
  by (auto simp: nw_ok_def put_host_def nw_ids_def comp_def case_prod_unfold image_image cong: map_cong)

lemma put_host_expectations:
  assumes "nw_ok ips nw" "(name, h) \<in> set (nw_hosts nw)" "ho_expecting h' = ho_expecting h"
  shows "expectations (put_host name h' nw) = expectations nw"
proof -
  have "ho_expecting g = ho_expecting h" if "(name, g) \<in> set (nw_hosts nw)" for g
    using that assms(1,2) by (auto simp: nw_ok_def dest: eq_key_imp_eq_value)
  then show ?thesis using assms(3) by (auto simp: expectations_def put_host_def)
qed

lemma put_interface_ok:
  assumes "nw_ok ips nw" "i < length ips" "node_ok (ips ! i) a"
  shows "nw_ok ips (put_interface i a nw)"
  using assms router_put [of ips "nw_router nw" i a] by (auto simp: nw_ok_def put_interface_def nw_ids_def)

lemma nw_link_ok:
  assumes "nw_ok ips nw" "i < length ips" "name \<in> set host_names"
  shows "\<exists>nw'. nw_link i name nw = Inr nw' \<and> nw_ok ips nw' \<and> expectations nw' = expectations nw \<and> nw_ids nw' = nw_ids nw"
proof -
  have r: "router_ok ips (nw_router nw)" using assms(1) by (simp add: nw_ok_def)
  then have len: "length (rt_interfaces (nw_router nw)) = length ips" using router_inv_length by (simp add: router_ok_def)
  obtain h where h: "Network_host nw name = Inr h" "(name, h) \<in> set (nw_hosts nw)" "host_ok (name, h)"
    using nw_host [OF assms(1,3)] by blast
  obtain ip where ip: "node_ok ip (ho_interface h)" using h(3) by (auto simp: host_ok_def)
  obtain x' y' where e: "exchange_frames (rt_interfaces (nw_router nw) ! i) (ho_interface h) = Inr (x', y')"
    "node_ok (ips ! i) x'" "node_ok ip y'"
    using exchange_ok [OF router_node [OF r assms(2)] ip] by blast
  let ?h = "h\<lparr>ho_interface := y'\<rparr>" and ?nw = "put_interface i x' nw"
  have nw: "nw_ok ips ?nw" by (rule put_interface_ok [OF assms(1,2) e(2)])
  have "host_ok (name, ?h)" using h(3) e(3) by (auto simp: host_ok_def)
  then have "nw_ok ips (put_host name ?h ?nw)" by (rule put_host_ok [OF nw])
  moreover have "expectations (put_host name ?h ?nw) = expectations ?nw"
    using h(2) by (intro put_host_expectations [OF nw]) (simp_all add: put_interface_def)
  moreover have "nw_link i name nw = Inr (put_host name ?h ?nw)"
    using h(1) e(1) assms(2) len by (simp add: nw_link_def Router_interface_def)
  ultimately show ?thesis by (simp add: expectations_def put_interface_def put_host_def nw_ids_def)
qed

lemma nw_link3_ok:
  assumes "nw_ok ips nw" "i < length ips" "name1 \<in> set host_names" "name2 \<in> set host_names" "name1 \<noteq> name2"
  shows "\<exists>nw'. nw_link3 i name1 name2 nw = Inr nw' \<and> nw_ok ips nw' \<and> expectations nw' = expectations nw \<and> nw_ids nw' = nw_ids nw"
proof -
  have r: "router_ok ips (nw_router nw)" using assms(1) by (simp add: nw_ok_def)
  then have len: "length (rt_interfaces (nw_router nw)) = length ips" using router_inv_length by (simp add: router_ok_def)
  obtain h1 where h1: "Network_host nw name1 = Inr h1" "(name1, h1) \<in> set (nw_hosts nw)" "host_ok (name1, h1)"
    using nw_host [OF assms(1,3)] by blast
  obtain h2 where h2: "Network_host nw name2 = Inr h2" "(name2, h2) \<in> set (nw_hosts nw)" "host_ok (name2, h2)"
    using nw_host [OF assms(1,4)] by blast
  obtain ip1 ip2 where ip: "node_ok ip1 (ho_interface h1)" "node_ok ip2 (ho_interface h2)"
    using h1(3) h2(3) by (auto simp: host_ok_def)
  obtain x' y' z' where e: "exchange_frames3 (rt_interfaces (nw_router nw) ! i) (ho_interface h1) (ho_interface h2) = Inr (x', y', z')"
    "node_ok (ips ! i) x'" "node_ok ip1 y'" "node_ok ip2 z'"
    using exchange3_ok [OF router_node [OF r assms(2)] ip] by blast
  let ?h1 = "h1\<lparr>ho_interface := y'\<rparr>" and ?h2 = "h2\<lparr>ho_interface := z'\<rparr>"
  let ?nw = "put_interface i x' nw"
  let ?nw1 = "put_host name1 ?h1 ?nw"
  let ?nw2 = "put_host name2 ?h2 ?nw1"
  have ok: "host_ok (name1, ?h1)" "host_ok (name2, ?h2)" using h1(3) h2(3) e(3,4) by (auto simp: host_ok_def)
  have nw: "nw_ok ips ?nw" by (rule put_interface_ok [OF assms(1,2) e(2)])
  then have nw1: "nw_ok ips ?nw1" by (rule put_host_ok [OF _ ok(1)])
  then have nw2: "nw_ok ips ?nw2" by (rule put_host_ok [OF _ ok(2)])
  have "(name2, h2) \<in> set (nw_hosts ?nw1)" using h2(2) assms(5) by (force simp: put_host_def put_interface_def)
  then have "expectations ?nw2 = expectations ?nw1" by (rule put_host_expectations [OF nw1]) simp
  moreover have "expectations ?nw1 = expectations ?nw"
    using h1(2) by (intro put_host_expectations [OF nw]) (simp_all add: put_interface_def)
  moreover have "nw_link3 i name1 name2 nw = Inr ?nw2"
    using h1(1) h2(1) e(1) assms(2) len by (simp add: nw_link3_def Router_interface_def)
  ultimately show ?thesis using nw2 by (simp add: expectations_def put_interface_def put_host_def nw_ids_def)
qed

lemma physical_connections_ok:
  assumes "nw_ok ips nw"
  shows "\<exists>nw'. Network_simulate_physical_connections nw = Inr nw' \<and> nw_ok ips nw' \<and> expectations nw' = expectations nw"
proof -
  have ids: "nw_default_id n < length ips" "nw_eth0_id n < length ips" "nw_eth2_id n < length ips" "nw_hs4_id n < length ips"
    "nw_uun3_id n < length ips" if "nw_ok ips n" for n
    using that by (simp_all add: nw_ok_def nw_ids_def)
  have names: "''default_router'' \<in> set host_names" "''applesauce'' \<in> set host_names" "''cherrypie'' \<in> set host_names"
    "''hs_router'' \<in> set host_names" "''dm42'' \<in> set host_names" "''dm43'' \<in> set host_names" "''dm42'' \<noteq> ''dm43''"
    by (simp_all add: host_names_def)
  obtain n1 where 1: "nw_link (nw_default_id nw) ''default_router'' nw = Inr n1" "nw_ok ips n1" "expectations n1 = expectations nw"
    using nw_link_ok [OF assms ids(1) [OF assms] names(1)] by blast
  obtain n2 where 2: "nw_link (nw_eth0_id n1) ''applesauce'' n1 = Inr n2" "nw_ok ips n2" "expectations n2 = expectations nw"
    using nw_link_ok [OF 1(2) ids(2) [OF 1(2)] names(2)] 1(3) by auto
  obtain n3 where 3: "nw_link (nw_eth2_id n2) ''cherrypie'' n2 = Inr n3" "nw_ok ips n3" "expectations n3 = expectations nw"
    using nw_link_ok [OF 2(2) ids(3) [OF 2(2)] names(3)] 2(3) by auto
  obtain n4 where 4: "nw_link (nw_hs4_id n3) ''hs_router'' n3 = Inr n4" "nw_ok ips n4" "expectations n4 = expectations nw"
    using nw_link_ok [OF 3(2) ids(4) [OF 3(2)] names(4)] 3(3) by auto
  obtain n5 where 5: "nw_link3 (nw_uun3_id n4) ''dm42'' ''dm43'' n4 = Inr n5" "nw_ok ips n5" "expectations n5 = expectations nw"
    using nw_link3_ok [OF 4(2) ids(5) [OF 4(2)] names(5-7)] 4(3) by auto
  show ?thesis using 1(1) 2(1) 3(1) 4(1) 5 by (simp add: Network_simulate_physical_connections_def)
qed

lemma simulate_rounds_ok:
  assumes "nw_ok ips nw"
  shows "\<exists>nw'. simulate_rounds n nw = Inr nw' \<and> nw_ok ips nw' \<and> expectations nw' = expectations nw"
  using assms
proof (induction n arbitrary: nw)
  case (Suc n)
  obtain r where r: "Router_route (nw_router nw) = Inr r" "router_ok ips r"
    using route_keeps [of ips "nw_router nw"] Suc.prems by (auto simp: nw_ok_def)
  have "nw_ok ips (nw\<lparr>nw_router := r\<rparr>)" using Suc.prems r(2) by (simp add: nw_ok_def nw_ids_def)
  then obtain n1 where n1: "Network_simulate_physical_connections (nw\<lparr>nw_router := r\<rparr>) = Inr n1" "nw_ok ips n1"
    "expectations n1 = expectations nw"
    using physical_connections_ok by (fastforce simp: expectations_def)
  show ?case using Suc.IH [OF n1(2)] r(1) n1(1,3) by auto
qed simp

section \<open>The verdict\<close>

definition received :: "host \<Rightarrow> ipv4_datagram list" where
  "received h = an_datagrams_out (ho_interface h)"

abbreviation satisfied :: "host \<Rightarrow> bool" where
  "satisfied h \<equiv> mset (map wire (received h)) = mset (map wire (ho_expecting h))"

definition settled :: "host \<Rightarrow> host" where
  "settled h = h\<lparr>ho_expecting := [], ho_interface := (ho_interface h)\<lparr>an_datagrams_out := []\<rparr>\<rparr>"

lemma host_checked:
  assumes "host_ok (name, h)"
  shows "(\<exists>h'. Host_check h = Inr h') \<longleftrightarrow> satisfied h" "Host_check h = Inr h' \<Longrightarrow> h' = settled h"
proof -
  have wf: "\<forall>x \<in> set (an_datagrams_out (ho_interface h)). dg_wf x" "\<forall>x \<in> set (ho_expecting h). dg_wf x"
    using assms by (auto simp: host_ok_def node_ok_def async_inv_def)
  show "(\<exists>h'. Host_check h = Inr h') \<longleftrightarrow> satisfied h" unfolding received_def by (rule Host_check_eq(1) [OF wf])
  show "Host_check h = Inr h' \<Longrightarrow> h' = settled h" unfolding settled_def by (rule Host_check_eq(2) [OF wf])
qed

lemma check_hosts_eq:
  assumes "\<forall>nh \<in> set hs. host_ok nh"
  shows "case check_hosts hs of
      Inl e \<Rightarrow> \<exists>(name, h) \<in> set hs. \<not> satisfied h \<and> Host_check h = Inl e
    | Inr hs' \<Rightarrow> (\<forall>(name, h) \<in> set hs. satisfied h) \<and> hs' = map (\<lambda>(name, h). (name, settled h)) hs"
  using assms
proof (induction hs)
  case (Cons nh hs)
  obtain name h where nh: "nh = (name, h)" by (cases nh)
  have ok: "host_ok (name, h)" using Cons.prems nh by simp
  show ?case
  proof (cases "Host_check h")
    case (Inl e)
    then have "\<not> satisfied h" using host_checked(1) [OF ok] by simp
    then show ?thesis using Inl nh by simp
  next
    case (Inr h')
    then have "satisfied h" "h' = settled h" using host_checked [OF ok] by blast+
    then show ?thesis using Cons Inr nh by (auto split: sum.splits)
  qed
qed simp

text \<open>
  C16. The verdict of the simulator.  In a well-formed network none of the 256 rounds of routing and of
  exchanging frames fails, and they leave the expectations of the hosts alone.  \<open>simulate\<close> then succeeds
  exactly when every host has received precisely the datagrams it expects, as many times as it expects
  them, in any order; it forgets both.  Otherwise it throws the error of a host for which this is not so.
\<close>

theorem simulation_verdict:
  assumes "nw_ok ips nw"
  shows "\<exists>nw'. simulate_rounds 256 nw = Inr nw' \<and> nw_ok ips nw' \<and> expectations nw' = expectations nw \<and>
    (case Network_simulate nw of
       Inl e \<Rightarrow> \<exists>(name, h) \<in> set (nw_hosts nw'). \<not> satisfied h \<and> Host_check h = Inl e
     | Inr nw'' \<Rightarrow> (\<forall>(name, h) \<in> set (nw_hosts nw'). satisfied h) \<and>
         nw'' = nw'\<lparr>nw_hosts := map (\<lambda>(name, h). (name, settled h)) (nw_hosts nw')\<rparr>)"
proof -
  obtain nw' where nw': "simulate_rounds 256 nw = Inr nw'" "nw_ok ips nw'" "expectations nw' = expectations nw"
    using simulate_rounds_ok [OF assms] by blast
  have "\<forall>nh \<in> set (nw_hosts nw'). host_ok nh" using nw'(2) by (simp add: nw_ok_def)
  note c = check_hosts_eq [OF this]
  have "Network_simulate nw = bindE (check_hosts (nw_hosts nw')) (\<lambda>hs. Inr (nw'\<lparr>nw_hosts := hs\<rparr>))"
    using nw'(1) by (simp only: Network_simulate_def bindE_simps)
  then show ?thesis using nw' c by (cases "check_hosts (nw_hosts nw')") auto
qed

section \<open>The network of the program\<close>

text \<open>A resolver that finds an IPv4 address for every name.\<close>

definition resolver :: "getaddrinfo \<Rightarrow> (string \<Rightarrow> u32) \<Rightarrow> bool" where
  "resolver gai ipf \<longleftrightarrow> (\<forall>s. Address_of_ip gai s 0 = Inr (ipv4_address (ipf s) 0))"

lemma numeric_resolver: "\<exists>ipf. resolver numeric_getaddrinfo ipf"
proof -
  have "Address_of_ip numeric_getaddrinfo s 0 =
      Inr (ipv4_address (be_join 0 (map (\<lambda>w. of_nat (digits_value w)) (split_on CHR ''.'' s))) 0)" for s
    by (simp add: Address_of_ip_def Address_resolve_def numeric_getaddrinfo_def)
  then show ?thesis unfolding resolver_def
    by (intro exI [of _ "\<lambda>s. be_join 0 (map (\<lambda>w. of_nat (digits_value w)) (split_on CHR ''.'' s))"] allI)
qed

lemma node_ok_new: "length mac = 6 \<Longrightarrow> node_ok ip (AsyncNetworkInterface_new (NetworkInterface_new mac (ipv4_address ip port)))"
  using ni_inv_new [of mac ip port]
  by (simp add: node_ok_def async_inv_def AsyncNetworkInterface_new_def) (simp add: NetworkInterface_new_def)

lemma random_length:
  "6 \<le> length random \<Longrightarrow> length (random_host_ethernet_address random) = 6"
  "6 \<le> length random \<Longrightarrow> length (random_router_ethernet_address random) = 6"
  by (simp_all add: random_host_ethernet_address_def random_router_ethernet_address_def Let_def)

lemma Host_new_ok:
  "6 \<le> length random \<Longrightarrow> host_ok (name, Host_new random name (ipv4_address ip port) (ipv4_address ip' port'))"
  using node_ok_new [OF random_length(1), of random ip port] by (auto simp: host_ok_def Host_new_def)

text \<open>The steps of the constructor.\<close>

lemma add_interface_ok:
  assumes "resolver gai ipf" "router_ok ips r" "length ips < 100" "6 \<le> length random" "n = length ips"
  shows "\<exists>r'. add_interface gai random ip r = Inr (n, r') \<and> router_ok (ips @ [ipf ip]) r'"
proof -
  let ?a = "AsyncNetworkInterface_new (NetworkInterface_new (random_router_ethernet_address random) (ipv4_address (ipf ip) 0))"
  let ?r = "r\<lparr>rt_interfaces := rt_interfaces r @ [?a]\<rparr>"
  have a: "node_ok (ipf ip) ?a" using node_ok_new random_length(2) [OF assms(4)] by blast
  have len: "length (rt_interfaces r) = length ips" using assms(2) router_inv_length by (simp add: router_ok_def)
  have "rule_wf (length (ips @ [ipf ip])) rule" if "rule_wf (length ips) rule" for rule
    using that by (auto simp: rule_wf_def)
  then have "router_ok (ips @ [ipf ip]) ?r"
    using assms(2) a list_all2_appendI [of async_inv ips "rt_interfaces r" "[ipf ip]" "[?a]"]
    by (auto simp: router_ok_def node_ok_def router_inv_def)
  moreover have "add_interface gai random ip r = Inr (length ips, ?r)"
    using assms(1,3) len by (simp add: add_interface_def resolver_def Router_add_interface_def Let_def sz_sub_small)
  ultimately show ?thesis using assms(5) by blast
qed

lemma insert_host_ok:
  assumes "resolver gai ipf" "6 \<le> length random" "name \<notin> fst ` set hosts"
  shows "\<exists>h. insert_host gai random name ip next_hop hosts = Inr (hosts @ [(name, h)]) \<and> host_ok (name, h)"
proof -
  have "map_of hosts name = None" using assms(3) by (simp add: map_of_eq_None_iff)
  then show ?thesis
    using assms(1) Host_new_ok [OF assms(2)] by (simp add: insert_host_def resolver_def)
qed

lemma add_route_ok:
  assumes "resolver gai ipf" "nw_ok ips nw" "unat prefix_length \<le> 32" "i < length ips"
    and "\<forall>h. next_hop = Some h \<longrightarrow> (\<exists>ip port. h = ipv4_address ip port)"
  shows "\<exists>nw'. add_route gai prefix prefix_length next_hop i nw = Inr nw' \<and> nw_ok ips nw'"
proof -
  let ?r = "Router_add_route (nw_router nw) (ipf prefix) prefix_length next_hop i"
  have "router_ok ips ?r"
    using assms(2-5) by (auto simp: nw_ok_def router_ok_def router_inv_def rule_wf_def Router_add_route_def)
  then have "nw_ok ips (nw\<lparr>nw_router := ?r\<rparr>)" using assms(2) by (simp add: nw_ok_def nw_ids_def)
  then show ?thesis using assms(1) by (simp add: add_route_def simulator_ip_def resolver_def)
qed

definition interface_names :: "string list" where
  "interface_names = [''171.67.76.46'', ''10.0.0.1'', ''172.16.0.1'', ''192.168.0.1'', ''198.178.229.1'', ''143.195.0.2'', ''128.30.76.255'']"

lemma Network_new_ok:
  assumes "resolver gai ipf" "\<And>i. 6 \<le> length (mac i)"
  shows "\<exists>nw. Network_new gai mac = Inr nw \<and> nw_ok (map ipf interface_names) nw"
proof -
  note iface = add_interface_ok [OF assms(1) _ _ assms(2)]
  note hst = insert_host_ok [OF assms(1) assms(2)]
  have "router_ok [] Router_new" by (simp add: router_ok_def router_inv_def Router_new_def)
  then obtain r0 where i0: "add_interface gai (mac 0) ''171.67.76.46'' Router_new = Inr (0, r0)" "router_ok (map ipf (take 1 interface_names)) r0"
    using iface [of "[]" Router_new 0 0 "''171.67.76.46''"] by (auto simp: interface_names_def)
  obtain r1 where i1: "add_interface gai (mac 1) ''10.0.0.1'' r0 = Inr (1, r1)" "router_ok (map ipf (take 2 interface_names)) r1"
    using iface [of "map ipf (take 1 interface_names)" r0 1 1 "''10.0.0.1''"] i0(2) by (auto simp: interface_names_def)
  obtain r2 where i2: "add_interface gai (mac 2) ''172.16.0.1'' r1 = Inr (2, r2)" "router_ok (map ipf (take 3 interface_names)) r2"
    using iface [of "map ipf (take 2 interface_names)" r1 2 2 "''172.16.0.1''"] i1(2) by (auto simp: interface_names_def)
  obtain r3 where i3: "add_interface gai (mac 3) ''192.168.0.1'' r2 = Inr (3, r3)" "router_ok (map ipf (take 4 interface_names)) r3"
    using iface [of "map ipf (take 3 interface_names)" r2 3 3 "''192.168.0.1''"] i2(2) by (auto simp: interface_names_def)
  obtain r4 where i4: "add_interface gai (mac 4) ''198.178.229.1'' r3 = Inr (4, r4)" "router_ok (map ipf (take 5 interface_names)) r4"
    using iface [of "map ipf (take 4 interface_names)" r3 4 4 "''198.178.229.1''"] i3(2) by (auto simp: interface_names_def)
  obtain r5 where i5: "add_interface gai (mac 5) ''143.195.0.2'' r4 = Inr (5, r5)" "router_ok (map ipf (take 6 interface_names)) r5"
    using iface [of "map ipf (take 5 interface_names)" r4 5 5 "''143.195.0.2''"] i4(2) by (auto simp: interface_names_def)
  obtain r6 where i6: "add_interface gai (mac 6) ''128.30.76.255'' r5 = Inr (6, r6)" "router_ok (map ipf (take 7 interface_names)) r6"
    using iface [of "map ipf (take 6 interface_names)" r5 6 6 "''128.30.76.255''"] i5(2) by (auto simp: interface_names_def)
  obtain h0 where h0: "insert_host gai (mac 7) ''applesauce'' ''10.0.0.2'' ''10.0.0.1'' [] = Inr [(''applesauce'', h0)]" "host_ok (''applesauce'', h0)"
    using hst [of "''applesauce''" "[]" 7 "''10.0.0.2''" "''10.0.0.1''"] by auto
  obtain h1 where h1: "insert_host gai (mac 8) ''default_router'' ''171.67.76.1'' ''0'' [(''applesauce'', h0)] = Inr [(''applesauce'', h0), (''default_router'', h1)]" "host_ok (''default_router'', h1)"
    using hst [of "''default_router''" "[(''applesauce'', h0)]" 8 "''171.67.76.1''" "''0''"] by auto
  obtain h2 where h2: "insert_host gai (mac 9) ''cherrypie'' ''192.168.0.2'' ''192.168.0.1'' [(''applesauce'', h0), (''default_router'', h1)] = Inr [(''applesauce'', h0), (''default_router'', h1), (''cherrypie'', h2)]" "host_ok (''cherrypie'', h2)"
    using hst [of "''cherrypie''" "[(''applesauce'', h0), (''default_router'', h1)]" 9 "''192.168.0.2''" "''192.168.0.1''"] by auto
  obtain h3 where h3: "insert_host gai (mac 10) ''hs_router'' ''143.195.0.1'' ''0'' [(''applesauce'', h0), (''default_router'', h1), (''cherrypie'', h2)] = Inr [(''applesauce'', h0), (''default_router'', h1), (''cherrypie'', h2), (''hs_router'', h3)]" "host_ok (''hs_router'', h3)"
    using hst [of "''hs_router''" "[(''applesauce'', h0), (''default_router'', h1), (''cherrypie'', h2)]" 10 "''143.195.0.1''" "''0''"] by auto
  obtain h4 where h4: "insert_host gai (mac 11) ''dm42'' ''198.178.229.42'' ''198.178.229.1'' [(''applesauce'', h0), (''default_router'', h1), (''cherrypie'', h2), (''hs_router'', h3)] = Inr [(''applesauce'', h0), (''default_router'', h1), (''cherrypie'', h2), (''hs_router'', h3), (''dm42'', h4)]" "host_ok (''dm42'', h4)"
    using hst [of "''dm42''" "[(''applesauce'', h0), (''default_router'', h1), (''cherrypie'', h2), (''hs_router'', h3)]" 11 "''198.178.229.42''" "''198.178.229.1''"] by auto
  obtain h5 where h5: "insert_host gai (mac 12) ''dm43'' ''198.178.229.43'' ''198.178.229.1'' [(''applesauce'', h0), (''default_router'', h1), (''cherrypie'', h2), (''hs_router'', h3), (''dm42'', h4)] = Inr [(''applesauce'', h0), (''default_router'', h1), (''cherrypie'', h2), (''hs_router'', h3), (''dm42'', h4), (''dm43'', h5)]" "host_ok (''dm43'', h5)"
    using hst [of "''dm43''" "[(''applesauce'', h0), (''default_router'', h1), (''cherrypie'', h2), (''hs_router'', h3), (''dm42'', h4)]" 12 "''198.178.229.43''" "''198.178.229.1''"] by auto
  let ?ips = "map ipf interface_names" and ?hosts = "[(''applesauce'', h0), (''default_router'', h1), (''cherrypie'', h2), (''hs_router'', h3), (''dm42'', h4), (''dm43'', h5)]"
  let ?nw = "\<lparr>nw_router = r6, nw_default_id = 0, nw_eth0_id = 1, nw_eth1_id = 2, nw_eth2_id = 3, nw_uun3_id = 4,
    nw_hs4_id = 5, nw_mit5_id = 6, nw_hosts = ?hosts\<rparr>"
  have len: "length ?ips = 7" by (simp add: interface_names_def)
  have nw: "nw_ok ?ips ?nw"
    using i6(2) h0(2) h1(2) h2(2) h3(2) h4(2) h5(2) len by (simp add: nw_ok_def nw_ids_def host_names_def interface_names_def)
  have hop: "\<forall>h. Some (ho_my_address h1) = Some h \<longrightarrow> (\<exists>ip port. h = ipv4_address ip port)"
    "\<forall>h. Some (ho_my_address h3) = Some h \<longrightarrow> (\<exists>ip port. h = ipv4_address ip port)"
    "\<forall>h. (None :: address option) = Some h \<longrightarrow> (\<exists>ip port. h = ipv4_address ip port)"
    "\<forall>h. Some (ipv4_address (ipf ''128.30.0.1'') 0) = Some h \<longrightarrow> (\<exists>ip port. h = ipv4_address ip port)"
    using h1(2) h3(2) by (auto simp: host_ok_def)
  note rt = add_route_ok [OF assms(1)]
  obtain n0 where n0: "add_route gai ''0.0.0.0'' 0 (Some (ho_my_address h1)) 0 ?nw = Inr n0" "nw_ok ?ips n0"
    using rt [OF nw _ _ hop(1), of 0 0 "''0.0.0.0''"] len by (auto simp: interface_names_def)
  obtain n1 where n1: "add_route gai ''10.0.0.0'' 8 None 1 n0 = Inr n1" "nw_ok ?ips n1"
    using rt [OF n0(2) _ _ hop(3), of 8 1 "''10.0.0.0''"] len by auto
  obtain n2 where n2: "add_route gai ''172.16.0.0'' 16 None 2 n1 = Inr n2" "nw_ok ?ips n2"
    using rt [OF n1(2) _ _ hop(3), of 16 2 "''172.16.0.0''"] len by auto
  obtain n3 where n3: "add_route gai ''192.168.0.0'' 24 None 3 n2 = Inr n3" "nw_ok ?ips n3"
    using rt [OF n2(2) _ _ hop(3), of 24 3 "''192.168.0.0''"] len by auto
  obtain n4 where n4: "add_route gai ''198.178.229.0'' 24 None 4 n3 = Inr n4" "nw_ok ?ips n4"
    using rt [OF n3(2) _ _ hop(3), of 24 4 "''198.178.229.0''"] len by auto
  obtain n5 where n5: "add_route gai ''143.195.0.0'' 17 (Some (ho_my_address h3)) 5 n4 = Inr n5" "nw_ok ?ips n5"
    using rt [OF n4(2) _ _ hop(2), of 17 5 "''143.195.0.0''"] len by auto
  obtain n6 where n6: "add_route gai ''143.195.128.0'' 18 (Some (ho_my_address h3)) 5 n5 = Inr n6" "nw_ok ?ips n6"
    using rt [OF n5(2) _ _ hop(2), of 18 5 "''143.195.128.0''"] len by auto
  obtain n7 where n7: "add_route gai ''143.195.192.0'' 19 (Some (ho_my_address h3)) 5 n6 = Inr n7" "nw_ok ?ips n7"
    using rt [OF n6(2) _ _ hop(2), of 19 5 "''143.195.192.0''"] len by auto
  obtain n8 where n8: "add_route gai ''128.30.76.255'' 16 (Some (ipv4_address (ipf ''128.30.0.1'') 0)) 6 n7 = Inr n8" "nw_ok ?ips n8"
    using rt [OF n7(2) _ _ hop(4), of 16 6 "''128.30.76.255''"] len by auto
  have names: "ho_name h1 = ''default_router''" "ho_name h3 = ''hs_router''" using h1(2) h3(2) by (simp_all add: host_ok_def)
  have hst: "Network_host ?nw ''default_router'' = Inr h1" "Network_host ?nw ''hs_router'' = Inr h3"
    using names by (simp_all add: Network_host_def)
  have res: "Address_of_ip gai ''128.30.0.1'' 0 = Inr (ipv4_address (ipf ''128.30.0.1'') 0)" using assms(1) by (simp add: resolver_def)
  have "Network_new gai mac = Inr n8"
    unfolding Network_new_def
    by (simp only: i0(1) i1(1) i2(1) i3(1) i4(1) i5(1) i6(1) h0(1) h1(1) h2(1) h3(1) h4(1) h5(1) bindE_simps prod.case Let_def
        hst n0(1) n1(1) n2(1) n3(1) n4(1) n5(1) n6(1) n7(1) n8(1) res)
  then show ?thesis using n8(2) by blast
qed

theorem simulation_verdict_witness:
  "\<exists>nw nw'. Network_new numeric_getaddrinfo (\<lambda>i. [1, 2, 3, 4, 5, of_nat i]) = Inr nw \<and>
    simulate_rounds 256 nw = Inr nw' \<and> expectations nw' = expectations nw \<and>
    (case Network_simulate nw of
       Inl e \<Rightarrow> \<exists>(name, h) \<in> set (nw_hosts nw'). \<not> satisfied h \<and> Host_check h = Inl e
     | Inr nw'' \<Rightarrow> list_all (\<lambda>(name, h). satisfied h) (nw_hosts nw'))"
proof -
  obtain ipf where "resolver numeric_getaddrinfo ipf" using numeric_resolver by blast
  from Network_new_ok [OF this, of "\<lambda>i. [1, 2, 3, 4, 5, of_nat i]"] obtain nw
    where nw: "Network_new numeric_getaddrinfo (\<lambda>i. [1, 2, 3, 4, 5, of_nat i]) = Inr nw" "nw_ok (map ipf interface_names) nw"
    by auto
  from simulation_verdict [OF nw(2)] nw(1) show ?thesis unfolding list_all_iff by (fastforce split: sum.splits)
qed

end
