(* ===== verification/Command_Line.thy ===== *)
theory Command_Line
  imports Adapters Tcp_Sender
begin

text \<open>
  The command lines of the programs under \<open>apps\<close>: \<open>get_config\<close> of \<open>tcp_ipv4.cc\<close>, \<open>tcp_udp.cc\<close> and
  \<open>tcp_ip_ethernet.cc\<close>, and \<open>parse_arguments\<close> of \<open>udp_tcpdump.cc\<close>.

  \<open>argv\<close> is the list of the arguments, \<open>argc\<close> its length.  A call of \<open>exit\<close> is a value with the exit code and
  the message that follows the usage text.  The conversion of a loss rate (\<open>strtof\<close> and the product with the
  largest \<open>uint16_t\<close>, in floating point) is an argument, as is the random source port.
\<close>

section \<open>The C library\<close>

text \<open>\<open>strncmp (s, t, n) == 0\<close> for strings that end with a null character.\<close>

definition strncmp_eq :: "string \<Rightarrow> string \<Rightarrow> nat \<Rightarrow> bool" where
  "strncmp_eq s t n \<longleftrightarrow> take n (s @ [char_of (0 :: nat)]) = take n (t @ [char_of (0 :: nat)])"

definition digit_value :: "char \<Rightarrow> nat" where
  "digit_value c =
     (let n = of_char c
      in if 48 \<le> n \<and> n \<le> 57 then n - 48
         else if 97 \<le> n \<and> n \<le> 122 then n - 87
         else if 65 \<le> n \<and> n \<le> 90 then n - 55
         else 36)"

text \<open>\<open>strtol\<close> with base 0: white space, a sign, a prefix for the base and the digits; the result is clamped.\<close>

definition digits_prefix :: "nat \<Rightarrow> string \<Rightarrow> string" where
  "digits_prefix b s = takeWhile (\<lambda>c. digit_value c < b) s"

definition strtol_magnitude :: "string \<Rightarrow> nat" where
  "strtol_magnitude s =
     (let (base, digits) =
        (if 2 < length s \<and> s ! 0 = CHR ''0'' \<and> (s ! 1 = CHR ''x'' \<or> s ! 1 = CHR ''X'') \<and> digit_value (s ! 2) < 16
         then (16, drop 2 s) else if s \<noteq> [] \<and> s ! 0 = CHR ''0'' then (8, s) else (10, s))
      in foldl (\<lambda>a c. base * a + digit_value c) 0 (digits_prefix base digits))"

definition strtol :: "string \<Rightarrow> int" where
  "strtol s =
     (let t = dropWhile isspace s;
          negative = (t \<noteq> [] \<and> hd t = CHR ''-'');
          u = (if t \<noteq> [] \<and> hd t \<in> {CHR ''-'', CHR ''+''} then tl t else t);
          v = (if negative then - int (strtol_magnitude u) else int (strtol_magnitude u))
      in max (- (2 ^ 63)) (min (2 ^ 63 - 1) v))"

section \<open>The loop over the options\<close>

datatype 'a exits = Quit int string | Value 'a

text \<open>What the body of the loop does with an option: it takes one argument, two, or calls \<open>exit\<close>.\<close>

datatype 's option_step = One 's | Two 's | Stop int string

definition check_argc :: "string list \<Rightarrow> nat \<Rightarrow> string \<Rightarrow> 's option_step \<Rightarrow> 's option_step" where
  "check_argc argv cur err cont = (if length argv \<le> cur + 3 then Stop 1 err else cont)"

function parse_options :: "(string list \<Rightarrow> nat \<Rightarrow> 's \<Rightarrow> 's option_step) \<Rightarrow> string list \<Rightarrow> nat \<Rightarrow> 's \<Rightarrow> (nat \<times> 's) exits" where
  "parse_options body argv cur st =
     (if cur + 2 < length argv
      then case body argv cur st of
             One st \<Rightarrow> parse_options body argv (cur + 1) st
           | Two st \<Rightarrow> parse_options body argv (cur + 2) st
           | Stop code msg \<Rightarrow> Quit code msg
      else Value (cur, st))"
  by pat_completeness auto
termination
  by (relation "measure (\<lambda>(body, argv, cur, st). length argv - cur)") auto

declare parse_options.simps [simp del]

record options =
  op_fsm :: tcp_config
  op_filt :: fd_adapter_config
  op_listen :: bool
  op_source_address :: string
  op_source_port :: string
  op_next_hop :: string
  op_device :: "string option"

definition set_recv_capacity :: "string \<Rightarrow> options \<Rightarrow> options" where
  "set_recv_capacity v st = st\<lparr>op_fsm := (op_fsm st)\<lparr>cfg_recv_capacity := nat (strtol v mod 2 ^ 64)\<rparr>\<rparr>"

definition set_rt_timeout :: "string \<Rightarrow> options \<Rightarrow> options" where
  "set_rt_timeout v st = st\<lparr>op_fsm := (op_fsm st)\<lparr>cfg_rt_timeout := of_int (strtol v)\<rparr>\<rparr>"

definition set_loss_up :: "u16 \<Rightarrow> options \<Rightarrow> options" where
  "set_loss_up rate st = st\<lparr>op_filt := (op_filt st)\<lparr>fc_loss_rate_up := rate\<rparr>\<rparr>"

definition set_loss_dn :: "u16 \<Rightarrow> options \<Rightarrow> options" where
  "set_loss_dn rate st = st\<lparr>op_filt := (op_filt st)\<lparr>fc_loss_rate_dn := rate\<rparr>\<rparr>"

section \<open>tcp\_ipv4\<close>

definition ipv4_option :: "(string \<Rightarrow> u16) \<Rightarrow> string list \<Rightarrow> nat \<Rightarrow> options \<Rightarrow> options option_step" where
  "ipv4_option lossrate argv cur st =
     (let opt = argv ! cur; arg = argv ! (cur + 1)
      in if strncmp_eq ''-l'' opt 3 then One (st\<lparr>op_listen := True\<rparr>)
         else if strncmp_eq ''-a'' opt 3 then
           check_argc argv cur ''ERROR: -a requires one argument.'' (Two (st\<lparr>op_source_address := arg\<rparr>))
         else if strncmp_eq ''-s'' opt 3 then
           check_argc argv cur ''ERROR: -s requires one argument.'' (Two (st\<lparr>op_source_port := arg\<rparr>))
         else if strncmp_eq ''-w'' opt 3 then
           check_argc argv cur ''ERROR: -w requires one argument.'' (Two (set_recv_capacity arg st))
         else if strncmp_eq ''-t'' opt 3 then
           check_argc argv cur ''ERROR: -t requires one argument.'' (Two (set_rt_timeout arg st))
         else if strncmp_eq ''-d'' opt 3 then
           check_argc argv cur ''ERROR: -t requires one argument.'' (Two (st\<lparr>op_device := Some arg\<rparr>))
         else if strncmp_eq ''-Lu'' opt 3 then
           check_argc argv cur ''ERROR: -Lu requires one argument.'' (Two (set_loss_up (lossrate arg) st))
         else if strncmp_eq ''-Ld'' opt 3 then
           check_argc argv cur ''ERROR: -Lu requires one argument.'' (Two (set_loss_dn (lossrate arg) st))
         else if strncmp_eq ''-h'' opt 3 then Stop 0 []
         else Stop 1 (''ERROR: unrecognized option '' @ opt))"

definition ipv4_defaults :: "fd_adapter_config \<Rightarrow> u32 \<Rightarrow> options" where
  "ipv4_defaults c_filt random =
     \<lparr>op_fsm = TCPConfig_default, op_filt = c_filt, op_listen = False, op_source_address = ''169.254.144.9'',
       op_source_port = decimal (unat (ucast random :: u16)), op_next_hop = [], op_device = None\<rparr>"

definition tcp_ipv4_get_config ::
  "getaddrinfo \<Rightarrow> getnameinfo \<Rightarrow> (string \<Rightarrow> u16) \<Rightarrow> u32 \<Rightarrow> string list \<Rightarrow>
   (tcp_config \<times> fd_adapter_config \<times> bool \<times> string option) exits result" where
  "tcp_ipv4_get_config gai gni lossrate random argv =
     bindE (FdAdapterConfig_new gai) (\<lambda>c_filt.
       case parse_options (ipv4_option lossrate) argv 1 (ipv4_defaults c_filt random) of
         Quit code msg \<Rightarrow> Inr (Quit code msg)
       | Value (cur, st) \<Rightarrow>
           if op_listen st then
             bindE (Address_of_host gai ''0'' (argv ! (cur + 1))) (\<lambda>source.
             bindE (Address_port gni source) (\<lambda>port.
               if port = 0 then Inr (Quit 1 ''ERROR: listen port cannot be zero in server mode.'')
               else Inr (Value (op_fsm st, (op_filt st)\<lparr>fc_source := source\<rparr>, True, op_device st))))
           else
             bindE (Address_of_host gai (argv ! cur) (argv ! (cur + 1))) (\<lambda>destination.
             bindE (Address_of_host gai (op_source_address st) (op_source_port st)) (\<lambda>source.
               Inr (Value (op_fsm st, (op_filt st)\<lparr>fc_destination := destination, fc_source := source\<rparr>, False, op_device st)))))"

section \<open>tcp\_udp\<close>

definition udp_option :: "(string \<Rightarrow> u16) \<Rightarrow> string list \<Rightarrow> nat \<Rightarrow> options \<Rightarrow> options option_step" where
  "udp_option lossrate argv cur st =
     (let opt = argv ! cur; arg = argv ! (cur + 1)
      in if strncmp_eq ''-l'' opt 3 then One (st\<lparr>op_listen := True\<rparr>)
         else if strncmp_eq ''-w'' opt 3 then
           check_argc argv cur ''ERROR: -w requires one argument.'' (Two (set_recv_capacity arg st))
         else if strncmp_eq ''-t'' opt 3 then
           check_argc argv cur ''ERROR: -t requires one argument.'' (Two (set_rt_timeout arg st))
         else if strncmp_eq ''-Lu'' opt 3 then
           check_argc argv cur ''ERROR: -Lu requires one argument.'' (Two (set_loss_up (lossrate arg) st))
         else if strncmp_eq ''-Ld'' opt 3 then
           check_argc argv cur ''ERROR: -Lu requires one argument.'' (Two (set_loss_dn (lossrate arg) st))
         else if strncmp_eq ''-h'' opt 3 then Stop 0 []
         else Stop 1 (''ERROR: unrecognized option '' @ opt))"

definition udp_defaults :: "fd_adapter_config \<Rightarrow> options" where
  "udp_defaults c_filt =
     \<lparr>op_fsm = TCPConfig_default, op_filt = c_filt, op_listen = False, op_source_address = [],
       op_source_port = [], op_next_hop = [], op_device = None\<rparr>"

definition tcp_udp_get_config ::
  "getaddrinfo \<Rightarrow> (string \<Rightarrow> u16) \<Rightarrow> string list \<Rightarrow> (tcp_config \<times> fd_adapter_config \<times> bool) exits result" where
  "tcp_udp_get_config gai lossrate argv =
     bindE (FdAdapterConfig_new gai) (\<lambda>c_filt.
       case parse_options (udp_option lossrate) argv 1 (udp_defaults c_filt) of
         Quit code msg \<Rightarrow> Inr (Quit code msg)
       | Value (cur, st) \<Rightarrow>
           if op_listen st then
             bindE (Address_of_host gai ''0'' (argv ! (length argv - 1))) (\<lambda>source.
               Inr (Value (op_fsm st, (op_filt st)\<lparr>fc_source := source\<rparr>, True)))
           else
             bindE (Address_of_host gai (argv ! (length argv - 2)) (argv ! (length argv - 1))) (\<lambda>destination.
               Inr (Value (op_fsm st, (op_filt st)\<lparr>fc_destination := destination\<rparr>, False))))"

section \<open>tcp\_ip\_ethernet\<close>

definition ethernet_option :: "string list \<Rightarrow> nat \<Rightarrow> options \<Rightarrow> options option_step" where
  "ethernet_option argv cur st =
     (let opt = argv ! cur; arg = argv ! (cur + 1)
      in if strncmp_eq ''-a'' opt 3 then
           check_argc argv cur ''ERROR: -a requires one argument.'' (Two (st\<lparr>op_source_address := arg\<rparr>))
         else if strncmp_eq ''-s'' opt 3 then
           check_argc argv cur ''ERROR: -s requires one argument.'' (Two (st\<lparr>op_source_port := arg\<rparr>))
         else if strncmp_eq ''-n'' opt 3 then
           check_argc argv cur ''ERROR: -n requires one argument.'' (Two (st\<lparr>op_next_hop := arg\<rparr>))
         else if strncmp_eq ''-w'' opt 3 then
           check_argc argv cur ''ERROR: -w requires one argument.'' (Two (set_recv_capacity arg st))
         else if strncmp_eq ''-t'' opt 3 then
           check_argc argv cur ''ERROR: -t requires one argument.'' (Two (set_rt_timeout arg st))
         else if strncmp_eq ''-d'' opt 3 then
           check_argc argv cur ''ERROR: -t requires one argument.'' (Two (st\<lparr>op_device := Some arg\<rparr>))
         else if strncmp_eq ''-h'' opt 3 then Stop 0 []
         else Stop 1 (''ERROR: unrecognized option '' @ opt))"

definition ethernet_defaults :: "fd_adapter_config \<Rightarrow> u32 \<Rightarrow> options" where
  "ethernet_defaults c_filt random =
     \<lparr>op_fsm = TCPConfig_default, op_filt = c_filt, op_listen = False, op_source_address = ''169.254.10.9'',
       op_source_port = decimal (unat (ucast random :: u16)), op_next_hop = ''169.254.10.1'', op_device = Some ''tap10''\<rparr>"

definition tcp_ip_ethernet_get_config ::
  "getaddrinfo \<Rightarrow> u32 \<Rightarrow> string list \<Rightarrow> (tcp_config \<times> fd_adapter_config \<times> address \<times> string) exits result" where
  "tcp_ip_ethernet_get_config gai random argv =
     bindE (FdAdapterConfig_new gai) (\<lambda>c_filt.
       case parse_options ethernet_option argv 1 (ethernet_defaults c_filt random) of
         Quit code msg \<Rightarrow> Inr (Quit code msg)
       | Value (cur, st) \<Rightarrow>
           bindE (Address_of_host gai (argv ! cur) (argv ! (cur + 1))) (\<lambda>destination.
           bindE (Address_of_host gai (op_source_address st) (op_source_port st)) (\<lambda>source.
           bindE (Address_of_host gai (op_next_hop st) ''0'') (\<lambda>next_hop.
             Inr (Value (op_fsm st, (op_filt st)\<lparr>fc_destination := destination, fc_source := source\<rparr>, next_hop, the (op_device st)))))))"

section \<open>udp\_tcpdump\<close>

text \<open>The position of the filter expression, and the interface.\<close>

function parse_arguments :: "string list \<Rightarrow> nat \<Rightarrow> string option \<Rightarrow> (nat \<times> string option) exits" where
  "parse_arguments argv cur dev =
     (if cur < length argv then
        if strncmp_eq ''-i'' (argv ! cur) 3 then
          if length argv \<le> cur + 1 then Quit 1 ''ERROR: -i requires an argument''
          else parse_arguments argv (cur + 2) (Some (argv ! (cur + 1)))
        else if strncmp_eq ''-h'' (argv ! cur) 3 \<or> strncmp_eq ''--help'' (argv ! cur) 7 then Quit 0 []
        else Value (cur, dev)
      else Value (cur, dev))"
  by pat_completeness auto
termination
  by (relation "measure (\<lambda>(argv, cur, dev). length argv - cur)") auto

declare parse_arguments.simps [simp del]

definition filter_expression :: "string list \<Rightarrow> nat \<Rightarrow> string" where
  "filter_expression argv exp_start = concat (map (\<lambda>a. a @ '' '') (drop exp_start argv))"

section \<open>Numbers\<close>

lemma digit_value_digit_char: "d < 10 \<Longrightarrow> digit_value (digit_char d) = d"
  by (simp add: digit_value_def of_digit_char Let_def)

lemma digit_value_isdigit: "isdigit c \<Longrightarrow> digit_value c = of_char c - 48 \<and> digit_value c < 10"
  by (auto simp: digit_value_def isdigit_def Let_def)

lemma decimal_leading: "0 < n \<Longrightarrow> decimal n ! 0 \<noteq> CHR ''0''"
proof (induction n rule: decimal.induct)
  case (1 n)
  show ?case
  proof (cases "n < 10")
    case True
    then have "(of_char (digit_char n) :: nat) \<noteq> of_char CHR ''0''" using 1(2) by (simp add: of_digit_char)
    then show ?thesis using True by (subst decimal.simps) auto
  next
    case False
    then have "decimal (n div 10) ! 0 \<noteq> CHR ''0''" using 1 by simp
    then show ?thesis using False decimal_digits [of "n div 10"] by (subst decimal.simps) (simp add: nth_append)
  qed
qed

lemma strtol_magnitude_decimal: "strtol_magnitude (decimal n) = n"
proof (cases "n = 0")
  case True
  then show ?thesis
    by (simp add: strtol_magnitude_def digits_prefix_def decimal.simps [of 0] digit_char_def digit_value_def Let_def)
next
  case False
  have d: "list_all isdigit (decimal n)" "decimal n \<noteq> []" using decimal_digits by auto
  have "digits_prefix 10 (decimal n) = decimal n"
    unfolding digits_prefix_def takeWhile_eq_all_conv using d digit_value_isdigit by (metis list_all_iff)
  moreover have "foldl (\<lambda>a c. 10 * a + digit_value c) k xs = foldl (\<lambda>a c. 10 * a + (of_char c - 48)) k xs"
    if "list_all isdigit xs" for xs and k :: nat
    using that by (induction xs arbitrary: k) (auto simp: digit_value_isdigit)
  ultimately have "foldl (\<lambda>a c. 10 * a + digit_value c) 0 (digits_prefix 10 (decimal n)) = digits_value (decimal n)"
    using d by (simp add: digits_value_def)
  then show ?thesis using decimal_leading [of n] False by (simp add: strtol_magnitude_def)
qed

lemma strtol_decimal:
  assumes "n < 2 ^ 63"
  shows "strtol (decimal n) = int n"
proof -
  obtain c cs where d: "decimal n = c # cs" using decimal_digits by (cases "decimal n") auto
  then have "isdigit c" using decimal_digits [of n] by auto
  then show ?thesis
    using assms strtol_magnitude_decimal [of n] d isdigit_not [of c] by (simp add: strtol_def Let_def)
qed

section \<open>Options and what they mean\<close>

datatype tcp_option =
    Listen | Source_address string | Source_port string | Next_hop string | Window string | Timeout_ms string
  | Device string | Loss_up string | Loss_down string

fun render :: "tcp_option \<Rightarrow> string list" where
  "render Listen = [''-l'']"
| "render (Source_address v) = [''-a'', v]"
| "render (Source_port v) = [''-s'', v]"
| "render (Next_hop v) = [''-n'', v]"
| "render (Window v) = [''-w'', v]"
| "render (Timeout_ms v) = [''-t'', v]"
| "render (Device v) = [''-d'', v]"
| "render (Loss_up v) = [''-Lu'', v]"
| "render (Loss_down v) = [''-Ld'', v]"

fun meaning :: "(string \<Rightarrow> u16) \<Rightarrow> tcp_option \<Rightarrow> options \<Rightarrow> options" where
  "meaning lossrate Listen st = st\<lparr>op_listen := True\<rparr>"
| "meaning lossrate (Source_address v) st = st\<lparr>op_source_address := v\<rparr>"
| "meaning lossrate (Source_port v) st = st\<lparr>op_source_port := v\<rparr>"
| "meaning lossrate (Next_hop v) st = st\<lparr>op_next_hop := v\<rparr>"
| "meaning lossrate (Window v) st = set_recv_capacity v st"
| "meaning lossrate (Timeout_ms v) st = set_rt_timeout v st"
| "meaning lossrate (Device v) st = st\<lparr>op_device := Some v\<rparr>"
| "meaning lossrate (Loss_up v) st = set_loss_up (lossrate v) st"
| "meaning lossrate (Loss_down v) st = set_loss_dn (lossrate v) st"

definition tcp_ipv4_knows :: "tcp_option \<Rightarrow> bool" where
  "tcp_ipv4_knows x \<longleftrightarrow> (case x of Next_hop v \<Rightarrow> False | _ \<Rightarrow> True)"

definition tcp_udp_knows :: "tcp_option \<Rightarrow> bool" where
  "tcp_udp_knows x \<longleftrightarrow> (case x of Listen \<Rightarrow> True | Window v \<Rightarrow> True | Timeout_ms v \<Rightarrow> True | Loss_up v \<Rightarrow> True
     | Loss_down v \<Rightarrow> True | _ \<Rightarrow> False)"

definition tcp_ip_ethernet_knows :: "tcp_option \<Rightarrow> bool" where
  "tcp_ip_ethernet_knows x \<longleftrightarrow> (case x of Listen \<Rightarrow> False | Loss_up v \<Rightarrow> False | Loss_down v \<Rightarrow> False | _ \<Rightarrow> True)"

text \<open>
  The contract of the body of the loop: it takes two arguments only when two more follow, and does with an
  option that the program knows what the option means.
\<close>

locale option_body =
  fixes body :: "string list \<Rightarrow> nat \<Rightarrow> 's \<Rightarrow> 's option_step"
    and knows :: "'o \<Rightarrow> bool" and words :: "'o \<Rightarrow> string list" and means :: "'o \<Rightarrow> 's \<Rightarrow> 's"
  assumes two: "body argv cur st = Two st' \<Longrightarrow> cur + 3 < length argv"
    and reads: "knows x \<Longrightarrow> 2 \<le> length rest \<Longrightarrow>
      body (pre @ words x @ rest) (length pre) st = One (means x st) \<and> length (words x) = 1 \<or>
      body (pre @ words x @ rest) (length pre) st = Two (means x st) \<and> length (words x) = 2"
begin

text \<open>The loop stops exactly before the two positional arguments.\<close>

lemma position:
  assumes "parse_options body argv cur st = Value (cur', st')" "cur + 2 \<le> length argv"
  shows "cur' + 2 = length argv"
  using assms
proof (induction "length argv - cur" arbitrary: cur st rule: less_induct)
  case less
  show ?case
  proof (cases "cur + 2 < length argv")
    case True
    show ?thesis
    proof (cases "body argv cur st")
      case (One s)
      then show ?thesis using less.hyps [of "cur + 1" s] less.prems True by (simp add: parse_options.simps [of body argv cur])
    next
      case (Two s)
      then show ?thesis using less.hyps [of "cur + 2" s] less.prems True two [OF Two] by (simp add: parse_options.simps [of body argv cur])
    next
      case (Stop c m)
      then show ?thesis using less.prems True by (simp add: parse_options.simps [of body argv cur])
    qed
  next
    case False
    then show ?thesis using less.prems by (simp add: parse_options.simps [of body argv cur])
  qed
qed

lemma rendered:
  assumes "list_all knows xs"
  shows "parse_options body (pre @ concat (map words xs) @ [host, port]) (length pre) st =
    Value (length (pre @ concat (map words xs)), fold means xs st)"
  using assms
proof (induction xs arbitrary: pre st)
  case Nil
  then show ?case by (simp add: parse_options.simps)
next
  case (Cons x xs)
  let ?rest = "concat (map words xs) @ [host, port]"
  have IH: "parse_options body (pre @ words x @ ?rest) (length (pre @ words x)) (means x st) =
      Value (length (pre @ words x @ concat (map words xs)), fold means xs (means x st))"
    using Cons.IH [of "pre @ words x" "means x st"] Cons.prems by simp
  have "body (pre @ words x @ ?rest) (length pre) st = One (means x st) \<and> length (words x) = 1 \<or>
      body (pre @ words x @ ?rest) (length pre) st = Two (means x st) \<and> length (words x) = 2"
    using reads [of x ?rest pre st] Cons.prems by simp
  then have "parse_options body (pre @ words x @ ?rest) (length pre) st =
      parse_options body (pre @ words x @ ?rest) (length (pre @ words x)) (means x st)"
    by (subst parse_options.simps) auto
  then show ?case using IH by simp
qed

end

text \<open>The options are different from each other.\<close>

lemma strncmp_options [simp]:
  "strncmp_eq ''-l'' ''-l'' 3 = True"
  "strncmp_eq ''-l'' ''-a'' 3 = False"
  "strncmp_eq ''-l'' ''-s'' 3 = False"
  "strncmp_eq ''-l'' ''-n'' 3 = False"
  "strncmp_eq ''-l'' ''-w'' 3 = False"
  "strncmp_eq ''-l'' ''-t'' 3 = False"
  "strncmp_eq ''-l'' ''-d'' 3 = False"
  "strncmp_eq ''-l'' ''-Lu'' 3 = False"
  "strncmp_eq ''-l'' ''-Ld'' 3 = False"
  "strncmp_eq ''-a'' ''-l'' 3 = False"
  "strncmp_eq ''-a'' ''-a'' 3 = True"
  "strncmp_eq ''-a'' ''-s'' 3 = False"
  "strncmp_eq ''-a'' ''-n'' 3 = False"
  "strncmp_eq ''-a'' ''-w'' 3 = False"
  "strncmp_eq ''-a'' ''-t'' 3 = False"
  "strncmp_eq ''-a'' ''-d'' 3 = False"
  "strncmp_eq ''-a'' ''-Lu'' 3 = False"
  "strncmp_eq ''-a'' ''-Ld'' 3 = False"
  "strncmp_eq ''-s'' ''-l'' 3 = False"
  "strncmp_eq ''-s'' ''-a'' 3 = False"
  "strncmp_eq ''-s'' ''-s'' 3 = True"
  "strncmp_eq ''-s'' ''-n'' 3 = False"
  "strncmp_eq ''-s'' ''-w'' 3 = False"
  "strncmp_eq ''-s'' ''-t'' 3 = False"
  "strncmp_eq ''-s'' ''-d'' 3 = False"
  "strncmp_eq ''-s'' ''-Lu'' 3 = False"
  "strncmp_eq ''-s'' ''-Ld'' 3 = False"
  "strncmp_eq ''-n'' ''-l'' 3 = False"
  "strncmp_eq ''-n'' ''-a'' 3 = False"
  "strncmp_eq ''-n'' ''-s'' 3 = False"
  "strncmp_eq ''-n'' ''-n'' 3 = True"
  "strncmp_eq ''-n'' ''-w'' 3 = False"
  "strncmp_eq ''-n'' ''-t'' 3 = False"
  "strncmp_eq ''-n'' ''-d'' 3 = False"
  "strncmp_eq ''-n'' ''-Lu'' 3 = False"
  "strncmp_eq ''-n'' ''-Ld'' 3 = False"
  "strncmp_eq ''-w'' ''-l'' 3 = False"
  "strncmp_eq ''-w'' ''-a'' 3 = False"
  "strncmp_eq ''-w'' ''-s'' 3 = False"
  "strncmp_eq ''-w'' ''-n'' 3 = False"
  "strncmp_eq ''-w'' ''-w'' 3 = True"
  "strncmp_eq ''-w'' ''-t'' 3 = False"
  "strncmp_eq ''-w'' ''-d'' 3 = False"
  "strncmp_eq ''-w'' ''-Lu'' 3 = False"
  "strncmp_eq ''-w'' ''-Ld'' 3 = False"
  "strncmp_eq ''-t'' ''-l'' 3 = False"
  "strncmp_eq ''-t'' ''-a'' 3 = False"
  "strncmp_eq ''-t'' ''-s'' 3 = False"
  "strncmp_eq ''-t'' ''-n'' 3 = False"
  "strncmp_eq ''-t'' ''-w'' 3 = False"
  "strncmp_eq ''-t'' ''-t'' 3 = True"
  "strncmp_eq ''-t'' ''-d'' 3 = False"
  "strncmp_eq ''-t'' ''-Lu'' 3 = False"
  "strncmp_eq ''-t'' ''-Ld'' 3 = False"
  "strncmp_eq ''-d'' ''-l'' 3 = False"
  "strncmp_eq ''-d'' ''-a'' 3 = False"
  "strncmp_eq ''-d'' ''-s'' 3 = False"
  "strncmp_eq ''-d'' ''-n'' 3 = False"
  "strncmp_eq ''-d'' ''-w'' 3 = False"
  "strncmp_eq ''-d'' ''-t'' 3 = False"
  "strncmp_eq ''-d'' ''-d'' 3 = True"
  "strncmp_eq ''-d'' ''-Lu'' 3 = False"
  "strncmp_eq ''-d'' ''-Ld'' 3 = False"
  "strncmp_eq ''-Lu'' ''-l'' 3 = False"
  "strncmp_eq ''-Lu'' ''-a'' 3 = False"
  "strncmp_eq ''-Lu'' ''-s'' 3 = False"
  "strncmp_eq ''-Lu'' ''-n'' 3 = False"
  "strncmp_eq ''-Lu'' ''-w'' 3 = False"
  "strncmp_eq ''-Lu'' ''-t'' 3 = False"
  "strncmp_eq ''-Lu'' ''-d'' 3 = False"
  "strncmp_eq ''-Lu'' ''-Lu'' 3 = True"
  "strncmp_eq ''-Lu'' ''-Ld'' 3 = False"
  "strncmp_eq ''-Ld'' ''-l'' 3 = False"
  "strncmp_eq ''-Ld'' ''-a'' 3 = False"
  "strncmp_eq ''-Ld'' ''-s'' 3 = False"
  "strncmp_eq ''-Ld'' ''-n'' 3 = False"
  "strncmp_eq ''-Ld'' ''-w'' 3 = False"
  "strncmp_eq ''-Ld'' ''-t'' 3 = False"
  "strncmp_eq ''-Ld'' ''-d'' 3 = False"
  "strncmp_eq ''-Ld'' ''-Lu'' 3 = False"
  "strncmp_eq ''-Ld'' ''-Ld'' 3 = True"
  "strncmp_eq ''-h'' ''-l'' 3 = False"
  "strncmp_eq ''-h'' ''-a'' 3 = False"
  "strncmp_eq ''-h'' ''-s'' 3 = False"
  "strncmp_eq ''-h'' ''-n'' 3 = False"
  "strncmp_eq ''-h'' ''-w'' 3 = False"
  "strncmp_eq ''-h'' ''-t'' 3 = False"
  "strncmp_eq ''-h'' ''-d'' 3 = False"
  "strncmp_eq ''-h'' ''-Lu'' 3 = False"
  "strncmp_eq ''-h'' ''-Ld'' 3 = False"
  by (simp_all add: strncmp_eq_def)

lemma option_arguments [simp]:
  "(pre @ [x] @ rest) ! length pre = x"
  "(pre @ [x, y] @ rest) ! length pre = x"
  "(pre @ [x, y] @ rest) ! Suc (length pre) = y"
  by (simp_all add: nth_append)

lemma check_argc_room [simp]:
  "2 \<le> length rest \<Longrightarrow> check_argc (pre @ [x, y] @ rest) (length pre) err cont = cont"
  by (simp add: check_argc_def)

lemma check_argc_Two: "check_argc argv cur err cont = Two st \<Longrightarrow> cur + 3 < length argv"
  by (simp add: check_argc_def split: if_splits)

interpretation tcp_ipv4: option_body "ipv4_option lossrate" tcp_ipv4_knows render "meaning lossrate" for lossrate
proof unfold_locales
  show "ipv4_option lossrate argv cur st = Two st' \<Longrightarrow> cur + 3 < length argv" for argv cur st st'
    unfolding ipv4_option_def Let_def by (auto dest: check_argc_Two split: if_splits)
next
  fix x and pre rest :: "string list" and st
  assume "tcp_ipv4_knows x" "2 \<le> length rest"
  then show "ipv4_option lossrate (pre @ render x @ rest) (length pre) st = One (meaning lossrate x st) \<and> length (render x) = 1 \<or>
      ipv4_option lossrate (pre @ render x @ rest) (length pre) st = Two (meaning lossrate x st) \<and> length (render x) = 2"
    unfolding ipv4_option_def Let_def by (cases x) (simp_all add: tcp_ipv4_knows_def del: append.simps)
qed

interpretation tcp_udp: option_body "udp_option lossrate" tcp_udp_knows render "meaning lossrate" for lossrate
proof unfold_locales
  show "udp_option lossrate argv cur st = Two st' \<Longrightarrow> cur + 3 < length argv" for argv cur st st'
    unfolding udp_option_def Let_def by (auto dest: check_argc_Two split: if_splits)
next
  fix x and pre rest :: "string list" and st
  assume "tcp_udp_knows x" "2 \<le> length rest"
  then show "udp_option lossrate (pre @ render x @ rest) (length pre) st = One (meaning lossrate x st) \<and> length (render x) = 1 \<or>
      udp_option lossrate (pre @ render x @ rest) (length pre) st = Two (meaning lossrate x st) \<and> length (render x) = 2"
    unfolding udp_option_def Let_def by (cases x) (simp_all add: tcp_udp_knows_def del: append.simps)
qed

interpretation tcp_ip_ethernet: option_body ethernet_option tcp_ip_ethernet_knows render "meaning lossrate" for lossrate
proof unfold_locales
  show "ethernet_option argv cur st = Two st' \<Longrightarrow> cur + 3 < length argv" for argv cur st st'
    unfolding ethernet_option_def Let_def by (auto dest: check_argc_Two split: if_splits)
next
  fix x and pre rest :: "string list" and st
  assume "tcp_ip_ethernet_knows x" "2 \<le> length rest"
  then show "ethernet_option (pre @ render x @ rest) (length pre) st = One (meaning lossrate x st) \<and> length (render x) = 1 \<or>
      ethernet_option (pre @ render x @ rest) (length pre) st = Two (meaning lossrate x st) \<and> length (render x) = 2"
    unfolding ethernet_option_def Let_def by (cases x) (simp_all add: tcp_ip_ethernet_knows_def del: append.simps)
qed

section \<open>What the command lines mean\<close>

lemma fold_listen: "op_listen (fold (meaning lossrate) xs st) \<longleftrightarrow> op_listen st \<or> Listen \<in> set xs"
proof (induction xs arbitrary: st)
  case (Cons x xs)
  have "op_listen (meaning lossrate x st) \<longleftrightarrow> op_listen st \<or> x = Listen"
    by (cases x) (simp_all add: set_recv_capacity_def set_rt_timeout_def set_loss_up_def set_loss_dn_def)
  then show ?case using Cons by auto
qed simp

lemma positional [simp]:
  "(xs @ [host, port]) ! length xs = host"
  "(xs @ [host, port]) ! Suc (length xs) = port"
  by (simp_all add: nth_append)

lemma tcp_ipv4_parsed:
  assumes "list_all tcp_ipv4_knows xs"
  shows "parse_options (ipv4_option lossrate) (prog # concat (map render xs) @ [host, port]) (Suc 0) st =
    Value (Suc (length (concat (map render xs))), fold (meaning lossrate) xs st)"
  using tcp_ipv4.rendered [OF assms, where pre = "[prog]"] by (simp del: length_concat)

lemma tcp_udp_parsed:
  assumes "list_all tcp_udp_knows xs"
  shows "parse_options (udp_option lossrate) (prog # concat (map render xs) @ [host, port]) (Suc 0) st =
    Value (Suc (length (concat (map render xs))), fold (meaning lossrate) xs st)"
  using tcp_udp.rendered [OF assms, where pre = "[prog]"] by (simp del: length_concat)

lemma tcp_ip_ethernet_parsed:
  assumes "list_all tcp_ip_ethernet_knows xs"
  shows "parse_options ethernet_option (prog # concat (map render xs) @ [host, port]) (Suc 0) st =
    Value (Suc (length (concat (map render xs))), fold (meaning lossrate) xs st)"
  using tcp_ip_ethernet.rendered [OF assms, where pre = "[prog]"] by (simp del: length_concat)

lemma listen_defaults [simp]: "\<not> op_listen (ipv4_defaults c_filt random)" "\<not> op_listen (udp_defaults c_filt)"
  by (simp_all add: ipv4_defaults_def udp_defaults_def)

text \<open>
  Command lines.  Whatever the arguments, when there are at least two besides the name of the program
  the loops over the options of the three programs stop exactly before the last two, so that no argument
  past the end is read.  Options that a program knows have the effect that their meaning says, in the
  order given, and the last two arguments name the peer; in server mode \<open>tcp_ipv4\<close> and \<open>tcp_udp\<close> ignore the
  first of them and listen on all addresses.
\<close>

theorem get_config_meaning:
  "(parse_options (ipv4_option lossrate) argv 1 st = Value (cur, st') \<or> parse_options (udp_option lossrate) argv 1 st = Value (cur, st') \<or>
      parse_options ethernet_option argv 1 st = Value (cur, st') \<longrightarrow> 3 \<le> length argv \<longrightarrow> cur + 2 = length argv) \<and>
   (FdAdapterConfig_new gai = Inr c_filt \<and> list_all tcp_ipv4_knows xs \<longrightarrow>
      tcp_ipv4_get_config gai gni lossrate random (prog # concat (map render xs) @ [host, port]) =
      (let st = fold (meaning lossrate) xs (ipv4_defaults c_filt random)
       in if Listen \<in> set xs
          then bindE (Address_of_host gai ''0'' port) (\<lambda>source. bindE (Address_port gni source) (\<lambda>port.
            if port = 0 then Inr (Quit 1 ''ERROR: listen port cannot be zero in server mode.'')
            else Inr (Value (op_fsm st, (op_filt st)\<lparr>fc_source := source\<rparr>, True, op_device st))))
          else bindE (Address_of_host gai host port) (\<lambda>destination.
            bindE (Address_of_host gai (op_source_address st) (op_source_port st)) (\<lambda>source.
              Inr (Value (op_fsm st, (op_filt st)\<lparr>fc_destination := destination, fc_source := source\<rparr>, False, op_device st)))))) \<and>
   (FdAdapterConfig_new gai = Inr c_filt \<and> list_all tcp_udp_knows xs \<longrightarrow>
      tcp_udp_get_config gai lossrate (prog # concat (map render xs) @ [host, port]) =
      (let st = fold (meaning lossrate) xs (udp_defaults c_filt)
       in if Listen \<in> set xs
          then bindE (Address_of_host gai ''0'' port) (\<lambda>source. Inr (Value (op_fsm st, (op_filt st)\<lparr>fc_source := source\<rparr>, True)))
          else bindE (Address_of_host gai host port) (\<lambda>destination.
            Inr (Value (op_fsm st, (op_filt st)\<lparr>fc_destination := destination\<rparr>, False))))) \<and>
   (FdAdapterConfig_new gai = Inr c_filt \<and> list_all tcp_ip_ethernet_knows xs \<longrightarrow>
      tcp_ip_ethernet_get_config gai random (prog # concat (map render xs) @ [host, port]) =
      (let st = fold (meaning lossrate) xs (ethernet_defaults c_filt random)
       in bindE (Address_of_host gai host port) (\<lambda>destination.
          bindE (Address_of_host gai (op_source_address st) (op_source_port st)) (\<lambda>source.
          bindE (Address_of_host gai (op_next_hop st) ''0'') (\<lambda>next_hop.
            Inr (Value (op_fsm st, (op_filt st)\<lparr>fc_destination := destination, fc_source := source\<rparr>, next_hop, the (op_device st))))))))"
proof (intro conjI impI)
  assume "parse_options (ipv4_option lossrate) argv 1 st = Value (cur, st') \<or>
    parse_options (udp_option lossrate) argv 1 st = Value (cur, st') \<or> parse_options ethernet_option argv 1 st = Value (cur, st')"
    and "3 \<le> length argv"
  then show "cur + 2 = length argv"
    using tcp_ipv4.position [of lossrate argv 1 st cur st'] tcp_udp.position [of lossrate argv 1 st cur st']
      tcp_ip_ethernet.position [of argv 1 st cur st'] by auto
qed (simp_all add: tcp_ipv4_get_config_def tcp_udp_get_config_def tcp_ip_ethernet_get_config_def Let_def fold_listen
    tcp_ipv4_parsed tcp_udp_parsed tcp_ip_ethernet_parsed [where lossrate = lossrate] del: length_concat)

theorem get_config_meaning_witness:
  "\<exists>c. FdAdapterConfig_new numeric_getaddrinfo = Inr c \<and>
    tcp_ipv4_get_config numeric_getaddrinfo numeric_getnameinfo (\<lambda>_. 0) 7 [''tcp_ipv4'', ''-w'', ''0x10'', ''-d'', ''tun1'', ''10.0.0.1'', ''80''] =
      bindE (Address_of_host numeric_getaddrinfo ''10.0.0.1'' ''80'') (\<lambda>destination.
      bindE (Address_of_host numeric_getaddrinfo ''169.254.144.9'' (decimal 7)) (\<lambda>source.
        Inr (Value (TCPConfig_default\<lparr>cfg_recv_capacity := 16\<rparr>, c\<lparr>fc_destination := destination, fc_source := source\<rparr>, False, Some ''tun1''))))"
proof -
  have "\<exists>a. Address_of_ip numeric_getaddrinfo s 0 = Inr a" for s
    by (simp add: Address_of_ip_def Address_resolve_def numeric_getaddrinfo_def)
  then obtain a where "Address_of_ip numeric_getaddrinfo ''0'' 0 = Inr a" by blast
  then obtain c where c: "FdAdapterConfig_new numeric_getaddrinfo = Inr c" by (simp add: FdAdapterConfig_new_def)
  let ?xs = "[Window ''0x10'', Device ''tun1'']"
  have n: "strtol ''0x10'' = 16" by code_simp
  let ?st = "fold (meaning (\<lambda>_. 0)) ?xs (ipv4_defaults c 7)"
  have "op_fsm ?st = TCPConfig_default\<lparr>cfg_recv_capacity := 16\<rparr>" "op_device ?st = Some ''tun1''" "op_filt ?st = c"
    "op_source_address ?st = ''169.254.144.9''" "op_source_port ?st = decimal 7"
    by (simp_all add: ipv4_defaults_def set_recv_capacity_def n)
  moreover have "list_all tcp_ipv4_knows ?xs" "Listen \<notin> set ?xs" by (simp_all add: tcp_ipv4_knows_def)
  moreover have "''tcp_ipv4'' # concat (map render ?xs) @ [''10.0.0.1'', ''80''] =
      [''tcp_ipv4'', ''-w'', ''0x10'', ''-d'', ''tun1'', ''10.0.0.1'', ''80'']" by simp
  ultimately have "tcp_ipv4_get_config numeric_getaddrinfo numeric_getnameinfo (\<lambda>_. 0) 7
        [''tcp_ipv4'', ''-w'', ''0x10'', ''-d'', ''tun1'', ''10.0.0.1'', ''80''] =
      bindE (Address_of_host numeric_getaddrinfo ''10.0.0.1'' ''80'') (\<lambda>destination.
      bindE (Address_of_host numeric_getaddrinfo ''169.254.144.9'' (decimal 7)) (\<lambda>source.
        Inr (Value (TCPConfig_default\<lparr>cfg_recv_capacity := 16\<rparr>, c\<lparr>fc_destination := destination, fc_source := source\<rparr>, False, Some ''tun1''))))"
    using get_config_meaning [THEN conjunct2, THEN conjunct1, rule_format, of numeric_getaddrinfo c ?xs numeric_getnameinfo "\<lambda>_. 0" 7 "''tcp_ipv4''" "''10.0.0.1''" "''80''"] c
    by (simp only: Let_def if_False simp_thms)
  with c show ?thesis by blast
qed

end
