(* ===== verification/Packet_Dump.thy ===== *)
theory Packet_Dump
  imports Printing Parser_Logic
begin

text \<open>
  The two programs that print packets: \<open>apps/udp_tcpdump.cc\<close>, which decodes the TCP segments in captured
  UDP packets, and \<open>apps/tun.cc\<close>, which decodes the datagrams of a TUN device.

  A captured packet is the list of its bytes; a read outside of it is undefined behaviour.  The function
  \<open>inet_ntop\<close> of the C library is an argument.  What a program prints for one packet is a string.
\<close>

unbundle bit_operations_syntax

section \<open>Reading a captured packet\<close>

abbreviation (input) AF_INET6 :: nat where "AF_INET6 \<equiv> 10"
abbreviation (input) AF_INET4 :: nat where "AF_INET4 \<equiv> 2"

type_synonym inet_ntop = "nat \<Rightarrow> byte list \<Rightarrow> string option"

definition pkt_bytes :: "byte list \<Rightarrow> nat \<Rightarrow> nat \<Rightarrow> byte list result" where
  "pkt_bytes data off n =
     (if off + n \<le> length data then Inr (take n (drop off data))
      else Inl (UndefinedBehaviour ''read past the captured packet''))"

definition pkt_at :: "byte list \<Rightarrow> nat \<Rightarrow> byte result" where
  "pkt_at data i =
     (if i < length data then Inr (data ! i) else Inl (UndefinedBehaviour ''read past the captured packet''))"

definition inet4_addr :: "inet_ntop \<Rightarrow> byte list \<Rightarrow> nat \<Rightarrow> string result" where
  "inet4_addr ntop data off =
     bindE (pkt_bytes data off 4) (\<lambda>addr. Inr (case ntop AF_INET4 addr of None \<Rightarrow> ''unknown'' | Some s \<Rightarrow> s))"

definition inet6_addr :: "inet_ntop \<Rightarrow> byte list \<Rightarrow> nat \<Rightarrow> string result" where
  "inet6_addr ntop data off =
     bindE (pkt_bytes data off 16) (\<lambda>addr. Inr (case ntop AF_INET6 addr of None \<Rightarrow> ''unknown'' | Some s \<Rightarrow> s))"

section \<open>Finding the payload\<close>

text \<open>
  The loop over the extension headers of an IPv6 packet, with the type of the next header and its offset;
  \<open>None\<close> is the return value \<open>-1\<close>.  Each extension header has at least eight bytes.
\<close>

function ipv6_options :: "nat \<Rightarrow> byte list \<Rightarrow> byte \<Rightarrow> nat \<Rightarrow> nat option result" where
  "ipv6_options len data nxt data_offset =
     (if nxt = 0x11 then Inr (Some data_offset)
      else if nxt \<noteq> 0 \<and> nxt \<noteq> 43 \<and> nxt \<noteq> 60 then Inr None
      else bindE (pkt_at data data_offset) (\<lambda>nxt.
           bindE (pkt_at data (data_offset + 1)) (\<lambda>units.
             let data_offset = data_offset + 8 * (1 + unat units)
             in if len < data_offset + 2 then Inr None else ipv6_options len data nxt data_offset)))"
  by pat_completeness auto
termination
  by (relation "measure (\<lambda>(len, data, nxt, data_offset). len - data_offset)") auto

declare ipv6_options.simps [simp del]

text \<open>
  \<open>None\<close> is the return value \<open>-1\<close>; otherwise the offset of the UDP payload and the two addresses.  Its own
  messages on the standard error, which only say why the packet is skipped, are left out.
\<close>

definition process_ipv4_ipv6 :: "inet_ntop \<Rightarrow> nat \<Rightarrow> byte list \<Rightarrow> (nat \<times> string \<times> string) option result" where
  "process_ipv4_ipv6 ntop len data =
     (if len < 1 then Inr None
      else bindE (pkt_at data 0) (\<lambda>b.
        let pt = b AND 0xf0
        in if pt = 0x40 then
             let data_offset = unat (b AND 0x0f) * 4
             in if len < data_offset then Inr None
                else bindE (pkt_at data 9) (\<lambda>proto.
                  if proto \<noteq> 0x11 then Inr None
                  else bindE (inet4_addr ntop data 12) (\<lambda>src_addr.
                       bindE (inet4_addr ntop data 16) (\<lambda>dst_addr.
                         Inr (Some (data_offset + 8, src_addr, dst_addr)))))
           else if pt = 0x60 then
             if len < 42 then Inr None
             else bindE (pkt_at data 6) (\<lambda>nxt.
                  bindE (ipv6_options len data nxt 40) (\<lambda>found.
                    case found of
                      None \<Rightarrow> Inr None
                    | Some data_offset \<Rightarrow>
                        bindE (inet6_addr ntop data 8) (\<lambda>src_addr.
                        bindE (inet6_addr ntop data 24) (\<lambda>dst_addr.
                          Inr (Some (data_offset + 8, src_addr, dst_addr))))))
           else Inr None))"

section \<open>Link layers\<close>

datatype datalink = DLT_NULL | DLT_RAW | DLT_EN10MB | DLT_LINUX_SLL | DLT_LINUX_SLL2 | DLT_other

datatype 'a capture = Skip string | Give_up | Go 'a

definition ethertype_ip :: "byte list \<Rightarrow> nat \<Rightarrow> bool result" where
  "ethertype_ip pkt i =
     bindE (pkt_at pkt i) (\<lambda>hi. bindE (pkt_at pkt (i + 1)) (\<lambda>lo.
       let pt = (push_bit 8 (ucast hi) OR ucast lo :: u16) in Inr (pt = 0x0800 \<or> pt = 0x86dd)))"

definition link_header :: "size_t \<Rightarrow> byte list \<Rightarrow> bool result \<Rightarrow> size_t capture result" where
  "link_header hdr_off pkt is_ip =
     (if length pkt < hdr_off then Inr (Skip ''[INFO] Skipping malformed packet.'')
      else bindE is_ip (\<lambda>ip. Inr (if ip then Go hdr_off else Skip ''[INFO] Skipping non-IP packet.'')))"

definition link_offset :: "datalink \<Rightarrow> byte list \<Rightarrow> size_t capture result" where
  "link_offset dl_type pkt =
     (case dl_type of
        DLT_NULL \<Rightarrow> link_header 4 pkt (bindE (pkt_at pkt 3) (\<lambda>pt. Inr (pt = 2 \<or> pt = 24 \<or> pt = 28 \<or> pt = 30)))
      | DLT_EN10MB \<Rightarrow> link_header 14 pkt (ethertype_ip pkt 12)
      | DLT_LINUX_SLL \<Rightarrow> link_header 16 pkt (ethertype_ip pkt 14)
      | DLT_LINUX_SLL2 \<Rightarrow> link_header 20 pkt (ethertype_ip pkt 0)
      | DLT_RAW \<Rightarrow> Inr (Go 0)
      | DLT_other \<Rightarrow> Inr Give_up)"

section \<open>Printing a packet\<close>

definition flag :: "bool \<Rightarrow> string \<Rightarrow> string" where
  "flag b s = (if b then s else [])"

definition segment_line :: "string \<Rightarrow> string \<Rightarrow> parse_result \<Rightarrow> tcp_segment \<Rightarrow> size_t \<Rightarrow> string" where
  "segment_line src dst res seg payload_len =
     (let tcp_hdr = seg_header seg;
          seqlen = of_nat (TCPSegment_length_in_sequence_space seg) :: u32
      in src @ '':'' @ decw (th_sport tcp_hdr) @ '' > '' @ dst @ '':'' @ decw (th_dport tcp_hdr) @ newline @ ''    Flags ['' @
         flag (th_urg tcp_hdr) ''U'' @ flag (th_psh tcp_hdr) ''P'' @ flag (th_rst tcp_hdr) ''R'' @
         flag (th_syn tcp_hdr) ''S'' @ flag (th_fin tcp_hdr) ''F'' @ flag (th_ack tcp_hdr) ''.'' @
         ''] cksum 0x'' @ setw 4 (hexw (th_cksum tcp_hdr)) @
         (if res = NoError then '' (correct)'' else '' (incorrect!)'') @
         '' seq '' @ decw (raw_value (th_seqno tcp_hdr)) @
         (if 0 < seqlen then '':'' @ decw (raw_value (wi_plus (th_seqno tcp_hdr) seqlen)) else []) @
         '' ack '' @ decw (raw_value (th_ackno tcp_hdr)) @ '' win '' @ decw (th_win tcp_hdr) @
         '' length '' @ decimal payload_len @ newline)"

text \<open>
  One round of the loop.  The length of the payload is computed in unsigned arithmetic; a string of more
  than \<open>2 ^ 63 - 1\<close> bytes cannot be constructed.
\<close>

definition dump_payload :: "string \<Rightarrow> string \<Rightarrow> byte list \<Rightarrow> size_t \<Rightarrow> string result" where
  "dump_payload src dst pkt payload_off =
     (let payload_len = sz_sub (length pkt) payload_off
      in if 2 ^ 63 - 1 < payload_len then Inl (LengthError ''basic_string::_M_create'')
         else bindE (pkt_bytes pkt payload_off payload_len) (\<lambda>payload.
              bindE (TCPSegment_parse TCPSegment_default (Buffer_new payload) 0) (\<lambda>(res, seg).
                Inr ((if parse_result_code BadChecksum < parse_result_code res
                      then ''(did not recognize TCP header) src: '' @ src @ '' dst: '' @ dst @ newline
                      else segment_line src dst res seg payload_len) @
                     hexdump payload 8))))"

definition dump_packet :: "inet_ntop \<Rightarrow> datalink \<Rightarrow> byte list \<Rightarrow> string capture result" where
  "dump_packet ntop dl_type pkt =
     bindE (link_offset dl_type pkt) (\<lambda>link.
       case link of
         Skip msg \<Rightarrow> Inr (Skip msg)
       | Give_up \<Rightarrow> Inr Give_up
       | Go hdr_off \<Rightarrow>
           bindE (process_ipv4_ipv6 ntop (length pkt - hdr_off) (drop hdr_off pkt)) (\<lambda>found.
             case found of
               None \<Rightarrow> Inr (Skip ''Error parsing IPv4/IPv6 packet. Skipping.'')
             | Some (start_off, src, dst) \<Rightarrow>
                 bindE (dump_payload src dst pkt (hdr_off + start_off)) (\<lambda>out. Inr (Go out))))"

section \<open>Datagrams of a TUN device\<close>

definition tun_packet :: "byte list \<Rightarrow> string result" where
  "tun_packet buffer =
     (let out = newline @ newline @ ''***'' @ newline @ ''*** Got packet:'' @ newline @ ''***'' @ newline @ hexdump buffer 0 @
                ''attempting to parse as ipv4 datagram... ''
      in bindE (IPv4Datagram_parse IPv4Datagram_default (Buffer_new buffer)) (\<lambda>(res, ip_dgram).
         if res \<noteq> NoError then Inr (out @ ''failed.'' @ newline)
         else let header = dg_header ip_dgram;
                  out = out @ ''success! totlen='' @ decw (ip_len header) @ '', IPv4 header contents:'' @ newline @
                        IPv4Header_to_string header
              in if ip_proto header \<noteq> IPv4Header_PROTO_TCP then Inr (out @ newline @ ''Not TCP, skipping.'' @ newline)
                 else let out = out @ newline @ ''Attempting to parse as a TCP segment... ''
                      in bindE (BufferList_to_buffer (dg_payload ip_dgram)) (\<lambda>payload.
                         bindE (TCPSegment_parse TCPSegment_default payload (IPv4Header_pseudo_cksum header)) (\<lambda>(res, tcp_seg).
                           if res \<noteq> NoError then Inr (out @ ''failed.'' @ newline)
                           else Inr (out @ ''success! payload len='' @ decimal (Buffer_size (seg_payload tcp_seg)) @
                                  '', TCP header contents:'' @ newline @ TCPHeader_to_string (seg_header tcp_seg) @ newline)))))"

section \<open>Carriers\<close>

lemma pkt_at_append [simp]: "i < length xs \<Longrightarrow> pkt_at (xs @ ys) i = Inr (xs ! i)"
  by (simp add: pkt_at_def nth_append)

lemma pkt_bytes_append [simp]: "off + n \<le> length xs \<Longrightarrow> pkt_bytes (xs @ ys) off n = Inr (take n (drop off xs))"
  by (simp add: pkt_bytes_def)

text \<open>A chain of extension headers that leads from the type \<open>nxt\<close> to UDP.\<close>

fun ext_chain :: "byte \<Rightarrow> byte list list \<Rightarrow> bool" where
  "ext_chain nxt [] \<longleftrightarrow> nxt = 0x11"
| "ext_chain nxt (h # hs) \<longleftrightarrow>
     (nxt = 0 \<or> nxt = 43 \<or> nxt = 60) \<and> 2 \<le> length h \<and> length h = 8 * (1 + unat (h ! 1)) \<and> ext_chain (h ! 0) hs"

lemma ipv6_options_chain:
  assumes "ext_chain nxt hs" "2 \<le> length rest" "len = length (pre @ concat hs @ rest)"
  shows "ipv6_options len (pre @ concat hs @ rest) nxt (length pre) = Inr (Some (length (pre @ concat hs)))"
  using assms
proof (induction hs arbitrary: nxt pre)
  case Nil
  then show ?case by (subst ipv6_options.simps) simp
next
  case (Cons h hs)
  let ?data = "pre @ concat (h # hs) @ rest"
  have h: "nxt = 0 \<or> nxt = 43 \<or> nxt = 60" "2 \<le> length h" "length h = 8 * (1 + unat (h ! 1))" "ext_chain (h ! 0) hs"
    using Cons.prems(1) by simp_all
  have at: "pkt_at ?data (length pre) = Inr (h ! 0)" "pkt_at ?data (length pre + 1) = Inr (h ! 1)"
    using h(2) by (auto simp: pkt_at_def nth_append)
  have room: "\<not> len < length pre + length h + 2" using Cons.prems(2,3) by simp
  have "ipv6_options len ?data nxt (length pre) = ipv6_options len ?data (h ! 0) (length pre + length h)"
    using h(1) at room by (subst ipv6_options.simps) (auto simp: Let_def h(3))
  also have "\<dots> = Inr (Some (length (pre @ concat (h # hs))))"
    using Cons.IH [OF h(4) Cons.prems(2), of "pre @ h"] Cons.prems(3) by (simp add: add.assoc)
  finally show ?case .
qed

text \<open>The bytes of an IPv4 or IPv6 header that carries UDP.\<close>

definition ipv4_udp :: "byte list \<Rightarrow> bool" where
  "ipv4_udp ip \<longleftrightarrow> 20 \<le> length ip \<and> ip ! 0 AND 0xf0 = 0x40 \<and> length ip = unat (ip ! 0 AND 0x0f) * 4 \<and> ip ! 9 = 0x11"

definition ipv6_udp :: "byte list \<Rightarrow> byte list list \<Rightarrow> bool" where
  "ipv6_udp ip hs \<longleftrightarrow> length ip = 40 \<and> ip ! 0 AND 0xf0 = 0x60 \<and> ext_chain (ip ! 6) hs"

definition ntop_string :: "string option \<Rightarrow> string" where
  "ntop_string r = (case r of None \<Rightarrow> ''unknown'' | Some s \<Rightarrow> s)"

lemma process_ipv4:
  assumes "ipv4_udp ip" "len = length (ip @ rest)"
  shows "process_ipv4_ipv6 ntop len (ip @ rest) =
    Inr (Some (length ip + 8, ntop_string (ntop 2 (take 4 (drop 12 ip))), ntop_string (ntop 2 (take 4 (drop 16 ip)))))"
proof -
  note ip = assms(1) [unfolded ipv4_udp_def]
  have a: "inet4_addr ntop (ip @ rest) 12 = Inr (ntop_string (ntop 2 (take 4 (drop 12 ip))))"
    "inet4_addr ntop (ip @ rest) 16 = Inr (ntop_string (ntop 2 (take 4 (drop 16 ip))))"
    using ip by (simp_all add: inet4_addr_def ntop_string_def)
  have b: "pkt_at (ip @ rest) 0 = Inr (ip ! 0)" "pkt_at (ip @ rest) 9 = Inr (ip ! 9)" using ip by auto
  have len: "\<not> len < 1" "\<not> len < length ip" using ip assms(2) by auto
  have off: "unat (ip ! 0 AND 0x0f) * 4 = length ip" using ip by simp
  show ?thesis
    unfolding process_ipv4_ipv6_def Let_def using ip len
    by (simp only: off b a bindE_simps if_True if_False simp_thms)
qed

lemma process_ipv6:
  assumes "ipv6_udp ip hs" "2 \<le> length rest" "len = length (ip @ concat hs @ rest)"
  shows "process_ipv4_ipv6 ntop len (ip @ concat hs @ rest) =
    Inr (Some (length (ip @ concat hs) + 8, ntop_string (ntop 10 (take 16 (drop 8 ip))), ntop_string (ntop 10 (take 16 (drop 24 ip)))))"
proof -
  note ip = assms(1) [unfolded ipv6_udp_def]
  let ?data = "ip @ concat hs @ rest"
  have a: "inet6_addr ntop ?data 8 = Inr (ntop_string (ntop 10 (take 16 (drop 8 ip))))"
    "inet6_addr ntop ?data 24 = Inr (ntop_string (ntop 10 (take 16 (drop 24 ip))))"
    using ip by (simp_all add: inet6_addr_def ntop_string_def)
  have b: "pkt_at ?data 0 = Inr (ip ! 0)" "pkt_at ?data 6 = Inr (ip ! 6)" using ip by auto
  have o: "ipv6_options len ?data (ip ! 6) 40 = Inr (Some (length (ip @ concat hs)))"
    using ipv6_options_chain [of "ip ! 6" hs rest len ip] assms ip by simp
  have "\<not> len < 1" "\<not> len < 42" using ip assms(2,3) by auto
  moreover have "ip ! 0 AND 0xf0 \<noteq> 0x40" using ip by simp
  ultimately show ?thesis
    unfolding process_ipv4_ipv6_def Let_def using ip
    by (simp only: o b a bindE_simps option.case if_True if_False simp_thms)
qed

section \<open>What is printed\<close>

text \<open>A payload after a link header, an IP header with its addresses, and a UDP header.\<close>

definition udp_packet :: "inet_ntop \<Rightarrow> byte list \<Rightarrow> string \<Rightarrow> string \<Rightarrow> bool" where
  "udp_packet ntop ip src dst \<longleftrightarrow>
     ipv4_udp ip \<and> src = ntop_string (ntop 2 (take 4 (drop 12 ip))) \<and> dst = ntop_string (ntop 2 (take 4 (drop 16 ip))) \<or>
     (\<exists>ip6 hs. ip = ip6 @ concat hs \<and> ipv6_udp ip6 hs \<and>
        src = ntop_string (ntop 10 (take 16 (drop 8 ip6))) \<and> dst = ntop_string (ntop 10 (take 16 (drop 24 ip6))))"

lemma process_udp:
  assumes "udp_packet ntop ip src dst" "2 \<le> length rest"
  shows "process_ipv4_ipv6 ntop (length ip + length rest) (ip @ rest) = Inr (Some (length ip + 8, src, dst))"
proof (cases "ipv4_udp ip")
  case True
  moreover have "ip = ip6 @ concat hs \<Longrightarrow> ipv6_udp ip6 hs \<Longrightarrow> ip ! 0 AND 0xf0 = 0x60" for ip6 hs
    by (cases ip6) (auto simp: ipv6_udp_def)
  ultimately show ?thesis
    using assms process_ipv4 [of ip "length (ip @ rest)" rest ntop] by (auto simp: udp_packet_def ipv4_udp_def)
next
  case False
  then obtain ip6 hs where "ip = ip6 @ concat hs" "ipv6_udp ip6 hs"
    "src = ntop_string (ntop 10 (take 16 (drop 8 ip6)))" "dst = ntop_string (ntop 10 (take 16 (drop 24 ip6)))"
    using assms(1) by (auto simp: udp_packet_def)
  then show ?thesis using process_ipv6 [of ip6 hs rest _ ntop] assms(2) by (simp add: add.assoc)
qed

lemma dump_packet_eq:
  assumes "link_offset dl pkt = Inr (Go (length link))" "pkt = link @ ip @ rest"
    and "udp_packet ntop ip src dst" "2 \<le> length rest"
  shows "dump_packet ntop dl pkt = bindE (dump_payload src dst pkt (length (link @ ip) + 8)) (\<lambda>out. Inr (Go out))"
  using assms(1) process_udp [OF assms(3,4)] unfolding dump_packet_def assms(2) by (simp add: add.assoc)

lemma segment_line_cong:
  "seg_header seg = seg_header seg' \<Longrightarrow> Buffer_str (seg_payload seg) = Buffer_str (seg_payload seg') \<Longrightarrow>
   segment_line src dst res seg n = segment_line src dst res seg' n"
  by (simp add: segment_line_def TCPSegment_length_in_sequence_space_def)

text \<open>
  What is printed for a segment.  A captured packet consists of a link header, an IPv4 header with
  options, or an IPv6 header with extension headers, a UDP header and the serialisation of a TCP segment, as
  the adapter over UDP sends it.  Then the line printed for it has the addresses of the IP header, the ports,
  flags, sequence numbers and window of the segment, and reports a correct checksum; the bytes dumped are
  those of the segment.
\<close>

theorem dump_reports_segment:
  assumes "seg_wf seg 0" "TCPSegment_serialize seg 0 = Inr bl"
    and "pkt = link @ ip @ udp @ BufferList_concatenate bl" "length udp = 8"
    and "link_offset dl pkt = Inr (Go (length link))" "udp_packet ntop ip src dst" "length pkt \<le> 65535"
  shows "dump_packet ntop dl pkt =
    Inr (Go (segment_line src dst NoError (seg\<lparr>seg_header := (seg_header seg)\<lparr>th_cksum := seg_cksum seg 0\<rparr>\<rparr>)
      (4 * unat (th_doff (seg_header seg)) + length (Buffer_str (seg_payload seg))) @ hexdump (BufferList_concatenate bl) 8))"
proof -
  let ?p = "BufferList_concatenate bl" and ?off = "length (link @ ip) + 8"
  obtain seg' where seg': "TCPSegment_parse TCPSegment_default (Buffer_new ?p) 0 = Inr (NoError, seg')" "seg_same 0 seg seg'"
    and len: "length ?p = 4 * unat (th_doff (seg_header seg)) + length (Buffer_str (seg_payload seg))"
    using TCPSegment_parse_serialize [OF assms(1), of TCPSegment_default] assms(2) Buffer_new_simps
    by (metis Inr_inject)
  have "sz_sub (length pkt) ?off = length ?p"
    using assms(3,4,7) by (simp add: sz_sub_small)
  moreover have "pkt_bytes pkt ?off (length ?p) = Inr ?p" using assms(3,4) by (simp add: pkt_bytes_def)
  moreover have "\<not> 2 ^ 63 - 1 < length ?p" using assms(3,7) by simp
  ultimately have "dump_payload src dst pkt ?off = Inr (segment_line src dst NoError seg' (length ?p) @ hexdump ?p 8)"
    unfolding dump_payload_def Let_def using seg'(1) by simp
  moreover have "segment_line src dst NoError seg' (length ?p) =
      segment_line src dst NoError (seg\<lparr>seg_header := (seg_header seg)\<lparr>th_cksum := seg_cksum seg 0\<rparr>\<rparr>) (length ?p)"
    using seg'(2) by (intro segment_line_cong) (simp_all add: seg_same_def)
  ultimately show ?thesis
    using dump_packet_eq [OF assms(5) _ assms(6), of "udp @ ?p"] assms(3,4) len by simp
qed

text \<open>A packet whose segment has a wrong checksum: the header printed is that of an empty segment.\<close>

lemma dump_bad_checksum:
  assumes "pkt = link @ ip @ udp @ payload" "length udp = 8" "length pkt \<le> 65535"
    and "link_offset dl pkt = Inr (Go (length link))" "udp_packet ntop ip src dst"
    and "InternetChecksum_value (InternetChecksum_add (InternetChecksum_new 0) payload) \<noteq> 0"
  shows "dump_packet ntop dl pkt =
    Inr (Go (segment_line src dst BadChecksum TCPSegment_default (length payload) @ hexdump payload 8))"
proof -
  let ?off = "length (link @ ip) + 8"
  have "sz_sub (length pkt) ?off = length payload" using assms(1-3) by (simp add: sz_sub_small)
  moreover have "pkt_bytes pkt ?off (length payload) = Inr payload" using assms(1,2) by (simp add: pkt_bytes_def)
  moreover have "\<not> 2 ^ 63 - 1 < length payload" using assms(1,3) by simp
  ultimately have "dump_payload src dst pkt ?off =
      Inr (segment_line src dst BadChecksum TCPSegment_default (length payload) @ hexdump payload 8)"
    unfolding dump_payload_def Let_def TCPSegment_parse_def using assms(6) by simp
  then show ?thesis using dump_packet_eq [OF assms(4) _ assms(5), of "udp @ payload"] assms(1,2) by simp
qed

theorem dump_reports_segment_witness:
  "\<exists>bl. TCPSegment_serialize \<lparr>seg_header = TCPHeader_default\<lparr>th_syn := True\<rparr>, seg_payload = Buffer_new [104, 105]\<rparr> 0 = Inr bl \<and>
    dump_packet (\<lambda>_ _. Some ''host'') DLT_RAW
      ([0x45, 0, 0, 50, 0, 0, 0, 0, 64, 0x11, 0, 0, 10, 0, 0, 1, 10, 0, 0, 2] @ [0, 1, 0, 2, 0, 30, 0, 0] @ BufferList_concatenate bl) =
    Inr (Go (segment_line ''host'' ''host'' NoError
      \<lparr>seg_header = TCPHeader_default\<lparr>th_syn := True, th_cksum :=
         seg_cksum \<lparr>seg_header = TCPHeader_default\<lparr>th_syn := True\<rparr>, seg_payload = Buffer_new [104, 105]\<rparr> 0\<rparr>,
       seg_payload = Buffer_new [104, 105]\<rparr> 22 @ hexdump (BufferList_concatenate bl) 8))"
proof -
  let ?seg = "\<lparr>seg_header = TCPHeader_default\<lparr>th_syn := True\<rparr>, seg_payload = Buffer_new [104, 105]\<rparr>"
  let ?ip = "[0x45, 0, 0, 50, 0, 0, 0, 0, 64, 0x11, 0, 0, 10, 0, 0, 1, 10, 0, 0, 2] :: byte list"
  let ?udp = "[0, 1, 0, 2, 0, 30, 0, 0] :: byte list"
  have wf: "seg_wf ?seg 0" by (simp add: seg_wf_def TCPHeader_default_def)
  obtain bl where bl: "TCPSegment_serialize ?seg 0 = Inr bl" and len: "length (BufferList_concatenate bl) = 22"
    using TCPSegment_parse_serialize [OF wf] by (auto simp: TCPHeader_default_def)
  have "udp_packet (\<lambda>_ _. Some ''host'') ?ip ''host'' ''host''"
    by (simp add: udp_packet_def ipv4_udp_def ntop_string_def)
  from dump_reports_segment [OF wf bl, of "[] @ ?ip @ ?udp @ BufferList_concatenate bl" "[]" ?ip ?udp DLT_RAW, OF _ _ _ this] len bl
  show ?thesis by (simp add: link_offset_def TCPHeader_default_def)
qed

section \<open>Failures\<close>

definition past_end :: cpp_error where
  "past_end = UndefinedBehaviour ''read past the captured packet''"

lemma pkt_at_fails: "pkt_at data i = Inl e \<Longrightarrow> e = past_end"
  by (auto simp: pkt_at_def past_end_def split: if_splits)

lemma pkt_bytes_fails: "pkt_bytes data off n = Inl e \<Longrightarrow> e = past_end"
  by (auto simp: pkt_bytes_def past_end_def split: if_splits)

lemma ipv6_options_fails: "ipv6_options len data nxt off = Inl e \<Longrightarrow> e = past_end"
proof (induction len data nxt off rule: ipv6_options.induct)
  case (1 len data nxt off)
  from "1.prems" show ?case
    unfolding ipv6_options.simps [of len data nxt off]
    by (auto simp: Let_def bindE_eq_Inl_iff dest: pkt_at_fails "1.IH" [rotated 2] split: if_splits)
qed

lemma link_offset_fails: "link_offset dl pkt = Inl e \<Longrightarrow> e = past_end"
  by (auto simp: link_offset_def link_header_def ethertype_ip_def Let_def bindE_eq_Inl_iff dest: pkt_at_fails
      split: if_splits datalink.splits)

lemma process_fails: "process_ipv4_ipv6 ntop len data = Inl e \<Longrightarrow> e = past_end"
  by (auto simp: process_ipv4_ipv6_def inet4_addr_def inet6_addr_def Let_def bindE_eq_Inl_iff
      dest: pkt_at_fails pkt_bytes_fails ipv6_options_fails split: if_splits option.splits)

lemma dump_payload_fails: "dump_payload src dst pkt off = Inl e \<Longrightarrow> e \<in> {past_end, LengthError ''basic_string::_M_create''}"
proof -
  have "TCPSegment_parse TCPSegment_default b 0 \<noteq> Inl e" for b
    using TCPSegment_parse_total [of TCPSegment_default b 0] by auto
  then show "dump_payload src dst pkt off = Inl e \<Longrightarrow> e \<in> {past_end, LengthError ''basic_string::_M_create''}"
    by (auto simp: dump_payload_def Let_def bindE_eq_Inl_iff dest: pkt_bytes_fails split: if_splits)
qed

lemma dump_packet_fails: "dump_packet ntop dl pkt = Inl e \<Longrightarrow> e \<in> {past_end, LengthError ''basic_string::_M_create''}"
proof (cases "link_offset dl pkt")
  case (Inr link)
  then show "dump_packet ntop dl pkt = Inl e \<Longrightarrow> e \<in> {past_end, LengthError ''basic_string::_M_create''}"
    by (cases link) (auto simp: dump_packet_def bindE_eq_Inl_iff dest: process_fails dump_payload_fails split: option.splits)
qed (auto simp: dump_packet_def dest: link_offset_fails)

text \<open>
  C40. How the dump of a packet fails.  The only failures are a read past the packet and a string that is too
  long.  A packet that ends inside its UDP header leads to the second: the length of its payload wraps
  around, and the exception ends the program.  An IPv4 packet of less than ten bytes whose header length
  field is small enough leads to the first, because only that field is compared with the length.
\<close>

theorem dump_failures:
  "(\<forall>e. dump_packet ntop dl pkt = Inl e \<longrightarrow> e \<in> {past_end, LengthError ''basic_string::_M_create''}) \<and>
   (link_offset dl pkt = Inr (Go (length link)) \<and> pkt = link @ ip @ rest \<and> udp_packet ntop ip src dst \<and>
      2 \<le> length rest \<and> length rest < 8 \<and> length pkt \<le> 65535 \<longrightarrow>
      dump_packet ntop dl pkt = Inl (LengthError ''basic_string::_M_create'')) \<and>
   (pkt \<noteq> [] \<and> pkt ! 0 AND 0xf0 = 0x40 \<and> unat (pkt ! 0 AND 0x0f) * 4 \<le> length pkt \<and> length pkt < 10 \<longrightarrow>
      dump_packet ntop DLT_RAW pkt = Inl past_end)"
proof (intro conjI impI)
  show "\<forall>e. dump_packet ntop dl pkt = Inl e \<longrightarrow> e \<in> {past_end, LengthError ''basic_string::_M_create''}"
    using dump_packet_fails by blast
next
  assume a: "link_offset dl pkt = Inr (Go (length link)) \<and> pkt = link @ ip @ rest \<and> udp_packet ntop ip src dst \<and>
    2 \<le> length rest \<and> length rest < 8 \<and> length pkt \<le> 65535"
  let ?off = "length (link @ ip) + 8"
  have "sz_sub (length pkt) ?off = size_mod - (8 - length rest)" using a by (subst sz_sub_wrap) auto
  then have "dump_payload src dst pkt ?off = Inl (LengthError ''basic_string::_M_create'')"
    using a by (simp add: dump_payload_def)
  then show "dump_packet ntop dl pkt = Inl (LengthError ''basic_string::_M_create'')"
    using dump_packet_eq [of dl pkt link ip rest ntop src dst] a by (elim conjE) simp
next
  assume a: "pkt \<noteq> [] \<and> pkt ! 0 AND 0xf0 = 0x40 \<and> unat (pkt ! 0 AND 0x0f) * 4 \<le> length pkt \<and> length pkt < 10"
  then have "pkt_at pkt 0 = Inr (pkt ! 0)" "pkt_at pkt 9 = Inl past_end" by (auto simp: pkt_at_def past_end_def)
  then show "dump_packet ntop DLT_RAW pkt = Inl past_end"
    using a by (simp add: dump_packet_def link_offset_def process_ipv4_ipv6_def Let_def)
qed

theorem dump_failures_witness:
  "dump_packet (\<lambda>_ _. None) DLT_RAW [0x40] = Inl past_end \<and>
   dump_packet (\<lambda>_ _. None) DLT_RAW
     [0x45, 0, 0, 28, 0, 0, 0, 0, 64, 0x11, 0, 0, 10, 0, 0, 1, 10, 0, 0, 2, 0, 1, 0, 2] = Inl (LengthError ''basic_string::_M_create'')"
proof -
  let ?ip = "[0x45, 0, 0, 28, 0, 0, 0, 0, 64, 0x11, 0, 0, 10, 0, 0, 1, 10, 0, 0, 2] :: byte list"
  have "udp_packet (\<lambda>_ _. None) ?ip ''unknown'' ''unknown''"
    by (simp add: udp_packet_def ipv4_udp_def ntop_string_def)
  then show ?thesis
    using dump_failures [of "\<lambda>_ _. None" DLT_RAW "[0x40]"]
      dump_failures [of "\<lambda>_ _. None" DLT_RAW "?ip @ [0, 1, 0, 2]" "[]" ?ip "[0, 1, 0, 2]" "''unknown''" "''unknown''"]
    by (simp add: link_offset_def)
qed

text \<open>The dump of a TUN device never fails.\<close>

lemma tun_packet_total: "\<exists>out. tun_packet buffer = Inr out"
proof -
  obtain res dg where dg: "IPv4Datagram_parse IPv4Datagram_default (Buffer_new buffer) = Inr (res, dg)"
    using IPv4Datagram_parse_total by blast
  then obtain b where "dg_payload dg = BufferList_of_buffer b"
    by (auto simp: IPv4Datagram_parse_def Let_def split: if_splits)
  then obtain payload where "BufferList_to_buffer (dg_payload dg) = Inr payload"
    by (auto simp: BufferList_of_buffer_def BufferList_to_buffer_def)
  moreover obtain res' seg where "TCPSegment_parse TCPSegment_default payload (IPv4Header_pseudo_cksum (dg_header dg)) = Inr (res', seg)"
    using TCPSegment_parse_total by blast
  ultimately show ?thesis using dg by (simp add: tun_packet_def Let_def)
qed

end
