(* ===== verification/Lab7.thy ===== *)
theory Lab7
  imports Simulation Sponge_Socket Command_Line Packet_Dump
begin

text \<open>
  The program that joins all layers, \<open>apps/lab7.cc\<close>: a TCP socket on a network interface, and a router
  between it and the Internet, which runs in a thread of its own with an event loop.

  The socket is that of \<open>Sponge_Socket\<close> with the adapter of this program; the operations of the adapter are
  the same code as those for a TAP device, on one end of a pair of datagram sockets.  The other end and the
  UDP socket to the Internet belong to the thread of the router.
\<close>

section \<open>The socket of the host\<close>

definition NetworkInterfaceAdapter_new :: "fd_adapter_config \<Rightarrow> byte list \<Rightarrow> address \<Rightarrow> address \<Rightarrow> ethernet_adapter" where
  "NetworkInterfaceAdapter_new cfg random ip_address next_hop =
     \<lparr>ea_base = FdAdapterBase_new cfg,
      ea_interface = NetworkInterface_new (random_host_ethernet_address random) ip_address, ea_next_hop = next_hop\<rparr>"

definition lab7_adapter :: "'k kernel \<Rightarrow> getaddrinfo \<Rightarrow> getnameinfo \<Rightarrow> (ethernet_adapter, 'k) adapter_ops" where
  "lab7_adapter = tap_adapter"

text \<open>The configuration for \<open>connect\<close>, with the new local address, and \<open>bind\<close> and the configuration for \<open>listen_and_accept\<close>.\<close>

definition TCPSocketLab7_connect :: "getaddrinfo \<Rightarrow> getnameinfo \<Rightarrow> u32 \<Rightarrow> address \<Rightarrow> address \<Rightarrow> (address \<times> fd_adapter_config) result" where
  "TCPSocketLab7_connect gai gni random local_address address =
     bindE (FdAdapterConfig_new gai) (\<lambda>multiplexer_config.
     bindE (Address_ip gni local_address) (\<lambda>ip.
     bindE (Address_of_ip gai ip (ucast random)) (\<lambda>local_address.
     bindE (Address_to_string gni local_address) (\<lambda>_.
       Inr (local_address, multiplexer_config\<lparr>fc_source := local_address, fc_destination := address\<rparr>)))))"

definition TCPSocketLab7_bind :: "getaddrinfo \<Rightarrow> getnameinfo \<Rightarrow> address \<Rightarrow> address \<Rightarrow> address result" where
  "TCPSocketLab7_bind gai gni local_address address =
     bindE (Address_ip gni address) (\<lambda>ip.
     bindE (Address_ip gni local_address) (\<lambda>local_ip.
       if ip \<noteq> local_ip then
         bindE (Address_to_string gni address) (\<lambda>s. Inl (RuntimeError (''Cannot bind to '' @ s)))
       else bindE (Address_port gni address) (\<lambda>port. Address_of_ip gai local_ip port)))"

definition TCPSocketLab7_listen :: "getaddrinfo \<Rightarrow> address \<Rightarrow> fd_adapter_config result" where
  "TCPSocketLab7_listen gai local_address =
     bindE (FdAdapterConfig_new gai) (\<lambda>multiplexer_config. Inr (multiplexer_config\<lparr>fc_source := local_address\<rparr>))"

section \<open>The router\<close>

definition lab7_route :: "getaddrinfo \<Rightarrow> string \<Rightarrow> u8 \<Rightarrow> address option \<Rightarrow> size_t \<Rightarrow> router \<Rightarrow> router result" where
  "lab7_route gai pfx prefix_length next_hop N r =
     bindE (simulator_ip gai pfx) (\<lambda>p. Inr (Router_add_route r p prefix_length next_hop N))"

text \<open>The interfaces to the host and to the Internet, and the router.\<close>

definition lab7_router :: "getaddrinfo \<Rightarrow> (nat \<Rightarrow> byte list) \<Rightarrow> bool \<Rightarrow> (size_t \<times> size_t \<times> router) result" where
  "lab7_router gai mac is_client =
     (if is_client then
        bindE (add_interface gai (mac 0) ''192.168.0.1'' Router_new) (\<lambda>(host_side, r).
        bindE (add_interface gai (mac 1) ''10.0.0.192'' r) (\<lambda>(internet_side, r).
        bindE (lab7_route gai ''192.168.0.0'' 16 None host_side r) (\<lambda>r.
        bindE (lab7_route gai ''10.0.0.0'' 8 None internet_side r) (\<lambda>r.
        bindE (Address_of_ip gai ''10.0.0.172'' 0) (\<lambda>hop.
        bindE (lab7_route gai ''172.16.0.0'' 12 (Some hop) internet_side r) (\<lambda>r. Inr (host_side, internet_side, r)))))))
      else
        bindE (add_interface gai (mac 0) ''172.16.0.1'' Router_new) (\<lambda>(host_side, r).
        bindE (add_interface gai (mac 1) ''10.0.0.172'' r) (\<lambda>(internet_side, r).
        bindE (lab7_route gai ''172.16.0.0'' 12 None host_side r) (\<lambda>r.
        bindE (lab7_route gai ''10.0.0.0'' 8 None internet_side r) (\<lambda>r.
        bindE (Address_of_ip gai ''10.0.0.192'' 0) (\<lambda>hop.
        bindE (lab7_route gai ''192.168.0.0'' 16 (Some hop) internet_side r) (\<lambda>r. Inr (host_side, internet_side, r))))))))"

text \<open>The packets that tell the bouncer where the program is.\<close>

definition lab7_greet :: "'k kernel \<Rightarrow> fd_wrapper \<Rightarrow> address \<Rightarrow> 'k \<Rightarrow> (fd_wrapper \<times> 'k) result" where
  "lab7_greet K internet_socket bounce_address k =
     bindE (UDPSocket_sendto K internet_socket bounce_address (BufferViewList_of_string []) k) (\<lambda>(w, k).
     bindE (UDPSocket_sendto K w bounce_address (BufferViewList_of_string []) k) (\<lambda>(w, k).
       UDPSocket_sendto K w bounce_address (BufferViewList_of_string []) k))"

section \<open>The thread of the router\<close>

definition lab7_summary :: "ethernet_frame \<Rightarrow> string result" where
  "lab7_summary frame =
     (let ret = EthernetHeader_to_string (ef_header frame)
      in if eh_type (ef_header frame) = TYPE_IPv4
         then bindE (IPv4Datagram_parse IPv4Datagram_default (Buffer_new (BufferList_concatenate (ef_payload frame)))) (\<lambda>(res, dgram).
              if res \<noteq> NoError then Inr (ret @ '' (bad IPv4)'')
              else let ret = ret @ '' '' @ IPv4Header_summary (dg_header dgram)
                   in if ip_proto (dg_header dgram) = IPv4Header_PROTO_TCP
                      then bindE (TCPSegment_parse TCPSegment_default (Buffer_new (BufferList_concatenate (dg_payload dgram)))
                                    (IPv4Header_pseudo_cksum (dg_header dgram))) (\<lambda>(res, tcp_seg).
                           Inr (if res = NoError then ret @ '' '' @ TCPHeader_summary (seg_header tcp_seg) else ret))
                      else Inr ret)
         else if eh_type (ef_header frame) = TYPE_ARP
         then bindE (BufferList_to_buffer (ef_payload frame)) (\<lambda>b.
              bindE (ARPMessage_parse ARPMessage_default b) (\<lambda>(res, arp).
                Inr (if res = NoError then ret @ '' '' @ ARPMessage_to_string arp else ret @ '' (bad ARP)'')))
         else Inr ret)"

definition lab7_trace :: "bool \<Rightarrow> ethernet_frame \<Rightarrow> unit result" where
  "lab7_trace debug frame = (if debug then bindE (lab7_summary frame) (\<lambda>_. Inr ()) else Inr ())"

record 'k lab7 =
  l7_router :: router
  l7_host_side :: size_t
  l7_internet_side :: size_t
  l7_frame_fd :: fd_wrapper
  l7_internet_socket :: fd_wrapper
  l7_kernel :: 'k

definition put_router_interface :: "size_t \<Rightarrow> async_network_interface \<Rightarrow> 'k lab7 \<Rightarrow> 'k lab7" where
  "put_router_interface N a s = s\<lparr>l7_router := (l7_router s)\<lparr>rt_interfaces := (rt_interfaces (l7_router s))[N := a]\<rparr>\<rparr>"

text \<open>A frame reaches an interface of the router.\<close>

definition lab7_receive :: "bool \<Rightarrow> size_t \<Rightarrow> byte list \<Rightarrow> 'k lab7 \<Rightarrow> 'k lab7 result" where
  "lab7_receive debug N bytes s =
     bindE (EthernetFrame_parse EthernetFrame_default (Buffer_new bytes)) (\<lambda>(res, frame).
       if res \<noteq> NoError then Inr s
       else bindE (lab7_trace debug frame) (\<lambda>_.
            bindE (Router_interface (l7_router s) N) (\<lambda>a.
            bindE (AsyncNetworkInterface_recv_frame a frame) (\<lambda>a.
              let s = put_router_interface N a s
              in bindE (Router_route (l7_router s)) (\<lambda>r. Inr (s\<lparr>l7_router := r\<rparr>))))))"

text \<open>The oldest frame of an interface of the router leaves it; \<open>front\<close> of an empty queue is undefined.\<close>

definition front_frame :: "bool \<Rightarrow> size_t \<Rightarrow> 'k lab7 \<Rightarrow> ethernet_frame result" where
  "front_frame debug N s =
     bindE (Router_interface (l7_router s) N) (\<lambda>a.
       if frames_out a = [] then Inl (UndefinedBehaviour ''front of an empty queue'')
       else bindE (lab7_trace debug (hd (frames_out a))) (\<lambda>_. Inr (hd (frames_out a))))"

definition pop_frame :: "size_t \<Rightarrow> 'k lab7 \<Rightarrow> 'k lab7" where
  "pop_frame N s =
     (let a = rt_interfaces (l7_router s) ! N
      in put_router_interface N (a\<lparr>an_interface := (an_interface a)\<lparr>ni_frames_out := tl (frames_out a)\<rparr>\<rparr>) s)"

text \<open>
  The interest of the two rules for writing.  \<open>interface\<close> throws for an index out of range; the two indices are
  those that \<open>add_interface\<close> has returned.
\<close>

definition frames_pending :: "size_t \<Rightarrow> 'k lab7 \<Rightarrow> bool" where
  "frames_pending N s \<longleftrightarrow> (case Router_interface (l7_router s) N of Inr a \<Rightarrow> frames_out a \<noteq> [] | Inl e \<Rightarrow> False)"

definition host_to_router :: "'k kernel \<Rightarrow> bool \<Rightarrow> 'k lab7 \<Rightarrow> 'k lab7 result" where
  "host_to_router K debug s =
     bindE (fd_read K (l7_frame_fd s) size_max (l7_kernel s)) (\<lambda>(bytes, w, k).
       lab7_receive debug (l7_host_side s) bytes (s\<lparr>l7_frame_fd := w, l7_kernel := k\<rparr>))"

definition router_to_host :: "'k kernel \<Rightarrow> bool \<Rightarrow> 'k lab7 \<Rightarrow> 'k lab7 result" where
  "router_to_host K debug s =
     bindE (front_frame debug (l7_host_side s) s) (\<lambda>f.
     bindE (fd_write K (l7_frame_fd s) (BufferViewList_new (EthernetFrame_serialize f)) True (l7_kernel s)) (\<lambda>(n, k, w).
       Inr (pop_frame (l7_host_side s) (s\<lparr>l7_frame_fd := w, l7_kernel := k\<rparr>))))"

definition router_to_internet :: "'k kernel \<Rightarrow> bool \<Rightarrow> address \<Rightarrow> 'k lab7 \<Rightarrow> 'k lab7 result" where
  "router_to_internet K debug bounce_address s =
     bindE (front_frame debug (l7_internet_side s) s) (\<lambda>f.
     bindE (UDPSocket_sendto K (l7_internet_socket s) bounce_address (BufferViewList_new (EthernetFrame_serialize f)) (l7_kernel s)) (\<lambda>(w, k).
       Inr (pop_frame (l7_internet_side s) (s\<lparr>l7_internet_socket := w, l7_kernel := k\<rparr>))))"

definition internet_to_router :: "'k kernel \<Rightarrow> bool \<Rightarrow> 'k lab7 \<Rightarrow> 'k lab7 result" where
  "internet_to_router K debug s =
     bindE (fd_read K (l7_internet_socket s) size_max (l7_kernel s)) (\<lambda>(bytes, w, k).
       lab7_receive debug (l7_internet_side s) bytes (s\<lparr>l7_internet_socket := w, l7_kernel := k\<rparr>))"

definition lab7_rules :: "'k kernel \<Rightarrow> bool \<Rightarrow> address \<Rightarrow> 'k lab7 event_rule list" where
  "lab7_rules K debug bounce_address =
     (let rules = EventLoop_add_rule [] l7_frame_fd In (host_to_router K debug) (\<lambda>s. True) Inr;
          rules = EventLoop_add_rule rules l7_frame_fd Out (router_to_host K debug) (\<lambda>s. frames_pending (l7_host_side s) s) Inr;
          rules = EventLoop_add_rule rules l7_internet_socket Out (router_to_internet K debug bounce_address)
                    (\<lambda>s. frames_pending (l7_internet_side s) s) Inr
      in EventLoop_add_rule rules l7_internet_socket In (internet_to_router K debug) (\<lambda>s. True) Inr)"

definition lab7_tick :: "size_t \<Rightarrow> 'k lab7 \<Rightarrow> 'k lab7 result" where
  "lab7_tick N s =
     bindE (Router_interface (l7_router s) N) (\<lambda>a.
       Inr (put_router_interface N (a\<lparr>an_interface := NetworkInterface_tick (an_interface a) 50\<rparr>) s))"

text \<open>A round sees what happened outside, the answer of \<open>poll\<close> and the flag of the other thread.\<close>

fun lab7_loop ::
  "(('k \<Rightarrow> 'k) \<times> poll \<times> bool) list \<Rightarrow> 'k lab7 event_rule list \<Rightarrow> 'k lab7 \<Rightarrow> (bool \<times> 'k lab7) result" where
  "lab7_loop [] rules s = Inr (False, s)"
| "lab7_loop ((outside, poll, exit_flag) # rds) rules s =
     bindE (EventLoop_wait_next_event poll rules (s\<lparr>l7_kernel := outside (l7_kernel s)\<rparr>)) (\<lambda>(ret, rules, s).
       if ret = Exit then Inr (True, s)
       else bindE (lab7_tick (l7_host_side s) s) (\<lambda>s.
            bindE (lab7_tick (l7_internet_side s) s) (\<lambda>s.
              if exit_flag then Inr (True, s) else lab7_loop rds rules s)))"

text \<open>
  The arguments of the program: client or server, the address of the bouncer, and whether to trace.  Without
  a name of the program it aborts.
\<close>

definition lab7_main :: "string list \<Rightarrow> (bool \<times> string \<times> string \<times> bool) exits" where
  "lab7_main argv =
     (if argv = [] then Quit 134 []
      else if length argv \<noteq> 4 \<and> length argv \<noteq> 5 then Quit 1 []
      else if argv ! 1 \<noteq> ''client'' \<and> argv ! 1 \<noteq> ''server'' then Quit 1 []
      else Value (argv ! 1 = ''client'', argv ! 2, argv ! 3, length argv = 5))"

end
