(* ===== verification/Lab7_Runs.thy ===== *)
theory Lab7_Runs
  imports Lab7
begin

text \<open>
  Runs of the router's thread of \<open>lab7\<close>: its rules keep the router well formed and never take a frame from
  an empty queue, and the two routers of a client and a server carry a datagram from one host to the other.
\<close>

section \<open>Queues only grow\<close>

text \<open>A frame whose summary can be printed: an ARP message is in one buffer.\<close>

definition traceable :: "ethernet_frame \<Rightarrow> bool" where
  "traceable f \<longleftrightarrow> (eh_type (ef_header f) = TYPE_ARP \<longrightarrow> length (ef_payload f) \<le> 1)"

definition ni_grows :: "network_interface \<Rightarrow> network_interface \<Rightarrow> bool" where
  "ni_grows ni ni' \<longleftrightarrow> ni_current_time ni' = ni_current_time ni \<and>
     (\<exists>new. ni_frames_out ni' = ni_frames_out ni @ new \<and> (\<forall>f \<in> set new. traceable f))"

lemma ni_grows_refl [simp]: "ni_grows ni ni"
  by (simp add: ni_grows_def)


lemma ni_grows_update [simp]:
  "ni_grows ni (ni'\<lparr>ni_waiting_dgrams := ws\<rparr>) = ni_grows ni ni'"
  "ni_grows ni (ni'\<lparr>ni_addr_cache := c\<rparr>) = ni_grows ni ni'"
  "ni_grows ni (ni'\<lparr>ni_addr_request_time := t\<rparr>) = ni_grows ni ni'"
  by (simp_all add: ni_grows_def)


lemma ARP_not_IPv4 [simp]: "TYPE_IPv4 \<noteq> TYPE_ARP"
  by (simp add: TYPE_IPv4_def TYPE_ARP_def)















section \<open>Tracing\<close>

lemma summary_ipv4:
  assumes "eh_type (ef_header f) = TYPE_IPv4"
  shows "\<exists>str. lab7_summary f = Inr str"
proof -
  obtain res dg where dg: "IPv4Datagram_parse IPv4Datagram_default (Buffer_new (BufferList_concatenate (ef_payload f))) = Inr (res, dg)"
    using IPv4Datagram_parse_total by blast
  obtain res' seg where seg: "TCPSegment_parse TCPSegment_default (Buffer_new (BufferList_concatenate (dg_payload dg)))
      (IPv4Header_pseudo_cksum (dg_header dg)) = Inr (res', seg)"
    using TCPSegment_parse_total by blast
  show ?thesis using assms unfolding lab7_summary_def Let_def
    by (simp add: dg seg del: BufferList_concatenate_eq)
qed

lemma summary_arp:
  assumes "eh_type (ef_header f) = TYPE_ARP" "length (ef_payload f) \<le> 1"
  shows "\<exists>str. lab7_summary f = Inr str"
proof -
  obtain b where b: "BufferList_to_buffer (ef_payload f) = Inr b"
    using assms(2) by (cases "ef_payload f") (auto simp: BufferList_to_buffer_def)
  obtain res m where m: "ARPMessage_parse ARPMessage_default b = Inr (res, m)" using ARPMessage_parse_total by blast
  show ?thesis using assms(1) ARP_not_IPv4 unfolding lab7_summary_def Let_def by (simp add: b m)
qed

lemma trace_total:
  assumes "traceable f"
  shows "lab7_trace debug f = Inr ()"
proof -
  have "\<exists>str. lab7_summary f = Inr str"
  proof (cases "eh_type (ef_header f) \<in> {TYPE_IPv4, TYPE_ARP}")
    case True
    then show ?thesis using summary_ipv4 summary_arp assms by (auto simp: traceable_def)
  qed (simp add: lab7_summary_def)
  then show ?thesis by (auto simp: lab7_trace_def)
qed

section \<open>The router between rounds\<close>












section \<open>The kernel\<close>



section \<open>The router of the program\<close>

definition lab7_node :: "byte list \<Rightarrow> u32 \<Rightarrow> async_network_interface" where
  "lab7_node random ip = AsyncNetworkInterface_new (NetworkInterface_new (random_router_ethernet_address random) (ipv4_address ip 0))"

text \<open>
  What \<open>program_body\<close> sets up: a client is the router of 192.168.0.0/16 and knows 172.16.0.0/12 behind
  10.0.0.172, a server the other way round.
\<close>

definition lab7_ips :: "bool \<Rightarrow> u32 list" where
  "lab7_ips is_client = (if is_client then [0xC0A80001, 0x0A0000C0] else [0xAC100001, 0x0A0000AC])"

definition lab7_table :: "bool \<Rightarrow> route_rule list" where
  "lab7_table is_client =
     (if is_client
      then [\<lparr>rr_route_prefix = 0xC0A80000, rr_prefix_length = 16, rr_next_hop = None, rr_interface_num = 0\<rparr>,
            \<lparr>rr_route_prefix = 0x0A000000, rr_prefix_length = 8, rr_next_hop = None, rr_interface_num = 1\<rparr>,
            \<lparr>rr_route_prefix = 0xAC100000, rr_prefix_length = 12, rr_next_hop = Some (ipv4_address 0x0A0000AC 0), rr_interface_num = 1\<rparr>]
      else [\<lparr>rr_route_prefix = 0xAC100000, rr_prefix_length = 12, rr_next_hop = None, rr_interface_num = 0\<rparr>,
            \<lparr>rr_route_prefix = 0x0A000000, rr_prefix_length = 8, rr_next_hop = None, rr_interface_num = 1\<rparr>,
            \<lparr>rr_route_prefix = 0xC0A80000, rr_prefix_length = 16, rr_next_hop = Some (ipv4_address 0x0A0000C0 0), rr_interface_num = 1\<rparr>])"

lemma dotted_lab7:
  "dotted 0xC0A80001 = ''192.168.0.1''" "dotted 0xC0A80000 = ''192.168.0.0''" "dotted 0x0A0000C0 = ''10.0.0.192''"
  "dotted 0x0A0000AC = ''10.0.0.172''" "dotted 0x0A000000 = ''10.0.0.0''" "dotted 0xAC100000 = ''172.16.0.0''"
  "dotted 0xAC100001 = ''172.16.0.1''"
  by code_simp+

lemma lab7_addresses:
  assumes "\<forall>ip. resolves_numeric gai ip 0"
  shows "Address_of_ip gai ''192.168.0.1'' 0 = Inr (ipv4_address 0xC0A80001 0)"
    "Address_of_ip gai ''192.168.0.0'' 0 = Inr (ipv4_address 0xC0A80000 0)"
    "Address_of_ip gai ''10.0.0.192'' 0 = Inr (ipv4_address 0x0A0000C0 0)"
    "Address_of_ip gai ''10.0.0.172'' 0 = Inr (ipv4_address 0x0A0000AC 0)"
    "Address_of_ip gai ''10.0.0.0'' 0 = Inr (ipv4_address 0x0A000000 0)"
    "Address_of_ip gai ''172.16.0.0'' 0 = Inr (ipv4_address 0xAC100000 0)"
    "Address_of_ip gai ''172.16.0.1'' 0 = Inr (ipv4_address 0xAC100001 0)"
proof -
  have "Address_of_ip gai (dotted ip) 0 = Inr (ipv4_address ip 0)" for ip
    using assms by (simp add: Address_of_ip_def Address_resolve_def resolves_numeric_def)
  then show "Address_of_ip gai ''192.168.0.1'' 0 = Inr (ipv4_address 0xC0A80001 0)"
    "Address_of_ip gai ''192.168.0.0'' 0 = Inr (ipv4_address 0xC0A80000 0)"
    "Address_of_ip gai ''10.0.0.192'' 0 = Inr (ipv4_address 0x0A0000C0 0)"
    "Address_of_ip gai ''10.0.0.172'' 0 = Inr (ipv4_address 0x0A0000AC 0)"
    "Address_of_ip gai ''10.0.0.0'' 0 = Inr (ipv4_address 0x0A000000 0)"
    "Address_of_ip gai ''172.16.0.0'' 0 = Inr (ipv4_address 0xAC100000 0)"
    "Address_of_ip gai ''172.16.0.1'' 0 = Inr (ipv4_address 0xAC100001 0)"
    unfolding dotted_lab7 [symmetric] by blast+
qed

lemma lab7_router_eq:
  assumes "\<forall>ip. resolves_numeric gai ip 0"
  shows "lab7_router gai mac is_client = Inr (0, 1,
    \<lparr>rt_interfaces = [lab7_node (mac 0) (lab7_ips is_client ! 0), lab7_node (mac 1) (lab7_ips is_client ! 1)],
     rt_rules = lab7_table is_client\<rparr>)"
  unfolding lab7_router_def lab7_route_def add_interface_def simulator_ip_def
  by (simp add: lab7_addresses [OF assms] Router_add_interface_def Router_new_def Router_add_route_def
      lab7_ips_def lab7_table_def lab7_node_def sz_sub_def)

lemma lab7_table_wf: "\<forall>rule \<in> set (lab7_table is_client). rule_wf 2 rule"
  unfolding lab7_table_def by (cases is_client) (auto simp add: rule_wf_def; blast)+


section \<open>Packets\<close>





section \<open>The thread of the router\<close>



section \<open>From host to host\<close>

text \<open>The addresses of the host's network.\<close>

definition lab7_near :: "bool \<Rightarrow> u32 \<Rightarrow> bool" where
  "lab7_near is_client dst \<longleftrightarrow> (if is_client then prefix_eq 16 dst 0xC0A80000 else prefix_eq 12 dst 0xAC100000)"

lemma prefix_eq_shorter: "prefix_eq n a b \<Longrightarrow> m \<le> n \<Longrightarrow> n \<le> 32 \<Longrightarrow> prefix_eq m a b"
proof -
  assume a: "prefix_eq n a b" "m \<le> n" "n \<le> 32"
  then have "drop_bit (32 - m) x = drop_bit (n - m) (drop_bit (32 - n) x)" for x :: u32
    by (simp add: drop_bit_drop_bit)
  then show ?thesis using a(1) unfolding prefix_eq_def by metis
qed

lemma prefixes_apart:
  assumes "prefix_eq n dst a" "prefix_eq m dst b" "8 \<le> n" "8 \<le> m" "n \<le> 32" "m \<le> 32"
  shows "prefix_eq 8 a b"
  using prefix_eq_shorter [OF assms(1,3,5)] prefix_eq_shorter [OF assms(2,4,6)] by (simp add: prefix_eq_def)

lemma lab7_prefixes:
  "\<not> (prefix_eq 16 dst 0xC0A80000 \<and> prefix_eq 12 dst 0xAC100000)"
  "\<not> (prefix_eq 16 dst 0xC0A80000 \<and> prefix_eq 8 dst 0x0A000000)"
  "\<not> (prefix_eq 12 dst 0xAC100000 \<and> prefix_eq 8 dst 0x0A000000)"
proof -
  have "\<not> prefix_eq 8 0xC0A80000 0xAC100000" "\<not> prefix_eq 8 0xC0A80000 0x0A000000" "\<not> prefix_eq 8 0xAC100000 0x0A000000"
    by code_simp+
  then show "\<not> (prefix_eq 16 dst 0xC0A80000 \<and> prefix_eq 12 dst 0xAC100000)"
    "\<not> (prefix_eq 16 dst 0xC0A80000 \<and> prefix_eq 8 dst 0x0A000000)"
    "\<not> (prefix_eq 12 dst 0xAC100000 \<and> prefix_eq 8 dst 0x0A000000)"
    using prefixes_apart [of 16 dst "0xC0A80000" 12 "0xAC100000"] prefixes_apart [of 16 dst "0xC0A80000" 8 "0x0A000000"]
      prefixes_apart [of 12 dst "0xAC100000" 8 "0x0A000000"] by auto
qed

lemma lab7_forward:
  assumes "1 < ip_ttl (dg_header dg)"
  shows "lab7_near b (ip_dst (dg_header dg)) \<Longrightarrow>
      forward (lab7_table b) dg = Some (0, hop_down dg, ipv4_address (ip_dst (dg_header dg)) 0)"
    and "lab7_near (\<not> b) (ip_dst (dg_header dg)) \<Longrightarrow>
      forward (lab7_table b) dg = Some (1, hop_down dg, ipv4_address (lab7_ips (\<not> b) ! 1) 0)"
proof -
  let ?dst = "ip_dst (dg_header dg)"
  have ttl: "(ip_ttl (dg_header dg) \<le> 1) = False" using assms by simp
  show "lab7_near b ?dst \<Longrightarrow> forward (lab7_table b) dg = Some (0, hop_down dg, ipv4_address ?dst 0)"
    "lab7_near (\<not> b) ?dst \<Longrightarrow> forward (lab7_table b) dg = Some (1, hop_down dg, ipv4_address (lab7_ips (\<not> b) ! 1) 0)"
    using lab7_prefixes [of ?dst] unfolding forward_def ttl if_False lab7_near_def
    by (cases b; auto simp: lab7_table_def lab7_ips_def longest_prefix_match_def best_rule_def next_hop_of_def)+
qed

text \<open>A frame with a datagram to be forwarded reaches an interface of the router: the interface of the route has one more frame.\<close>

lemma receive_hop:
  assumes "router_inv ips (l7_router s)" "\<forall>q \<in> set (queues (l7_router s)). q = []" "N < length ips"
    and "eh_wf (ef_header f)" "ni_accepts (nis (l7_router s) ! N) f" "eh_type (ef_header f) = TYPE_IPv4"
    and "BufferList_concatenate (ef_payload f) = wire dg" "dg_wf dg"
    and "forward (rt_rules (l7_router s)) dg = Some (j, hop_down dg, ipv4_address k port)"
    and "std_find k (ni_addr_cache (nis (l7_router s) ! j)) = Some (mac, t)"
  shows "\<exists>s' g. lab7_receive debug N (BufferList_concatenate (EthernetFrame_serialize f)) s = Inr s' \<and>
    (\<forall>m < length ips. ni_frames_out (nis (l7_router s') ! m) = ni_frames_out (nis (l7_router s) ! m) @ (if m = j then [g] else [])) \<and>
    eh_wf (ef_header g) \<and> eh_dst (ef_header g) = mac \<and> eh_src (ef_header g) = ni_ethernet_address (nis (l7_router s) ! j) \<and>
    eh_type (ef_header g) = TYPE_IPv4 \<and> BufferList_concatenate (ef_payload g) = wire (hop_down dg)"
proof -
  let ?r = "l7_router s" and ?bytes = "BufferList_concatenate (EthernetFrame_serialize f)"
  have len: "length (rt_interfaces ?r) = length ips" by (rule router_inv_length [OF assms(1)])
  have j: "j < length ips" using forward_in_range(1) [OF assms(1,9)] .
  have "ni_inv (ips ! j) (nis ?r ! j)" using router_inv_nth [OF assms(1) j] len j by (simp add: async_inv_def)
  then have mac: "length mac = 6" "length (ni_ethernet_address (nis ?r ! j)) = 6" using assms(10) by (auto simp: ni_inv_def)
  obtain f' b where f': "EthernetFrame_parse EthernetFrame_default (Buffer_new ?bytes) = Inr (NoError, f')"
    "ef_header f' = ef_header f" "ef_payload f' = [b]" "Buffer_str b = wire dg"
    using EthernetFrame_parse_serialize [OF assms(4), of "Buffer_new ?bytes" EthernetFrame_default] assms(7) by (auto simp: frame_same_def)
  have iface: "Router_interface ?r N = Inr (rt_interfaces ?r ! N)" "nis ?r ! N = an_interface (rt_interfaces ?r ! N)"
    "nis ?r ! j = an_interface (rt_interfaces ?r ! j)"
    using assms(3) j len by (simp_all add: Router_interface_def)
  have acc: "ni_accepts (an_interface (rt_interfaces ?r ! N)) f'" using assms(5) f'(2) iface(2) by (simp add: ni_accepts_def)
  have type: "eh_type (ef_header f') = TYPE_IPv4" using assms(6) f'(2) by simp
  have cache: "std_find k (ni_addr_cache (an_interface (rt_interfaces ?r ! j))) = Some (mac, t)" using assms(10) iface(3) by simp
  from one_hop [OF assms(1-3) acc type f'(3) f'(4) [unfolded wire_def] assms(8,9) cache]
  obtain a r' pl where hop: "AsyncNetworkInterface_recv_frame (rt_interfaces ?r ! N) f' = Inr a"
    "Router_route (?r\<lparr>rt_interfaces := (rt_interfaces ?r)[N := a]\<rparr>) = Inr r'"
    "\<forall>m < length ips. ni_frames_out (nis r' ! m) = ni_frames_out (nis ?r ! m) @
       (if m = j then [NetworkInterface_make_frame (nis ?r ! j) mac TYPE_IPv4 pl] else [])"
    "BufferList_concatenate pl = wire (hop_down dg)" unfolding wire_def by blast
  have "lab7_trace debug f' = Inr ()" using trace_total type by (simp add: traceable_def)
  then have "lab7_receive debug N ?bytes s = Inr (s\<lparr>l7_router := r'\<rparr>)"
    unfolding lab7_receive_def put_router_interface_def Let_def using f'(1) iface(1) hop(1,2) by simp
  then show ?thesis using hop(3,4) mac
    by (intro exI [of _ "s\<lparr>l7_router := r'\<rparr>"] exI [of _ "NetworkInterface_make_frame (nis ?r ! j) mac TYPE_IPv4 pl"])
      (simp add: NetworkInterface_make_frame_def eh_wf_def)
qed

lemma ttl_down: "2 < t \<Longrightarrow> 1 < t" "2 < t \<Longrightarrow> 1 < t - 1" for t :: u8
proof -
  assume "2 < t"
  then have "2 < unat t" by (simp add: word_less_nat_alt)
  moreover from this have "unat (t - 1) = unat t - 1" by (subst unat_sub) (simp_all add: word_le_nat_alt)
  ultimately show "1 < t" "1 < t - 1" by (simp_all add: word_less_nat_alt)
qed

text \<open>
  C10. From host to host.  A client and a server run the program, each with the routes that it sets up, and
  the bouncer carries the frames between them.  A host's frame with a datagram for the other host's network
  reaches its router; each router knows the Ethernet address of its next hop.  Then the first router sends
  exactly one frame, to the Internet; the second router takes its bytes and sends exactly one frame, to its
  host.  That frame goes to the Ethernet address of the host and carries the bytes of the datagram with its
  time to live lowered by two.  This holds in both directions, with and without the trace.
\<close>

theorem lab7_path:
  assumes "\<forall>ip. resolves_numeric gai ip 0"
    and "lab7_router gai mac is_client = Inr (near_host, near_net, r1)"
    and "lab7_router gai mac' (\<not> is_client) = Inr (far_host, far_net, r2)"
    and "rt_rules (l7_router s1) = rt_rules r1" "router_inv (lab7_ips is_client) (l7_router s1)"
    and "rt_rules (l7_router s2) = rt_rules r2" "router_inv (lab7_ips (\<not> is_client)) (l7_router s2)"
    and "\<forall>q \<in> set (queues (l7_router s1)). q = []" "\<forall>q \<in> set (queues (l7_router s2)). q = []"
    and "eh_wf (ef_header f)" "ni_accepts (nis (l7_router s1) ! near_host) f" "eh_type (ef_header f) = TYPE_IPv4"
    and "BufferList_concatenate (ef_payload f) = wire dg" "dg_wf dg" "2 < ip_ttl (dg_header dg)"
    and "lab7_near (\<not> is_client) (ip_dst (dg_header dg))"
    and "std_find (lab7_ips (\<not> is_client) ! 1) (ni_addr_cache (nis (l7_router s1) ! near_net)) =
      Some (ni_ethernet_address (nis (l7_router s2) ! far_net), t1)"
    and "std_find (ip_dst (dg_header dg)) (ni_addr_cache (nis (l7_router s2) ! far_host)) = Some (host_mac, t2)"
  shows "\<exists>s1' s2' g h.
    lab7_receive debug1 near_host (BufferList_concatenate (EthernetFrame_serialize f)) s1 = Inr s1' \<and>
    ni_frames_out (nis (l7_router s1') ! near_net) = ni_frames_out (nis (l7_router s1) ! near_net) @ [g] \<and>
    ni_frames_out (nis (l7_router s1') ! near_host) = ni_frames_out (nis (l7_router s1) ! near_host) \<and>
    lab7_receive debug2 far_net (BufferList_concatenate (EthernetFrame_serialize g)) s2 = Inr s2' \<and>
    ni_frames_out (nis (l7_router s2') ! far_host) = ni_frames_out (nis (l7_router s2) ! far_host) @ [h] \<and>
    ni_frames_out (nis (l7_router s2') ! far_net) = ni_frames_out (nis (l7_router s2) ! far_net) \<and>
    eh_dst (ef_header h) = host_mac \<and> eh_type (ef_header h) = TYPE_IPv4 \<and>
    BufferList_concatenate (ef_payload h) = wire (hop_down (hop_down dg))"
proof -
  have n: "near_host = 0" "near_net = 1" "far_host = 0" "far_net = 1" "rt_rules r1 = lab7_table is_client" "rt_rules r2 = lab7_table (\<not> is_client)"
    using assms(2,3) lab7_router_eq [OF assms(1)] by auto
  have two: "length (lab7_ips b) = 2" for b by (simp add: lab7_ips_def)
  have ttl: "1 < ip_ttl (dg_header dg)" "1 < ip_ttl (dg_header (hop_down dg))"
    using ttl_down [OF assms(15)] by (simp_all add: hop_down_def)
  have dst: "ip_dst (dg_header (hop_down dg)) = ip_dst (dg_header dg)" by (simp add: hop_down_def)
  have fwd: "forward (rt_rules (l7_router s1)) dg = Some (1, hop_down dg, ipv4_address (lab7_ips (\<not> is_client) ! 1) 0)"
    unfolding assms(4) n by (rule lab7_forward(2) [OF ttl(1) assms(16)])
  from receive_hop [OF assms(5,8) _ assms(10-14) fwd assms(17) [unfolded n], of debug1] n two
  obtain s1' g where g: "lab7_receive debug1 near_host (BufferList_concatenate (EthernetFrame_serialize f)) s1 = Inr s1'"
    "\<forall>m < 2. ni_frames_out (nis (l7_router s1') ! m) = ni_frames_out (nis (l7_router s1) ! m) @ (if m = 1 then [g] else [])"
    "eh_wf (ef_header g)" "eh_dst (ef_header g) = ni_ethernet_address (nis (l7_router s2) ! far_net)"
    "eh_type (ef_header g) = TYPE_IPv4" "BufferList_concatenate (ef_payload g) = wire (hop_down dg)"
    by auto
  have fwd2: "forward (rt_rules (l7_router s2)) (hop_down dg) = Some (0, hop_down (hop_down dg), ipv4_address (ip_dst (dg_header dg)) 0)"
    unfolding assms(6) n using lab7_forward(1) [OF ttl(2)] assms(16) dst by simp
  have acc: "ni_accepts (nis (l7_router s2) ! far_net) g" using g(4) by (simp add: ni_accepts_def)
  from receive_hop [OF assms(7,9) _ g(3) acc g(5,6) _ fwd2 assms(18) [unfolded n], of debug2] n two assms(14)
  obtain s2' h where h: "lab7_receive debug2 far_net (BufferList_concatenate (EthernetFrame_serialize g)) s2 = Inr s2'"
    "\<forall>m < 2. ni_frames_out (nis (l7_router s2') ! m) = ni_frames_out (nis (l7_router s2) ! m) @ (if m = 0 then [h] else [])"
    "eh_dst (ef_header h) = host_mac" "eh_type (ef_header h) = TYPE_IPv4"
    "BufferList_concatenate (ef_payload h) = wire (hop_down (hop_down dg))"
    by auto
  show ?thesis using g h unfolding n by (intro exI [of _ s1'] exI [of _ s2'] exI [of _ g] exI [of _ h]) simp
qed

text \<open>A client and a server that know their neighbours, and a frame of the client's host for 172.16.0.100.\<close>

definition lab7_example :: "bool \<Rightarrow> unit lab7" where
  "lab7_example is_client =
     (let knowing = (\<lambda>random ip k mac. (lab7_node random ip)
            \<lparr>an_interface := (an_interface (lab7_node random ip))\<lparr>ni_addr_cache := [(k, (mac, 0))]\<rparr>\<rparr>);
          ips = lab7_ips is_client;
          w = \<lparr>fdw_fd = 3, fdw_eof = False, fdw_closed = False, fdw_read_count = 0, fdw_write_count = 0\<rparr>
      in \<lparr>l7_router = \<lparr>rt_interfaces = [knowing [2, 0, 0, 0, 0, 1] (ips ! 0) 0xAC100064 [2, 0, 0, 0, 0, 9],
                                        knowing [2, 0, 0, 0, 0, 2] (ips ! 1) (lab7_ips (\<not> is_client) ! 1) (random_router_ethernet_address [2, 0, 0, 0, 0, 2])],
                       rt_rules = lab7_table is_client\<rparr>,
          l7_host_side = 0, l7_internet_side = 1, l7_frame_fd = w, l7_internet_socket = w, l7_kernel = ()\<rparr>)"

definition lab7_datagram :: ipv4_datagram where
  "lab7_datagram = dg_example\<lparr>dg_header := (dg_header dg_example)\<lparr>ip_dst := 0xAC100064\<rparr>\<rparr>"

definition lab7_frame :: ethernet_frame where
  "lab7_frame = \<lparr>ef_header = \<lparr>eh_dst = ETHERNET_BROADCAST, eh_src = [2, 0, 0, 0, 0, 7], eh_type = TYPE_IPv4\<rparr>,
     ef_payload = [Buffer_new (wire lab7_datagram)]\<rparr>"

lemma lab7_example_inv: "router_inv (lab7_ips b) (l7_router (lab7_example b))"
proof -
  have ips: "lab7_ips b = [lab7_ips b ! 0, lab7_ips b ! 1]" and two: "length (lab7_ips b) = 2" by (simp_all add: lab7_ips_def)
  have "async_inv ip ((lab7_node [2, 0, 0, 0, 0, n] ip)
      \<lparr>an_interface := (an_interface (lab7_node [2, 0, 0, 0, 0, n] ip))\<lparr>ni_addr_cache := [(k, (mac, 0))]\<rparr>\<rparr>)"
    if "length mac = 6" for ip n k mac
    using that random_length(2) [of "[2, 0, 0, 0, 0, n]"]
    by (auto simp: async_inv_def lab7_node_def AsyncNetworkInterface_new_def ni_inv_def NetworkInterface_new_def std_sorted_def std_find_def)
  then have "list_all2 async_inv (lab7_ips b) (rt_interfaces (l7_router (lab7_example b)))"
    by (subst ips) (simp add: lab7_example_def Let_def random_length)
  then show ?thesis using lab7_table_wf two by (simp add: router_inv_def) (simp add: lab7_example_def Let_def)
qed

theorem lab7_path_witness:
  "\<exists>s1 s2 g h.
    lab7_receive True 0 (BufferList_concatenate (EthernetFrame_serialize lab7_frame)) (lab7_example True) = Inr s1 \<and>
    ni_frames_out (nis (l7_router s1) ! 1) = [g] \<and>
    lab7_receive True 1 (BufferList_concatenate (EthernetFrame_serialize g)) (lab7_example False) = Inr s2 \<and>
    ni_frames_out (nis (l7_router s2) ! 0) = [h] \<and> eh_dst (ef_header h) = [2, 0, 0, 0, 0, 9] \<and>
    BufferList_concatenate (ef_payload h) = wire (hop_down (hop_down lab7_datagram))"
proof -
  have res: "\<forall>ip. resolves_numeric numeric_getaddrinfo ip 0" using numeric.resolves by blast
  have wf: "dg_wf lab7_datagram" "2 < ip_ttl (dg_header lab7_datagram)" "lab7_near False (ip_dst (dg_header lab7_datagram))"
    by code_simp+
  have state: "nis (l7_router (lab7_example b)) ! i = an_interface (rt_interfaces (l7_router (lab7_example b)) ! i)"
    "rt_rules (l7_router (lab7_example b)) = lab7_table b" "\<forall>q \<in> set (queues (l7_router (lab7_example b))). q = []"
    "ni_frames_out (nis (l7_router (lab7_example b)) ! i) = []" if "i < 2" for b i
    using that by (auto simp: lab7_example_def Let_def lab7_node_def AsyncNetworkInterface_new_def NetworkInterface_new_def less_2_cases_iff)
  have cache: "std_find (lab7_ips False ! 1) (ni_addr_cache (nis (l7_router (lab7_example True)) ! 1)) =
      Some (ni_ethernet_address (nis (l7_router (lab7_example False)) ! 1), 0)"
    "std_find (ip_dst (dg_header lab7_datagram)) (ni_addr_cache (nis (l7_router (lab7_example False)) ! 0)) = Some ([2, 0, 0, 0, 0, 9], 0)"
    by (simp_all add: lab7_example_def Let_def lab7_node_def AsyncNetworkInterface_new_def NetworkInterface_new_def
        std_find_def lab7_datagram_def lab7_ips_def)
  have frame: "eh_wf (ef_header lab7_frame)" "ni_accepts ni lab7_frame" "eh_type (ef_header lab7_frame) = TYPE_IPv4"
    "BufferList_concatenate (ef_payload lab7_frame) = wire lab7_datagram" for ni
    by (simp_all add: lab7_frame_def eh_wf_def ni_accepts_def ETHERNET_BROADCAST_def)
  let ?m = "\<lambda>i. [1, 2, 3, 4, 5, of_nat i] :: byte list"
  from lab7_path [where is_client = True and mac = ?m and mac' = ?m and ?s1.0 = "lab7_example True" and ?s2.0 = "lab7_example False"
      and f = lab7_frame and dg = lab7_datagram and ?t1.0 = 0 and ?t2.0 = 0 and host_mac = "[2, 0, 0, 0, 0, 9]" and ?debug1.0 = True
      and ?debug2.0 = True, OF res lab7_router_eq [OF res] lab7_router_eq [OF res]]
  show ?thesis
    using lab7_example_inv wf cache frame state(2,3) [of 0] state(4) [of 0] state(4) [of 1]
    by (simp del: One_nat_def BufferList_concatenate_eq nth_map) blast
qed

end
