(* ===== verification/Bouncer.thy ===== *)
theory Bouncer
  imports Sockets Event_Loop
begin

text \<open>
  The relay between two hosts, \<open>apps/bouncer.cc\<close>: pairs of UDP sockets on neighbouring ports.  Each socket
  remembers the address it has last heard from, and hands what it hears to the peer of its partner.
\<close>

section \<open>Relaying\<close>

record 'k bouncer =
  bo_sockets :: "fd_wrapper list"
  bo_peers :: "address option list"
  bo_kernel :: 'k

text \<open>A new peer is printed with the local address; \<open>getsockname\<close> and \<open>getnameinfo\<close> can fail.\<close>

definition bouncer_learn ::
  "(int \<Rightarrow> answer \<times> byte list \<times> size_t) \<Rightarrow> getnameinfo \<Rightarrow> nat \<Rightarrow> address \<Rightarrow> 'k bouncer \<Rightarrow> 'k bouncer result" where
  "bouncer_learn getsockname gni x source_address s =
     (if (case bo_peers s ! x of None \<Rightarrow> True | Some x_peer \<Rightarrow> \<not> Address_eq x_peer source_address)
      then let s = s\<lparr>bo_peers := (bo_peers s)[x := Some source_address]\<rparr>
           in bindE (Socket_local_address (getsockname (fdw_fd (bo_sockets s ! x)))) (\<lambda>local_address.
              bindE (Address_to_string gni local_address) (\<lambda>_.
              bindE (Address_to_string gni source_address) (\<lambda>_. Inr s)))
      else Inr s)"

text \<open>The callback of the rule for socket \<open>x\<close>, whose partner is \<open>y\<close>.\<close>

definition bounce ::
  "'k kernel \<Rightarrow> (int \<Rightarrow> answer \<times> byte list \<times> size_t) \<Rightarrow> getnameinfo \<Rightarrow> nat \<Rightarrow> nat \<Rightarrow> 'k bouncer \<Rightarrow> 'k bouncer result" where
  "bounce K getsockname gni x y s =
     bindE (UDPSocket_recv K (bo_sockets s ! x) 65536 (bo_kernel s)) (\<lambda>((source_address, payload), w, k).
     bindE (bouncer_learn getsockname gni x source_address
              (s\<lparr>bo_sockets := (bo_sockets s)[x := w], bo_kernel := k\<rparr>)) (\<lambda>s.
       case bo_peers s ! y of
         Some y_peer \<Rightarrow>
           if payload \<noteq> []
           then bindE (UDPSocket_sendto K (bo_sockets s ! y) y_peer (BufferViewList_of_string payload) (bo_kernel s)) (\<lambda>(w, k).
                  Inr (s\<lparr>bo_sockets := (bo_sockets s)[y := w], bo_kernel := k\<rparr>))
           else Inr s
       | None \<Rightarrow> Inr s))"

section \<open>The program\<close>

text \<open>
  The kernel's answers to \<open>socket\<close>, by the number of sockets so far, and to \<open>bind\<close>.
\<close>

definition bouncer_open ::
  "getaddrinfo \<Rightarrow> (nat \<Rightarrow> int \<Rightarrow> int \<Rightarrow> answer) \<Rightarrow> (int \<Rightarrow> byte list \<Rightarrow> size_t \<Rightarrow> answer) \<Rightarrow> u16 \<Rightarrow> 'k bouncer \<Rightarrow> 'k bouncer result" where
  "bouncer_open gai sys_socket sys_bind lower_port s =
     (let n = length (bo_sockets s)
      in bindE (Socket_new (sys_socket n) (int AF_INET) SOCK_DGRAM) (\<lambda>x.
         bindE (Socket_new (sys_socket (n + 1)) (int AF_INET) SOCK_DGRAM) (\<lambda>y.
         bindE (Address_of_ip gai ''0'' lower_port) (\<lambda>a.
         bindE (Socket_bind (sys_bind (fdw_fd x)) a) (\<lambda>_.
         bindE (Address_of_ip gai ''0'' (lower_port + 1)) (\<lambda>a.
         bindE (Socket_bind (sys_bind (fdw_fd y)) a) (\<lambda>_.
           Inr (s\<lparr>bo_sockets := bo_sockets s @ [x, y], bo_peers := bo_peers s @ [None, None]\<rparr>))))))))"

lemma next_port: "lower_port \<le> 64000 \<Longrightarrow> unat (lower_port + 2 :: u16) = unat lower_port + 2"
  by (subst unat_add_lem [THEN iffD1]) (simp_all add: word_le_nat_alt)

function bouncer_setup ::
  "getaddrinfo \<Rightarrow> (nat \<Rightarrow> int \<Rightarrow> int \<Rightarrow> answer) \<Rightarrow> (int \<Rightarrow> byte list \<Rightarrow> size_t \<Rightarrow> answer) \<Rightarrow> u16 \<Rightarrow> 'k bouncer \<Rightarrow> 'k bouncer result" where
  "bouncer_setup gai sys_socket sys_bind lower_port s =
     (if lower_port \<le> 64000
      then bindE (bouncer_open gai sys_socket sys_bind lower_port s) (bouncer_setup gai sys_socket sys_bind (lower_port + 2))
      else Inr s)"
  by pat_completeness auto
termination
  by (relation "measure (\<lambda>(_, _, _, p, _). 65536 - unat p)") (auto simp: next_port word_le_nat_alt)

text \<open>The rules for the sockets \<open>x\<close> and \<open>x + 1\<close>.\<close>

definition bouncer_pair_rules ::
  "'k kernel \<Rightarrow> (int \<Rightarrow> answer \<times> byte list \<times> size_t) \<Rightarrow> getnameinfo \<Rightarrow> nat \<Rightarrow> 'k bouncer event_rule list \<Rightarrow> 'k bouncer event_rule list" where
  "bouncer_pair_rules K getsockname gni x rules =
     EventLoop_add_rule
       (EventLoop_add_rule rules (\<lambda>s. bo_sockets s ! x) In (bounce K getsockname gni x (x + 1)) (\<lambda>s. True) Inr)
       (\<lambda>s. bo_sockets s ! (x + 1)) In (bounce K getsockname gni (x + 1) x) (\<lambda>s. True) Inr"

definition bouncer_rules ::
  "'k kernel \<Rightarrow> (int \<Rightarrow> answer \<times> byte list \<times> size_t) \<Rightarrow> getnameinfo \<Rightarrow> 'k bouncer \<Rightarrow> 'k bouncer event_rule list" where
  "bouncer_rules K getsockname gni s =
     fold (\<lambda>i. bouncer_pair_rules K getsockname gni (2 * i)) [0..<length (bo_sockets s) div 2] []"

text \<open>A round sees what happened outside and the answer of \<open>poll\<close>.\<close>

fun bouncer_loop ::
  "(('k \<Rightarrow> 'k) \<times> poll) list \<Rightarrow> 'k bouncer event_rule list \<Rightarrow> 'k bouncer \<Rightarrow> (bool \<times> 'k bouncer) result" where
  "bouncer_loop [] rules s = Inr (False, s)"
| "bouncer_loop ((outside, poll) # rds) rules s =
     bindE (EventLoop_wait_next_event poll rules (s\<lparr>bo_kernel := outside (bo_kernel s)\<rparr>)) (\<lambda>(ret, rules, s).
       if ret = Exit then Inr (True, s) else bouncer_loop rds rules s)"

text \<open>\<open>program_body\<close>: the rules are added while the sockets are opened, and do nothing before the loop.\<close>

definition bouncer_program ::
  "'k kernel \<Rightarrow> getaddrinfo \<Rightarrow> getnameinfo \<Rightarrow> (nat \<Rightarrow> int \<Rightarrow> int \<Rightarrow> answer) \<Rightarrow> (int \<Rightarrow> byte list \<Rightarrow> size_t \<Rightarrow> answer) \<Rightarrow>
     (int \<Rightarrow> answer \<times> byte list \<times> size_t) \<Rightarrow> (('k \<Rightarrow> 'k) \<times> poll) list \<Rightarrow> 'k \<Rightarrow> (bool \<times> 'k bouncer) result" where
  "bouncer_program K gai gni sys_socket sys_bind getsockname rds k =
     bindE (bouncer_setup gai sys_socket sys_bind 1024 \<lparr>bo_sockets = [], bo_peers = [], bo_kernel = k\<rparr>) (\<lambda>s.
       bouncer_loop rds (bouncer_rules K getsockname gni s) s)"

section \<open>The sockets of the program\<close>

lemma bouncer_open_size:
  "bouncer_open gai sys_socket sys_bind p s = Inr s' \<Longrightarrow>
   length (bo_sockets s') = length (bo_sockets s) + 2 \<and> length (bo_peers s') = length (bo_peers s) + 2"
  by (auto simp: bouncer_open_def Let_def)

text \<open>
  The rules of the program refer to the elements of two vectors, which reserve 66000 elements: when the set-up
  succeeds, there are fewer, so that the vectors have never moved.
\<close>

lemma bouncer_setup_size:
  assumes "bouncer_setup gai sys_socket sys_bind p s = Inr s'" "even (unat p)" "unat p \<le> 64002"
  shows "length (bo_sockets s') = length (bo_sockets s) + (64002 - unat p)"
    "length (bo_peers s') = length (bo_peers s) + (64002 - unat p)"
proof -
  have "length (bo_sockets s') = length (bo_sockets s) + (64002 - unat p) \<and>
      length (bo_peers s') = length (bo_peers s) + (64002 - unat p)"
    using assms
  proof (induction gai sys_socket sys_bind p s rule: bouncer_setup.induct)
    case (1 gai sys_socket sys_bind p s)
    show ?case
    proof (cases "p \<le> 64000")
      case True
      then obtain s1 where s1: "bouncer_open gai sys_socket sys_bind p s = Inr s1"
        "bouncer_setup gai sys_socket sys_bind (p + 2) s1 = Inr s'"
        using 1(2) by (subst (asm) bouncer_setup.simps) auto
      have "unat p \<le> 64000" using True by (simp add: word_le_nat_alt)
      then show ?thesis
        using 1(1) [OF True s1] 1(3) next_port [OF True] bouncer_open_size [OF s1(1)] by simp presburger
    next
      case False
      then have "s' = s" "64000 < unat p" using 1(2) by (simp_all add: bouncer_setup.simps word_le_nat_alt)
      then show ?thesis using 1(3,4) by presburger
    qed
  qed
  then show "length (bo_sockets s') = length (bo_sockets s) + (64002 - unat p)"
    "length (bo_peers s') = length (bo_peers s) + (64002 - unat p)" by simp_all
qed

section \<open>The relay as it should be\<close>





section \<open>The relay is what it should be\<close>














end
