(* ===== verification/Webget.thy ===== *)
theory Webget
  imports Sponge_Socket Network_Simulator Command_Line
begin

text \<open>
  The programs that use a socket as a stream of bytes: \<open>apps/webget.cc\<close>, which fetches a page over the socket
  with the whole stack, and \<open>apps/tcp_native.cc\<close>, which opens a socket of the system; and what they use of
  \<open>tcp_sponge_socket.cc\<close>.
\<close>

section \<open>The socket\<close>

text \<open>Two connected sockets: the answer of the system call, and the two descriptors.\<close>

definition socket_pair_helper :: "(int \<Rightarrow> answer \<times> int \<times> int) \<Rightarrow> int \<Rightarrow> (fd_wrapper \<times> fd_wrapper) result" where
  "socket_pair_helper sys_socketpair type =
     (let ((ret, errno), fd0, fd1) = sys_socketpair type
      in bindE (SystemCall ''socketpair'' ret errno 0) (\<lambda>_.
         bindE (FDWrapper_new fd0) (\<lambda>first.
         bindE (FDWrapper_new fd1) (\<lambda>second. Inr (first, second)))))"

text \<open>\<open>wait_until_closed\<close>; \<open>join\<close> is what the thread of the connection does until it ends.\<close>

definition TCPSpongeSocket_wait_until_closed ::
  "'k kernel \<Rightarrow> bool \<Rightarrow> ('k \<Rightarrow> 'k) \<Rightarrow> fd_wrapper \<Rightarrow> 'k \<Rightarrow> (fd_wrapper \<times> 'k) result" where
  "TCPSpongeSocket_wait_until_closed K joinable join w k =
     bindE (Socket_shutdown K w SHUT_RDWR k) (\<lambda>(w, k). Inr (w, if joinable then join k else k))"

section \<open>webget\<close>

definition write_string :: "'k kernel \<Rightarrow> string \<Rightarrow> fd_wrapper \<times> 'k \<Rightarrow> (fd_wrapper \<times> 'k) result" where
  "write_string K str = (\<lambda>(w, k).
     bindE (fd_write K w (BufferViewList_of_string (bytes_of_chars str)) True k) (\<lambda>(n, k, w). Inr (w, k)))"

definition crlf :: string where
  "crlf = [CHR 0x0D, CHR 0x0A]"

definition get_line :: "string \<Rightarrow> string" where "get_line path = ''GET '' @ path @ '' HTTP/1.1'' @ crlf"
definition host_line :: "string \<Rightarrow> string" where "host_line host = ''Host: '' @ host @ crlf"
definition close_line :: string where "close_line = ''Connection: close'' @ crlf @ crlf"

text \<open>
  The loop that prints what is read until the end of the stream, with a bound on the number of reads; \<open>None\<close>
  is a loop that has not come to its end.
\<close>

fun print_until_eof :: "'k kernel \<Rightarrow> nat \<Rightarrow> byte list \<Rightarrow> fd_wrapper \<Rightarrow> 'k \<Rightarrow> (byte list \<times> fd_wrapper \<times> 'k) option result" where
  "print_until_eof K fuel out w k =
     (if fdw_eof w then Inr (Some (out, w, k))
      else case fuel of
        0 \<Rightarrow> Inr None
      | Suc fuel \<Rightarrow> bindE (fd_read K w size_max k) (\<lambda>(recvd, w, k). print_until_eof K fuel (out @ recvd) w k))"

declare print_until_eof.simps [simp del]

text \<open>\<open>get_URL\<close> once the socket is connected: what has been printed, the socket and the kernel.\<close>

definition get_URL_print ::
  "'k kernel \<Rightarrow> bool \<Rightarrow> ('k \<Rightarrow> 'k) \<Rightarrow> nat \<Rightarrow> fd_wrapper \<times> 'k \<Rightarrow> (byte list \<times> fd_wrapper \<times> 'k) option result" where
  "get_URL_print K joinable join fuel = (\<lambda>(w, k).
     bindE (print_until_eof K fuel [] w k) (\<lambda>res.
       case res of
         None \<Rightarrow> Inr None
       | Some (out, w, k) \<Rightarrow>
           bindE (Socket_shutdown K w SHUT_RDWR k) (\<lambda>(w, k).
           bindE (TCPSpongeSocket_wait_until_closed K joinable join w k) (\<lambda>(w, k). Inr (Some (out, w, k))))))"

definition get_URL_exchange ::
  "'k kernel \<Rightarrow> bool \<Rightarrow> ('k \<Rightarrow> 'k) \<Rightarrow> nat \<Rightarrow> string \<Rightarrow> string \<Rightarrow> fd_wrapper \<Rightarrow> 'k \<Rightarrow> (byte list \<times> fd_wrapper \<times> 'k) option result" where
  "get_URL_exchange K joinable join fuel host path w k =
     bindE (write_string K (get_line path) (w, k)) (\<lambda>st.
     bindE (write_string K (host_line host) st) (\<lambda>st.
     bindE (write_string K close_line st) (get_URL_print K joinable join fuel)))"

text \<open>The whole: \<open>None\<close> also when the rounds end before the connection is established.\<close>

definition get_URL ::
  "'k kernel \<Rightarrow> getaddrinfo \<Rightarrow> getnameinfo \<Rightarrow> u16 \<Rightarrow> u32 \<Rightarrow> 'k round list \<Rightarrow> u64 \<Rightarrow> ('k \<Rightarrow> 'k) \<Rightarrow> nat \<Rightarrow> string \<Rightarrow> string \<Rightarrow>
     (ethernet_adapter, 'k) sponge_socket \<Rightarrow> (byte list \<times> fd_wrapper \<times> 'k) option result" where
  "get_URL K gai gni random_port random_isn rds base_time join fuel host path sock =
     bindE (Address_of_host gai host ''http'') (\<lambda>address.
     bindE (FullStackSocket_config gai random_port address) (\<lambda>(tcp_config, multiplexer_config).
     bindE (TCPSpongeSocket_connect K (tap_adapter K gai gni) tcp_config random_isn multiplexer_config rds base_time sock)
       (\<lambda>(connected, rules, sock).
       if \<not> connected then Inr None
       else get_URL_exchange K True join fuel host path (ss_owner_fd sock) (ss_kernel sock))))"

definition webget_main :: "string list \<Rightarrow> (string \<times> string) exits" where
  "webget_main argv =
     (if argv = [] then Quit 134 [] else if length argv \<noteq> 3 then Quit 1 [] else Value (argv ! 1, argv ! 2))"

section \<open>tcp_native\<close>

text \<open>Mode, host and service; for a missing argument the program prints its usage.\<close>

definition tcp_native_arguments :: "string list \<Rightarrow> (bool \<times> string \<times> string) exits" where
  "tcp_native_arguments argv =
     (if length argv < 3 \<or> (strncmp_eq ''-l'' (argv ! 1) 3 \<and> length argv < 4) then Quit 1 []
      else if strncmp_eq ''-l'' (argv ! 1) 3 then Value (True, argv ! 2, argv ! 3)
      else Value (False, argv ! 1, argv ! 2))"

text \<open>The answers of the kernel to the system calls on a new socket.\<close>

record native_kernel =
  nk_socket :: "int \<Rightarrow> int \<Rightarrow> answer"
  nk_setsockopt :: "int \<Rightarrow> int \<Rightarrow> int \<Rightarrow> size_t \<Rightarrow> answer"
  nk_bind :: "byte list \<Rightarrow> size_t \<Rightarrow> answer"
  nk_connect :: "byte list \<Rightarrow> size_t \<Rightarrow> answer"
  nk_listen :: "int \<Rightarrow> answer"
  nk_accept :: answer
  nk_domain :: "answer \<times> int \<times> size_t"
  nk_type :: "answer \<times> int \<times> size_t"

definition tcp_native_socket :: "native_kernel \<Rightarrow> getaddrinfo \<Rightarrow> bool \<Rightarrow> string \<Rightarrow> string \<Rightarrow> fd_wrapper result" where
  "tcp_native_socket S gai server_mode host service =
     bindE (Socket_new (nk_socket S) (int AF_INET) SOCK_STREAM) (\<lambda>w.
       if server_mode
       then bindE (Socket_set_reuseaddr (nk_setsockopt S)) (\<lambda>_.
            bindE (Address_of_host gai host service) (\<lambda>a.
            bindE (Socket_bind (nk_bind S) a) (\<lambda>_.
            bindE (TCPSocket_listen (nk_listen S) 16) (\<lambda>_.
            bindE (TCPSocket_accept (nk_accept S) (nk_domain S) (nk_type S) w) (\<lambda>(new, listening). Inr new)))))
       else bindE (Address_of_host gai host service) (\<lambda>a.
            bindE (Socket_connect (nk_connect S) a) (\<lambda>_. Inr w)))"

section \<open>Fetching a page\<close>

lemma write_loop_keeps:
  assumes "\<And>k iovecs ret errno k'. writev k iovecs = (ret, errno, k') \<Longrightarrow> P k \<Longrightarrow> P k'"
    and "fd_write_loop writev write_all k w buffer written = Inr (n, k', w')" "P k"
  shows "P k' \<and> fdw_fd w' = fdw_fd w \<and> fdw_eof w' = fdw_eof w"
  using assms
proof (induction writev write_all k w buffer written rule: fd_write_loop.induct)
  case (1 writev write_all k w buffer written)
  obtain ret errno k1 where sys: "writev k (BufferViewList_as_iovecs buffer) = (ret, errno, k1)" by (metis prod.exhaust)
  have k1: "P k1" using 1(2) [OF sys 1(4)] .
  obtain v b where v: "SystemCall ''writev'' ret errno 0 = Inr v" "\<not> (v = 0 \<and> BufferViewList_size buffer \<noteq> 0)"
    "\<not> ssize (BufferViewList_size buffer) < v" "BufferViewList_remove_prefix buffer (size_of_int v) = Inr b"
    using 1(3) sys by (subst (asm) fd_write_loop.simps) (auto split: if_splits)
  show ?case
  proof (cases "write_all \<and> BufferViewList_size b \<noteq> 0")
    case True
    then have "fd_write_loop writev write_all k1 (FileDescriptor_register_write w) b (sz_add written (size_of_int v)) = Inr (n, k', w')"
      using 1(3) sys v by (subst (asm) fd_write_loop.simps) (simp split: if_splits)
    then show ?thesis
      using 1(1) [OF sys [symmetric] refl v True 1(2)] k1 by (simp add: FileDescriptor_register_write_def)
  next
    case False
    then have "k' = k1 \<and> w' = FileDescriptor_register_write w"
      using 1(3) sys v by (subst (asm) fd_write_loop.simps) (auto split: if_splits)
    then show ?thesis using k1 by (simp add: FileDescriptor_register_write_def)
  qed
qed

text \<open>The ways a system call on the socket fails.\<close>

definition page_errors :: "'k kernel \<Rightarrow> cpp_error set" where
  "page_errors K = {RuntimeError ''writev'', RuntimeError ''write returned 0 given non-empty input buffer''} \<union>
     {e. (\<exists>w k. fd_read K w size_max k = Inl e) \<or> (\<exists>w how k. Socket_shutdown K w how k = Inl e)}"

lemma bind_outcome:
  assumes "outcome E' P res" "\<And>s. P s \<Longrightarrow> outcome E Q (f s)" "E' \<subseteq> E"
  shows "outcome E Q (bindE res f)"
  using assms by (cases res) auto

text \<open>
  What the kernel promises of the owner's end of the connection: \<open>pending\<close> are the bytes that are still to
  arrive, and \<open>sent\<close> those written so far.  A read takes a first part of the bytes to arrive, and nothing
  only when there are none left.
\<close>

locale page_channel = byte_sink "sys_writev K fd" sent
  for K :: "'k kernel" and fd :: int and sent :: "'k \<Rightarrow> byte list" +
  fixes pending :: "'k \<Rightarrow> byte list"
  assumes page_read: "sys_read K fd n k = ((ret, errno, str), k') \<Longrightarrow> 0 \<le> ret \<Longrightarrow>
      ret \<le> int n \<and> pending k = take (nat ret) str @ pending k' \<and> sent k' = sent k \<and> ret \<le> int (length str) \<and>
      (ret = 0 \<longrightarrow> 0 < n \<longrightarrow> pending k = [])"
    and page_read_fails: "sys_read K fd n k = ((ret, errno, str), k') \<Longrightarrow> ret < 0 \<Longrightarrow> - (2 ^ 31) \<le> ret"
    and page_write: "sys_writev K fd k iovecs = (ret, errno, k') \<Longrightarrow> pending k' = pending k"
    and page_shutdown: "sys_shutdown K fd how k = (answer, k') \<Longrightarrow> sent k' = sent k"
begin

lemma read_page:
  assumes "fdw_fd w = fd" "fd_read K w size_max k = Inr (data, w', k')"
  shows "pending k = data @ pending k'" "sent k' = sent k" "fdw_fd w' = fd" "fdw_eof w' = (fdw_eof w \<or> data = [])"
    "data = [] \<Longrightarrow> pending k = []"
proof -
  obtain ret errno str where s: "sys_read K fd BUFFER_SIZE k = ((ret, errno, str), k')"
    using assms by (elim fd_readE) auto
  have eq: "bindE (FileDescriptor_read (\<lambda>n. (ret, errno, str)) w size_max) (\<lambda>(str, w). Inr (str, w, k')) = Inr (data, w', k')"
    using assms s by (simp add: fd_read_def)
  have nonneg: "0 \<le> ret"
  proof (rule ccontr)
    assume neg: "\<not> 0 \<le> ret"
    then have "to_int32 ret = ret" using page_read_fails [OF s] by simp
    then show False using eq neg by (auto simp: FileDescriptor_read_def SystemCall_def Let_def split: if_splits)
  qed
  note p = page_read [OF s nonneg]
  then have call: "SystemCall ''read'' ret errno 0 = Inr ret" using nonneg by (simp add: SystemCall_def)
  have d: "data = take (nat ret) str" "w' = FileDescriptor_register_read (if ret = 0 then w\<lparr>fdw_eof := True\<rparr> else w)"
    using eq call by (auto simp: FileDescriptor_read_def Let_def split: if_splits)
  have "data = [] \<longleftrightarrow> ret = 0" using d(1) p nonneg by (cases str) auto
  then show "pending k = data @ pending k'" "sent k' = sent k" "fdw_fd w' = fd" "fdw_eof w' = (fdw_eof w \<or> data = [])"
    "data = [] \<Longrightarrow> pending k = []"
    using p d assms(1) by (auto simp: FileDescriptor_register_read_def)
qed

text \<open>With more reads than bytes the loop comes to its end, and has printed them all.\<close>

lemma print_all:
  assumes "fdw_fd w = fd" "\<not> fdw_eof w" "length (pending k) < fuel"
  shows "outcome {e. \<exists>w k. fd_read K w size_max k = Inl e}
    (\<lambda>res. \<exists>w' k'. res = Some (out @ pending k, w', k') \<and> sent k' = sent k \<and> fdw_fd w' = fd) (print_until_eof K fuel out w k)"
  using assms
proof (induction fuel arbitrary: out w k)
  case (Suc fuel)
  show ?case
  proof (cases "fd_read K w size_max k")
    case (Inl e)
    then show ?thesis using Suc.prems(2) by (subst print_until_eof.simps) auto
  next
    case (Inr res)
    obtain data w1 k1 where res: "res = (data, w1, k1)" by (cases res)
    note r = read_page [OF Suc.prems(1) Inr [unfolded res]]
    have eq: "print_until_eof K (Suc fuel) out w k = print_until_eof K fuel (out @ data) w1 k1"
      using Inr res Suc.prems(2) by (subst print_until_eof.simps) simp
    show ?thesis
    proof (cases "data = []")
      case True
      then have "fdw_eof w1" using r(4) by simp
      then show ?thesis using eq True r(2,3,5) by (simp add: print_until_eof.simps)
    next
      case False
      then have less: "length (pending k1) < fuel" using r(1) Suc.prems(3) by (cases data) auto
      show ?thesis using Suc.IH [OF r(3) _ less, of "out @ data"] eq r(1,2,4) False Suc.prems(2) by simp
    qed
  qed
qed simp

lemma write_page:
  assumes "fdw_fd w = fd" "length str < 2 ^ 31"
  shows "outcome {RuntimeError ''writev'', RuntimeError ''write returned 0 given non-empty input buffer''}
    (\<lambda>(w', k'). sent k' = sent k @ bytes_of_chars str \<and> pending k' = pending k \<and> fdw_fd w' = fd \<and> fdw_eof w' = fdw_eof w)
    (write_string K str (w, k))"
proof -
  let ?b = "bytes_of_chars str"
  have len: "length (concat [?b]) < 2 ^ 31" using assms(2) by (simp add: bytes_of_chars_def)
  have eq: "write_string K str (w, k) = bindE (fd_write_loop (sys_writev K fd) True k w [?b] 0) (\<lambda>(n, k, w). Inr (w, k))"
    using assms(1) by (simp add: write_string_def fd_write_def FileDescriptor_write_def BufferViewList_of_string_def)
  show ?thesis
  proof (cases "fd_write_loop (sys_writev K fd) True k w [?b] 0")
    case (Inl e)
    then show ?thesis using write_loop [OF len, where write_all = True and k = k and w = w and written = 0] eq by simp
  next
    case (Inr res)
    obtain n k' w' where res: "res = (n, k', w')" by (cases res)
    have "sent k' = sent k @ ?b" using write_loop [OF len, where write_all = True and k = k and w = w and written = 0] Inr res by auto
    moreover have "pending k' = pending k \<and> fdw_fd w' = fdw_fd w \<and> fdw_eof w' = fdw_eof w"
      by (rule write_loop_keeps [OF _ Inr [unfolded res], of "\<lambda>k'. pending k' = pending k"]) (auto dest: page_write)
    ultimately show ?thesis using eq Inr res assms(1) by simp
  qed
qed

lemma shutdown_page:
  assumes "fdw_fd w = fd" "Socket_shutdown K w how k = Inr (w', k')"
  shows "sent k' = sent k" "fdw_fd w' = fd"
proof -
  obtain ret errno k1 where s: "sys_shutdown K fd how k = ((ret, errno), k1)" by (metis prod.exhaust)
  have "k' = k1" "fdw_fd w' = fd"
    using assms s by (auto simp: Socket_shutdown_def FileDescriptor_register_read_def FileDescriptor_register_write_def split: if_splits)
  then show "sent k' = sent k" "fdw_fd w' = fd" using page_shutdown [OF s] by simp_all
qed

lemma print_page:
  assumes "fdw_fd w = fd" "\<not> fdw_eof w" "length (pending k) < fuel" "\<forall>k. sent (join k) = sent k"
  shows "outcome (page_errors K) (\<lambda>res. \<exists>w' k'. res = Some (pending k, w', k') \<and> sent k' = sent k)
    (get_URL_print K joinable join fuel (w, k))"
  unfolding get_URL_print_def case_prod_conv
proof (rule bind_outcome [OF print_all [OF assms(1-3), of "[]"]])
  fix res :: "(byte list \<times> fd_wrapper \<times> 'k) option" assume "\<exists>w' k'. res = Some ([] @ pending k, w', k') \<and> sent k' = sent k \<and> fdw_fd w' = fd"
  then obtain w1 k1 where 1: "res = Some (pending k, w1, k1)" "sent k1 = sent k" "fdw_fd w1 = fd" by auto
  have stop: "outcome (page_errors K) (\<lambda>(w', k'). sent k' = sent k'' \<and> fdw_fd w' = fd) (Socket_shutdown K w'' SHUT_RDWR k'')"
    if "fdw_fd w'' = fd" for w'' k''
    using shutdown_page [OF that] by (cases "Socket_shutdown K w'' SHUT_RDWR k''") (auto simp: page_errors_def)
  have close: "outcome (page_errors K) (\<lambda>(w', k'). sent k' = sent k'') (TCPSpongeSocket_wait_until_closed K joinable join w'' k'')"
    if "fdw_fd w'' = fd" for w'' k''
    unfolding TCPSpongeSocket_wait_until_closed_def
    by (rule bind_outcome [OF stop [OF that]]) (use assms(4) in auto)
  have "outcome (page_errors K) (\<lambda>res. \<exists>w' k'. res = Some (pending k, w', k') \<and> sent k' = sent k)
    (bindE (Socket_shutdown K w1 SHUT_RDWR k1) (\<lambda>(w, k2).
     bindE (TCPSpongeSocket_wait_until_closed K joinable join w k2) (\<lambda>(w, k2). Inr (Some (pending k, w, k2)))))"
  proof (rule bind_outcome [OF stop [OF 1(3)]])
    fix st :: "fd_wrapper \<times> 'k" assume "case st of (w', k') \<Rightarrow> sent k' = sent k1 \<and> fdw_fd w' = fd"
    then obtain w2 k2 where 2: "st = (w2, k2)" "sent k2 = sent k1" "fdw_fd w2 = fd" by (cases st) auto
    show "outcome (page_errors K) (\<lambda>res. \<exists>w' k'. res = Some (pending k, w', k') \<and> sent k' = sent k)
      (case st of (w, k2) \<Rightarrow> bindE (TCPSpongeSocket_wait_until_closed K joinable join w k2) (\<lambda>(w, k2). Inr (Some (pending k, w, k2))))"
      unfolding 2(1) case_prod_conv by (rule bind_outcome [OF close [OF 2(3)]]) (use 1(2) 2(2) in auto)
  qed simp
  then show "outcome (page_errors K) (\<lambda>res. \<exists>w' k'. res = Some (pending k, w', k') \<and> sent k' = sent k)
    (case res of None \<Rightarrow> Inr None
     | Some (out, w, k) \<Rightarrow> bindE (Socket_shutdown K w SHUT_RDWR k) (\<lambda>(w, k).
         bindE (TCPSpongeSocket_wait_until_closed K joinable join w k) (\<lambda>(w, k). Inr (Some (out, w, k)))))"
    using 1(1) by simp
qed (auto simp: page_errors_def)

lemma exchange_page:
  assumes "fdw_fd w = fd" "\<not> fdw_eof w" "length (pending k) < fuel" "length host < 2 ^ 30" "length path < 2 ^ 30"
    and "\<forall>k. sent (join k) = sent k"
  shows "outcome (page_errors K)
    (\<lambda>res. \<exists>w' k'. res = Some (pending k, w', k') \<and>
       sent k' = sent k @ bytes_of_chars (get_line path @ host_line host @ close_line))
    (get_URL_exchange K joinable join fuel host path w k)"
proof -
  have lens: "length (get_line path) < 2 ^ 31" "length (host_line host) < 2 ^ 31" "length close_line < 2 ^ 31"
    using assms(4,5) by (simp_all add: get_line_def host_line_def close_line_def crlf_def)
  have sub: "{RuntimeError ''writev'', RuntimeError ''write returned 0 given non-empty input buffer''} \<subseteq> page_errors K"
    by (auto simp: page_errors_def)
  let ?st = "\<lambda>more (w', k'). sent k' = sent k @ bytes_of_chars more \<and> pending k' = pending k \<and> fdw_fd w' = fd \<and> \<not> fdw_eof w'"
  have step: "outcome (page_errors K) (?st (more @ str)) (write_string K str st)"
    if "length str < 2 ^ 31" "?st more st" for more str st
  proof (cases st)
    case (Pair w1 k1)
    then have "fdw_fd w1 = fd" using that(2) by simp
    from write_page [OF this that(1), of k1] show ?thesis using that(2) sub Pair
      by (cases "write_string K str st") (auto simp: bytes_of_chars_def)
  qed
  have "?st [] (w, k)" using assms(1,2) by (simp add: bytes_of_chars_def)
  from step [OF lens(1) this] show ?thesis unfolding get_URL_exchange_def
  proof (rule bind_outcome)
    fix st1 :: "fd_wrapper \<times> 'k" assume "?st ([] @ get_line path) st1"
    from step [OF lens(2) this] show "outcome (page_errors K) (\<lambda>res. \<exists>w' k'. res = Some (pending k, w', k') \<and>
       sent k' = sent k @ bytes_of_chars (get_line path @ host_line host @ close_line))
      (bindE (write_string K (host_line host) st1) (\<lambda>st. bindE (write_string K close_line st) (get_URL_print K joinable join fuel)))"
    proof (rule bind_outcome)
      fix st2 :: "fd_wrapper \<times> 'k" assume "?st (([] @ get_line path) @ host_line host) st2"
      from step [OF lens(3) this] show "outcome (page_errors K) (\<lambda>res. \<exists>w' k'. res = Some (pending k, w', k') \<and>
         sent k' = sent k @ bytes_of_chars (get_line path @ host_line host @ close_line))
        (bindE (write_string K close_line st2) (get_URL_print K joinable join fuel))"
      proof (rule bind_outcome)
        fix st3 :: "fd_wrapper \<times> 'k" assume "?st ((([] @ get_line path) @ host_line host) @ close_line) st3"
        then show "outcome (page_errors K) (\<lambda>res. \<exists>w' k'. res = Some (pending k, w', k') \<and>
           sent k' = sent k @ bytes_of_chars (get_line path @ host_line host @ close_line)) (get_URL_print K joinable join fuel st3)"
          using print_page [of "fst st3" "snd st3" fuel join joinable] assms(3,6) by (cases st3) simp
      qed simp
    qed simp
  qed simp
qed

end

text \<open>A page to be read, in parts of any size, and the bytes written.\<close>

definition page_kernel :: "nat \<Rightarrow> (byte list \<times> byte list) kernel" where
  "page_kernel part =
     \<lparr>sys_read = \<lambda>fd n (page, out). let m = min (Suc part) n in ((int (length (take m page)), 0, take m page), (drop m page, out)),
      sys_writev = \<lambda>fd (page, out) iovecs. let b = concat (map fst iovecs) in (int (length b), 0, (page, out @ b)),
      sys_shutdown = \<lambda>fd how k. ((0, 0), k),
      sys_recvfrom = \<lambda>fd n k. ((- 1, 11, [], [], 0), k),
      sys_sendmsg = \<lambda>fd to iovecs k. ((- 1, 11), k)\<rparr>"

interpretation pages: page_channel "page_kernel part" fd snd fst
  for part fd
  by unfold_locales (auto simp: page_kernel_def Let_def min_def nat_add_distrib split: if_splits prod.splits)

text \<open>
  C19. \<open>webget\<close> fetches the page.  The socket is connected; the kernel takes the bytes written to the
  socket in order and hands over what the server sends, in parts of any size, with an end only after
  the last byte.  Then \<open>get_URL\<close> either fails as a system call does or ends, has written exactly the request for
  the path and the host, and has printed everything the server sent: the loop never stops early, never
  misses a part and needs no more reads than there are bytes, and one.
\<close>

theorem get_URL_prints:
  assumes "page_channel K (fdw_fd w) sent pending" "\<not> fdw_eof w" "length (pending k) < fuel"
    and "length host < 2 ^ 30" "length path < 2 ^ 30" "\<forall>k. sent (join k) = sent k"
  shows "outcome (page_errors K)
    (\<lambda>res. \<exists>w' k'. res = Some (pending k, w', k') \<and>
       sent k' = sent k @ bytes_of_chars (get_line path @ host_line host @ close_line))
    (get_URL_exchange K joinable join fuel host path w k)"
  using page_channel.exchange_page [OF assms(1) refl assms(2-6)] .

theorem get_URL_prints_witness:
  "outcome (page_errors (page_kernel 1))
    (\<lambda>res. \<exists>w' k'. res = Some ([72, 84, 84, 80, 10], w', k') \<and>
       snd k' = bytes_of_chars (get_line ''/'' @ host_line ''example.org'' @ close_line))
    (get_URL_exchange (page_kernel 1) True (\<lambda>k. k) 6 ''example.org'' ''/''
      \<lparr>fdw_fd = 5, fdw_eof = False, fdw_closed = False, fdw_read_count = 0, fdw_write_count = 0\<rparr> ([72, 84, 84, 80, 10], []))"
  using get_URL_prints [OF pages.page_channel_axioms, of "\<lparr>fdw_fd = 5, fdw_eof = False, fdw_closed = False, fdw_read_count = 0, fdw_write_count = 0\<rparr>"
      "([72, 84, 84, 80, 10], [])" 6 "''example.org''" "''/''" "\<lambda>k. k" 1 True] by simp

end
