(* ===== verification/Spec2Isabelle.thy ===== *)
theory Spec2Isabelle
  imports Handshake Malformed_Datagrams Adapter_Roundtrip Stream_Copy Tcp_Benchmark Simulation Lab7_Runs Bouncer Webget
begin

text \<open>
  A verification of Sponge, the user-space TCP/IP stack under \<open>src/\<close>: the library \<open>libsponge\<close> and the
  programs under \<open>apps\<close> that use it.

  \<^bold>\<open>The program.\<close>  Bytes that an application writes go into a \<open>ByteStream\<close>; the \<open>TCPSender\<close> cuts them into
  segments, keeps those that are not acknowledged and sends them again; the \<open>TCPReceiver\<close> hands the payload
  of arriving segments to the \<open>StreamReassembler\<close>, whose output is the \<open>ByteStream\<close> that the other application
  reads.  \<open>TCPConnection\<close> owns one sender and one receiver.  \<open>TCPSpongeSocket\<close> runs a connection in an
  \<open>EventLoop\<close>, between a socket pair shared with its owner and an adapter that carries segments in UDP
  datagrams, in IPv4 datagrams on a TUN device, or in Ethernet frames on a TAP device.  Below IPv4 a
  \<open>NetworkInterface\<close> finds Ethernet addresses by ARP, and a \<open>Router\<close> forwards datagrams between interfaces.
  All wire formats are read by \<open>NetParser\<close> and written by \<open>NetUnparser\<close>.

  \<^bold>\<open>Conventions.\<close>  A class is a record with its members, a method a function from the object to the result
  and the new object, in the order of the source and with its name after the class (\<open>ByteStream_write\<close> is
  \<open>ByteStream::write\<close>).  \<open>uint8_t\<close>, \<open>uint16_t\<close> and \<open>uint32_t\<close> are words; \<open>size_t\<close> and \<open>uint64_t\<close> are natural
  numbers whose sums and differences are written with \<open>sz_add\<close> and \<open>sz_sub\<close>, which wrap modulo \<open>2 ^ 64\<close>.
  A thrown exception and undefined behaviour are \<open>Inl\<close> values of \<open>result\<close>; \<open>bindE\<close> sequences.
  \<open>std::map\<close> is an association list in the order of the keys.  System calls, the functions \<open>getaddrinfo\<close>,
  \<open>getnameinfo\<close> and \<open>inet_ntop\<close> of the C library and all random values are arguments; what is assumed
  of them is a hypothesis of the theorem or a law of a locale.  All this is in \<open>Sponge_Prelude\<close>, with the
  locale \<open>safe_machine\<close>: a component that keeps an invariant and never fails does so over every run of its
  operations.  The interpretations \<open>reasm\<close>, \<open>reasm_eof\<close>, \<open>rcv\<close>, \<open>snd\<close>, \<open>conn\<close> and \<open>iface\<close> are its instances.

  \<^bold>\<open>Streams\<close> (\<open>byte_stream.cc\<close>, \<open>stream_reassembler.cc\<close>, \<open>wrapping_integers.cc\<close>).
  \<^item> \<open>Byte_Stream\<close>: the bounded FIFO, its contract \<open>byte_fifo\<close> and the FIFO theorem for all runs.
  \<^item> \<open>Stream_Reassembler\<close> has the definitions; \<open>Wait_Map\<close> the invariant of \<open>_wait_map\<close> and the exact effect of
    \<open>checked_insert\<close>, \<open>update_waitmap\<close> and the assembling loop; \<open>Reassembler_Spec\<close> that nothing but a prefix of
    the peer's stream gets out, that nothing fails and the capacity is kept; \<open>Reassembler_Eof\<close> when the output
    is closed, for substrings inside and beyond the window, and inputs on which bytes beyond the window are
    stored, overlaps are counted twice, or an empty entry hides later data.
  \<^item> \<open>Wrapping_Integers\<close>: \<open>unwrap\<close> returns the absolute number closest to the checkpoint.

  \<^bold>\<open>Wire formats\<close> (\<open>util/buffer.cc\<close>, \<open>util/parser.cc\<close>, \<open>util/util.cc\<close>, \<open>tcp_helpers/\<close>).
  \<^item> \<open>Buffers\<close>: buffers and lists of them, with the contract \<open>byte_rope\<close>; \<open>Net_Parser\<close>: integers in network
    order, with the contracts \<open>token_codec\<close> and \<open>wire_format\<close>; \<open>Internet_Checksum\<close>: the checksum rejects every
    error in a single byte.
  \<^item> \<open>Tcp_Header\<close>, \<open>Tcp_Segment\<close>, \<open>Ipv4\<close>, \<open>Ethernet_Arp\<close>: parsing and serialising, round trips, and which
    inputs are accepted; \<open>Parser_Logic\<close>: no parser throws, whatever the input; \<open>Text\<close> and \<open>Printing\<close>: numbers,
    headers and \<open>hexdump\<close> as text.

  \<^bold>\<open>TCP\<close> (\<open>tcp_receiver.cc\<close>, \<open>tcp_sender.cc\<close>, \<open>tcp_connection.cc\<close>, \<open>tcp_helpers/tcp_state.cc\<close>).
  \<^item> \<open>Tcp_Receiver\<close>: a peer's segments in any order and number give a prefix of its stream, the acknowledgement
    number is the next byte expected; and how a FIN that overtakes data closes the stream early.
  \<^item> \<open>Tcp_Sender\<close>, \<open>Sender_Spec\<close>, \<open>Sender_Runs\<close>: every segment carries the bytes its sequence number says; the
    outstanding segments cover the outstanding numbers; acknowledgements and time-outs.
  \<^item> \<open>Tcp_Transfer\<close>: a sender and a receiver over a network that loses, repeats and reorders segments (the
    step relation \<open>link_step\<close>), which only ever delivers a prefix, and without loss the completion of every
    transfer in a number of round trips.
  \<^item> \<open>Tcp_Connection\<close>, \<open>Connection_Runs\<close>, \<open>Connection_Pair\<close> (the step relation \<open>pair_step\<close>), \<open>Sender_Frame\<close>:
    the same for two connections; \<open>Tcp_State\<close>, \<open>Connection_States\<close>, \<open>Handshake\<close>: answers, resets, the end
    of a connection, and the way to ESTABLISHED.

  \<^bold>\<open>IP and Ethernet\<close> (\<open>util/address.cc\<close>, \<open>network_interface.cc\<close>, \<open>router.cc\<close>).
  \<^item> \<open>Addresses\<close>: socket addresses, with the contract \<open>c_library\<close> of the resolver.
  \<^item> \<open>Network_Interface\<close>, \<open>Interface_Runs\<close>, \<open>Arp_Exchange\<close>: runs of an interface, its cache and its queue, and
    the delivery of a datagram to an unknown neighbour.
  \<^item> \<open>Router\<close>, \<open>Forwarding\<close>: the loop over the rules is longest-prefix match, \<open>route\<close> sends each interface its
    share, and a datagram passes a router in one hop; \<open>Malformed_Datagrams\<close>: a datagram of version 6 stops it.

  \<^bold>\<open>Descriptors, event loop and socket\<close> (\<open>util/file_descriptor.cc\<close>, \<open>util/socket.cc\<close>, \<open>util/tun.cc\<close>,
  \<open>util/eventloop.cc\<close>, \<open>tcp_helpers/\<close>).
  \<^item> \<open>File_Descriptor\<close>, \<open>Sockets\<close>: reading, writing and the loop of \<open>write\<close>; \<open>Event_Loop\<close>: a client's rules with
    an invariant and a guard each are safe, and no busy wait is reported.
  \<^item> \<open>Adapters\<close>, \<open>Adapter_Roundtrip\<close>: what one adapter writes the peer's adapter reads, and what they filter.
  \<^item> \<open>Sponge_Socket\<close>: the four rules, \<open>connect\<close>, \<open>listen_and_accept\<close> and the thread; \<open>Connection_Streams\<close>,
    \<open>Socket_Runs\<close>, \<open>Socket_Sessions\<close>: over every run the owner receives a prefix of the peer's stream.  The
    kernel is the locale \<open>socket_kernel\<close> and, with an adapter, \<open>socket_env\<close>; the three adapters are the locales
    \<open>tun_socket\<close>, \<open>udp_socket\<close> and \<open>tap_socket\<close>, interpreted on a kernel of byte channels.

  \<^bold>\<open>Programs\<close> (\<open>apps/\<close>).
  \<^item> \<open>Stream_Copy\<close>: \<open>bidirectional_stream_copy\<close>; \<open>Tcp_Benchmark\<close>: \<open>tcp_benchmark.cc\<close>; \<open>Network_Simulator\<close> and
    \<open>Simulation\<close>: \<open>network_simulator.cc\<close>, whose verdict is exact.
  \<^item> \<open>Lab7\<close> and \<open>Lab7_Runs\<close>: the thread of the router in \<open>lab7.cc\<close> is safe, and a datagram passes from host to
    host through both routers; \<open>Bouncer\<close>: \<open>bouncer.cc\<close> relays exactly what it should.
  \<^item> \<open>Webget\<close>: \<open>get_URL\<close> of \<open>webget.cc\<close>, the socket of \<open>tcp_native.cc\<close>, \<open>socket_pair_helper\<close> and
    \<open>wait_until_closed\<close> of \<open>tcp_sponge_socket.cc\<close>.
  \<^item> \<open>Command_Line\<close>: the options of \<open>tcp_ipv4.cc\<close>, \<open>tcp_udp.cc\<close>, \<open>tcp_ip_ethernet.cc\<close> and \<open>udp_tcpdump.cc\<close>;
    \<open>Packet_Dump\<close>: what \<open>udp_tcpdump.cc\<close> and \<open>tun.cc\<close> print for a packet, and how this fails.

  \<^bold>\<open>Bounds.\<close>  Capacities and streams are bounded by \<open>seq_limit\<close>, \<open>2 ^ 63\<close>, so that no 64-bit index wraps.  A
  network may delay a segment, but not by half of the sequence space.  Streams of sockets and of the benchmark
  are shorter than \<open>2 ^ 31 - 1\<close> bytes, since there every segment ever sent may still arrive; the loss-free
  transfer has fewer than \<open>2 ^ 32 - 1\<close> bytes, because the receiver ignores the payload at that index.  Loops that
  need not end by themselves run over a list of rounds, each with the answer of \<open>poll\<close> and what happened
  outside (\<open>TCPSpongeSocket_tcp_loop\<close>, \<open>copy_loop\<close>, \<open>lab7_loop\<close>, \<open>bouncer_loop\<close>), and the theorems hold for every
  list; the thread of \<open>lab7\<close> for lists short of the overflow of a 64-bit clock.  The benchmark has a number of
  rounds per loop as fuel and every number is covered; that it ends is not claimed.  \<open>get_URL\<close> needs one read
  more than there are bytes to come.  The simulator makes 256 rounds, as the code does.  All other
  recursions terminate.

  \<^bold>\<open>Not modelled.\<close>  The clock and the random device as such, the creation and joining of threads and the
  destructor of the socket, debugging output, the floating-point conversion of loss rates, libpcap,
  the functions \<open>main\<close> of the programs over TUN, TAP and UDP, which only combine what is modelled, and the
  tests under \<open>tests/\<close> and \<open>doctests/\<close>.
\<close>

end
